(* ===== verification/Prelude.thy ===== *)
theory Prelude
  imports Main "HOL-Library.Sublist" "HOL-Library.Multiset" "HOL-Library.Code_Target_Nat"
begin

text \<open>
  Shared vocabulary of the development.  A Rust \<open>String\<close>/\<open>&str\<close> is the list of its Unicode
  scalar values (type \<open>rstr\<close>); the operations of the Rust standard library the program uses on
  strings are defined here by their documented behaviour (\<open>str::trim\<close>, \<open>starts_with\<close>,
  \<open>contains\<close>, \<open>split_once\<close>, \<open>split\<close>, \<open>split_whitespace\<close>, byte lengths in UTF-8, decimal
  parsing).  The collections \<open>rust_str\<close> and \<open>outcome_simps\<close> carry the simplification of the
  component proofs.
\<close>

named_theorems rust_str "facts on the string operations"
named_theorems outcome_simps "facts on options and sums of errors"

section \<open>Strings\<close>

type_synonym rchar = nat
type_synonym rstr = "rchar list"

definition lit :: "string \<Rightarrow> rstr" where
  "lit s = map of_char s"

lemma lit_Nil [simp]: "lit [] = []"
  by (simp add: lit_def)

lemma lit_Cons [simp]: "lit (c # cs) = of_char c # lit cs"
  by (simp add: lit_def)

lemma length_lit [simp]: "length (lit s) = length s"
  by (simp add: lit_def)

lemma lit_eq_Nil [simp]: "lit s = [] \<longleftrightarrow> s = []"
  by (simp add: lit_def)

text \<open>\<open>char::is_whitespace\<close>: the 25 code points with the property White_Space.\<close>

definition is_ws :: "rchar \<Rightarrow> bool" where
  "is_ws c \<longleftrightarrow> (9 \<le> c \<and> c \<le> 13) \<or> c = 32 \<or> c = 133 \<or> c = 160 \<or> c = 5760
     \<or> (8192 \<le> c \<and> c \<le> 8202) \<or> c = 8232 \<or> c = 8233 \<or> c = 8239 \<or> c = 8287 \<or> c = 12288"

definition trim_start :: "rstr \<Rightarrow> rstr" where
  "trim_start s = dropWhile is_ws s"

definition trim_end :: "rstr \<Rightarrow> rstr" where
  "trim_end s = rev (dropWhile is_ws (rev s))"

definition trim :: "rstr \<Rightarrow> rstr" where
  "trim s = trim_end (trim_start s)"

definition starts_with :: "rstr \<Rightarrow> rstr \<Rightarrow> bool" where
  "starts_with s p \<longleftrightarrow> take (length p) s = p"

definition ends_with :: "rstr \<Rightarrow> rstr \<Rightarrow> bool" where
  "ends_with s p \<longleftrightarrow> length p \<le> length s \<and> drop (length s - length p) s = p"

fun contains :: "rstr \<Rightarrow> rstr \<Rightarrow> bool" where
  "contains [] p \<longleftrightarrow> p = []"
| "contains (c # s) p \<longleftrightarrow> starts_with (c # s) p \<or> contains s p"

definition strip_prefix :: "rstr \<Rightarrow> rstr \<Rightarrow> rstr option" where
  "strip_prefix s p = (if starts_with s p then Some (drop (length p) s) else None)"

text \<open>\<open>str::find\<close> with a string pattern, as a character position.\<close>

fun find_str :: "rstr \<Rightarrow> rstr \<Rightarrow> nat option" where
  "find_str [] p = (if p = [] then Some 0 else None)"
| "find_str (c # s) p =
     (if starts_with (c # s) p then Some 0 else map_option Suc (find_str s p))"

definition split_once :: "rstr \<Rightarrow> rstr \<Rightarrow> (rstr \<times> rstr) option" where
  "split_once s p = (case find_str s p of None \<Rightarrow> None
     | Some i \<Rightarrow> Some (take i s, drop (i + length p) s))"

text \<open>\<open>str::split\<close> on a predicate on characters: always at least one piece.\<close>

fun split_by :: "(rchar \<Rightarrow> bool) \<Rightarrow> rstr \<Rightarrow> rstr list" where
  "split_by p [] = [[]]"
| "split_by p (c # s) =
     (if p c then [] # split_by p s
      else case split_by p s of [] \<Rightarrow> [[c]] | w # ws \<Rightarrow> (c # w) # ws)"

abbreviation split_char :: "rchar \<Rightarrow> rstr \<Rightarrow> rstr list" where
  "split_char d \<equiv> split_by (\<lambda>c. c = d)"

definition split_whitespace :: "rstr \<Rightarrow> rstr list" where
  "split_whitespace s = filter (\<lambda>w. w \<noteq> []) (split_by is_ws s)"

definition join :: "rstr \<Rightarrow> rstr list \<Rightarrow> rstr" where
  "join sep ws = (case ws of [] \<Rightarrow> [] | w # rest \<Rightarrow> w @ concat (map (\<lambda>v. sep @ v) rest))"

text \<open>UTF-8: the number of bytes of a scalar value and of a string.\<close>

definition utf8_width :: "rchar \<Rightarrow> nat" where
  "utf8_width c = (if c < 128 then 1 else if c < 2048 then 2 else if c < 65536 then 3 else 4)"

definition byte_len :: "rstr \<Rightarrow> nat" where
  "byte_len s = sum_list (map utf8_width s)"

definition is_ascii_digit :: "rchar \<Rightarrow> bool" where
  "is_ascii_digit c \<longleftrightarrow> 48 \<le> c \<and> c \<le> 57"

definition is_ascii_alpha :: "rchar \<Rightarrow> bool" where
  "is_ascii_alpha c \<longleftrightarrow> (65 \<le> c \<and> c \<le> 90) \<or> (97 \<le> c \<and> c \<le> 122)"

definition is_ascii_alnum :: "rchar \<Rightarrow> bool" where
  "is_ascii_alnum c \<longleftrightarrow> is_ascii_digit c \<or> is_ascii_alpha c"

definition ascii_lower :: "rchar \<Rightarrow> rchar" where
  "ascii_lower c = (if 65 \<le> c \<and> c \<le> 90 then c + 32 else c)"

definition to_ascii_lowercase :: "rstr \<Rightarrow> rstr" where
  "to_ascii_lowercase s = map ascii_lower s"

text \<open>Decimal digits and \<open>str::parse\<close> for unsigned numbers (an optional \<open>+\<close>, then digits).\<close>

fun dec_value :: "nat \<Rightarrow> rstr \<Rightarrow> nat option" where
  "dec_value acc [] = Some acc"
| "dec_value acc (c # cs) =
     (if is_ascii_digit c then dec_value (10 * acc + (c - 48)) cs else None)"

definition parse_unsigned :: "nat \<Rightarrow> rstr \<Rightarrow> nat option" where
  "parse_unsigned hi s =
     (let ds = (case s of c # cs \<Rightarrow> if c = 43 then cs else s | [] \<Rightarrow> []) in
      if ds = [] then None
      else case dec_value 0 ds of
             None \<Rightarrow> None
           | Some n \<Rightarrow> if n \<le> hi then Some n else None)"

fun show_nat :: "nat \<Rightarrow> rstr" where
  "show_nat n = (if n < 10 then [48 + n] else show_nat (n div 10) @ [48 + n mod 10])"

declare show_nat.simps [simp del]

definition show_int :: "int \<Rightarrow> rstr" where
  "show_int i = (if i < 0 then 45 # show_nat (nat (- i)) else show_nat (nat i))"

subsection \<open>Facts on strings\<close>

lemma starts_with_prefix [rust_str]: "starts_with s p \<longleftrightarrow> prefix p s"
  unfolding starts_with_def prefix_def by (metis append_eq_conv_conj append_take_drop_id)

lemma starts_with_Nil [simp]: "starts_with s []"
  by (simp add: starts_with_def)

lemma starts_with_append [simp]: "starts_with (p @ s) p"
  by (simp add: starts_with_def)

lemma contains_sublist [rust_str]: "contains s p \<longleftrightarrow> sublist p s"
  by (induction s p rule: contains.induct) (auto simp: starts_with_prefix sublist_Cons_right)

lemma contains_Nil [simp]: "contains s []"
  by (cases s) auto

lemma contains_append: "contains (pre @ p @ suf) p"
  by (simp add: contains_sublist)

lemma find_str_None: "find_str s p = None \<longleftrightarrow> \<not> contains s p"
  by (induction s p rule: find_str.induct) auto

lemma find_str_Some: "find_str s p = Some i \<Longrightarrow> s = take i s @ p @ drop (i + length p) s"
proof (induction s p arbitrary: i rule: find_str.induct)
  case (2 c s p)
  show ?case
  proof (cases "starts_with (c # s) p")
    case True
    then show ?thesis
      using 2 by (metis append_take_drop_id drop0 add_0 append_Nil find_str.simps(2)
          option.inject starts_with_def take0)
  next
    case False
    then obtain j where "find_str s p = Some j" "i = Suc j"
      using 2 by auto
    then show ?thesis using 2 False by simp
  qed
qed (auto split: if_splits)

lemma split_once_append:
  assumes "split_once s p = Some (a, b)"
  shows "s = a @ p @ b"
proof -
  obtain i where i: "find_str s p = Some i" "a = take i s" "b = drop (i + length p) s"
    using assms by (auto simp: split_once_def split: option.splits)
  show ?thesis using find_str_Some[OF i(1)] i(2,3) by simp
qed

lemma trim_start_eq: "\<exists>pre. s = pre @ trim_start s \<and> (\<forall>c \<in> set pre. is_ws c)"
  unfolding trim_start_def by (metis set_takeWhileD takeWhile_dropWhile_id)

lemma trim_decompose:
  "\<exists>pre suf. s = pre @ trim s @ suf \<and> (\<forall>c \<in> set pre. is_ws c) \<and> (\<forall>c \<in> set suf. is_ws c)"
proof -
  obtain pre where pre: "s = pre @ trim_start s" "\<forall>c \<in> set pre. is_ws c" using trim_start_eq by blast
  obtain q where q: "rev (trim_start s) = q @ trim_start (rev (trim_start s))" "\<forall>c \<in> set q. is_ws c"
    using trim_start_eq by blast
  have "trim_start s = trim s @ rev q"
    using arg_cong[OF q(1), of rev] by (simp add: trim_def trim_end_def trim_start_def)
  with pre q(2) show ?thesis by (intro exI[of _ pre] exI[of _ "rev q"]) auto
qed

lemma trim_start_trim: "\<exists>suf. trim_start s = trim s @ suf"
proof -
  obtain q where "rev (trim_start s) = q @ trim_start (rev (trim_start s))"
    using trim_start_eq by blast
  from arg_cong[OF this, of rev] show ?thesis
    by (intro exI[of _ "rev q"]) (simp add: trim_def trim_end_def trim_start_def)
qed

lemma trim_ends:
  assumes "trim s \<noteq> []"
  shows "\<not> is_ws (hd (trim s))" "\<not> is_ws (last (trim s))"
proof -
  obtain suf where "trim_start s = trim s @ suf" using trim_start_trim by blast
  then have "hd (trim s) = hd (dropWhile is_ws s)" "dropWhile is_ws s \<noteq> []"
    using assms by (auto simp: trim_start_def)
  then show "\<not> is_ws (hd (trim s))" by (metis hd_dropWhile)
  show "\<not> is_ws (last (trim s))"
    using assms unfolding trim_def trim_end_def by (metis hd_dropWhile last_rev rev_is_Nil_conv)
qed

lemma set_trim: "set (trim s) \<subseteq> set s"
proof -
  obtain pre suf where "s = pre @ trim s @ suf" using trim_decompose by blast
  then show ?thesis by (metis UnCI set_append subsetI)
qed

lemma split_by_not_Nil [simp]: "split_by p s \<noteq> []"
  by (induction s) (auto split: list.splits)

lemma split_by_no_sep: "w \<in> set (split_by p s) \<Longrightarrow> c \<in> set w \<Longrightarrow> \<not> p c"
  by (induction s arbitrary: w c) (fastforce split: list.splits if_splits)+

lemma split_by_none: "(\<And>c. c \<in> set s \<Longrightarrow> \<not> p c) \<Longrightarrow> split_by p s = [s]"
  by (induction s) auto

lemma split_by_append_sep:
  "(\<And>c. c \<in> set s \<Longrightarrow> \<not> p c) \<Longrightarrow> p d \<Longrightarrow> split_by p (s @ d # t) = s # split_by p t"
  by (induction s) auto

lemma dec_value_snoc:
  "dec_value a (xs @ [c]) =
     (case dec_value a xs of None \<Rightarrow> None
      | Some v \<Rightarrow> if is_ascii_digit c then Some (10 * v + (c - 48)) else None)"
  by (induction a xs rule: dec_value.induct) auto

lemma show_nat_digits: "c \<in> set (show_nat n) \<Longrightarrow> is_ascii_digit c"
proof (induction n rule: show_nat.induct)
  case (1 n)
  have "n mod 10 \<le> 9" by simp
  with 1 show ?case
    by (subst (asm) (2) show_nat.simps) (auto simp: is_ascii_digit_def split: if_splits)
qed

lemma show_nat_not_Nil [simp]: "show_nat n \<noteq> []"
  by (subst show_nat.simps) simp

lemma dec_value_show_nat [simp]: "dec_value 0 (show_nat n) = Some n"
proof (induction n rule: show_nat.induct)
  case (1 n)
  show ?case
  proof (cases "n < 10")
    case True
    then show ?thesis by (subst show_nat.simps) (simp add: is_ascii_digit_def)
  next
    case False
    have "n mod 10 \<le> 9" by simp
    with False 1 show ?thesis
      by (subst show_nat.simps) (simp add: dec_value_snoc is_ascii_digit_def)
  qed
qed

lemma parse_unsigned_show_nat [simp]: "n \<le> hi \<Longrightarrow> parse_unsigned hi (show_nat n) = Some n"
proof -
  assume "n \<le> hi"
  obtain c cs where eq: "show_nat n = c # cs" by (cases "show_nat n") auto
  then have "is_ascii_digit c" using show_nat_digits[of c n] by simp
  then have "c \<noteq> 43" by (auto simp: is_ascii_digit_def)
  then show ?thesis using \<open>n \<le> hi\<close> dec_value_show_nat[of n] unfolding eq
    by (simp add: parse_unsigned_def)
qed

lemma parse_unsigned_le: "parse_unsigned hi s = Some n \<Longrightarrow> n \<le> hi"
  by (auto simp: parse_unsigned_def Let_def split: if_splits option.splits)

text \<open>The byte slice \<open>&s[n..]\<close>: \<open>None\<close> when \<open>n\<close> is not on a character boundary (a panic).\<close>

fun drop_bytes :: "nat \<Rightarrow> rstr \<Rightarrow> rstr option" where
  "drop_bytes n [] = (if n = 0 then Some [] else None)"
| "drop_bytes n (c # s) =
     (if n = 0 then Some (c # s) else if utf8_width c \<le> n then drop_bytes (n - utf8_width c) s else None)"

text \<open>The byte slice \<open>&s[..n]\<close>.\<close>

fun take_bytes :: "nat \<Rightarrow> rstr \<Rightarrow> rstr option" where
  "take_bytes n [] = (if n = 0 then Some [] else None)"
| "take_bytes n (c # s) =
     (if n = 0 then Some [] else if utf8_width c \<le> n
      then map_option (\<lambda>r. c # r) (take_bytes (n - utf8_width c) s) else None)"

lemma utf8_width_pos [simp]: "0 < utf8_width c"
  by (simp add: utf8_width_def)

lemma byte_len_simps [simp]:
  "byte_len [] = 0" "byte_len (c # s) = utf8_width c + byte_len s"
  "byte_len (s @ t) = byte_len s + byte_len t"
  by (simp_all add: byte_len_def)

lemma drop_bytes_append [simp]: "drop_bytes (byte_len p) (p @ s) = Some s"
  by (induction p) (cases s; auto)+

lemma drop_bytes_suffix: "drop_bytes n s = Some r \<Longrightarrow> \<exists>p. s = p @ r \<and> byte_len p = n"
proof (induction n s rule: drop_bytes.induct)
  case (2 n c s)
  show ?case
  proof (cases "n = 0")
    case False
    then have "utf8_width c \<le> n" "drop_bytes (n - utf8_width c) s = Some r"
      using 2(2) by (auto split: if_splits)
    with 2(1)[OF False] obtain p where "s = p @ r" "byte_len p = n - utf8_width c" by blast
    then show ?thesis using \<open>utf8_width c \<le> n\<close> by (intro exI[of _ "c # p"]) simp
  qed (use 2(2) in \<open>auto intro: exI[of _ "[]"]\<close>)
qed (auto split: if_splits)

lemma take_bytes_append [simp]: "take_bytes (byte_len p) (p @ s) = Some p"
  by (induction p) (cases s; auto)+

section \<open>Options, sums and lists\<close>

definition is_some :: "'a option \<Rightarrow> bool" where
  [outcome_simps]: "is_some x \<longleftrightarrow> x \<noteq> None"

definition opt_filter :: "('a \<Rightarrow> bool) \<Rightarrow> 'a option \<Rightarrow> 'a option" where
  "opt_filter p x = (case x of Some v \<Rightarrow> if p v then Some v else None | None \<Rightarrow> None)"

lemma opt_filter_simps [simp]:
  "opt_filter p None = None"
  "opt_filter p (Some v) = (if p v then Some v else None)"
  by (simp_all add: opt_filter_def)

lemma opt_filter_eq_Some [outcome_simps]: "opt_filter p x = Some v \<longleftrightarrow> x = Some v \<and> p v"
  by (auto simp: opt_filter_def split: option.splits)

definition get :: "'a list \<Rightarrow> nat \<Rightarrow> 'a option" where
  "get xs i = (if i < length xs then Some (xs ! i) else None)"

lemma get_eq_Some [outcome_simps]: "get xs i = Some x \<longleftrightarrow> i < length xs \<and> xs ! i = x"
  by (auto simp: get_def)

lemma get_eq_None [outcome_simps]: "get xs i = None \<longleftrightarrow> length xs \<le> i"
  by (auto simp: get_def)

lemma sum_list_filter_le:
  fixes f :: "'a \<Rightarrow> nat"
  shows "sum_list (map f (filter p xs)) \<le> sum_list (map f xs)"
  by (induction xs) auto

lemma sum_list_map_0:
  "(\<And>x. x \<in> set xs \<Longrightarrow> f x = 0) \<Longrightarrow> sum_list (map f xs) = (0 :: 'b :: monoid_add)"
  by (induction xs) auto

lemma distinct_remdups_adj_sorted: "sorted (xs :: 'b :: linorder list) \<Longrightarrow> distinct (remdups_adj xs)"
  by (induction xs rule: remdups_adj.induct) (auto simp: less_le_not_le)

section \<open>Stable sorting by a comparator\<close>

text \<open>\<open>sort_by\<close> is a stable sort; \<open>gt a b\<close> is the comparator answering \<open>Greater\<close>.\<close>

fun insert_by :: "('a \<Rightarrow> 'a \<Rightarrow> bool) \<Rightarrow> 'a \<Rightarrow> 'a list \<Rightarrow> 'a list" where
  "insert_by gt x [] = [x]"
| "insert_by gt x (y # ys) = (if gt x y then y # insert_by gt x ys else x # y # ys)"

definition sort_by :: "('a \<Rightarrow> 'a \<Rightarrow> bool) \<Rightarrow> 'a list \<Rightarrow> 'a list" where
  "sort_by gt xs = foldr (insert_by gt) xs []"

lemma sort_by_simps [simp]:
  "sort_by gt [] = []" "sort_by gt (x # xs) = insert_by gt x (sort_by gt xs)"
  by (simp_all add: sort_by_def)

lemma mset_insert_by [simp]: "mset (insert_by gt x xs) = {#x#} + mset xs"
  by (induction xs) auto

lemma mset_sort_by [simp]: "mset (sort_by gt xs) = mset xs"
  by (induction xs) auto

lemma set_sort_by [simp]: "set (sort_by gt xs) = set xs"
  by (metis mset_sort_by set_mset_mset)

lemma length_sort_by [simp]: "length (sort_by gt xs) = length xs"
  by (metis mset_sort_by size_mset)

lemma sorted_insert_by:
  assumes "\<And>a b. a \<in> S \<Longrightarrow> b \<in> S \<Longrightarrow> gt a b \<Longrightarrow> \<not> gt b a"
    and "\<And>a b c. a \<in> S \<Longrightarrow> b \<in> S \<Longrightarrow> c \<in> S \<Longrightarrow> \<not> gt a b \<Longrightarrow> \<not> gt b c \<Longrightarrow> \<not> gt a c"
  shows "sorted_wrt (\<lambda>a b. \<not> gt a b) xs \<Longrightarrow> x \<in> S \<Longrightarrow> set xs \<subseteq> S \<Longrightarrow>
    sorted_wrt (\<lambda>a b. \<not> gt a b) (insert_by gt x xs)"
proof (induction xs)
  case (Cons y ys)
  have st: "set (insert_by gt x ys) = insert x (set ys)"
    by (metis insert_is_Un mset_insert_by set_mset_add_mset_insert set_mset_mset add_mset_add_single
        union_commute)
  show ?case
  proof (cases "gt x y")
    case True
    with Cons assms(1)[of x y] st show ?thesis by auto
  next
    case False
    with Cons.prems assms(2)[of x y] show ?thesis by auto
  qed
qed simp

lemma sorted_sort_by:
  assumes "\<And>a b. a \<in> set xs \<Longrightarrow> b \<in> set xs \<Longrightarrow> gt a b \<Longrightarrow> \<not> gt b a"
    and "\<And>a b c. a \<in> set xs \<Longrightarrow> b \<in> set xs \<Longrightarrow> c \<in> set xs \<Longrightarrow> \<not> gt a b \<Longrightarrow> \<not> gt b c \<Longrightarrow> \<not> gt a c"
  shows "sorted_wrt (\<lambda>a b. \<not> gt a b) (sort_by gt xs)"
proof -
  have "set ys \<subseteq> set xs \<Longrightarrow> sorted_wrt (\<lambda>a b. \<not> gt a b) (sort_by gt ys)" for ys
    by (induction ys) (use sorted_insert_by[of "set xs" gt, OF assms] in auto)
  then show ?thesis by blast
qed

lemma insert_by_last: "(\<And>y. y \<in> set ys \<Longrightarrow> gt x y) \<Longrightarrow> insert_by gt x ys = ys @ [x]"
  by (induction ys) auto

text \<open>Sorting an ascending list in descending order reverses it.\<close>

lemma sort_by_rev:
  "sorted_wrt (\<lambda>a b. f a < (f b :: int)) xs \<Longrightarrow> sort_by (\<lambda>a b. f a < f b) xs = rev xs"
  by (induction xs) (auto intro: insert_by_last)

section \<open>Machine integers as bounded mathematical integers\<close>

text \<open>\<open>saturating_sub\<close>/\<open>saturating_mul\<close> on \<open>u64\<close>/\<open>usize\<close>: subtraction of \<open>nat\<close> is already
  the saturating one.\<close>

definition u64_max :: nat where "u64_max = 2 ^ 64 - 1"

definition sat_mul_u64 :: "nat \<Rightarrow> nat \<Rightarrow> nat" where
  "sat_mul_u64 a b = min u64_max (a * b)"

definition i64_max :: int where "i64_max = 2 ^ 63 - 1"
definition i64_min :: int where "i64_min = - (2 ^ 63)"

definition sat_i64 :: "int \<Rightarrow> int" where
  "sat_i64 x = max i64_min (min i64_max x)"

end
