(* ===== verification/Agent.thy ===== *)
theory Agent
  imports Prelude
begin

text \<open>
  \<open>crates/oc-core/src/agent.rs\<close>: the pure state machine of one run.  \<open>step\<close> maps a state and an
  event to the next state and the effects the server has to execute; \<open>run_steps\<close> feeds it a
  whole list of events, as \<open>run.rs\<close> does.  The lemmas give the branch of every event, show
  that terminal states absorb, and that a run announces its end at most once.
\<close>

datatype run_outcome = Completed | Aborted | Failed rstr | Panicked | LoopDetected

datatype run_state = Idle | AwaitingModel | Streaming | AwaitingTool | Terminal run_outcome

datatype step_event =
    Start
  | ModelText rstr
  | ModelToolCall rstr rstr rstr
  | ModelDone
  | ModelLength
  | ModelError rstr
  | Abort
  | ToolResult rstr rstr

datatype effect =
    CallModel
  | EmitAssistant rstr
  | ExecTool rstr rstr rstr
  | EmitLifecycleStart
  | EmitLifecycleEnd
  | EmitLifecycleError rstr
  | PersistAssistant rstr

definition is_terminal :: "run_state \<Rightarrow> bool" where
  "is_terminal s = (case s of Terminal _ \<Rightarrow> True | _ \<Rightarrow> False)"

definition msg_aborted :: rstr where "msg_aborted = lit ''aborted''"

definition step :: "run_state \<Rightarrow> step_event \<Rightarrow> rstr \<Rightarrow> run_state \<times> effect list" where
  "step s ev acc = (case (s, ev) of
     (Idle, Start) \<Rightarrow> (AwaitingModel, [EmitLifecycleStart, CallModel])
   | (AwaitingModel, ModelText t) \<Rightarrow> (Streaming, [EmitAssistant t])
   | (Streaming, ModelText t) \<Rightarrow> (Streaming, [EmitAssistant t])
   | (AwaitingModel, ModelDone) \<Rightarrow> (Terminal Completed, [PersistAssistant acc, EmitLifecycleEnd])
   | (Streaming, ModelDone) \<Rightarrow> (Terminal Completed, [PersistAssistant acc, EmitLifecycleEnd])
   | (AwaitingModel, ModelLength) \<Rightarrow> (Terminal Completed, [PersistAssistant acc, EmitLifecycleEnd])
   | (Streaming, ModelLength) \<Rightarrow> (Terminal Completed, [PersistAssistant acc, EmitLifecycleEnd])
   | (AwaitingModel, ModelToolCall cid n a) \<Rightarrow> (AwaitingTool, [ExecTool cid n a])
   | (Streaming, ModelToolCall cid n a) \<Rightarrow> (AwaitingTool, [ExecTool cid n a])
   | (AwaitingTool, ToolResult _ _) \<Rightarrow> (AwaitingModel, [CallModel])
   | (_, Abort) \<Rightarrow>
       if \<not> is_terminal s then (Terminal Aborted, [EmitLifecycleError msg_aborted]) else (s, [])
   | (_, ModelError m) \<Rightarrow>
       if \<not> is_terminal s then (Terminal (Failed m), [EmitLifecycleError m]) else (s, [])
   | _ \<Rightarrow> (s, []))"

text \<open>Feeding a sequence of events; \<open>acc\<close> grows with the text deltas, as the server keeps it.\<close>

definition acc_after :: "rstr \<Rightarrow> step_event \<Rightarrow> rstr" where
  "acc_after acc ev = (case ev of ModelText t \<Rightarrow> acc @ t | _ \<Rightarrow> acc)"

fun run_steps :: "run_state \<Rightarrow> rstr \<Rightarrow> step_event list \<Rightarrow> run_state \<times> effect list" where
  "run_steps s acc [] = (s, [])"
| "run_steps s acc (ev # evs) =
     (let acc' = acc_after acc ev; (s', es) = step s ev acc'; (s'', es') = run_steps s' acc' evs
      in (s'', es @ es'))"

fun is_end :: "effect \<Rightarrow> bool" where
  "is_end EmitLifecycleEnd = True"
| "is_end (EmitLifecycleError _) = True"
| "is_end _ = False"

section \<open>Facts\<close>

lemma is_terminal_simps [simp]:
  "is_terminal (Terminal r)" "\<not> is_terminal Idle" "\<not> is_terminal AwaitingModel"
  "\<not> is_terminal Streaming" "\<not> is_terminal AwaitingTool"
  by (simp_all add: is_terminal_def)

lemma step_terminal [simp]: "step (Terminal r) ev acc = (Terminal r, [])"
  by (cases ev) (simp_all add: step_def)

lemma step_abort: "\<not> is_terminal s \<Longrightarrow> step s Abort acc = (Terminal Aborted, [EmitLifecycleError msg_aborted])"
  by (cases s) (simp_all add: step_def)

lemma step_error: "\<not> is_terminal s \<Longrightarrow> step s (ModelError m) acc = (Terminal (Failed m), [EmitLifecycleError m])"
  by (cases s) (simp_all add: step_def)

lemma step_end_iff:
  assumes "step s ev acc = (s', es)" "\<not> is_terminal s"
  shows "length (filter is_end es) = (if is_terminal s' then 1 else 0)"
  using assms by (cases s; cases ev) (auto simp: step_def)

lemma run_steps_terminal [simp]: "run_steps (Terminal r) acc evs = (Terminal r, [])"
  by (induction evs arbitrary: acc) (auto simp: Let_def)

lemma step_start_only:
  assumes "step s ev acc = (s', es)" "s \<noteq> Idle"
  shows "s' \<noteq> Idle \<and> EmitLifecycleStart \<notin> set es"
  using assms by (cases s; cases ev) (auto simp: step_def)

lemma run_steps_no_start:
  assumes "s \<noteq> Idle"
  shows "EmitLifecycleStart \<notin> set (snd (run_steps s acc evs))"
  using assms
proof (induction evs arbitrary: s acc)
  case (Cons ev evs)
  obtain s' es where st: "step s ev (acc_after acc ev) = (s', es)" by fastforce
  with Cons step_start_only[OF st] show ?case by (auto simp: Let_def split: prod.splits)
      (metis snd_conv)
qed simp

lemma run_steps_ends:
  "\<not> is_terminal s \<Longrightarrow> run_steps s acc evs = (s', es) \<Longrightarrow>
   length (filter is_end es) = (if is_terminal s' then 1 else 0)"
proof (induction evs arbitrary: s acc s' es)
  case (Cons ev evs)
  obtain t e1 where st: "step s ev (acc_after acc ev) = (t, e1)" by fastforce
  obtain u e2 where rs: "run_steps t (acc_after acc ev) evs = (u, e2)" by fastforce
  have eq: "s' = u" "es = e1 @ e2" using Cons.prems(2) st rs by (auto simp: Let_def)
  have e1: "length (filter is_end e1) = (if is_terminal t then 1 else 0)"
    using step_end_iff[OF st] Cons.prems(1) by simp
  show ?case
  proof (cases "is_terminal t")
    case True
    then obtain r where "t = Terminal r" by (cases t) auto
    with rs eq e1 show ?thesis by auto
  next
    case False
    with Cons.IH[OF False rs] e1 eq show ?thesis by simp
  qed
qed simp

section \<open>Properties\<close>

text \<open>Whatever events a run is fed, starting idle, it announces its end exactly once if it
  reaches a terminal state and not at all otherwise, and it never announces its start more than
  at the very beginning.\<close>

theorem run_announces_one_end:
  "length (filter is_end (snd (run_steps Idle acc evs))) =
     (if is_terminal (fst (run_steps Idle acc evs)) then 1 else 0)
   \<and> EmitLifecycleStart \<notin> set (tl (snd (run_steps Idle acc (Start # evs))))"
proof
  obtain s' es where "run_steps Idle acc evs = (s', es)" by fastforce
  then show "length (filter is_end (snd (run_steps Idle acc evs))) =
     (if is_terminal (fst (run_steps Idle acc evs)) then 1 else 0)"
    using run_steps_ends[of Idle acc evs s' es] by simp
  show "EmitLifecycleStart \<notin> set (tl (snd (run_steps Idle acc (Start # evs))))"
    using run_steps_no_start[of AwaitingModel "acc_after acc Start" evs]
    by (auto simp: Let_def step_def split: prod.splits)
qed

end
