(* ===== verification/Run_Queue.thy ===== *)
theory Run_Queue
  imports Prelude
begin

text \<open>
  \<open>crates/oc-core/src/queue.rs\<close>: the serial lane of a session (at most one active run, a bounded
  FIFO of waiting turns) and the stuck-run diagnosis.  The locale \<open>serial_lane\<close> states what the
  session relies on: the turns accepted leave in the order they came, and the lane is never idle
  while turns wait.  It is interpreted on the model of \<open>RunQueue\<close>.
\<close>

record queued_turn =
  qt_run_id :: rstr
  qt_text :: rstr

record run_queue =
  active :: "rstr option"
  pending :: "queued_turn list"
  qcap :: nat

datatype submit_result = Started queued_turn | Queued | Rejected

datatype run_health = Healthy | LongRunning | Stuck

definition queue_new :: "nat \<Rightarrow> run_queue" where
  "queue_new c = \<lparr> active = None, pending = [], qcap = c \<rparr>"

definition is_idle :: "run_queue \<Rightarrow> bool" where
  "is_idle q \<longleftrightarrow> active q = None"

definition pending_len :: "run_queue \<Rightarrow> nat" where
  "pending_len q = length (pending q)"

definition submit :: "queued_turn \<Rightarrow> run_queue \<Rightarrow> submit_result \<times> run_queue" where
  "submit turn q =
     (if active q = None then (Started turn, q\<lparr>active := Some (qt_run_id turn)\<rparr>)
      else if qcap q \<le> length (pending q) then (Rejected, q)
      else (Queued, q\<lparr>pending := pending q @ [turn]\<rparr>))"

definition complete_active :: "run_queue \<Rightarrow> queued_turn option \<times> run_queue" where
  "complete_active q = (case pending q of
      t # ts \<Rightarrow> (Some t, q\<lparr>active := Some (qt_run_id t), pending := ts\<rparr>)
    | [] \<Rightarrow> (None, q\<lparr>active := None\<rparr>))"

definition drain_pending :: "run_queue \<Rightarrow> nat \<times> run_queue" where
  "drain_pending q = (length (pending q), q\<lparr>pending := []\<rparr>)"

definition diagnose :: "nat \<Rightarrow> nat \<Rightarrow> nat \<Rightarrow> run_health" where
  "diagnose idle_secs warn_secs abort_min_secs =
     (if idle_secs < warn_secs then Healthy
      else if abort_min_secs \<le> idle_secs \<and> sat_mul_u64 warn_secs 3 \<le> idle_secs then Stuck
      else LongRunning)"

section \<open>Invariant\<close>

definition queue_inv :: "run_queue \<Rightarrow> bool" where
  "queue_inv q \<longleftrightarrow> (active q = None \<longrightarrow> pending q = []) \<and> length (pending q) \<le> qcap q"

lemma queue_inv_new [simp, intro]: "queue_inv (queue_new c)"
  by (simp add: queue_inv_def queue_new_def)

lemma queue_inv_submit [intro]: "queue_inv q \<Longrightarrow> queue_inv (snd (submit t q))"
  by (auto simp: queue_inv_def submit_def)

lemma queue_inv_complete [intro]: "queue_inv q \<Longrightarrow> queue_inv (snd (complete_active q))"
  by (auto simp: queue_inv_def complete_active_def split: list.splits)

lemma queue_inv_drain [intro]: "queue_inv q \<Longrightarrow> queue_inv (snd (drain_pending q))"
  by (auto simp: queue_inv_def drain_pending_def)

section \<open>The lane contract\<close>

text \<open>The operations of a lane: \<open>submit_op\<close> answers \<open>None\<close> when the turn is refused, and otherwise
  whether it starts at once; \<open>finish_op\<close> returns the turn that becomes active.  \<open>waiting\<close> is the
  abstract content.\<close>

locale serial_lane =
  fixes inv :: "'q \<Rightarrow> bool"
    and busy :: "'q \<Rightarrow> bool"
    and waiting :: "'q \<Rightarrow> 't list"
    and submit_op :: "'t \<Rightarrow> 'q \<Rightarrow> bool option \<times> 'q"
    and finish_op :: "'q \<Rightarrow> 't option \<times> 'q"
  assumes inv_submit: "inv q \<Longrightarrow> inv (snd (submit_op t q))"
    and inv_finish: "inv q \<Longrightarrow> inv (snd (finish_op q))"
    and idle_empty: "inv q \<Longrightarrow> \<not> busy q \<Longrightarrow> waiting q = []"
    and submit_idle: "inv q \<Longrightarrow> \<not> busy q \<Longrightarrow>
          fst (submit_op t q) = Some True \<and> busy (snd (submit_op t q)) \<and> waiting (snd (submit_op t q)) = []"
    and submit_busy: "inv q \<Longrightarrow> busy q \<Longrightarrow>
          (submit_op t q = (None, q) \<or>
           fst (submit_op t q) = Some False \<and> busy (snd (submit_op t q)) \<and>
           waiting (snd (submit_op t q)) = waiting q @ [t])"
    and finish_empty: "inv q \<Longrightarrow> waiting q = [] \<Longrightarrow>
          fst (finish_op q) = None \<and> \<not> busy (snd (finish_op q))"
    and finish_next: "inv q \<Longrightarrow> waiting q = t # ts \<Longrightarrow>
          fst (finish_op q) = Some t \<and> busy (snd (finish_op q)) \<and> waiting (snd (finish_op q)) = ts"
begin

text \<open>A history is a list of commands: a submission (\<open>Some t\<close>) or the end of the active run
  (\<open>None\<close>).  \<open>hist\<close> returns the turns accepted and the turns started, both in order.\<close>

fun hist :: "'t option list \<Rightarrow> 'q \<Rightarrow> 't list \<times> 't list \<times> 'q" where
  "hist [] q = ([], [], q)"
| "hist (Some t # cs) q =
     (case submit_op t q of
        (None, q') \<Rightarrow> hist cs q'
      | (Some True, q') \<Rightarrow> (case hist cs q' of (a, s, r) \<Rightarrow> (t # a, t # s, r))
      | (Some False, q') \<Rightarrow> (case hist cs q' of (a, s, r) \<Rightarrow> (t # a, s, r)))"
| "hist (None # cs) q =
     (case finish_op q of
        (None, q') \<Rightarrow> hist cs q'
      | (Some t, q') \<Rightarrow> (case hist cs q' of (a, s, r) \<Rightarrow> (a, t # s, r)))"

lemma hist_fifo:
  "inv q \<Longrightarrow> hist cs q = (acc, sta, r) \<Longrightarrow> inv r \<and> waiting q @ acc = sta @ waiting r"
proof (induction cs q arbitrary: acc sta r rule: hist.induct)
  case (2 t cs q)
  obtain b q' where sub: "submit_op t q = (b, q')" by fastforce
  have q': "inv q'" using inv_submit[OF 2(4), of t] sub by simp
  show ?case
  proof (cases "busy q")
    case False
    then have "b = Some True" "waiting q' = []" "waiting q = []"
      using submit_idle[OF 2(4) False, of t] idle_empty[OF 2(4) False] sub by auto
    with 2 sub q' show ?thesis by (fastforce split: prod.splits)
  next
    case True
    then consider "b = None" "q' = q" | "b = Some False" "waiting q' = waiting q @ [t]"
      using submit_busy[OF 2(4) True, of t] sub by auto
    then show ?thesis
    proof cases
      case 1
      with 2 sub show ?thesis by auto
    next
      case b: 2
      with 2 sub q' show ?thesis by (fastforce split: prod.splits)
    qed
  qed
next
  case (3 cs q)
  obtain b q' where fin: "finish_op q = (b, q')" by fastforce
  have q': "inv q'" using inv_finish[OF 3(3)] fin by simp
  show ?case
  proof (cases "waiting q")
    case Nil
    then have "b = None" "waiting q' = []"
      using finish_empty[OF 3(3) Nil] fin idle_empty[OF q'] by auto
    with 3 fin q' Nil show ?thesis by auto
  next
    case (Cons t ts)
    then have "b = Some t" "waiting q' = ts" using finish_next[OF 3(3) Cons] fin by auto
    with 3 fin q' Cons show ?thesis by (fastforce split: prod.splits)
  qed
qed auto

end

text \<open>The answer of \<open>submit\<close>, read as the contract's.\<close>

definition submit_started :: "queued_turn \<Rightarrow> run_queue \<Rightarrow> bool option \<times> run_queue" where
  "submit_started t q = (case submit t q of
      (Started _, q') \<Rightarrow> (Some True, q') | (Queued, q') \<Rightarrow> (Some False, q') | (Rejected, q') \<Rightarrow> (None, q'))"

interpretation lane: serial_lane queue_inv "\<lambda>q. \<not> is_idle q" pending submit_started complete_active
  by unfold_locales
     (auto simp: submit_started_def submit_def complete_active_def queue_inv_def is_idle_def
       split: list.splits)

section \<open>Properties\<close>

text \<open>Feeding a queue with submissions (\<open>Some\<close>) and completions (\<open>None\<close>), keeping the turns that
  were accepted and the turns that started, in order.\<close>

fun queue_history :: "queued_turn option list \<Rightarrow> run_queue \<Rightarrow> queued_turn list \<times> queued_turn list \<times> run_queue" where
  "queue_history [] q = ([], [], q)"
| "queue_history (Some t # cs) q =
     (case submit t q of
        (Started t', q') \<Rightarrow> (case queue_history cs q' of (a, s, r) \<Rightarrow> (t # a, t' # s, r))
      | (Queued, q') \<Rightarrow> (case queue_history cs q' of (a, s, r) \<Rightarrow> (t # a, s, r))
      | (Rejected, q') \<Rightarrow> queue_history cs q')"
| "queue_history (None # cs) q =
     (case complete_active q of
        (None, q') \<Rightarrow> queue_history cs q'
      | (Some t, q') \<Rightarrow> (case queue_history cs q' of (a, s, r) \<Rightarrow> (a, t # s, r)))"

lemma submit_cases:
  obtains q' where "submit t q = (Started t, q')" "submit_started t q = (Some True, q')"
    | q' where "submit t q = (Queued, q')" "submit_started t q = (Some False, q')"
    | "submit t q = (Rejected, q)" "submit_started t q = (None, q)"
  by (cases "active q"; cases "qcap q \<le> length (pending q)")
     (auto simp: submit_started_def submit_def)

lemma queue_history_hist: "queue_history cs q = lane.hist cs q"
proof (induction cs q rule: queue_history.induct)
  case (2 t cs q)
  show ?case by (rule submit_cases[of t q]) (simp_all add: 2)
next
  case (3 cs q)
  then show ?case by (auto split: prod.splits option.splits)
qed auto

text \<open>Over any sequence of submissions and completions from an empty queue, the runs start in
  exactly the order in which their turns were accepted, none is lost or started twice: the
  accepted turns are the started ones followed by the waiting ones; and at every point the queue
  is within its capacity and has no waiting turn without an active run.\<close>

theorem queue_fifo:
  "case queue_history cs (queue_new c) of (acc, sta, q) \<Rightarrow>
     acc = sta @ pending q \<and> queue_inv q"
  using lane.hist_fifo[OF queue_inv_new[of c], of cs]
  by (auto simp: queue_history_hist queue_new_def split: prod.splits)

end
