(* ===== verification/Float_Model.thy ===== *)
theory Float_Model
  imports Complex_Main Prelude
begin

text \<open>
  IEEE 754 binary floating point as far as the program uses it: values are NaN, an infinity or a
  finite rational; every operation computes the exact rational and rounds it to nearest, ties to
  even, in the format (\<open>f32\<close>: 24 bits, \<open>f64\<close>: 53 bits).  The sign of zero is not represented;
  no computation of the program reads it.  \<open>to_i64\<close> is the \<open>as i64\<close> cast, which truncates towards
  zero, saturates, and maps NaN to 0.
\<close>

datatype flt = NaN | Inf bool | Fin rat

fun nbits :: "nat \<Rightarrow> nat" where
  "nbits n = (if n = 0 then 0 else Suc (nbits (n div 2)))"

declare nbits.simps [simp del]

definition pow2 :: "int \<Rightarrow> rat" where
  "pow2 k = (if 0 \<le> k then 2 ^ nat k else 1 / 2 ^ nat (- k))"

text \<open>The exponent of a positive rational: \<open>2 ^ e \<le> q < 2 ^ (e + 1)\<close>.\<close>

definition ilog2 :: "rat \<Rightarrow> int" where
  "ilog2 q = (if 1 \<le> q then int (nbits (nat (floor q))) - 1
              else - int (nbits (nat (ceiling (1 / q) - 1))))"

definition round_even :: "rat \<Rightarrow> int" where
  "round_even q =
     (let f = floor q; r = q - of_int f in
      if r < 1 / 2 then f else if 1 / 2 < r then f + 1 else if even f then f else f + 1)"

definition round_flt :: "nat \<Rightarrow> int \<Rightarrow> int \<Rightarrow> rat \<Rightarrow> flt" where
  "round_flt p emin emax q =
     (if q = 0 then Fin 0
      else let e = max emin (ilog2 (abs q)); u = pow2 (e - int p + 1);
               r = of_int (round_even (q / u)) * u
           in if pow2 (emax + 1) \<le> abs r then Inf (r < 0) else Fin r)"

definition f32 :: "rat \<Rightarrow> flt" where "f32 = round_flt 24 (- 126) 127"
definition f64 :: "rat \<Rightarrow> flt" where "f64 = round_flt 53 (- 1022) 1023"

fun flt_mul :: "(rat \<Rightarrow> flt) \<Rightarrow> flt \<Rightarrow> flt \<Rightarrow> flt" where
  "flt_mul rnd (Fin a) (Fin b) = rnd (a * b)"
| "flt_mul rnd NaN _ = NaN"
| "flt_mul rnd _ NaN = NaN"
| "flt_mul rnd (Inf s) (Inf t) = Inf (s \<noteq> t)"
| "flt_mul rnd (Inf s) (Fin b) = (if b = 0 then NaN else Inf (s \<noteq> (b < 0)))"
| "flt_mul rnd (Fin a) (Inf t) = (if a = 0 then NaN else Inf (t \<noteq> (a < 0)))"

fun flt_add :: "(rat \<Rightarrow> flt) \<Rightarrow> flt \<Rightarrow> flt \<Rightarrow> flt" where
  "flt_add rnd (Fin a) (Fin b) = rnd (a + b)"
| "flt_add rnd NaN _ = NaN"
| "flt_add rnd _ NaN = NaN"
| "flt_add rnd (Inf s) (Inf t) = (if s = t then Inf s else NaN)"
| "flt_add rnd (Inf s) (Fin b) = Inf s"
| "flt_add rnd (Fin a) (Inf t) = Inf t"

fun flt_neg :: "flt \<Rightarrow> flt" where
  "flt_neg NaN = NaN"
| "flt_neg (Inf s) = Inf (\<not> s)"
| "flt_neg (Fin a) = Fin (- a)"

text \<open>Division; the program divides by positive numbers only, so the sign of a zero divisor
  does not matter.\<close>

fun flt_div :: "(rat \<Rightarrow> flt) \<Rightarrow> flt \<Rightarrow> flt \<Rightarrow> flt" where
  "flt_div rnd (Fin a) (Fin b) = (if b = 0 then if a = 0 then NaN else Inf (a < 0) else rnd (a / b))"
| "flt_div rnd NaN _ = NaN"
| "flt_div rnd _ NaN = NaN"
| "flt_div rnd (Inf s) (Inf t) = NaN"
| "flt_div rnd (Inf s) (Fin b) = Inf (s \<noteq> (b < 0))"
| "flt_div rnd (Fin a) (Inf t) = Fin 0"

text \<open>\<open>partial_cmp\<close>: NaN compares with nothing.\<close>

fun flt_lt :: "flt \<Rightarrow> flt \<Rightarrow> bool" where
  "flt_lt NaN _ = False"
| "flt_lt _ NaN = False"
| "flt_lt (Inf s) (Inf t) = (s \<and> \<not> t)"
| "flt_lt (Inf s) (Fin b) = s"
| "flt_lt (Fin a) (Inf t) = (\<not> t)"
| "flt_lt (Fin a) (Fin b) = (a < b)"

definition flt_min :: "flt \<Rightarrow> flt \<Rightarrow> flt" where
  "flt_min a b = (if a = NaN then b else if b = NaN then a else if flt_lt b a then b else a)"

definition flt_max :: "flt \<Rightarrow> flt \<Rightarrow> flt" where
  "flt_max a b = (if a = NaN then b else if b = NaN then a else if flt_lt a b then b else a)"

lemma flt_lt_irrefl [simp]: "\<not> flt_lt a a"
  by (cases a) auto

lemma flt_lt_trans: "flt_lt a b \<Longrightarrow> flt_lt b c \<Longrightarrow> flt_lt a c"
  by (cases a; cases b; cases c) auto

lemma flt_lt_asym: "flt_lt a b \<Longrightarrow> \<not> flt_lt b a"
  using flt_lt_trans flt_lt_irrefl by blast

lemma flt_not_lt_trans: "b \<noteq> NaN \<Longrightarrow> \<not> flt_lt a b \<Longrightarrow> \<not> flt_lt b c \<Longrightarrow> \<not> flt_lt a c"
  by (cases a; cases b; cases c) auto

lemma flt_min_not_above: "\<not> flt_lt b (flt_min a b)"
  by (cases a; cases b) (auto simp: flt_min_def)

definition trunc_rat :: "rat \<Rightarrow> int" where
  "trunc_rat q = (if 0 \<le> q then floor q else - floor (- q))"

fun to_i64 :: "flt \<Rightarrow> int" where
  "to_i64 NaN = 0"
| "to_i64 (Inf neg) = (if neg then i64_min else i64_max)"
| "to_i64 (Fin q) = sat_i64 (trunc_rat q)"

text \<open>\<open>f64::round\<close>: to the nearest integer, ties away from zero.\<close>

fun flt_round :: "flt \<Rightarrow> flt" where
  "flt_round (Fin q) = Fin (if 0 \<le> q then of_int (floor (q + 1 / 2)) else - of_int (floor (- q + 1 / 2)))"
| "flt_round x = x"

lemma nbits_simps [simp]:
  "nbits 0 = 0" "nbits (Suc 0) = 1" "nbits 1 = 1" "nbits (numeral Num.One) = 1"
  "nbits (numeral (Num.Bit0 k)) = Suc (nbits (numeral k))"
  "nbits (numeral (Num.Bit1 k)) = Suc (nbits (numeral k))"
  by (subst nbits.simps, simp add: nbits.simps[of 0])+

lemma rat_floor_numeral [simp]:
  "\<lfloor>(numeral a :: rat) / numeral b\<rfloor> = numeral a div numeral b"
  "\<lfloor>1 / (numeral b :: rat)\<rfloor> = 1 div numeral b"
  using floor_divide_of_int_eq[of "numeral a" "numeral b", where ?'a = rat]
    floor_divide_of_int_eq[of 1 "numeral b", where ?'a = rat] by simp_all

lemma rat_ceiling_numeral [simp]:
  "\<lceil>(numeral a :: rat) / numeral b\<rceil> = - (- numeral a div numeral b)"
  "\<lceil>1 / (numeral b :: rat)\<rceil> = - (- 1 div numeral b)"
  using ceiling_divide_eq_div[of "numeral a" "numeral b", where ?'a = rat]
    ceiling_divide_eq_div[of 1 "numeral b", where ?'a = rat] by simp_all

lemmas float_eval = f32_def f64_def round_flt_def ilog2_def round_even_def pow2_def trunc_rat_def
  sat_i64_def i64_max_def i64_min_def

lemma pow2_0 [simp]: "pow2 0 = 1"
  by (simp add: pow2_def)

lemma pow2_pos [simp]: "0 < pow2 k"
  by (simp add: pow2_def)

lemma to_i64_bounds: "i64_min \<le> to_i64 x \<and> to_i64 x \<le> i64_max"
  by (cases x) (auto simp: sat_i64_def i64_min_def i64_max_def)

end
