(* ===== verification/Compaction.thy ===== *)
theory Compaction
  imports Prelude Float_Model
begin

text \<open>
  \<open>crates/oc-core/src/compaction.rs\<close>: the pure plan of a context compaction.  Step 1 prunes old
  tool results, step 2 drops the earliest messages (a tool dispatch together with its result),
  step 3 marks the dropped interval for a summary.  The lemmas carry the loop of step 2 through
  one invariant, \<open>drop_inv\<close>.
\<close>

record msg_meta =
  mm_index :: nat
  mm_tokens :: int
  is_tool_result :: bool
  is_tool_dispatch :: bool

record compact_plan =
  prune_tool_results :: "nat list"
  plan_drop :: "nat list"
  summarize :: "(nat \<times> nat) option"
  prune_to_tokens :: int

record compact_cfg =
  budget :: int
  trigger_ratio :: flt
  prune_tool_to_tokens :: int
  keep_recent :: nat
  enable_summary :: bool

definition plan_is_noop :: "compact_plan \<Rightarrow> bool" where
  "plan_is_noop p \<longleftrightarrow> prune_tool_results p = [] \<and> plan_drop p = [] \<and> summarize p = None"

definition cfg_default :: compact_cfg where
  "cfg_default = \<lparr> budget = 8000, trigger_ratio = f32 (8 / 10), prune_tool_to_tokens = 200,
                   keep_recent = 6, enable_summary = False \<rparr>"

definition DEFAULT_RESERVE_TOKENS :: int where "DEFAULT_RESERVE_TOKENS = 16384"
definition MIN_BUDGET_TOKENS :: int where "MIN_BUDGET_TOKENS = 8000"

definition from_window :: "int \<Rightarrow> int \<Rightarrow> compact_cfg" where
  "from_window context_window reserve =
     cfg_default\<lparr>budget := max (context_window - reserve) MIN_BUDGET_TOKENS\<rparr>"

text \<open>\<open>(budget as f32 * trigger_ratio) as i64\<close>.\<close>

definition trigger_of :: "compact_cfg \<Rightarrow> int" where
  "trigger_of cfg = to_i64 (flt_mul f32 (f32 (of_int (budget cfg))) (trigger_ratio cfg))"

definition total_tokens :: "msg_meta list \<Rightarrow> int" where
  "total_tokens metas = sum_list (map mm_tokens metas)"

text \<open>Step 1: the loop over the movable messages, with the pruned indices and the projection.\<close>

fun prune_loop :: "int \<Rightarrow> int \<Rightarrow> msg_meta list \<Rightarrow> nat list \<Rightarrow> int \<Rightarrow> nat list \<times> int" where
  "prune_loop trig pt [] pruned proj = (pruned, proj)"
| "prune_loop trig pt (m # ms) pruned proj =
     (if proj \<le> trig then (pruned, proj)
      else if is_tool_result m \<and> pt < mm_tokens m
      then prune_loop trig pt ms (pruned @ [mm_index m]) (proj - (mm_tokens m - pt))
      else prune_loop trig pt ms pruned proj)"

definition effective :: "int \<Rightarrow> nat list \<Rightarrow> msg_meta \<Rightarrow> int" where
  "effective pt pruned m = (if mm_index m \<in> set pruned then pt else mm_tokens m)"

text \<open>The position of the other half of a tool pair.\<close>

definition mate_pos :: "msg_meta list \<Rightarrow> nat \<Rightarrow> nat option" where
  "mate_pos metas i =
     (if is_tool_dispatch (metas ! i)
      then opt_filter (\<lambda>j. case get metas j of Some n \<Rightarrow> is_tool_result n | None \<Rightarrow> False) (Some (i + 1))
      else if is_tool_result (metas ! i)
      then opt_filter (\<lambda>j. is_tool_dispatch (metas ! j)) (if i = 0 then None else Some (i - 1))
      else None)"

text \<open>Step 2: the loop over the positions below \<open>movable_end\<close>.\<close>

fun drop_loop :: "int \<Rightarrow> (msg_meta \<Rightarrow> int) \<Rightarrow> msg_meta list \<Rightarrow> nat \<Rightarrow> nat list \<Rightarrow> nat list \<Rightarrow> int
    \<Rightarrow> nat list \<times> int" where
  "drop_loop trig eff metas movable_end [] dropped proj = (dropped, proj)"
| "drop_loop trig eff metas movable_end (i # is) dropped proj =
     (let m = metas ! i in
      if proj \<le> trig then (dropped, proj)
      else if mm_index m \<in> set dropped then drop_loop trig eff metas movable_end is dropped proj
      else case mate_pos metas i of
        None \<Rightarrow> drop_loop trig eff metas movable_end is (dropped @ [mm_index m]) (proj - eff m)
      | Some j \<Rightarrow>
          if movable_end \<le> j then drop_loop trig eff metas movable_end is dropped proj
          else let dropped' = dropped @ [mm_index m]; proj' = proj - eff m; mate = metas ! j in
               if mm_index mate \<in> set dropped'
               then drop_loop trig eff metas movable_end is dropped' proj'
               else drop_loop trig eff metas movable_end is (dropped' @ [mm_index mate]) (proj' - eff mate))"

definition plan_compaction :: "msg_meta list \<Rightarrow> compact_cfg \<Rightarrow> compact_plan" where
  "plan_compaction metas cfg =
     (let total = total_tokens metas;
          trig = trigger_of cfg;
          pt = prune_tool_to_tokens cfg;
          empty = \<lparr> prune_tool_results = [], plan_drop = [], summarize = None, prune_to_tokens = pt \<rparr>
      in if total \<le> trig then empty
         else let movable_end = length metas - keep_recent cfg in
         if movable_end = 0 then empty
         else let (pruned, proj) = prune_loop trig pt (take movable_end metas) [] total;
                  dropped = (if trig < proj
                     then sort (fst (drop_loop trig (effective pt pruned) metas movable_end
                                       [0..<movable_end] [] proj))
                     else []);
                  summ = (if enable_summary cfg \<and> dropped \<noteq> []
                     then Some (Min (set dropped), Max (set dropped) + 1) else None)
              in \<lparr> prune_tool_results = pruned, plan_drop = dropped, summarize = summ,
                   prune_to_tokens = pt \<rparr>)"


section \<open>The projection and the pairs\<close>

text \<open>The caller numbers the messages by position and no message is both a dispatch and a result.\<close>

definition indexed :: "msg_meta list \<Rightarrow> bool" where
  "indexed metas \<longleftrightarrow> (\<forall>i < length metas. mm_index (metas ! i) = i
      \<and> \<not> (is_tool_dispatch (metas ! i) \<and> is_tool_result (metas ! i)))"

definition pair_at :: "msg_meta list \<Rightarrow> nat \<Rightarrow> bool" where
  "pair_at metas i \<longleftrightarrow> i + 1 < length metas \<and> is_tool_dispatch (metas ! i) \<and> is_tool_result (metas ! (i + 1))"

definition pairs_closed :: "msg_meta list \<Rightarrow> nat set \<Rightarrow> bool" where
  "pairs_closed metas D \<longleftrightarrow> (\<forall>i. pair_at metas i \<longrightarrow> (i \<in> D \<longleftrightarrow> i + 1 \<in> D))"

text \<open>The tokens of the messages that stay, each counted after its pruning.\<close>

definition kept_sum :: "(msg_meta \<Rightarrow> int) \<Rightarrow> msg_meta list \<Rightarrow> nat set \<Rightarrow> int" where
  "kept_sum eff metas D = (\<Sum>i \<in> {..<length metas} - D. eff (metas ! i))"

lemma indexed_index: "indexed metas \<Longrightarrow> i < length metas \<Longrightarrow> mm_index (metas ! i) = i"
  by (simp add: indexed_def)

lemma indexed_map: "indexed metas \<Longrightarrow> map mm_index metas = [0..<length metas]"
  by (rule nth_equalityI) (auto simp: indexed_index)

lemma mate_pos_Some:
  assumes "indexed metas" "i < length metas" "mate_pos metas i = Some j"
  shows "j < length metas \<and> j \<noteq> i \<and> (pair_at metas i \<and> j = Suc i \<or> i = Suc j \<and> pair_at metas j)"
  using assms by (auto simp: mate_pos_def pair_at_def outcome_simps indexed_def
      split: if_splits option.splits)

lemma mate_pos_None:
  assumes "indexed metas" "i < length metas" "mate_pos metas i = None"
  shows "\<not> pair_at metas i \<and> (\<forall>k. Suc k = i \<longrightarrow> \<not> pair_at metas k)"
  using assms by (auto simp: mate_pos_def pair_at_def get_def indexed_def split: if_splits option.splits)

lemma pair_at_next: "indexed metas \<Longrightarrow> pair_at metas i \<Longrightarrow> \<not> pair_at metas (Suc i)"
  by (auto simp: pair_at_def indexed_def)

lemma pairs_closed_add_pair:
  assumes "indexed metas" "pair_at metas i" "pairs_closed metas D"
  shows "pairs_closed metas (insert i (insert (Suc i) D))"
  unfolding pairs_closed_def
proof (intro allI impI)
  fix k assume k: "pair_at metas k"
  have "k \<noteq> Suc i" using pair_at_next[OF assms(1,2)] k by auto
  moreover have "Suc k \<noteq> i" using pair_at_next[OF assms(1) k] assms(2) by auto
  ultimately show "(k \<in> insert i (insert (Suc i) D)) = (k + 1 \<in> insert i (insert (Suc i) D))"
    using assms(3) k by (auto simp: pairs_closed_def)
qed

lemma pairs_closed_add_single:
  assumes "\<not> pair_at metas i" "\<forall>k. Suc k = i \<longrightarrow> \<not> pair_at metas k" "pairs_closed metas D"
  shows "pairs_closed metas (insert i D)"
  using assms unfolding pairs_closed_def by (metis Suc_eq_plus1 insert_iff)

lemma kept_sum_insert:
  "i < length metas \<Longrightarrow> i \<notin> D \<Longrightarrow> kept_sum eff metas (insert i D) = kept_sum eff metas D - eff (metas ! i)"
proof -
  assume i: "i < length metas" "i \<notin> D"
  have "{..<length metas} - insert i D = ({..<length metas} - D) - {i}" by blast
  then show ?thesis
    unfolding kept_sum_def using sum.remove[of "{..<length metas} - D" i "\<lambda>i. eff (metas ! i)"] i
    by simp
qed

text \<open>What the loop of step 2 maintains.\<close>

definition drop_inv :: "(msg_meta \<Rightarrow> int) \<Rightarrow> msg_meta list \<Rightarrow> nat \<Rightarrow> nat list \<Rightarrow> int \<Rightarrow> bool" where
  "drop_inv eff metas movable_end dropped proj \<longleftrightarrow>
     distinct dropped \<and> set dropped \<subseteq> {..<movable_end} \<and> pairs_closed metas (set dropped)
     \<and> proj = kept_sum eff metas (set dropped)"

lemma drop_inv_single:
  assumes "indexed metas" "i < me" "me \<le> length metas" "i \<notin> set d" "mate_pos metas i = None"
    and "drop_inv eff metas me d p"
  shows "drop_inv eff metas me (d @ [i]) (p - eff (metas ! i))"
  using assms mate_pos_None[OF assms(1) _ assms(5)] kept_sum_insert[of i metas "set d" eff]
    pairs_closed_add_single[of metas i "set d"]
  by (auto simp: drop_inv_def)

lemma drop_inv_pair:
  assumes "indexed metas" "i < me" "me \<le> length metas" "i \<notin> set d" "mate_pos metas i = Some j"
    "j < me" and inv: "drop_inv eff metas me d p"
  shows "j \<notin> set d \<and> j \<noteq> i \<and> drop_inv eff metas me (d @ [i, j]) (p - eff (metas ! i) - eff (metas ! j))"
proof -
  have m: "j < length metas" "j \<noteq> i"
    "pair_at metas i \<and> j = Suc i \<or> i = Suc j \<and> pair_at metas j"
    using mate_pos_Some[OF assms(1) _ assms(5)] assms(2,3) by auto
  have jd: "j \<notin> set d" using m(3) assms(4) inv by (auto simp: drop_inv_def pairs_closed_def)
  have "pairs_closed metas (insert i (insert j (set d)))"
    using m(3)
  proof
    assume a: "pair_at metas i \<and> j = Suc i"
    then show ?thesis using pairs_closed_add_pair[OF assms(1), of i "set d"] inv
      by (auto simp: drop_inv_def)
  next
    assume a: "i = Suc j \<and> pair_at metas j"
    then show ?thesis using pairs_closed_add_pair[OF assms(1), of j "set d"] inv
      by (auto simp: drop_inv_def insert_commute)
  qed
  moreover have "kept_sum eff metas (insert i (insert j (set d))) = p - eff (metas ! i) - eff (metas ! j)"
    using kept_sum_insert[of j metas "set d" eff] kept_sum_insert[of i metas "insert j (set d)" eff]
      assms(2,3,4) m(1,2) jd inv by (simp add: drop_inv_def)
  ultimately show ?thesis using inv assms(2,4,6) m(2) jd by (auto simp: drop_inv_def insert_commute)
qed

lemma drop_loop_inv:
  assumes "indexed metas" "me \<le> length metas"
  shows "drop_loop trig eff metas me is d p = (d', p') \<Longrightarrow> drop_inv eff metas me d p \<Longrightarrow>
    \<forall>i \<in> set is. i < me \<Longrightarrow>
    drop_inv eff metas me d' p' \<and> set d \<subseteq> set d' \<and>
    (p' \<le> trig \<or> (\<forall>i \<in> set is. i \<in> set d' \<or> (\<exists>j. mate_pos metas i = Some j \<and> me \<le> j)))"
proof (induction "is" arbitrary: d p)
  case (Cons i "is")
  have i: "i < me" "mm_index (metas ! i) = i"
    using Cons.prems(3) assms by (auto simp: indexed_index)
  consider "p \<le> trig" | "\<not> p \<le> trig" "i \<in> set d" | "\<not> p \<le> trig" "i \<notin> set d" "mate_pos metas i = None"
    | j where "\<not> p \<le> trig" "i \<notin> set d" "mate_pos metas i = Some j" "me \<le> j"
    | j where "\<not> p \<le> trig" "i \<notin> set d" "mate_pos metas i = Some j" "j < me"
    by (cases "mate_pos metas i") (auto simp: not_le[symmetric])
  then show ?case
  proof cases
    case 1
    then show ?thesis using Cons.prems by simp
  next
    case 2
    then show ?thesis using Cons.prems Cons.IH[of d p] i by auto
  next
    case 3
    have "drop_inv eff metas me (d @ [i]) (p - eff (metas ! i))"
      using drop_inv_single[OF assms(1) i(1) assms(2) 3(2,3) Cons.prems(2)] .
    from Cons.IH[OF _ this] show ?thesis using Cons.prems 3 i by (auto simp: Let_def)
  next
    case 4
    then show ?thesis using Cons.prems Cons.IH[of d p] i by (auto simp: Let_def)
  next
    case 5
    note pair = drop_inv_pair[OF assms(1) i(1) assms(2) 5(2,3,4) Cons.prems(2)]
    have "mm_index (metas ! j) = j" using 5(4) assms by (simp add: indexed_index)
    then show ?thesis using Cons.IH[OF _ conjunct2[OF conjunct2[OF pair]]] Cons.prems 5 i pair
      by (auto simp: Let_def)
  qed
qed simp

lemma prune_loop_spec:
  assumes "distinct (pruned @ map mm_index ms)"
    "prune_loop trig pt ms pruned p = (pruned', p')"
  shows "\<exists>extra. pruned' = pruned @ extra \<and> set extra \<subseteq> mm_index ` {m \<in> set ms. is_tool_result m \<and> pt < mm_tokens m}
     \<and> distinct pruned' \<and> p' = p + sum_list (map (\<lambda>m. effective pt pruned' m - mm_tokens m) ms)"
  using assms
proof (induction ms arbitrary: pruned p)
  case (Cons m ms)
  note IH = Cons.IH and prems = Cons.prems
  define S where "S l = sum_list (map (\<lambda>m. effective pt l m - mm_tokens m) ms)" for l
  have e: "sum_list (map (\<lambda>m. effective pt l m - mm_tokens m) (m # ms)) =
      (if mm_index m \<in> set l then pt - mm_tokens m else 0) + S l" for l
    by (simp add: effective_def S_def)
  have IH': "distinct (q @ map mm_index ms) \<Longrightarrow> prune_loop trig pt ms q r = (pruned', p') \<Longrightarrow>
      \<exists>extra. pruned' = q @ extra \<and> set extra \<subseteq> mm_index ` {m \<in> set ms. is_tool_result m \<and> pt < mm_tokens m}
        \<and> distinct pruned' \<and> p' = r + S pruned'" for q r
    using IH[of q r] by (simp add: S_def)
  consider "p \<le> trig" | "\<not> p \<le> trig" "is_tool_result m \<and> pt < mm_tokens m"
    | "\<not> p \<le> trig" "\<not> (is_tool_result m \<and> pt < mm_tokens m)" by blast
  then show ?case
  proof cases
    case 1
    have "sum_list (map (\<lambda>m. effective pt pruned m - mm_tokens m) (m # ms)) = 0"
      using prems(1) by (intro sum_list_map_0) (auto simp: effective_def image_iff)
    with 1 prems show ?thesis by auto
  next
    case 2
    have "distinct ((pruned @ [mm_index m]) @ map mm_index ms)" using prems(1) by simp
    moreover have "prune_loop trig pt ms (pruned @ [mm_index m]) (p - (mm_tokens m - pt)) = (pruned', p')"
      using 2 prems(2) by simp
    ultimately obtain extra where ex:
      "pruned' = (pruned @ [mm_index m]) @ extra" "distinct pruned'"
      "set extra \<subseteq> mm_index ` {m \<in> set ms. is_tool_result m \<and> pt < mm_tokens m}"
      "p' = p - (mm_tokens m - pt) + S pruned'"
      using IH' by blast
    then have "mm_index m \<in> set pruned'" by simp
    with ex 2 show ?thesis unfolding e by (intro exI[of _ "mm_index m # extra"]) auto
  next
    case 3
    have "distinct (pruned @ map mm_index ms)" using prems(1) by simp
    moreover have "prune_loop trig pt ms pruned p = (pruned', p')" using 3 prems(2) by auto
    ultimately obtain extra where ex:
      "pruned' = pruned @ extra" "distinct pruned'"
      "set extra \<subseteq> mm_index ` {m \<in> set ms. is_tool_result m \<and> pt < mm_tokens m}"
      "p' = p + S pruned'"
      using IH' by blast
    then have "mm_index m \<notin> set pruned'" using prems(1) by auto
    with ex show ?thesis unfolding e by (intro exI[of _ extra]) auto
  qed
qed auto


lemma kept_sum_all:
  assumes "indexed metas" "me \<le> length metas"
    and "prune_loop trig pt (take me metas) [] (total_tokens metas) = (pruned, proj)"
  shows "distinct pruned" "set pruned \<subseteq> {i. i < me \<and> is_tool_result (metas ! i)}"
    "proj = kept_sum (effective pt pruned) metas {}"
proof -
  let ?g = "\<lambda>m. effective pt pruned m - mm_tokens m"
  have ind: "map mm_index (take me metas) = [0..<me]"
    using indexed_map[OF assms(1)] assms(2) by (simp flip: take_map)
  have spec: "set pruned \<subseteq> mm_index ` {m \<in> set (take me metas). is_tool_result m \<and> pt < mm_tokens m}"
    "distinct pruned" "proj = total_tokens metas + sum_list (map ?g (take me metas))"
    using prune_loop_spec[OF _ assms(3)] ind by auto
  show "distinct pruned" by (rule spec(2))
  show sub: "set pruned \<subseteq> {i. i < me \<and> is_tool_result (metas ! i)}"
    using spec(1) assms(1,2) by (auto simp: in_set_conv_nth indexed_index dest!: subsetD)
  have "?g m = 0" if m: "m \<in> set (drop me metas)" for m
  proof -
    obtain i where i: "i < length metas - me" "m = metas ! (me + i)"
      using m assms(2) by (auto simp: in_set_conv_nth)
    then have "mm_index m = me + i" using assms(1,2) by (simp add: indexed_index)
    then have "mm_index m \<notin> set pruned" using sub by auto
    then show ?thesis by (simp add: effective_def)
  qed
  then have z: "sum_list (map ?g (drop me metas)) = 0"
    by (rule sum_list_map_0)
  have "sum_list (map ?g metas) = sum_list (map ?g (take me metas)) + sum_list (map ?g (drop me metas))"
    by (simp flip: sum_list.append map_append)
  then have "proj = total_tokens metas + sum_list (map ?g metas)" using spec(3) z by simp
  also have "\<dots> = sum_list (map (effective pt pruned) metas)"
    by (simp add: total_tokens_def sum_list_subtractf)
  also have "\<dots> = kept_sum (effective pt pruned) metas {}"
    by (simp add: kept_sum_def sum_list_sum_nth lessThan_atLeast0)
  finally show "proj = kept_sum (effective pt pruned) metas {}" .
qed

definition movable_end_of :: "msg_meta list \<Rightarrow> compact_cfg \<Rightarrow> nat" where
  "movable_end_of metas cfg = length metas - keep_recent cfg"

text \<open>The three outcomes of the plan, with what each of them guarantees.\<close>

lemma plan_cases:
  fixes cfg :: compact_cfg
  assumes "indexed metas"
  defines "p \<equiv> plan_compaction metas cfg" and "me \<equiv> movable_end_of metas cfg"
  shows "sorted (plan_drop p) \<and> distinct (plan_drop p) \<and> set (plan_drop p) \<subseteq> {..<me}
    \<and> distinct (prune_tool_results p)
    \<and> set (prune_tool_results p) \<subseteq> {i. i < me \<and> is_tool_result (metas ! i)}
    \<and> pairs_closed metas (set (plan_drop p))
    \<and> (kept_sum (effective (prune_tool_to_tokens cfg) (prune_tool_results p)) metas (set (plan_drop p))
          \<le> trigger_of cfg
       \<or> (\<forall>i < me. i \<in> set (plan_drop p) \<or> (\<exists>j. mate_pos metas i = Some j \<and> me \<le> j)))"
proof (cases "total_tokens metas \<le> trigger_of cfg \<or> me = 0")
  case True
  have "total_tokens metas = kept_sum (effective pt []) metas {}" for pt
    by (simp add: kept_sum_def total_tokens_def sum_list_sum_nth lessThan_atLeast0 effective_def)
  with True show ?thesis
    by (auto simp: p_def me_def movable_end_of_def plan_compaction_def Let_def pairs_closed_def)
next
  case False
  let ?pt = "prune_tool_to_tokens cfg" and ?trig = "trigger_of cfg"
  have le: "me \<le> length metas" by (simp add: me_def movable_end_of_def)
  obtain pruned proj where pl: "prune_loop ?trig ?pt (take me metas) [] (total_tokens metas) = (pruned, proj)"
    by fastforce
  obtain d p' where dl: "drop_loop ?trig (effective ?pt pruned) metas me [0..<me] [] proj = (d, p')"
    by fastforce
  note ks = kept_sum_all[OF assms(1) le pl]
  have inv0: "drop_inv (effective ?pt pruned) metas me [] proj"
    using ks(3) by (simp add: drop_inv_def pairs_closed_def)
  have p: "prune_tool_results p = pruned" "plan_drop p = (if ?trig < proj then sort d else [])"
    using False pl dl by (auto simp: p_def me_def movable_end_of_def plan_compaction_def Let_def)
  note inv = drop_loop_inv[OF assms(1) le dl inv0]
  show ?thesis
  proof (cases "?trig < proj")
    case True
    with p inv ks show ?thesis by (auto simp: drop_inv_def)
  next
    case False
    with p ks show ?thesis by (auto simp: pairs_closed_def)
  qed
qed

section \<open>Properties\<close>

text \<open>A compaction plan never touches the last \<open>keep_recent\<close> messages, prunes tool results
  only, lists what it drops in order and without repetition, and drops a tool dispatch exactly
  when it drops the result that answers it.\<close>

theorem compaction_plan_safe:
  assumes "indexed metas"
  shows "sorted (plan_drop (plan_compaction metas cfg)) \<and> distinct (plan_drop (plan_compaction metas cfg))
    \<and> (\<forall>i \<in> set (plan_drop (plan_compaction metas cfg)). i + keep_recent cfg < length metas)
    \<and> (\<forall>i \<in> set (prune_tool_results (plan_compaction metas cfg)).
         i + keep_recent cfg < length metas \<and> is_tool_result (metas ! i))
    \<and> (\<forall>i. i + 1 < length metas \<and> is_tool_dispatch (metas ! i) \<and> is_tool_result (metas ! (i + 1)) \<longrightarrow>
         (i \<in> set (plan_drop (plan_compaction metas cfg)) \<longleftrightarrow>
          i + 1 \<in> set (plan_drop (plan_compaction metas cfg))))"
  using plan_cases[OF assms, of cfg]
  by (auto simp: movable_end_of_def pairs_closed_def pair_at_def subset_iff less_diff_conv)

definition sample_metas :: "msg_meta list" where
  "sample_metas = [
     \<lparr> mm_index = 0, mm_tokens = 50, is_tool_result = False, is_tool_dispatch = False \<rparr>,
     \<lparr> mm_index = 1, mm_tokens = 30, is_tool_result = False, is_tool_dispatch = True \<rparr>,
     \<lparr> mm_index = 2, mm_tokens = 400, is_tool_result = True, is_tool_dispatch = False \<rparr>,
     \<lparr> mm_index = 3, mm_tokens = 60, is_tool_result = False, is_tool_dispatch = False \<rparr>]"

definition sample_cfg :: compact_cfg where
  "sample_cfg = \<lparr> budget = 100, trigger_ratio = Fin 1, prune_tool_to_tokens = 20,
                  keep_recent = 1, enable_summary = True \<rparr>"

lemma indexed_sample: "indexed sample_metas"
  by (simp add: indexed_def sample_metas_def nth_Cons' less_Suc_eq numeral_nat)

lemma compaction_plan_safe_witness:
  "indexed sample_metas \<and> (1 \<in> set (plan_drop (plan_compaction sample_metas sample_cfg)) \<longleftrightarrow>
     2 \<in> set (plan_drop (plan_compaction sample_metas sample_cfg)))"
proof
  show "indexed sample_metas" by (rule indexed_sample)
  have "\<forall>i. i + 1 < length sample_metas \<and> is_tool_dispatch (sample_metas ! i) \<and> is_tool_result (sample_metas ! (i + 1)) \<longrightarrow>
         (i \<in> set (plan_drop (plan_compaction sample_metas sample_cfg)) \<longleftrightarrow>
          i + 1 \<in> set (plan_drop (plan_compaction sample_metas sample_cfg)))"
    using compaction_plan_safe[OF indexed_sample, of sample_cfg] by blast
  from this[rule_format, of 1] show "1 \<in> set (plan_drop (plan_compaction sample_metas sample_cfg)) \<longleftrightarrow>
     2 \<in> set (plan_drop (plan_compaction sample_metas sample_cfg))"
    by (simp add: sample_metas_def numeral_2_eq_2)
qed

text \<open>The plan meets the water mark: counting pruned results at their pruned size, what is kept
  is within the trigger, unless every message the plan may touch has been dropped (save a dispatch
  whose result is among the protected recent messages).\<close>

theorem compaction_plan_budget:
  assumes "indexed metas"
  shows "kept_sum (effective (prune_tool_to_tokens cfg) (prune_tool_results (plan_compaction metas cfg)))
           metas (set (plan_drop (plan_compaction metas cfg))) \<le> trigger_of cfg
    \<or> (\<forall>i. i + keep_recent cfg < length metas \<longrightarrow>
         i \<in> set (plan_drop (plan_compaction metas cfg))
         \<or> (\<exists>j. mate_pos metas i = Some j \<and> length metas \<le> j + keep_recent cfg))"
  using plan_cases[OF assms, of cfg]
  by (auto simp: movable_end_of_def less_diff_conv le_diff_conv)

lemma compaction_plan_budget_witness:
  "indexed sample_metas \<and>
   (kept_sum (effective 20 (prune_tool_results (plan_compaction sample_metas sample_cfg)))
           sample_metas (set (plan_drop (plan_compaction sample_metas sample_cfg))) \<le> trigger_of sample_cfg
    \<or> 0 \<in> set (plan_drop (plan_compaction sample_metas sample_cfg)))"
  using compaction_plan_budget[OF indexed_sample, of sample_cfg] indexed_sample
  by (auto simp: sample_cfg_def sample_metas_def mate_pos_def dest!: spec[of _ 0])

end
