(* ===== verification/Cron.thy ===== *)
theory Cron
  imports Prelude "HOL-Library.Word"
begin

text \<open>
  \<open>crates/oc-core/src/proactive/cron.rs\<close>: the five-field cron parser and the search for the next
  minute it matches.  Field values are \<open>u8\<close>, modelled as 8-bit words: the stepping loop of
  \<open>parse_part\<close> adds with wrap-around, as the release build does (the debug build panics there).
  The crates \<open>time\<close> and \<open>time_tz\<close> are the record \<open>tz_env\<close>: the zone of a name, the wall clock
  of a zone at a Unix second, the representable seconds.  The addition of 366 days at the very
  end of the representable range, which panics, is not modelled.
\<close>

type_synonym u8 = "8 word"

record wall =
  w_year :: int
  w_month :: u8
  w_day :: u8
  w_hour :: u8
  w_minute :: u8
  w_weekday :: u8

record 'z tz_env =
  by_name :: "rstr \<Rightarrow> 'z option"
  wall_of :: "'z \<Rightarrow> int \<Rightarrow> wall"
  zone_name :: "'z \<Rightarrow> rstr"
  in_range :: "int \<Rightarrow> bool"

datatype cron_error = WrongFieldCount | BadField rstr | BadTimezone rstr

definition cron_error_text :: "cron_error \<Rightarrow> rstr" where
  "cron_error_text e = (case e of
     WrongFieldCount \<Rightarrow> lit ''cron '' @ [34920, 36798, 24335, 24517, 39035, 26159, 32] @ lit ''5 '' @
       [20010, 23383, 27573, 65306, 20998, 32, 26102, 32, 26085, 32, 26376, 32, 21608]
   | BadField name \<Rightarrow> lit ''cron '' @ [23383, 27573, 38750, 27861, 65306] @ name
   | BadTimezone tz \<Rightarrow> [26410, 30693, 26102, 21306, 65306] @ tz @ [65288, 38656] @ lit '' IANA '' @
       [21517, 65292, 22914] @ lit '' Asia/Shanghai'' @ [65289])"

definition UTC :: rstr where "UTC = lit ''UTC''"

definition resolve_tz :: "'z tz_env \<Rightarrow> rstr \<Rightarrow> cron_error + 'z" where
  "resolve_tz env tz =
     (let name = trim tz in
      if name = [] \<or> to_ascii_lowercase name = lit ''utc''
      then (case by_name env UTC of Some z \<Rightarrow> Inr z | None \<Rightarrow> Inl (BadTimezone UTC))
      else (case by_name env name of Some z \<Rightarrow> Inr z | None \<Rightarrow> Inl (BadTimezone name)))"

record schedule =
  minutes :: "u8 list"
  hours :: "u8 list"
  doms :: "u8 list"
  months :: "u8 list"
  dows :: "u8 list"
  dom_star :: bool
  dow_star :: bool

definition day_matches :: "schedule \<Rightarrow> wall \<Rightarrow> bool" where
  "day_matches s t =
     (let dom = w_day t \<in> set (doms s); dow = w_weekday t \<in> set (dows s) in
      case (dom_star s, dow_star s) of
        (True, True) \<Rightarrow> True
      | (True, False) \<Rightarrow> dow
      | (False, True) \<Rightarrow> dom
      | (False, False) \<Rightarrow> dom \<or> dow)"

definition sched_matches :: "schedule \<Rightarrow> wall \<Rightarrow> bool" where
  "sched_matches s t \<longleftrightarrow> w_minute t \<in> set (minutes s) \<and> w_hour t \<in> set (hours s)
     \<and> w_month t \<in> set (months s) \<and> day_matches s t"

section \<open>Parsing\<close>

definition parse_u8 :: "rstr \<Rightarrow> u8 option" where
  "parse_u8 s = map_option of_nat (parse_unsigned 255 s)"

text \<open>\<open>let mut v = lo; while v <= hi { out.push(v); v += step; }\<close>, with the number of iterations
  bounded by fuel; \<open>None\<close> is a loop that does not end within it.\<close>

fun expand :: "nat \<Rightarrow> u8 \<Rightarrow> u8 \<Rightarrow> u8 \<Rightarrow> u8 list option" where
  "expand 0 v hi step = None"
| "expand (Suc n) v hi step =
     (if v \<le> hi then map_option (\<lambda>vs. v # vs) (expand n (v + step) hi step) else Some [])"

definition expand_fuel :: nat where "expand_fuel = 257"

definition parse_step :: "rstr \<Rightarrow> rstr \<Rightarrow> cron_error + rstr \<times> u8" where
  "parse_step name part = (case split_once part [47] of
      Some (b, s) \<Rightarrow> (case parse_u8 s of
          None \<Rightarrow> Inl (BadField name)
        | Some st \<Rightarrow> if st = 0 then Inl (BadField name) else Inr (b, st))
    | None \<Rightarrow> Inr (part, 1))"

definition parse_range :: "u8 \<Rightarrow> u8 \<Rightarrow> rstr \<Rightarrow> rstr \<Rightarrow> cron_error + u8 \<times> u8" where
  "parse_range lo0 hi0 name base =
     (if base = [42] then Inr (lo0, hi0)
      else case split_once base [45] of
        Some (a, b) \<Rightarrow> (case parse_u8 a of None \<Rightarrow> Inl (BadField name)
          | Some a' \<Rightarrow> (case parse_u8 b of None \<Rightarrow> Inl (BadField name) | Some b' \<Rightarrow> Inr (a', b')))
      | None \<Rightarrow> (case parse_u8 base of None \<Rightarrow> Inl (BadField name) | Some v \<Rightarrow> Inr (v, v)))"

text \<open>\<open>parse_part\<close> extends \<open>out\<close>; the outer option is \<open>None\<close> only when the loop does not end.\<close>

definition parse_part :: "rstr \<Rightarrow> u8 \<Rightarrow> u8 \<Rightarrow> rstr \<Rightarrow> u8 list \<Rightarrow> (cron_error + u8 list) option" where
  "parse_part part lo0 hi0 name out =
     (case parse_step name part of
        Inl e \<Rightarrow> Some (Inl e)
      | Inr (base, step) \<Rightarrow> (case parse_range lo0 hi0 name base of
          Inl e \<Rightarrow> Some (Inl e)
        | Inr (lo, hi) \<Rightarrow>
            if lo < lo0 \<or> hi0 < hi \<or> hi < lo then Some (Inl (BadField name))
            else map_option (\<lambda>vs. Inr (out @ vs)) (expand expand_fuel lo hi step)))"

fun parse_parts :: "rstr list \<Rightarrow> u8 \<Rightarrow> u8 \<Rightarrow> rstr \<Rightarrow> u8 list \<Rightarrow> (cron_error + u8 list) option" where
  "parse_parts [] lo0 hi0 name out = Some (Inr out)"
| "parse_parts (p # ps) lo0 hi0 name out =
     (case parse_part p lo0 hi0 name out of
        None \<Rightarrow> None
      | Some (Inl e) \<Rightarrow> Some (Inl e)
      | Some (Inr out') \<Rightarrow> parse_parts ps lo0 hi0 name out')"

definition parse_field :: "rstr \<Rightarrow> u8 \<Rightarrow> u8 \<Rightarrow> rstr \<Rightarrow> (cron_error + u8 list) option" where
  "parse_field field lo0 hi0 name =
     (case parse_parts (split_char 44 field) lo0 hi0 name [] of
        None \<Rightarrow> None
      | Some (Inl e) \<Rightarrow> Some (Inl e)
      | Some (Inr out) \<Rightarrow> Some (if out = [] then Inl (BadField name) else Inr (remdups_adj (sort out))))"

definition bind_res :: "('e + 'a) option \<Rightarrow> ('a \<Rightarrow> ('e + 'b) option) \<Rightarrow> ('e + 'b) option" where
  "bind_res r f = (case r of None \<Rightarrow> None | Some (Inl e) \<Rightarrow> Some (Inl e) | Some (Inr v) \<Rightarrow> f v)"

definition parse :: "rstr \<Rightarrow> (cron_error + schedule) option" where
  "parse expr =
     (case split_whitespace expr of
        [f0, f1, f2, f3, f4] \<Rightarrow>
          bind_res (parse_field f0 0 59 (lit ''minute'')) (\<lambda>mi.
          bind_res (parse_field f1 0 23 (lit ''hour'')) (\<lambda>ho.
          bind_res (parse_field f2 1 31 (lit ''day-of-month'')) (\<lambda>dm.
          bind_res (parse_field f3 1 12 (lit ''month'')) (\<lambda>mo.
          bind_res (parse_field f4 0 6 (lit ''day-of-week'')) (\<lambda>dw.
          Some (Inr \<lparr> minutes = mi, hours = ho, doms = dm, months = mo, dows = dw,
                      dom_star = (f2 = [42]), dow_star = (f4 = [42]) \<rparr>))))))
      | _ \<Rightarrow> Some (Inl WrongFieldCount))"

section \<open>The next firing\<close>

text \<open>The minute-by-minute search up to the limit.\<close>

function next_match :: "(int \<Rightarrow> bool) \<Rightarrow> int \<Rightarrow> int \<Rightarrow> int option" where
  "next_match m t limit = (if t \<le> limit then if m t then Some t else next_match m (t + 60) limit else None)"
  by pat_completeness auto
termination
  by (relation "measure (\<lambda>(m, t, limit). nat (limit + 60 - t))") auto

declare next_match.simps [simp del]

definition day_secs :: int where "day_secs = 86400"

definition next_fire :: "'z tz_env \<Rightarrow> rstr \<Rightarrow> int \<Rightarrow> rstr \<Rightarrow> (cron_error + int option) option" where
  "next_fire env expr after tz =
     bind_res (parse expr) (\<lambda>sched.
     bind_res (Some (resolve_tz env tz)) (\<lambda>zone.
     if \<not> in_range env after then Some (Inl (BadField (lit ''after'')))
     else let t = after - after mod 60 + 60; limit = after + 366 * day_secs in
          Some (Inr (next_match (\<lambda>u. sched_matches sched (wall_of env zone u)) t limit))))"

definition ONCE_EXPR :: rstr where "ONCE_EXPR = lit ''@once''"

definition is_once :: "rstr \<Rightarrow> bool" where
  "is_once expr \<longleftrightarrow> trim expr = ONCE_EXPR"

section \<open>Rendering\<close>

text \<open>\<open>{:0w}\<close> of an integer: zeros after the sign.\<close>

definition pad0 :: "nat \<Rightarrow> int \<Rightarrow> rstr" where
  "pad0 w i = (if i < 0 then 45 # replicate (w - 1 - length (show_nat (nat (- i)))) 48 @ show_nat (nat (- i))
               else replicate (w - length (show_nat (nat i))) 48 @ show_nat (nat i))"

definition weekday_cn :: "u8 \<Rightarrow> rstr" where
  "weekday_cn w = (if w = 0 then [21608, 26085] else if w = 1 then [21608, 19968]
     else if w = 2 then [21608, 20108] else if w = 3 then [21608, 19977]
     else if w = 4 then [21608, 22235] else if w = 5 then [21608, 20116] else [21608, 20845])"

definition to_local :: "'z tz_env \<Rightarrow> int \<Rightarrow> rstr \<Rightarrow> (wall \<times> rstr) option" where
  "to_local env ts tz = (case resolve_tz env tz of
      Inl _ \<Rightarrow> None
    | Inr z \<Rightarrow> if in_range env ts then Some (wall_of env z ts, zone_name env z) else None)"

definition fmt_wall :: "wall \<Rightarrow> rstr" where
  "fmt_wall l = pad0 4 (w_year l) @ lit ''-'' @ pad0 2 (uint (w_month l)) @ lit ''-'' @
     pad0 2 (uint (w_day l)) @ lit '' '' @ pad0 2 (uint (w_hour l)) @ lit '':'' @ pad0 2 (uint (w_minute l))"

definition fmt_in_tz :: "'z tz_env \<Rightarrow> int \<Rightarrow> rstr \<Rightarrow> rstr option" where
  "fmt_in_tz env ts tz = map_option (\<lambda>(l, _). fmt_wall l) (to_local env ts tz)"

definition fmt_now_local :: "'z tz_env \<Rightarrow> int \<Rightarrow> rstr \<Rightarrow> rstr option" where
  "fmt_now_local env ts tz =
     map_option (\<lambda>(l, n). fmt_wall l @ lit '' '' @ weekday_cn (w_weekday l) @ lit '' '' @ n) (to_local env ts tz)"


section \<open>Stepping\<close>

lemma unat_add_u8: "unat (a + b :: u8) = (unat a + unat b) mod 256"
  by (simp add: unat_word_ariths)

lemma unat_lt_256: "unat (a :: u8) < 256"
  using unsigned_less[of a, where ?'a = nat] by simp

lemma unat_of_nat_u8: "n < 256 \<Longrightarrow> unat (of_nat n :: u8) = n"
  by (simp add: unat_of_nat)

lemma expand_small_step:
  assumes "unat hi < 128" "0 < unat step" "unat step < 128"
  shows "0 < n \<Longrightarrow> 128 < unat v + n \<Longrightarrow> expand n v hi step \<noteq> None"
proof (induction n arbitrary: v)
  case (Suc n)
  show ?case
  proof (cases "v \<le> hi")
    case True
    then have "unat v < 128" using assms(1) by (simp add: word_le_nat_alt)
    then have "unat (v + step) = unat v + unat step" using assms(3) by (simp add: unat_add_u8)
    with Suc \<open>unat v < 128\<close> assms(2) have "expand n (v + step) hi step \<noteq> None" by simp
    with True show ?thesis by simp
  qed simp
qed simp

lemma expand_big_step:
  assumes "unat hi < 128" "128 \<le> unat step"
  shows "unat v + 1 < n \<or> 0 < n \<and> hi < v \<Longrightarrow> expand n v hi step \<noteq> None"
proof (induction n arbitrary: v)
  case (Suc n)
  show ?case
  proof (cases "v \<le> hi")
    case True
    then have v: "unat v < 128" using assms(1) by (simp add: word_le_nat_alt)
    have n: "unat v + 1 \<le> n" using Suc.prems True by auto
    have "unat (v + step) + 1 < n \<or> 0 < n \<and> hi < v + step"
    proof (cases "unat v + unat step < 256")
      case True
      then show ?thesis using assms n by (simp add: unat_add_u8 word_less_nat_alt)
    next
      case False
      have "unat (v + step) = unat v + unat step - 256"
        using False v unat_lt_256[of step] by (simp add: unat_add_u8 mod_if)
      then show ?thesis using n unat_lt_256[of step] v False by linarith
    qed
    with Suc.IH True show ?thesis by simp
  qed simp
qed simp

lemma expand_terminates:
  assumes "unat hi < 128" "step \<noteq> 0"
  shows "expand expand_fuel v hi step \<noteq> None"
  using expand_small_step[OF assms(1), of step expand_fuel v]
    expand_big_step[OF assms(1), of step v expand_fuel] assms(2) unat_lt_256[of v]
  by (cases "unat step < 128") (auto simp: expand_fuel_def unat_gt_0 unat_eq_zero word_less_nat_alt)

text \<open>Without overflow the loop lists the arithmetic progression.\<close>

lemma expand_values:
  assumes "unat hi + unat step < 256" "step \<noteq> 0"
  shows "expand n v hi step = Some vs \<Longrightarrow> unat v < 256 \<Longrightarrow>
    set vs = {w. v \<le> w \<and> w \<le> hi \<and> unat step dvd unat w - unat v}"
proof (induction n arbitrary: v vs)
  case (Suc n)
  have st: "0 < unat step" using assms(2) by (simp add: unat_gt_0)
  show ?case
  proof (cases "v \<le> hi")
    case True
    then have vh: "unat v \<le> unat hi" by (simp add: word_le_nat_alt)
    then have un: "unat (v + step) = unat v + unat step" using assms(1) by (simp add: unat_add_u8)
    obtain us where us: "expand n (v + step) hi step = Some us" "vs = v # us"
      using Suc.prems True by auto
    have IH: "set us = {w. v + step \<le> w \<and> w \<le> hi \<and> unat step dvd unat w - unat (v + step)}"
      using Suc.IH[OF us(1)] unat_lt_256 by simp
    have split: "(v \<le> w \<and> unat step dvd unat w - unat v) \<longleftrightarrow>
        w = v \<or> v + step \<le> w \<and> unat step dvd unat w - unat (v + step)" for w
    proof (cases "unat v + unat step \<le> unat w")
      case True
      then obtain d where d: "unat w = unat v + unat step + d" using le_Suc_ex by blast
      then have "w \<noteq> v" using st by auto
      then show ?thesis using d by (simp add: word_le_nat_alt un)
    next
      case False
      then have "unat w - unat v < unat step" using st by linarith
      then have "unat step dvd unat w - unat v \<longleftrightarrow> unat w \<le> unat v"
        using nat_dvd_not_less by fastforce
      then show ?thesis using False un
        by (auto simp: word_le_nat_alt word_unat_eq_iff)
    qed
    show ?thesis unfolding us(2) using IH split True by fastforce
  next
    case False
    then show ?thesis using Suc.prems by auto
  qed
qed simp

lemma parse_step_nonzero: "parse_step name part = Inr (b, st) \<Longrightarrow> st \<noteq> 0"
  by (auto simp: parse_step_def split: option.splits if_splits)

lemma parse_part_returns: "unat hi0 < 128 \<Longrightarrow> parse_part part lo0 hi0 name out \<noteq> None"
  using expand_terminates parse_step_nonzero
  by (auto simp: parse_part_def word_le_nat_alt not_less split: sum.splits)

lemma parse_parts_returns: "unat hi0 < 128 \<Longrightarrow> parse_parts ps lo0 hi0 name out \<noteq> None"
  by (induction ps arbitrary: out) (auto simp: parse_part_returns split: option.splits sum.splits)

lemma parse_field_returns: "unat hi0 < 128 \<Longrightarrow> parse_field field lo0 hi0 name \<noteq> None"
  using parse_parts_returns[of hi0 "split_char 44 field" lo0 name "[]"]
  by (auto simp: parse_field_def split: option.splits sum.splits)

lemma bind_res_returns [intro]:
  "r \<noteq> None \<Longrightarrow> (\<And>v. f v \<noteq> None) \<Longrightarrow> bind_res r f \<noteq> None"
  by (auto simp: bind_res_def split: option.splits sum.splits)

section \<open>The search\<close>

lemma stride60:
  fixes v t :: int
  assumes "t \<le> v" "60 dvd v - t" "v \<noteq> t"
  shows "t + 60 \<le> v" "60 dvd v - (t + 60)"
proof -
  have "60 \<le> v - t" using assms by (intro zdvd_imp_le) auto
  then show "t + 60 \<le> v" by simp
  have "v - (t + 60) = v - t - 60" by simp
  then show "60 dvd v - (t + 60)" using assms(2) by (metis dvd_diff dvd_refl)
qed

lemma next_match_Some:
  "next_match m t limit = Some u \<Longrightarrow>
     t \<le> u \<and> u \<le> limit \<and> 60 dvd u - t \<and> m u
     \<and> (\<forall>v. t \<le> v \<and> v < u \<and> 60 dvd v - t \<longrightarrow> \<not> m v)"
proof (induction m t limit rule: next_match.induct)
  case (1 m t limit)
  show ?case
  proof (cases "t \<le> limit \<and> \<not> m t")
    case True
    then have nxt: "next_match m (t + 60) limit = Some u" using 1(2) by (subst (asm) next_match.simps) simp
    note IH = 1(1)[OF conjunct1[OF True] conjunct2[OF True] nxt]
    have "\<not> m v" if v: "t \<le> v" "v < u" "60 dvd v - t" for v
      using IH stride60[OF v(1,3)] v(2) True by metis
    moreover have "60 dvd u - t"
    proof -
      have "u - t = (u - (t + 60)) + 60" by simp
      then show ?thesis using IH by (metis dvd_add dvd_refl)
    qed
    moreover have "t \<le> u" using conjunct1[OF IH] by simp
    ultimately show ?thesis using IH by metis
  next
    case False
    then have "t \<le> limit \<and> m t \<and> u = t"
      using 1(2) by (subst (asm) next_match.simps) (auto split: if_splits)
    then show ?thesis by auto
  qed
qed

lemma next_match_None:
  "next_match m t limit = None \<Longrightarrow> t \<le> v \<Longrightarrow> v \<le> limit \<Longrightarrow> 60 dvd v - t \<Longrightarrow> \<not> m v"
proof (induction m t limit rule: next_match.induct)
  case (1 m t limit)
  have lim: "t \<le> limit" using 1(3,4) by simp
  with 1(2) have t: "\<not> m t" "next_match m (t + 60) limit = None"
    by (subst (asm) next_match.simps, auto split: if_splits)+
  show ?case
  proof (cases "v = t")
    case False
    from 1(1)[OF lim t stride60(1)[OF 1(3,5) False] 1(4) stride60(2)[OF 1(3,5) False]] show ?thesis .
  qed (use t in simp)
qed

section \<open>Evaluation\<close>

lemma expand_numeral [simp]:
  "expand (numeral k) v hi step =
     (if v \<le> hi then map_option (\<lambda>vs. v # vs) (expand (pred_numeral k) (v + step) hi step) else Some [])"
  by (simp add: numeral_eq_Suc)

lemmas cron_eval = parse_field_def parse_part_def parse_step_def parse_range_def parse_u8_def
  parse_unsigned_def is_ascii_digit_def split_once_def starts_with_def expand_fuel_def Let_def

section \<open>What a field allows\<close>

text \<open>The values one part of a field stands for: those of its range, at its stride.\<close>

definition part_allows :: "u8 \<Rightarrow> u8 \<Rightarrow> rstr \<Rightarrow> u8 \<Rightarrow> bool" where
  "part_allows lo0 hi0 p v \<longleftrightarrow>
     (case parse_step [] p of Inl _ \<Rightarrow> False | Inr (base, st) \<Rightarrow>
       (case parse_range lo0 hi0 [] base of Inl _ \<Rightarrow> False | Inr (lo, hi) \<Rightarrow>
          lo \<le> v \<and> v \<le> hi \<and> unat st dvd unat v - unat lo))"

text \<open>The stride cannot carry the loop past 255.\<close>

definition step_fits :: "u8 \<Rightarrow> rstr \<Rightarrow> bool" where
  "step_fits hi0 p \<longleftrightarrow> (case parse_step [] p of Inl _ \<Rightarrow> True | Inr (_, st) \<Rightarrow> unat hi0 + unat st < 256)"

lemma parse_step_name: "parse_step n p = Inr r \<Longrightarrow> parse_step [] p = Inr r"
  by (auto simp: parse_step_def split: option.splits if_splits)

lemma parse_range_name: "parse_range a b n p = Inr r \<Longrightarrow> parse_range a b [] p = Inr r"
  by (auto simp: parse_range_def split: option.splits if_splits)

lemma parse_part_values:
  assumes "parse_part p lo0 hi0 name out = Some (Inr out')" "step_fits hi0 p"
  shows "set out' = set out \<union> {v. part_allows lo0 hi0 p v} \<and> (\<forall>v. part_allows lo0 hi0 p v \<longrightarrow> lo0 \<le> v \<and> v \<le> hi0)"
proof -
  obtain base st lo hi vs where 1: "parse_step name p = Inr (base, st)"
    "parse_range lo0 hi0 name base = Inr (lo, hi)" "lo0 \<le> lo" "hi \<le> hi0"
    "expand expand_fuel lo hi st = Some vs" "out' = out @ vs"
    using assms(1) by (auto simp: parse_part_def not_less split: sum.splits if_splits)
  note 2 = parse_step_name[OF 1(1)] parse_range_name[OF 1(2)]
  have "unat hi + unat st < 256"
    using assms(2) 1(4) 2(1) by (simp add: step_fits_def word_le_nat_alt)
  then have "set vs = {w. lo \<le> w \<and> w \<le> hi \<and> unat st dvd unat w - unat lo}"
    using expand_values[OF _ parse_step_nonzero[OF 1(1)] 1(5) unat_lt_256] by simp
  then show ?thesis using 1 2 by (auto simp: part_allows_def intro: order_trans)
qed

lemma parse_parts_values:
  "parse_parts ps lo0 hi0 name out = Some (Inr out') \<Longrightarrow> \<forall>p \<in> set ps. step_fits hi0 p \<Longrightarrow>
   set out' = set out \<union> {v. \<exists>p \<in> set ps. part_allows lo0 hi0 p v}
   \<and> (\<forall>p \<in> set ps. \<forall>v. part_allows lo0 hi0 p v \<longrightarrow> lo0 \<le> v \<and> v \<le> hi0)"
proof (induction ps arbitrary: out)
  case (Cons p ps)
  obtain o1 where o1: "parse_part p lo0 hi0 name out = Some (Inr o1)"
    "parse_parts ps lo0 hi0 name o1 = Some (Inr out')"
    using Cons.prems(1) by (auto split: option.splits sum.splits)
  show ?case using parse_part_values[OF o1(1)] Cons.IH[OF o1(2)] Cons.prems(2) by auto
qed simp

section \<open>Properties\<close>

text \<open>Parsing an expression and searching the next firing always return: no expression, however
  large its strides, makes the expansion of a field loop.\<close>

theorem cron_returns: "parse expr \<noteq> None \<and> next_fire env expr after tz \<noteq> None"
proof -
  have p: "parse expr \<noteq> None"
  proof (cases "\<exists>f0 f1 f2 f3 f4. split_whitespace expr = [f0, f1, f2, f3, f4]")
    case True
    then obtain f0 f1 f2 f3 f4 where "split_whitespace expr = [f0, f1, f2, f3, f4]" by blast
    then show ?thesis unfolding parse_def
      by (simp only: list.case) (intro bind_res_returns parse_field_returns; simp)
  qed (auto simp: parse_def split: list.splits)
  moreover have "next_fire env expr after tz \<noteq> None"
    unfolding next_fire_def Let_def by (intro bind_res_returns p) (auto split: if_splits)
  ultimately show ?thesis by blast
qed

text \<open>When a field parses and its strides stay within a byte, its value is the sorted list,
  without repetitions, of exactly the values its parts stand for, all within the field's bounds.\<close>

theorem cron_field_values:
  assumes "parse_field field lo0 hi0 name = Some (Inr vs)"
    and "\<forall>p \<in> set (split_char 44 field). step_fits hi0 p"
  shows "sorted vs \<and> distinct vs \<and> set vs \<subseteq> {lo0..hi0} \<and> vs \<noteq> []
    \<and> set vs = {v. \<exists>p \<in> set (split_char 44 field). part_allows lo0 hi0 p v}"
proof -
  obtain out where out: "parse_parts (split_char 44 field) lo0 hi0 name [] = Some (Inr out)"
    "out \<noteq> []" "vs = remdups_adj (sort out)"
    using assms(1) by (auto simp: parse_field_def split: option.splits sum.splits if_splits)
  have "vs \<noteq> []" using out(2,3) by (metis list.size(3) length_sort remdups_adj_Nil_iff length_0_conv)
  with parse_parts_values[OF out(1) assms(2)] out(3) show ?thesis
    by (auto simp: distinct_remdups_adj_sorted sorted_remdups_adj)
qed

lemma cron_field_values_witness:
  "parse_field (lit ''*/15'') 0 59 (lit ''minute'') = Some (Inr [0, 15, 30, 45]) \<and>
   sorted [0, 15, 30, 45 :: u8]"
proof
  show p: "parse_field (lit ''*/15'') 0 59 (lit ''minute'') = Some (Inr [0, 15, 30, 45])"
    by (simp add: cron_eval)
  have "\<forall>p \<in> set (split_char 44 (lit ''*/15'')). step_fits 59 p"
    by (simp add: step_fits_def cron_eval)
  from cron_field_values[OF p this] show "sorted [0, 15, 30, 45 :: u8]" by blast
qed

text \<open>A stride that overflows the byte is not refused and lets values the field does not name
  through: \<open>59/200\<close> in the minute field also fires at minute 3.\<close>

theorem cron_stride_overflow:
  "parse_field (lit ''59/200'') 0 59 (lit ''minute'') = Some (Inr [3, 59]) \<and> \<not> part_allows 0 59 (lit ''59/200'') 3"
  by (simp add: part_allows_def cron_eval)

text \<open>C37. \<open>next_fire\<close> answers the first full minute after \<open>after\<close>, at most 366 days later, at which the
  expression matches the wall clock of the zone, and \<open>None\<close> only when there is no such minute.\<close>

theorem next_fire_least:
  assumes "next_fire env expr after tz = Some (Inr r)"
  shows "\<exists>sched zone. parse expr = Some (Inr sched) \<and> resolve_tz env tz = Inr zone \<and>
    (case r of
       Some u \<Rightarrow> after < u \<and> u \<le> after + 366 * 86400 \<and> u mod 60 = 0
         \<and> sched_matches sched (wall_of env zone u)
         \<and> (\<forall>v. after < v \<and> v < u \<and> v mod 60 = 0 \<longrightarrow> \<not> sched_matches sched (wall_of env zone v))
     | None \<Rightarrow> \<forall>v. after < v \<and> v \<le> after + 366 * 86400 \<and> v mod 60 = 0 \<longrightarrow>
         \<not> sched_matches sched (wall_of env zone v))"
proof -
  define t where "t = after - after mod 60 + 60"
  have "t = 60 * (after div 60 + 1)" by (simp add: t_def minus_mod_eq_mult_div algebra_simps)
  then have t1: "t mod 60 = 0" by (metis mod_mult_self1_is_0)
  have "0 \<le> after mod 60" "after mod 60 < 60" by simp_all
  then have t: "t mod 60 = 0" "after < t" "t \<le> after + 60" using t1 unfolding t_def by linarith+
  have grid: "60 dvd v - t \<longleftrightarrow> v mod 60 = 0" for v
    using t(1) by (metis dvd_eq_mod_eq_0 mod_eq_dvd_iff)
  have above: "t \<le> v" if v: "after < v" "v mod 60 = 0" for v
  proof (rule ccontr)
    assume "\<not> t \<le> v"
    moreover from grid[of v] v(2) have "60 dvd t - v" by (metis dvd_diff_commute)
    ultimately have "v + 60 \<le> t" by (intro stride60) auto
    with v(1) t(3) show False by simp
  qed
  obtain sched zone where sz: "parse expr = Some (Inr sched)" "resolve_tz env tz = Inr zone"
    and r: "r = next_match (\<lambda>u. sched_matches sched (wall_of env zone u)) t (after + 366 * 86400)"
    using assms by (auto simp: next_fire_def bind_res_def Let_def day_secs_def t_def
        split: option.splits sum.splits if_splits)
  show ?thesis
  proof (cases r)
    case (Some u)
    from next_match_Some[OF r[symmetric, unfolded Some]] have
      u: "t \<le> u" "u \<le> after + 366 * 86400" "u mod 60 = 0" "sched_matches sched (wall_of env zone u)"
      "\<forall>v. t \<le> v \<and> v < u \<and> v mod 60 = 0 \<longrightarrow> \<not> sched_matches sched (wall_of env zone v)"
      unfolding grid by metis+
    have "\<forall>v. after < v \<and> v < u \<and> v mod 60 = 0 \<longrightarrow> \<not> sched_matches sched (wall_of env zone v)"
      using u(5) above by metis
    moreover have "after < u" using t(2) u(1) by simp
    ultimately show ?thesis using sz u(2-4) Some by (intro exI[of _ sched] exI[of _ zone]) simp
  next
    case None
    from next_match_None[OF r[symmetric, unfolded None]]
    have "\<forall>v. after < v \<and> v \<le> after + 366 * 86400 \<and> v mod 60 = 0 \<longrightarrow>
         \<not> sched_matches sched (wall_of env zone v)"
      unfolding grid using above by metis
    then show ?thesis using sz None by (intro exI[of _ sched] exI[of _ zone]) simp
  qed
qed

text \<open>A zone whose clock is always midnight of Sunday 1 January.\<close>

definition still_env :: "unit tz_env" where
  "still_env = \<lparr> by_name = (\<lambda>_. Some ()), 
     wall_of = (\<lambda>_ _. \<lparr> w_year = 2023, w_month = 1, w_day = 1, w_hour = 0, w_minute = 0, w_weekday = 0 \<rparr>),
     zone_name = (\<lambda>_. UTC), in_range = (\<lambda>_. True) \<rparr>"

lemma next_fire_least_witness:
  "next_fire still_env (lit ''* * * * *'') 61 UTC = Some (Inr (Some 120)) \<and> (120 :: int) mod 60 = 0"
proof
  show p: "next_fire still_env (lit ''* * * * *'') 61 UTC = Some (Inr (Some 120))"
    by (simp add: next_fire_def parse_def split_whitespace_def is_ws_def bind_res_def resolve_tz_def
        still_env_def UTC_def trim_def trim_start_def trim_end_def to_ascii_lowercase_def
        ascii_lower_def cron_eval next_match.simps day_secs_def sched_matches_def day_matches_def)
  from next_fire_least[OF p] show "(120 :: int) mod 60 = 0" by auto
qed

end
