(* ===== verification/Nag_Policy.thy ===== *)
theory Nag_Policy
  imports Prelude
begin

text \<open>
  \<open>crates/oc-core/src/proactive.rs\<close>: when a standing intent may speak up (expiry, then budget, then
  cooldown), and which scheduled entries are due.  \<open>nag_run\<close> plays a sequence of occasions the way
  the server does: an allowed firing records its time and raises the count.
\<close>

record nag_cfg =
  cooldown_secs :: int
  nag_budget :: nat
  expiry_secs :: int

definition nag_default :: nag_cfg where
  "nag_default = \<lparr> cooldown_secs = 24 * 3600, nag_budget = 3, expiry_secs = 90 * 86400 \<rparr>"

record intent_state =
  created_secs :: int
  last_fired_secs :: "int option"
  fired_count :: nat

datatype deny_reason = Cooldown | BudgetExhausted | Expired
datatype fire_decision = AllowFire | DenyFire deny_reason

definition allow_fire :: "intent_state \<Rightarrow> int \<Rightarrow> nag_cfg \<Rightarrow> fire_decision" where
  "allow_fire st now cfg =
     (if 0 < expiry_secs cfg \<and> expiry_secs cfg < now - created_secs st then DenyFire Expired
      else if nag_budget cfg \<le> fired_count st then DenyFire BudgetExhausted
      else case last_fired_secs st of
        Some lst \<Rightarrow> if now - lst < cooldown_secs cfg then DenyFire Cooldown else AllowFire
      | None \<Rightarrow> AllowFire)"

definition eval_due :: "('i \<times> int option) list \<Rightarrow> int \<Rightarrow> 'i list" where
  "eval_due entries now = List.map_filter
     (\<lambda>(i, next_at). case next_at of Some t \<Rightarrow> if t \<le> now then Some i else None | None \<Rightarrow> None) entries"

definition mark_fired :: "int \<Rightarrow> intent_state \<Rightarrow> intent_state" where
  "mark_fired now st = st\<lparr>last_fired_secs := Some now, fired_count := fired_count st + 1\<rparr>"

fun nag_run :: "nag_cfg \<Rightarrow> intent_state \<Rightarrow> int list \<Rightarrow> int list" where
  "nag_run cfg st [] = []"
| "nag_run cfg st (now # ts) =
     (if allow_fire st now cfg = AllowFire then now # nag_run cfg (mark_fired now st) ts
      else nag_run cfg st ts)"

text \<open>Every firing at least \<open>gap\<close> after the one before it.\<close>

fun spaced :: "int \<Rightarrow> int option \<Rightarrow> int list \<Rightarrow> bool" where
  "spaced gap prev [] = True"
| "spaced gap prev (t # ts) =
     ((case prev of Some p \<Rightarrow> gap \<le> t - p | None \<Rightarrow> True) \<and> spaced gap (Some t) ts)"

lemma allow_fireD:
  assumes "allow_fire st now cfg = AllowFire"
  shows "fired_count st < nag_budget cfg"
    "0 < expiry_secs cfg \<Longrightarrow> now \<le> created_secs st + expiry_secs cfg"
    "last_fired_secs st = Some p \<Longrightarrow> cooldown_secs cfg \<le> now - p"
  using assms by (auto simp: allow_fire_def split: if_splits option.splits)

lemma nag_run_inv:
  "fired_count st \<le> nag_budget cfg \<Longrightarrow>
     length (nag_run cfg st ts) + fired_count st \<le> nag_budget cfg
     \<and> spaced (cooldown_secs cfg) (last_fired_secs st) (nag_run cfg st ts)
     \<and> (0 < expiry_secs cfg \<longrightarrow> (\<forall>t \<in> set (nag_run cfg st ts). t \<le> created_secs st + expiry_secs cfg))"
proof (induction ts arbitrary: st)
  case (Cons now ts)
  show ?case
  proof (cases "allow_fire st now cfg = AllowFire")
    case True
    note allowed = allow_fireD[OF True]
    from Cons.IH[of "mark_fired now st"] allowed(1)
    have IH: "length (nag_run cfg (mark_fired now st) ts) + Suc (fired_count st) \<le> nag_budget cfg"
      "spaced (cooldown_secs cfg) (Some now) (nag_run cfg (mark_fired now st) ts)"
      "0 < expiry_secs cfg \<longrightarrow> (\<forall>t \<in> set (nag_run cfg (mark_fired now st) ts). t \<le> created_secs st + expiry_secs cfg)"
      by (simp_all add: mark_fired_def)
    then show ?thesis using True allowed by (auto split: option.splits)
  next
    case False
    then show ?thesis using Cons by simp
  qed
qed simp

text \<open>However often an intent comes up, and at whatever times, it speaks at most its budget of
  times, each time at least the cooldown after the previous one, and never past its expiry.\<close>

theorem nag_bounded:
  assumes "fired_count st \<le> nag_budget cfg"
  shows "length (nag_run cfg st ts) \<le> nag_budget cfg - fired_count st
     \<and> spaced (cooldown_secs cfg) (last_fired_secs st) (nag_run cfg st ts)
     \<and> (0 < expiry_secs cfg \<longrightarrow> (\<forall>t \<in> set (nag_run cfg st ts). t \<le> created_secs st + expiry_secs cfg))"
  using nag_run_inv[OF assms, of ts] by auto

lemma nag_bounded_witness:
  "length (nag_run nag_default \<lparr> created_secs = 0, last_fired_secs = None, fired_count = 1 \<rparr>
     [0, 10, 86400, 200000]) \<le> 2"
  using nag_bounded[of "\<lparr> created_secs = 0, last_fired_secs = None, fired_count = 1 \<rparr>" nag_default
      "[0, 10, 86400, 200000]"]
  by (simp add: nag_default_def)

end
