(* ===== verification/Tool_Policy.thy ===== *)
theory Tool_Policy
  imports Prelude
begin

text \<open>
  \<open>crates/oc-core/src/tool.rs\<close>: the risk class of a shell command, the approval decision and the
  repetition test on tool calls.  \<open>str::to_lowercase\<close> needs the Unicode tables and is the
  parameter \<open>lc\<close>; the property that needs it assumes what it does on ASCII.
\<close>

datatype risk_class = Safe | NeedsApproval | Blocked
datatype approval_mode = Prompt | Allow | Deny
datatype approval_outcome = Execute | AskUser | Reject

definition danger_substrings :: "rstr list" where
  "danger_substrings = [lit ''rm -rf'', lit ''rm -fr'', lit ''rmdir /s'', lit ''rd /s'',
     lit ''del /f'', lit ''del /q'', lit ''format '', lit ''mkfs'', lit ''dd if='', lit '':(){:|:&};:'',
     lit ''shutdown'', lit ''reboot'', lit ''halt'', lit ''> /dev/sda'', lit ''chmod -r 777 /'', lit ''chown -r'']"

text \<open>\<open>c:\windows\<close> and \<open>c:\program files\<close> spell the backslash by its code 92.\<close>

definition system_paths :: "rstr list" where
  "system_paths = [lit ''/etc/'', lit ''/usr/'', lit ''/bin/'', lit ''/boot/'', lit ''/sys/'', lit ''/dev/'',
     lit ''c:'' @ [92] @ lit ''windows'', lit ''c:'' @ [92] @ lit ''program files'',
     lit ''%systemroot%'', lit ''%windir%'']"

definition is_write :: "rstr \<Rightarrow> bool" where
  "is_write l \<longleftrightarrow> starts_with l (lit ''rm '') \<or> starts_with l (lit ''del '')
     \<or> contains l (lit '' > '') \<or> contains l (lit ''>>'')
     \<or> starts_with l (lit ''mv '') \<or> starts_with l (lit ''move '')
     \<or> starts_with l (lit ''cp '') \<or> starts_with l (lit ''copy '')"

definition classify_command :: "(rstr \<Rightarrow> rstr) \<Rightarrow> rstr \<Rightarrow> risk_class" where
  "classify_command lc cmd =
     (let lower = lc (trim cmd) in
      if (contains lower (lit ''curl'') \<or> contains lower (lit ''wget'') \<or> contains lower (lit ''iwr'')
            \<or> contains lower (lit ''invoke-webrequest''))
         \<and> (contains lower (lit ''| sh'') \<or> contains lower (lit ''|sh'') \<or> contains lower (lit ''| bash'')
            \<or> contains lower (lit ''|bash'') \<or> contains lower (lit ''iex'') \<or> contains lower (lit ''invoke-expression''))
      then Blocked
      else if \<exists>d \<in> set danger_substrings. contains lower d then NeedsApproval
      else if is_write lower \<and> (\<exists>p \<in> set system_paths. contains lower p) then NeedsApproval
      else if starts_with lower (lit ''sudo '') \<or> starts_with lower (lit ''su '') \<or> starts_with lower (lit ''runas'')
      then NeedsApproval
      else Safe)"

definition approval_decision :: "risk_class \<Rightarrow> approval_mode \<Rightarrow> approval_outcome" where
  "approval_decision risk mode = (case mode of
     Allow \<Rightarrow> Execute
   | Deny \<Rightarrow> Reject
   | Prompt \<Rightarrow> (case risk of Safe \<Rightarrow> Execute | NeedsApproval \<Rightarrow> AskUser | Blocked \<Rightarrow> AskUser))"

record tool_fingerprint =
  fp_name :: rstr
  fp_args :: rstr

definition detect_loop :: "tool_fingerprint list \<Rightarrow> nat \<Rightarrow> bool" where
  "detect_loop recent repeat_threshold =
     (if length recent < repeat_threshold then False
      else if recent = [] then False
      else repeat_threshold \<le> length (filter (\<lambda>f. f = last recent) recent))"

section \<open>Trimming keeps what does not start or end with white space\<close>

lemma sublist_drop_ws_prefix:
  assumes "sublist d (pre @ t)" "\<forall>c \<in> set pre. is_ws c" "d \<noteq> []" "\<not> is_ws (hd d)"
  shows "sublist d t"
  using assms
proof (induction pre)
  case (Cons c pre)
  then show ?case by (cases d) (auto simp: sublist_Cons_right)
qed simp

lemma contains_trim:
  assumes "contains s d" "d \<noteq> []" "\<not> is_ws (hd d)" "\<not> is_ws (last d)"
  shows "contains (trim s) d"
proof -
  obtain pre suf where eq: "s = pre @ trim s @ suf" and
    ws: "\<forall>c \<in> set pre. is_ws c" "\<forall>c \<in> set suf. is_ws c" using trim_decompose by blast
  have "sublist d (trim s @ suf)"
    using sublist_drop_ws_prefix[OF _ ws(1) assms(2,3)] assms(1) eq by (metis contains_sublist)
  then have "sublist (rev d) (rev suf @ rev (trim s))" by (simp flip: rev_append)
  then have "sublist (rev d) (rev (trim s))"
    using sublist_drop_ws_prefix[of "rev d" "rev suf" "rev (trim s)"] ws(2) assms(2,4)
    by (simp add: hd_rev)
  then show ?thesis by (simp add: contains_sublist)
qed

lemma ascii_lower_ws [simp]: "is_ws (ascii_lower c) = is_ws c"
  by (auto simp: ascii_lower_def is_ws_def)

lemma dropWhile_map_ascii_lower:
  "dropWhile is_ws (map ascii_lower s) = map ascii_lower (dropWhile is_ws s)"
  by (induction s) auto

lemma trim_to_ascii_lowercase: "trim (to_ascii_lowercase s) = to_ascii_lowercase (trim s)"
  by (simp add: trim_def trim_start_def trim_end_def to_ascii_lowercase_def dropWhile_map_ascii_lower
      rev_map)

section \<open>Properties\<close>

text \<open>The patterns that a trailing blank does not belong to.\<close>

definition solid_dangers :: "rstr list" where
  "solid_dangers = filter (\<lambda>d. \<not> is_ws (last d)) danger_substrings"

lemma solid_dangers_shape:
  "d \<in> set solid_dangers \<Longrightarrow> d \<in> set danger_substrings \<and> d \<noteq> [] \<and> \<not> is_ws (hd d) \<and> \<not> is_ws (last d)"
proof -
  assume d: "d \<in> set solid_dangers"
  have "\<forall>d \<in> set solid_dangers. d \<in> set danger_substrings \<and> d \<noteq> [] \<and> \<not> is_ws (hd d) \<and> \<not> is_ws (last d)"
    by code_simp
  with d show ?thesis by blast
qed

lemma danger_not_safe:
  assumes lc: "\<And>s. \<forall>c \<in> set s. c < 128 \<Longrightarrow> lc s = to_ascii_lowercase s"
    and ascii: "\<forall>c \<in> set cmd. c < 128"
    and d: "d \<in> set solid_dangers" "contains (to_ascii_lowercase cmd) d"
  shows "classify_command lc cmd \<noteq> Safe"
proof -
  have "lc (trim cmd) = trim (to_ascii_lowercase cmd)"
    using lc[of "trim cmd"] ascii set_trim[of cmd] by (auto simp: trim_to_ascii_lowercase)
  then have "\<exists>d \<in> set danger_substrings. contains (lc (trim cmd)) d"
    using contains_trim[OF d(2)] solid_dangers_shape[OF d(1)] by auto
  then show ?thesis by (simp add: classify_command_def Let_def)
qed

text \<open>An ASCII command that contains one of the destructive patterns in any case, wherever it
  stands in the command, is never executed without a decision: it asks the user in prompt mode and
  is refused in deny mode.  (\<open>lc\<close> is \<open>str::to_lowercase\<close>.)\<close>

theorem danger_needs_decision:
  assumes lc: "\<And>s. \<forall>c \<in> set s. c < 128 \<Longrightarrow> lc s = to_ascii_lowercase s"
    and ascii: "\<forall>c \<in> set cmd. c < 128"
    and d: "d \<in> set solid_dangers" "contains (to_ascii_lowercase cmd) d"
  shows "approval_decision (classify_command lc cmd) Prompt = AskUser
    \<and> approval_decision (classify_command lc cmd) Deny = Reject"
proof -
  have "classify_command lc cmd \<noteq> Safe" by (rule danger_not_safe[OF assms])
  then show ?thesis by (cases "classify_command lc cmd") (simp_all add: approval_decision_def)
qed

lemma danger_needs_decision_witness:
  "approval_decision (classify_command to_ascii_lowercase (lit '' echo a; RM -Rf b'')) Prompt = AskUser
    \<and> approval_decision (classify_command to_ascii_lowercase (lit '' echo a; RM -Rf b'')) Deny = Reject"
proof (rule danger_needs_decision)
  show "\<forall>c \<in> set (lit '' echo a; RM -Rf b''). c < 128" by code_simp
  show "lit ''rm -rf'' \<in> set solid_dangers" by code_simp
  show "contains (to_ascii_lowercase (lit '' echo a; RM -Rf b'')) (lit ''rm -rf'')" by code_simp
qed simp

text \<open>A run of \<open>n\<close> equal calls at the end of the recent calls is recognised as a loop for every
  threshold up to \<open>n\<close>, whatever came before; and a loop is never reported when the last call
  occurs fewer times than the threshold.\<close>

theorem detect_loop_spec:
  "detect_loop (pre @ replicate (Suc n) f) k \<longleftrightarrow> k \<le> Suc n + count_list pre f"
proof -
  have l: "last (pre @ replicate (Suc n) f) = f" by (simp add: replicate_append_same[symmetric] del: replicate_Suc)
  have "length (filter (\<lambda>g. g = f) pre) = count_list pre f"
    by (induction pre) auto
  moreover have "count_list pre f \<le> length pre" by (induction pre) auto
  moreover have "filter (\<lambda>g. g = f) (replicate (Suc n) f) = replicate (Suc n) f" by simp
  ultimately show ?thesis using l by (auto simp: detect_loop_def simp del: replicate_Suc)
qed

end
