(* ===== verification/Memory_Policy.thy ===== *)
theory Memory_Policy
  imports Prelude Float_Model
begin

text \<open>
  \<open>crates/oc-core/src/memory.rs\<close>: provenance, lexical ranking, trigger prefilter, preference
  supersession, explicit "remember" commands and the extraction of episodes from a conversation.
  Parameters: \<open>lc\<close> is \<open>str::to_lowercase\<close> (Unicode tables), \<open>powf\<close> is \<open>f64::powf\<close>.
\<close>

datatype tier = Curated | Episodic | Prospective | Review
datatype origin = Owner | AgentOrigin | Untrusted | System
datatype write_source = UserExplicit | MainAgent | ExternalContent | BackgroundSession | UnknownSource

definition classify_origin :: "write_source \<Rightarrow> origin" where
  "classify_origin src = (case src of
     UserExplicit \<Rightarrow> Owner
   | MainAgent \<Rightarrow> AgentOrigin
   | ExternalContent \<Rightarrow> Untrusted
   | BackgroundSession \<Rightarrow> System
   | UnknownSource \<Rightarrow> Untrusted)"

definition produces_persistent_candidate :: "write_source \<Rightarrow> bool" where
  "produces_persistent_candidate src \<longleftrightarrow> src \<noteq> BackgroundSession"

record mem_candidate =
  mc_id :: rstr
  mc_tier :: tier
  mc_origin :: origin
  mc_text :: rstr
  mc_importance :: flt
  mc_last_used_secs :: int
  mc_source :: "rstr option"

record ranked =
  rk_id :: rstr
  rk_score :: flt

record rank_cfg =
  halflife_secs :: flt

definition rank_default :: rank_cfg where
  "rank_default = \<lparr> halflife_secs = Fin 2592000 \<rparr>"

text \<open>The number of non-empty query terms that occur in the text, case folded.\<close>

definition hit_count :: "(rstr \<Rightarrow> rstr) \<Rightarrow> rstr list \<Rightarrow> rstr \<Rightarrow> nat" where
  "hit_count lc query_terms text =
     length (filter (\<lambda>t. t \<noteq> [] \<and> contains (lc text) (lc t)) query_terms)"

definition lexical_relevance :: "(rstr \<Rightarrow> rstr) \<Rightarrow> rstr \<Rightarrow> rstr list \<Rightarrow> flt" where
  "lexical_relevance lc text query_terms =
     (if query_terms = [] then Fin 0
      else flt_div f64 (f64 (of_nat (hit_count lc query_terms text))) (f64 (of_nat (length query_terms))))"

definition halflife_factor :: "(flt \<Rightarrow> flt \<Rightarrow> flt) \<Rightarrow> int \<Rightarrow> int \<Rightarrow> flt \<Rightarrow> flt" where
  "halflife_factor powf now last_used halflife =
     (let delta = f64 (of_int (max (now - last_used) 0))
      in powf (Fin 2) (flt_div f64 (flt_neg delta) halflife))"

definition rank_one :: "(rstr \<Rightarrow> rstr) \<Rightarrow> (flt \<Rightarrow> flt \<Rightarrow> flt) \<Rightarrow> rstr list \<Rightarrow> int \<Rightarrow> rank_cfg \<Rightarrow> mem_candidate \<Rightarrow> ranked" where
  "rank_one lc powf query_terms now cfg c =
     (let rel = lexical_relevance lc (mc_text c) query_terms;
          hl = halflife_factor powf now (mc_last_used_secs c) (halflife_secs cfg)
      in \<lparr> rk_id = mc_id c, rk_score = flt_mul f64 (flt_mul f64 rel hl) (mc_importance c) \<rparr>)"

definition rank :: "(rstr \<Rightarrow> rstr) \<Rightarrow> (flt \<Rightarrow> flt \<Rightarrow> flt) \<Rightarrow> mem_candidate list \<Rightarrow> rstr list \<Rightarrow> int \<Rightarrow> rank_cfg \<Rightarrow> ranked list" where
  "rank lc powf cands query_terms now cfg =
     sort_by (\<lambda>a b. flt_lt (rk_score a) (rk_score b)) (map (rank_one lc powf query_terms now cfg) cands)"

text \<open>The comparator of \<open>trigger_prefilter\<close>: more hits first, then more importance.\<close>

definition trigger_after :: "nat \<times> mem_candidate \<Rightarrow> nat \<times> mem_candidate \<Rightarrow> bool" where
  "trigger_after a b \<longleftrightarrow> fst a < fst b \<or> fst a = fst b \<and> flt_lt (mc_importance (snd a)) (mc_importance (snd b))"

definition trigger_prefilter :: "(rstr \<Rightarrow> rstr) \<Rightarrow> mem_candidate list \<Rightarrow> rstr list \<Rightarrow> nat \<Rightarrow> rstr list" where
  "trigger_prefilter lc cands query_terms limit =
     (let scored = filter (\<lambda>(hits, _). 1 \<le> hits)
             (map (\<lambda>c. (hit_count lc query_terms (mc_text c), c)) (filter (\<lambda>c. mc_tier c = Curated) cands))
      in map (\<lambda>(_, c). mc_id c) (take limit (sort_by trigger_after scored)))"

definition is_auto_injectable :: "tier \<Rightarrow> bool" where
  "is_auto_injectable t \<longleftrightarrow> t = Curated"

section \<open>Preferences\<close>

datatype supersede_plan = Replace rstr | Add | Ignore

record pref =
  pref_id :: rstr
  pref_key :: rstr
  pref_value :: rstr

fun supersede :: "pref list \<Rightarrow> pref \<Rightarrow> supersede_plan" where
  "supersede [] incoming = Add"
| "supersede (e # es) incoming =
     (if pref_key e = pref_key incoming
      then (if pref_value e = pref_value incoming then Ignore else Replace (pref_id e))
      else supersede es incoming)"

definition key_editor :: rstr where "key_editor = [32534, 36753, 22120]"
definition key_os :: rstr where "key_os = [25805, 20316, 31995, 32479]"
definition key_lang :: rstr where "key_lang = [32534, 31243, 35821, 35328]"
definition key_style :: rstr where "key_style = [22238, 22797, 39118, 26684]"
definition key_reply :: rstr where "key_reply = [22238, 22797, 35821, 35328]"
definition key_name :: rstr where "key_name = [31216, 21628]"

definition pref_topics :: "(rstr \<times> rstr list) list" where
  "pref_topics = [
     (key_editor, [lit ''vs code'', lit ''vscode'', lit ''neovim'', lit ''nvim'', lit ''vim'', lit ''emacs'',
        lit ''sublime'', lit ''jetbrains'', lit ''intellij'', key_editor, lit ''ide'']),
     (key_os, [lit ''windows'', lit ''macos'', lit ''mac os'', lit ''linux'', lit ''ubuntu'', lit ''debian'',
        key_os, [31995, 32479, 26159], [31995, 32479, 29992]]),
     (key_lang, [lit ''rust'', lit ''python'', lit ''java'', lit ''golang'', lit ''go '' @ [35821, 35328],
        lit ''typescript'', lit ''javascript'', lit ''c++'', key_lang, [20027, 21147, 35821, 35328],
        [20889, 20195, 30721, 29992]]),
     (key_style, [[31616, 27905], [35814, 32454], key_style, [21035, 21872, 21990], [38271, 35805, 30701, 35828],
        [35828, 37325, 28857]]),
     (key_reply, [[20013, 25991], [33521, 25991], lit ''english'', key_reply, [29992, 20013, 25991], [29992, 33521, 25991]]),
     (key_name, [[21483, 25105], [31216, 21628, 25105], [25105, 30340, 21517, 23383]])]"

definition extract_pref_key :: "(rstr \<Rightarrow> rstr) \<Rightarrow> rstr \<Rightarrow> rstr option" where
  "extract_pref_key lc text =
     map_option fst (find (\<lambda>(_, triggers). \<exists>t \<in> set triggers. contains (lc text) t) pref_topics)"

record standing_intent =
  si_id :: rstr
  si_keywords :: "rstr list"

definition intent_prefilter :: "(rstr \<Rightarrow> rstr) \<Rightarrow> rstr \<Rightarrow> standing_intent list \<Rightarrow> rstr list" where
  "intent_prefilter lc msg intents =
     map si_id (filter (\<lambda>i. \<exists>k \<in> set (si_keywords i). k \<noteq> [] \<and> contains (lc msg) (lc k)) intents)"

section \<open>Explicit memory\<close>

definition remember_triggers :: "rstr list" where
  "remember_triggers = [[35760, 20303], [35760, 19968, 19979], [35760, 19979], [21035, 24536, 20102],
     [24110, 25105, 35760], [35831, 35760, 20303], lit ''remember that '', lit ''remember '', lit ''note that '',
     lit ''please remember '']"

definition is_lead :: "rchar \<Rightarrow> bool" where
  "is_lead c \<longleftrightarrow> is_ws c \<or> c = 65306 \<or> c = 58 \<or> c = 44 \<or> c = 65292"

text \<open>The loop over the triggers; the inner \<open>None\<close> is "no explicit memory", the outer one the panic of
  a slice off a character boundary.\<close>

fun detect_loop_triggers :: "rstr list \<Rightarrow> rstr \<Rightarrow> rstr \<Rightarrow> rstr option option" where
  "detect_loop_triggers [] trimmed lower = Some None"
| "detect_loop_triggers (trig # trigs) trimmed lower =
     (if starts_with lower trig
      then (case drop_bytes (byte_len trig) trimmed of
          None \<Rightarrow> None
        | Some rest \<Rightarrow>
            let content = trim (dropWhile is_lead rest) in
            if content \<noteq> [] then Some (Some content) else detect_loop_triggers trigs trimmed lower)
      else detect_loop_triggers trigs trimmed lower)"

definition detect_explicit_memory :: "(rstr \<Rightarrow> rstr) \<Rightarrow> rstr \<Rightarrow> rstr option option" where
  "detect_explicit_memory lc msg =
     (let trimmed = trim_start msg in detect_loop_triggers remember_triggers trimmed (lc trimmed))"

text \<open>What the callers see when no slice panics.\<close>

definition explicit_content :: "(rstr \<Rightarrow> rstr) \<Rightarrow> rstr \<Rightarrow> rstr option" where
  "explicit_content lc msg = (case detect_explicit_memory lc msg of Some r \<Rightarrow> r | None \<Rightarrow> None)"

section \<open>Episodes\<close>

record episode_candidate =
  ec_content :: rstr
  ec_importance :: flt

datatype role = RUser | RAssistant | RTool | RSystem

record conversation_entry =
  ce_role :: role
  ce_content :: rstr

definition MIN_PAIR_CHARS :: nat where "MIN_PAIR_CHARS = 12"
definition MIN_LONE_USER_CHARS :: nat where "MIN_LONE_USER_CHARS = 15"
definition MIN_LONE_ASSISTANT_CHARS :: nat where "MIN_LONE_ASSISTANT_CHARS = 40"

definition add_if :: "bool \<Rightarrow> rat \<Rightarrow> flt \<Rightarrow> flt" where
  "add_if b x score = (if b then flt_add f64 score (f64 x) else score)"

definition is_question :: "rstr \<Rightarrow> bool" where
  "is_question text \<longleftrightarrow> 63 \<in> set text \<or> 65311 \<in> set text
     \<or> contains text [24590, 20040] \<or> contains text [22914, 20309]"

definition estimate_importance_single :: "rstr \<Rightarrow> role \<Rightarrow> flt" where
  "estimate_importance_single text role =
     flt_min (add_if (contains text [25105, 30340] \<or> contains text [36935, 21040] \<or> contains text [20986, 29616]
                 \<or> contains text [25253, 38169] \<or> contains text [38382, 39064] \<or> contains text [20915, 23450]
                 \<or> contains text [36873, 25321]) (1 / 10)
       (add_if (role = RUser \<and> is_question text) (15 / 100)
       (add_if (150 < length text) (1 / 10)
       (add_if (50 < length text) (1 / 10) (f64 (3 / 10))))))
     (f64 (7 / 10))"

definition estimate_importance_pair :: "rstr \<Rightarrow> rstr \<Rightarrow> flt" where
  "estimate_importance_pair user assistant =
     (let total_len = length user + length assistant in
      flt_min (add_if (contains assistant [96, 96, 96] \<or> contains assistant (lit ''1. '') \<or> contains assistant (lit ''- '')) (1 / 10)
       (add_if (is_question user \<and> 10 < length assistant) (15 / 100)
       (add_if (300 < total_len) (1 / 10)
       (add_if (100 < total_len) (15 / 100) (f64 (55 / 100))))))
      (f64 (9 / 10)))"

definition flush_lone_user :: "(rstr \<Rightarrow> rstr) \<Rightarrow> rstr \<Rightarrow> episode_candidate list" where
  "flush_lone_user lc u =
     (if length u < MIN_LONE_USER_CHARS then []
      else if explicit_content lc u \<noteq> None then []
      else [\<lparr> ec_content = u, ec_importance = estimate_importance_single u RUser \<rparr>])"

fun episode_loop :: "(rstr \<Rightarrow> rstr) \<Rightarrow> rstr option \<Rightarrow> conversation_entry list \<Rightarrow> episode_candidate list" where
  "episode_loop lc pending [] = (case pending of Some u \<Rightarrow> flush_lone_user lc u | None \<Rightarrow> [])"
| "episode_loop lc pending (e # es) =
     (case ce_role e of
        RUser \<Rightarrow> (case pending of Some u \<Rightarrow> flush_lone_user lc u | None \<Rightarrow> [])
                   @ episode_loop lc (Some (ce_content e)) es
      | RAssistant \<Rightarrow>
          if trim (ce_content e) = [] then episode_loop lc pending es
          else (case pending of
              Some u \<Rightarrow>
                (if MIN_PAIR_CHARS \<le> length u + length (ce_content e) \<and> explicit_content lc u = None
                 then [\<lparr> ec_content = u @ [10, 10] @ ce_content e,
                         ec_importance = estimate_importance_pair u (ce_content e) \<rparr>]
                 else [])
            | None \<Rightarrow>
                (if MIN_LONE_ASSISTANT_CHARS \<le> length (ce_content e)
                 then [\<lparr> ec_content = ce_content e,
                         ec_importance = estimate_importance_single (ce_content e) RAssistant \<rparr>]
                 else []))
            @ episode_loop lc None es
      | _ \<Rightarrow> episode_loop lc pending es)"

definition extract_episode_candidates :: "(rstr \<Rightarrow> rstr) \<Rightarrow> conversation_entry list \<Rightarrow> episode_candidate list" where
  "extract_episode_candidates lc entries = episode_loop lc None entries"


section \<open>Facts\<close>

lemma detect_loop_content:
  "detect_loop_triggers trigs trimmed lower = Some (Some c) \<Longrightarrow>
     \<exists>trig rest. trig \<in> set trigs \<and> starts_with lower trig \<and> drop_bytes (byte_len trig) trimmed = Some rest
        \<and> c = trim (dropWhile is_lead rest) \<and> c \<noteq> []"
  by (induction trigs trimmed lower rule: detect_loop_triggers.induct)
     (fastforce simp: Let_def split: if_splits option.splits)+

lemma rank_perm: "mset (map rk_id (rank lc powf cands qt now cfg)) = mset (map mc_id cands)"
  by (simp add: rank_def rank_one_def Let_def comp_def multiset.map_comp)

lemma episode_loop_sound:
  assumes "c \<in> set (episode_loop lc pending es)"
  shows "(\<exists>u. (pending = Some u \<or> \<lparr> ce_role = RUser, ce_content = u \<rparr> \<in> set es) \<and> explicit_content lc u = None
        \<and> (c = \<lparr> ec_content = u, ec_importance = estimate_importance_single u RUser \<rparr> \<and> MIN_LONE_USER_CHARS \<le> length u
           \<or> (\<exists>a. \<lparr> ce_role = RAssistant, ce_content = a \<rparr> \<in> set es \<and> trim a \<noteq> []
               \<and> MIN_PAIR_CHARS \<le> length u + length a
               \<and> c = \<lparr> ec_content = u @ [10, 10] @ a, ec_importance = estimate_importance_pair u a \<rparr>)))
     \<or> (\<exists>a. \<lparr> ce_role = RAssistant, ce_content = a \<rparr> \<in> set es \<and> trim a \<noteq> [] \<and> MIN_LONE_ASSISTANT_CHARS \<le> length a
          \<and> c = \<lparr> ec_content = a, ec_importance = estimate_importance_single a RAssistant \<rparr>)"
  (is "?P pending es")
  using assms
proof (induction es arbitrary: pending)
  case Nil
  then show ?case by (auto simp: flush_lone_user_def split: option.splits if_splits)
next
  case (Cons e es)
  obtain r t where e: "e = \<lparr> ce_role = r, ce_content = t \<rparr>" by (cases e) auto
  have mono: "?P pending es \<Longrightarrow> ?P pending (e # es)" "?P None es \<Longrightarrow> ?P pending (e # es)"
    by auto
  show ?case
  proof (cases r)
    case RUser
    then consider u where "pending = Some u" "c \<in> set (flush_lone_user lc u)"
      | "c \<in> set (episode_loop lc (Some t) es)"
      using Cons.prems e by (auto split: option.splits)
    then show ?thesis
    proof cases
      case 1
      then show ?thesis by (auto simp: flush_lone_user_def split: if_splits)
    next
      case 2
      from Cons.IH[OF this] show ?thesis using e RUser by auto
    qed
  next
    case RAssistant
    then consider "c \<in> set (episode_loop lc pending es)" | "c \<in> set (episode_loop lc None es)"
      | u where "pending = Some u" "trim t \<noteq> []" "explicit_content lc u = None" "MIN_PAIR_CHARS \<le> length u + length t"
          "c = \<lparr> ec_content = u @ [10, 10] @ t, ec_importance = estimate_importance_pair u t \<rparr>"
      | "trim t \<noteq> []" "MIN_LONE_ASSISTANT_CHARS \<le> length t"
          "c = \<lparr> ec_content = t, ec_importance = estimate_importance_single t RAssistant \<rparr>"
      using Cons.prems e by (auto split: option.splits if_splits)
    then show ?thesis
    proof cases
      case 1
      from mono(1)[OF Cons.IH[OF 1]] show ?thesis .
    next
      case 2
      from mono(2)[OF Cons.IH[OF 2]] show ?thesis .
    qed (use e RAssistant in auto)
  qed (use Cons e mono in auto)
qed

lemma estimates_bounded:
  "\<not> flt_lt (f64 (7 / 10)) (estimate_importance_single t r)"
  "\<not> flt_lt (f64 (9 / 10)) (estimate_importance_pair u a)"
  unfolding estimate_importance_single_def estimate_importance_pair_def Let_def
  by (rule flt_min_not_above)+

section \<open>Properties\<close>

text \<open>Ranking loses and invents no memory, and when no score is NaN the answer is in descending
  order of score.\<close>

theorem rank_sorted_perm:
  "mset (map rk_id (rank lc powf cands qt now cfg)) = mset (map mc_id cands)
   \<and> ((\<forall>r \<in> set (rank lc powf cands qt now cfg). rk_score r \<noteq> NaN) \<longrightarrow>
      sorted_wrt (\<lambda>a b. \<not> flt_lt (rk_score a) (rk_score b)) (rank lc powf cands qt now cfg))"
proof (intro conjI impI)
  show "mset (map rk_id (rank lc powf cands qt now cfg)) = mset (map mc_id cands)" by (rule rank_perm)
  assume "\<forall>r \<in> set (rank lc powf cands qt now cfg). rk_score r \<noteq> NaN"
  then show "sorted_wrt (\<lambda>a b. \<not> flt_lt (rk_score a) (rk_score b)) (rank lc powf cands qt now cfg)"
    unfolding rank_def by (intro sorted_sort_by) (auto intro: flt_lt_asym dest: flt_not_lt_trans flt_lt_asym)
qed

lemma rank_sorted_perm_witness:
  "sorted_wrt (\<lambda>a b. \<not> flt_lt (rk_score a) (rk_score b))
     (rank (\<lambda>s. s) (\<lambda>_ _. Fin 1)
       [\<lparr> mc_id = [1], mc_tier = Curated, mc_origin = Owner, mc_text = [97], mc_importance = Fin 1,
          mc_last_used_secs = 0, mc_source = None \<rparr>] [] 0 rank_default)"
proof -
  let ?r = "rank (\<lambda>s. s) (\<lambda>_ _. Fin 1)
       [\<lparr> mc_id = [1], mc_tier = Curated, mc_origin = Owner, mc_text = [97], mc_importance = Fin 1,
          mc_last_used_secs = 0, mc_source = None \<rparr>] [] 0 rank_default"
  have "\<forall>r \<in> set ?r. rk_score r \<noteq> NaN"
    by (simp add: rank_def rank_one_def lexical_relevance_def halflife_factor_def f64_def round_flt_def)
  then show ?thesis
    using rank_sorted_perm[of "\<lambda>s. s" "\<lambda>_ _. Fin 1" "[\<lparr> mc_id = [1], mc_tier = Curated, mc_origin = Owner, mc_text = [97], mc_importance = Fin 1,
          mc_last_used_secs = 0, mc_source = None \<rparr>]" "[]" 0 rank_default] by blast
qed

lemma trigger_after_asym: "trigger_after a b \<Longrightarrow> \<not> trigger_after b a"
  using flt_lt_asym[of "mc_importance (snd a)" "mc_importance (snd b)"]
  by (auto simp: trigger_after_def)

lemma trigger_after_trans:
  assumes "mc_importance (snd b) \<noteq> NaN" "\<not> trigger_after a b" "\<not> trigger_after b c"
  shows "\<not> trigger_after a c"
  using assms flt_not_lt_trans[of "mc_importance (snd b)" "mc_importance (snd a)" "mc_importance (snd c)"]
  by (auto simp: trigger_after_def not_less)

text \<open>The memories injected into a turn are at most \<open>limit\<close>, all of the curated tier and each with a
  query term in its text; those left out have no more hits than any chosen one, nor more
  importance at equal hits, and nothing is left out while there is room.\<close>

theorem trigger_prefilter_best:
  assumes "\<forall>c \<in> set cands. mc_importance c \<noteq> NaN"
  shows "\<exists>sel rest. trigger_prefilter lc cands qt limit = map mc_id sel \<and> length sel \<le> limit
    \<and> mset (sel @ rest) = mset (filter (\<lambda>c. mc_tier c = Curated \<and> 1 \<le> hit_count lc qt (mc_text c)) cands)
    \<and> (rest \<noteq> [] \<longrightarrow> length sel = limit)
    \<and> (\<forall>a \<in> set sel. \<forall>b \<in> set rest. hit_count lc qt (mc_text b) < hit_count lc qt (mc_text a)
         \<or> hit_count lc qt (mc_text b) = hit_count lc qt (mc_text a)
           \<and> \<not> flt_lt (mc_importance a) (mc_importance b))"
proof -
  define h :: "mem_candidate \<Rightarrow> nat" where "h c = hit_count lc qt (mc_text c)" for c
  define good where "good = filter (\<lambda>c. mc_tier c = Curated \<and> 1 \<le> h c) cands"
  define srt where "srt = sort_by trigger_after (map (\<lambda>c. (h c, c)) good)"
  have ids: "trigger_prefilter lc cands qt limit = map mc_id (take limit (map snd srt))"
    by (simp add: trigger_prefilter_def srt_def good_def h_def Let_def filter_map comp_def case_prod_beta
        take_map conj_commute)
  have good: "c \<in> set good \<Longrightarrow> mc_importance c \<noteq> NaN" for c using assms by (simp add: good_def)
  have "sorted_wrt (\<lambda>a b. \<not> trigger_after a b) srt"
    unfolding srt_def
  proof (rule sorted_sort_by)
    fix x y z
    assume "x \<in> set (map (\<lambda>c. (h c, c)) good)" "y \<in> set (map (\<lambda>c. (h c, c)) good)"
      "\<not> trigger_after x y" "\<not> trigger_after y z"
    then show "\<not> trigger_after x z" using good
      by (intro trigger_after_trans[of y x z]) (force, assumption+)
  qed (rule trigger_after_asym)
  then have sorted: "\<forall>x \<in> set (take limit srt). \<forall>y \<in> set (drop limit srt). \<not> trigger_after x y"
    using sorted_wrt_append[of "\<lambda>a b. \<not> trigger_after a b" "take limit srt" "drop limit srt"] by simp
  have pairs: "x \<in> set srt \<Longrightarrow> fst x = h (snd x)" for x by (auto simp: srt_def)
  have "mset (map snd srt) = mset good" by (simp add: srt_def multiset.map_comp comp_def)
  then have perm: "mset (take limit (map snd srt) @ drop limit (map snd srt)) = mset good" by simp
  have best: "h b < h a \<or> h b = h a \<and> \<not> flt_lt (mc_importance a) (mc_importance b)"
    if ab: "a \<in> set (take limit (map snd srt))" "b \<in> set (drop limit (map snd srt))" for a b
  proof -
    obtain x y where xy: "x \<in> set (take limit srt)" "a = snd x" "y \<in> set (drop limit srt)" "b = snd y"
      using ab by (auto simp: take_map drop_map)
    then have "\<not> trigger_after x y" using sorted by blast
    moreover have "fst x = h a" "fst y = h b"
      using pairs[OF in_set_takeD[OF xy(1)]] pairs[OF in_set_dropD[OF xy(3)]] xy(2,4) by simp_all
    ultimately show ?thesis using xy(2,4) unfolding trigger_after_def by (metis linorder_neqE_nat)
  qed
  have room: "drop limit (map snd srt) \<noteq> [] \<longrightarrow> length (take limit (map snd srt)) = limit" by auto
  show ?thesis
    by (rule exI[of _ "take limit (map snd srt)"], rule exI[of _ "drop limit (map snd srt)"])
       (intro conjI ballI ids perm[unfolded good_def h_def] best[unfolded h_def] room; simp)
qed

definition sample_cand :: mem_candidate where
  "sample_cand = \<lparr> mc_id = [1], mc_tier = Curated, mc_origin = Owner, mc_text = [97],
     mc_importance = Fin 1, mc_last_used_secs = 0, mc_source = None \<rparr>"

lemma trigger_prefilter_best_witness:
  "\<exists>sel :: mem_candidate list. trigger_prefilter (\<lambda>s. s) [sample_cand] [[97]] 3 = map mc_id sel \<and> length sel \<le> 3"
proof -
  have "\<forall>c \<in> set [sample_cand]. mc_importance c \<noteq> NaN" by (simp add: sample_cand_def)
  from trigger_prefilter_best[OF this, of "\<lambda>s. s" "[[97]]" 3]
  obtain sel :: "mem_candidate list" where "trigger_prefilter (\<lambda>s. s) [sample_cand] [[97]] 3 = map mc_id sel" "length sel \<le> 3"
    by (elim exE conjE) (rule that, assumption+)
  then show ?thesis by blast
qed

text \<open>Every episode kept from a conversation is a user turn of at least 15 characters, a user turn
  with a non-blank assistant answer of at least 12 characters together, or an unprompted assistant
  turn of at least 40 characters; no user turn that was an explicit "remember" command is among
  them, and no importance is above that of 0.9.\<close>

theorem episodes_sound:
  assumes "c \<in> set (extract_episode_candidates lc es)"
  shows "((\<exists>u. \<lparr> ce_role = RUser, ce_content = u \<rparr> \<in> set es \<and> explicit_content lc u = None
        \<and> (ec_content c = u \<and> 15 \<le> length u
           \<or> (\<exists>a. \<lparr> ce_role = RAssistant, ce_content = a \<rparr> \<in> set es \<and> trim a \<noteq> []
               \<and> 12 \<le> length u + length a \<and> ec_content c = u @ [10, 10] @ a)))
     \<or> (\<lparr> ce_role = RAssistant, ce_content = ec_content c \<rparr> \<in> set es \<and> 40 \<le> length (ec_content c)))
    \<and> (\<not> flt_lt (f64 (9 / 10)) (ec_importance c) \<or> \<not> flt_lt (f64 (7 / 10)) (ec_importance c))"
proof -
  from assms[unfolded extract_episode_candidates_def, THEN episode_loop_sound]
  consider (lone) u where "\<lparr> ce_role = RUser, ce_content = u \<rparr> \<in> set es" "explicit_content lc u = None"
      "c = \<lparr> ec_content = u, ec_importance = estimate_importance_single u RUser \<rparr>" "MIN_LONE_USER_CHARS \<le> length u"
    | (pair) u a where "\<lparr> ce_role = RUser, ce_content = u \<rparr> \<in> set es" "explicit_content lc u = None"
      "\<lparr> ce_role = RAssistant, ce_content = a \<rparr> \<in> set es" "trim a \<noteq> []" "MIN_PAIR_CHARS \<le> length u + length a"
      "c = \<lparr> ec_content = u @ [10, 10] @ a, ec_importance = estimate_importance_pair u a \<rparr>"
    | (asst) a where "\<lparr> ce_role = RAssistant, ce_content = a \<rparr> \<in> set es" "MIN_LONE_ASSISTANT_CHARS \<le> length a"
      "c = \<lparr> ec_content = a, ec_importance = estimate_importance_single a RAssistant \<rparr>"
    by blast
  then show ?thesis
  proof cases
    case lone
    have "15 \<le> length u" using lone(4) by (simp add: MIN_LONE_USER_CHARS_def)
    with lone(1,2) show ?thesis unfolding lone(3) by (simp add: estimates_bounded) blast
  next
    case pair
    have "12 \<le> length u + length a" using pair(5) by (simp add: MIN_PAIR_CHARS_def)
    with pair(1-4) show ?thesis unfolding pair(6) by (simp add: estimates_bounded) blast
  next
    case asst
    then show ?thesis unfolding asst(3) by (simp add: estimates_bounded MIN_LONE_ASSISTANT_CHARS_def)
  qed
qed

definition sample_talk :: "conversation_entry list" where
  "sample_talk = [\<lparr> ce_role = RUser, ce_content = lit ''hi'' \<rparr>, \<lparr> ce_role = RAssistant, ce_content = lit ''0123456789'' \<rparr>]"

lemma episodes_sound_witness:
  "\<exists>i. \<lparr> ec_content = lit ''hi'' @ [10, 10] @ lit ''0123456789'', ec_importance = i \<rparr>
     \<in> set (extract_episode_candidates (\<lambda>s. s) sample_talk)
   \<and> (\<not> flt_lt (f64 (9 / 10)) i \<or> \<not> flt_lt (f64 (7 / 10)) i)"
proof -
  have e: "explicit_content (\<lambda>s. s) (lit ''hi'') = None" by code_simp
  let ?i = "estimate_importance_pair (lit ''hi'') (lit ''0123456789'')"
  let ?c = "\<lparr> ec_content = lit ''hi'' @ [10, 10] @ lit ''0123456789'', ec_importance = ?i \<rparr>"
  have "trim (lit ''0123456789'') \<noteq> []" by code_simp
  then have m: "?c \<in> set (extract_episode_candidates (\<lambda>s. s) sample_talk)"
    using e by (simp add: extract_episode_candidates_def sample_talk_def MIN_PAIR_CHARS_def del: lit_Cons)
  then show ?thesis using episodes_sound[OF m] by (intro exI[of _ ?i]) simp
qed

text \<open>An explicit memory is never empty and never starts or ends with white space: the text is what
  follows the trigger and its punctuation, so that nothing of the user's wording is altered.\<close>

theorem explicit_memory_text:
  assumes "detect_explicit_memory lc msg = Some (Some c)"
  shows "c \<noteq> [] \<and> \<not> is_ws (hd c) \<and> \<not> is_ws (last c)
    \<and> (\<exists>trig \<in> set remember_triggers. starts_with (lc (trim_start msg)) trig)
    \<and> (\<exists>pre suf. msg = pre @ c @ suf)"
proof -
  obtain trig rest where t: "trig \<in> set remember_triggers" "starts_with (lc (trim_start msg)) trig"
    "drop_bytes (byte_len trig) (trim_start msg) = Some rest" "c = trim (dropWhile is_lead rest)" "c \<noteq> []"
    using detect_loop_content[OF assms[unfolded detect_explicit_memory_def Let_def]] by blast
  obtain a b where ab: "dropWhile is_lead rest = a @ c @ b"
    using trim_decompose[of "dropWhile is_lead rest"] t(4) by blast
  obtain p where p: "trim_start msg = p @ rest" using drop_bytes_suffix[OF t(3)] by blast
  obtain q where q: "msg = q @ trim_start msg" using trim_start_eq by blast
  have "msg = (q @ p @ takeWhile is_lead rest @ a) @ c @ b"
    using q p ab by (metis append.assoc takeWhile_dropWhile_id)
  then show ?thesis using t trim_ends[of "dropWhile is_lead rest"] by blast
qed

lemma explicit_memory_text_witness:
  "detect_explicit_memory to_ascii_lowercase (lit '' Remember: that'') = Some None \<and>
   detect_explicit_memory to_ascii_lowercase (lit '' Remember that x '') = Some (Some (lit ''x''))
   \<and> \<not> is_ws (hd (lit ''x''))"
proof (intro conjI)
  show "detect_explicit_memory to_ascii_lowercase (lit '' Remember: that'') = Some None" by code_simp
  show d: "detect_explicit_memory to_ascii_lowercase (lit '' Remember that x '') = Some (Some (lit ''x''))"
    by code_simp
  show "\<not> is_ws (hd (lit ''x''))" using explicit_memory_text[OF d] by blast
qed

text \<open>The triggers are tried in a fixed order, and the shorter one wins: the command that starts with
  the five characters of "help me remember X" keeps the last character of its own verb in the
  memory, and a text that merely contains the letters "ide" counts as a preference on editors.\<close>

theorem trigger_order_artifacts:
  "detect_explicit_memory to_ascii_lowercase ([24110, 25105, 35760, 20303] @ lit ''tea'')
     = Some (Some (20303 # lit ''tea''))
   \<and> extract_pref_key to_ascii_lowercase (lit ''A good idea'') = Some key_editor"
  by code_simp

end
