(* ===== verification/Str_Order.thy ===== *)
theory Str_Order
  imports Prelude
begin

text \<open>
  The order of Rust strings.  \<open>str::cmp\<close> compares the UTF-8 bytes, which for scalar values is the
  lexicographic order of the code points.  \<open>skey\<close> wraps a string so that the class \<open>linorder\<close>, and
  with it \<open>sort_key\<close> and its library facts, applies; the strings themselves keep no order.
\<close>

datatype skey = SKey (unkey: rstr)

fun str_less :: "rstr \<Rightarrow> rstr \<Rightarrow> bool" where
  "str_less [] t \<longleftrightarrow> t \<noteq> []"
| "str_less (c # s) [] \<longleftrightarrow> False"
| "str_less (c # s) (d # t) \<longleftrightarrow> c < d \<or> c = d \<and> str_less s t"

lemma str_less_irrefl [simp]: "\<not> str_less s s"
  by (induction s) auto

lemma str_less_trans: "str_less a b \<Longrightarrow> str_less b c \<Longrightarrow> str_less a c"
proof (induction a b arbitrary: c rule: str_less.induct)
  case (1 t)
  then show ?case by (cases c) (auto elim: str_less.elims)
next
  case (3 x s d t)
  then show ?case by (cases c) auto
qed simp

lemma str_less_linear: "str_less a b \<or> a = b \<or> str_less b a"
proof (induction a b rule: str_less.induct)
  case (1 t)
  then show ?case by (cases t) auto
next
  case (3 c s d t)
  then show ?case using linorder_less_linear[of c d] by auto
qed simp

instantiation skey :: linorder
begin

definition less_skey :: "skey \<Rightarrow> skey \<Rightarrow> bool" where
  "a < b \<longleftrightarrow> str_less (unkey a) (unkey b)"

definition less_eq_skey :: "skey \<Rightarrow> skey \<Rightarrow> bool" where
  "a \<le> b \<longleftrightarrow> unkey a = unkey b \<or> str_less (unkey a) (unkey b)"

instance
proof
  fix a b c :: skey
  show "a < b \<longleftrightarrow> a \<le> b \<and> \<not> b \<le> a"
    unfolding less_skey_def less_eq_skey_def using str_less_trans str_less_irrefl by metis
  show "a \<le> a" by (simp add: less_eq_skey_def)
  show "a \<le> b \<Longrightarrow> b \<le> c \<Longrightarrow> a \<le> c"
    unfolding less_eq_skey_def using str_less_trans by metis
  show "a \<le> b \<Longrightarrow> b \<le> a \<Longrightarrow> a = b"
    unfolding less_eq_skey_def using str_less_trans str_less_irrefl by (metis skey.expand)
  show "a \<le> b \<or> b \<le> a"
    unfolding less_eq_skey_def using str_less_linear by metis
qed

end

text \<open>\<open>Vec::sort\<close> on strings, and sorting by a string field.\<close>

definition str_sort :: "rstr list \<Rightarrow> rstr list" where
  "str_sort xs = sort_key SKey xs"

definition sort_on :: "('a \<Rightarrow> rstr) \<Rightarrow> 'a list \<Rightarrow> 'a list" where
  "sort_on f xs = sort_key (\<lambda>x. SKey (f x)) xs"

lemma set_sort_on [simp]: "set (sort_on f xs) = set xs"
  by (simp add: sort_on_def)

lemma set_str_sort [simp]: "set (str_sort xs) = set xs"
  by (simp add: str_sort_def)

lemma mset_sort_on [simp]: "mset (sort_on f xs) = mset xs"
  by (simp add: sort_on_def)

lemma sort_on_Nil [simp]: "sort_on f xs = [] \<longleftrightarrow> xs = []"
  by (metis mset_sort_on mset_zero_iff)

text \<open>Sorting by keys that differ forgets the order of the input.\<close>

lemma sort_on_perm:
  assumes "mset xs = mset ys" "distinct (map f xs)"
  shows "sort_on f xs = sort_on f ys"
proof -
  have "inj_on (\<lambda>x. SKey (f x)) (set xs)"
    using assms(2) by (auto simp: distinct_map inj_on_def)
  moreover have "mset (sort_on f ys) = mset xs" using assms(1) by simp
  ultimately show ?thesis
    unfolding sort_on_def
    by (metis (no_types) properties_for_sort_key sorted_sort_key mset_sort set_mset_mset sort_key_inj_key_eq)
qed

end
