(* ===== verification/Skill.thy ===== *)
theory Skill
  imports Str_Order
begin

text \<open>
  \<open>crates/oc-core/src/skill.rs\<close>: skills as data, the split of a \<open>SKILL.md\<close> into front matter and
  body, and the gate that decides which skills enter a prompt.  The YAML parser (\<open>serde_yaml\<close>) is
  the parameter \<open>yaml\<close>, the digest (\<open>sha2\<close>, printed in hex) the parameter \<open>sha\<close>.
\<close>

record skill =
  sk_name :: rstr
  sk_slug :: rstr
  sk_description :: rstr
  sk_body :: rstr
  sk_fingerprint :: rstr
  sk_enabled :: bool
  sk_os :: "rstr list"

text \<open>The fields of the front matter; \<open>metadata.openclaw.os\<close> is kept with its two optional layers.\<close>

record skill_frontmatter =
  fm_name :: "rstr option"
  fm_description :: "rstr option"
  fm_enabled :: "bool option"
  fm_metadata :: "rstr list option option"

definition fingerprint :: "(rstr \<Rightarrow> rstr) \<Rightarrow> rstr \<Rightarrow> rstr" where
  "fingerprint sha body = sha body"

text \<open>\<open>str::trim_start_matches\<close> with a non-empty string pattern.\<close>

function trim_start_matches :: "rstr \<Rightarrow> rstr \<Rightarrow> rstr" where
  "trim_start_matches p s =
     (if p \<noteq> [] \<and> starts_with s p then trim_start_matches p (drop (length p) s) else s)"
  by pat_completeness auto
termination
  by (relation "measure (\<lambda>(p, s). length s)") (auto simp: starts_with_prefix prefix_def)

declare trim_start_matches.simps [simp del]

definition fence :: rstr where "fence = lit ''---''"
definition nl_fence :: rstr where "nl_fence = 10 # fence"

definition extract_frontmatter :: "rstr \<Rightarrow> (rstr \<times> rstr) option" where
  "extract_frontmatter raw = (case strip_prefix raw fence of
     None \<Rightarrow> None
   | Some s0 \<Rightarrow>
       let s = (case strip_prefix s0 [10] of Some t \<Rightarrow> t
                | None \<Rightarrow> (case strip_prefix s0 [13, 10] of Some t \<Rightarrow> t | None \<Rightarrow> s0))
       in (case find_str s nl_fence of
             None \<Rightarrow> None
           | Some e \<Rightarrow> Some (take e s, trim_start_matches [10] (trim_start_matches nl_fence (drop e s)))))"

definition parse_skill :: "(rstr \<Rightarrow> skill_frontmatter option) \<Rightarrow> (rstr \<Rightarrow> rstr) \<Rightarrow> rstr \<Rightarrow> rstr \<Rightarrow> rstr \<Rightarrow> skill option" where
  "parse_skill yaml sha slug leaf raw =
     (if \<not> starts_with raw fence then
        let body = trim raw in
        Some \<lparr> sk_name = leaf, sk_slug = slug, sk_description = [], sk_body = body,
               sk_fingerprint = fingerprint sha body, sk_enabled = True, sk_os = [] \<rparr>
      else case extract_frontmatter raw of
        None \<Rightarrow> None
      | Some (fm_str, rest) \<Rightarrow>
          (case yaml fm_str of
             None \<Rightarrow> None
           | Some fm \<Rightarrow>
               let body = trim rest;
                   os = (case fm_metadata fm of Some (Some os) \<Rightarrow> os | _ \<Rightarrow> [])
               in Some \<lparr> sk_name = (case fm_name fm of Some n \<Rightarrow> n | None \<Rightarrow> leaf), sk_slug = slug,
                         sk_description = (case fm_description fm of Some x \<Rightarrow> x | None \<Rightarrow> []),
                         sk_body = body, sk_fingerprint = fingerprint sha body,
                         sk_enabled = (case fm_enabled fm of Some b \<Rightarrow> b | None \<Rightarrow> True), sk_os = os \<rparr>))"

definition normalize_os :: "rstr \<Rightarrow> rstr" where
  "normalize_os os =
     (if os = lit ''darwin'' \<or> os = lit ''macos'' then lit ''macos''
      else if os = lit ''windows'' \<or> os = lit ''win32'' then lit ''windows''
      else if os = lit ''linux'' then lit ''linux'' else os)"

definition os_matches :: "rstr list \<Rightarrow> rstr \<Rightarrow> bool" where
  "os_matches required host_os \<longleftrightarrow>
     (if required = [] then True
      else list_ex (\<lambda>r. normalize_os r = normalize_os host_os) required)"

definition gated_skills :: "skill list \<Rightarrow> rstr list \<Rightarrow> rstr list \<Rightarrow> rstr \<Rightarrow> skill list" where
  "gated_skills skills allowlist denylist host_os =
     filter (\<lambda>s. os_matches (sk_os s) host_os)
       (filter (\<lambda>s. allowlist = [] \<or> list_ex (\<lambda>a. a = sk_slug s) allowlist)
         (filter (\<lambda>s. \<not> list_ex (\<lambda>d. d = sk_slug s) denylist)
           (filter sk_enabled skills)))"

section \<open>Facts\<close>

lemma trim_start_matches_none: "\<not> starts_with s p \<Longrightarrow> trim_start_matches p s = s"
  by (subst trim_start_matches.simps) simp

lemma trim_start_matches_once:
  "p \<noteq> [] \<Longrightarrow> trim_start_matches p (p @ s) = trim_start_matches p s"
  by (subst trim_start_matches.simps) simp

lemma trim_start_matches_suffix: "suffix (trim_start_matches p s) s"
proof (induction p s rule: trim_start_matches.induct)
  case (1 p s)
  show ?case
  proof (cases "p \<noteq> [] \<and> starts_with s p")
    case True
    then have "suffix (trim_start_matches p (drop (length p) s)) (drop (length p) s)" using 1 by blast
    then show ?thesis using True by (subst trim_start_matches.simps) (simp add: suffix_drop suffix_order.trans)
  qed (subst trim_start_matches.simps, auto)
qed

text \<open>The first occurrence of the closing fence is where it was written.\<close>

lemma find_str_at:
  assumes "\<And>i. i < length a \<Longrightarrow> \<not> starts_with (drop i (a @ p @ b)) p" "p \<noteq> []"
  shows "find_str (a @ p @ b) p = Some (length a)"
  using assms(1)
proof (induction a)
  case Nil
  then show ?case using assms(2) by (cases p) (auto simp: starts_with_def)
next
  case (Cons c a)
  have "\<not> starts_with ((c # a) @ p @ b) p" using Cons.prems[of 0] by simp
  moreover have "find_str (a @ p @ b) p = Some (length a)"
  proof (rule Cons.IH)
    fix i assume "i < length a"
    then show "\<not> starts_with (drop i (a @ p @ b)) p" using Cons.prems[of "Suc i"] by simp
  qed
  ultimately show ?case by simp
qed

lemma gated_iff:
  "s \<in> set (gated_skills skills allow deny host) \<longleftrightarrow>
     s \<in> set skills \<and> sk_enabled s \<and> sk_slug s \<notin> set deny \<and> (allow = [] \<or> sk_slug s \<in> set allow)
     \<and> os_matches (sk_os s) host"
  by (auto simp: gated_skills_def list_ex_iff)

text \<open>A match of the closing fence cannot straddle the end of a text it does not occur in.\<close>

lemma fence_straddle:
  assumes "\<not> contains fm nl_fence" "i < length fm"
  shows "\<not> starts_with (drop i (fm @ nl_fence @ rest)) nl_fence"
proof
  assume sw: "starts_with (drop i (fm @ nl_fence @ rest)) nl_fence"
  then obtain t where t: "drop i fm @ nl_fence @ rest = nl_fence @ t"
    using assms(2) by (auto simp: starts_with_prefix prefix_def)
  have len: "length nl_fence = 4" by (simp add: nl_fence_def fence_def)
  show False
  proof (cases "4 \<le> length (drop i fm)")
    case True
    have "take 4 (drop i fm @ nl_fence @ rest) = nl_fence" using t len by simp
    then have "take 4 (drop i fm) = nl_fence" using True by simp
    then have "fm = take i fm @ nl_fence @ drop 4 (drop i fm)" by (metis append_take_drop_id)
    then have "contains fm nl_fence" by (metis contains_append)
    with assms(1) show False by blast
  next
    case False
    define k where "k = length (drop i fm)"
    have k: "0 < k" "k < 4" using False assms(2) by (auto simp: k_def)
    have "(drop i fm @ nl_fence @ rest) ! k = 10"
      unfolding k_def nl_fence_def append_Cons by (rule nth_append_length)
    moreover have "(nl_fence @ t) ! k = 45"
      using k by (auto simp: nl_fence_def fence_def numeral_eq_Suc less_Suc_eq)
    ultimately show False using t by simp
  qed
qed

section \<open>Properties\<close>

text \<open>Writing a skill file and parsing it gives the parts back: when the front matter \<open>fm\<close> has no
  line that starts with the fence, and the body starts neither with a fence nor with a blank, a file
  made of the fence, \<open>fm\<close>, the fence and the body parses to exactly the fields of \<open>fm\<close> and the body
  without trailing blanks; the same file cut before its closing fence is refused.\<close>

theorem skill_file_roundtrip:
  assumes fm: "\<not> contains fm nl_fence" "yaml fm = Some f"
    and body: "\<not> starts_with body fence" "body = [] \<or> \<not> is_ws (hd body)"
  shows "parse_skill yaml sha slug leaf (fence @ 10 # fm @ nl_fence @ 10 # body) = Some
      \<lparr> sk_name = (case fm_name f of Some n \<Rightarrow> n | None \<Rightarrow> leaf), sk_slug = slug,
        sk_description = (case fm_description f of Some x \<Rightarrow> x | None \<Rightarrow> []),
        sk_body = trim body, sk_fingerprint = sha (trim body), sk_enabled = (fm_enabled f \<noteq> Some False),
        sk_os = (case fm_metadata f of Some (Some os) \<Rightarrow> os | _ \<Rightarrow> []) \<rparr>
     \<and> parse_skill yaml sha slug leaf (fence @ 10 # fm) = None"
proof -
  have find: "find_str (fm @ nl_fence @ 10 # body) nl_fence = Some (length fm)"
    by (rule find_str_at) (use fence_straddle[OF fm(1)] in \<open>auto simp: nl_fence_def\<close>)
  have "trim_start_matches nl_fence (nl_fence @ 10 # body) = 10 # body"
    using body(1) trim_start_matches_once[of nl_fence "10 # body"]
    by (simp add: trim_start_matches_none nl_fence_def starts_with_prefix)
  moreover have "trim_start_matches [10] (10 # body) = body"
  proof -
    have "\<not> starts_with body [10]" using body(2) by (cases body) (auto simp: starts_with_def is_ws_def)
    then show ?thesis using trim_start_matches_once[of "[10]" body] by (simp add: trim_start_matches_none)
  qed
  ultimately have "extract_frontmatter (fence @ 10 # fm @ nl_fence @ 10 # body) = Some (fm, body)"
    using find by (simp add: extract_frontmatter_def strip_prefix_def starts_with_def)
  moreover have "extract_frontmatter (fence @ 10 # fm) = None"
  proof -
    have "find_str fm nl_fence = None" using fm(1) by (simp add: find_str_None)
    then show ?thesis by (simp add: extract_frontmatter_def strip_prefix_def starts_with_def)
  qed
  ultimately show ?thesis using fm(2)
    by (auto simp: parse_skill_def fingerprint_def Let_def split: option.splits)
qed

lemma skill_file_roundtrip_witness:
  "map_option sk_body (parse_skill (\<lambda>_. Some \<lparr> fm_name = None, fm_description = None, fm_enabled = None, fm_metadata = None \<rparr>)
      (\<lambda>s. s) [] [] (fence @ 10 # lit ''name: a'' @ nl_fence @ 10 # lit ''text ''))
    = Some (trim (lit ''text ''))"
proof -
  have w: "\<not> contains (lit ''name: a'') nl_fence" "\<not> starts_with (lit ''text '') fence"
    "\<not> is_ws (hd (lit ''text ''))" by (code_simp, code_simp, code_simp)
  show ?thesis
    by (subst conjunct1[OF skill_file_roundtrip[OF w(1) refl w(2) disjI2[OF w(3)]]]) simp
qed

text \<open>The deny list wins, an empty allow list admits every slug, and the gate only ever removes
  skills, keeping the order of the rest.\<close>

theorem gate_spec:
  "set (gated_skills skills allow deny host) =
     {s \<in> set skills. sk_enabled s \<and> sk_slug s \<notin> set deny \<and> (allow = [] \<or> sk_slug s \<in> set allow)
        \<and> (sk_os s = [] \<or> normalize_os host \<in> normalize_os ` set (sk_os s))}
   \<and> subseq (gated_skills skills allow deny host) skills"
proof
  show "set (gated_skills skills allow deny host) =
     {s \<in> set skills. sk_enabled s \<and> sk_slug s \<notin> set deny \<and> (allow = [] \<or> sk_slug s \<in> set allow)
        \<and> (sk_os s = [] \<or> normalize_os host \<in> normalize_os ` set (sk_os s))}"
    unfolding set_eq_iff mem_Collect_eq gated_iff os_matches_def list_ex_iff image_iff
    by (simp add: eq_commute[of "normalize_os host"])
  show "subseq (gated_skills skills allow deny host) skills"
    unfolding gated_skills_def filter_filter by (rule subseq_filter_left)
qed

end
