(* ===== verification/Prompt.thy ===== *)
theory Prompt
  imports Skill
begin

text \<open>
  \<open>crates/oc-core/src/prompt.rs\<close> and \<open>summary.rs\<close>: the system prompt as a function of the persona, the
  platform, the model in use, the tools, the skills, the memories and the time; and the prompts of
  a summary.  Fixed texts are kept letter by letter.
\<close>

record mem_line =
  ml_key :: rstr
  ml_text :: rstr

record tool_brief =
  tb_name :: rstr
  tb_description :: rstr

record prompt_inputs =
  pi_soul :: rstr
  pi_platform :: rstr
  pi_model :: rstr
  pi_provider :: rstr
  pi_endpoint :: "rstr option"
  pi_bootstrap :: "mem_line list"
  pi_skills :: "skill list"
  pi_tools :: "tool_brief list"
  pi_now :: rstr

record rendered_prompt =
  stable_prefix :: rstr
  volatile_suffix :: rstr

definition prompt_full :: "rendered_prompt \<Rightarrow> rstr" where
  "prompt_full r = stable_prefix r @ [10] @ volatile_suffix r"

definition model_authority :: rstr where
  "model_authority = 
  [10, 20197, 19978, 19968, 34892, 30001, 26412, 26426, 36816, 34892, 26102, 25353, 23454, 38469, 29983] @
  [25928, 37197, 32622, 22635, 20837, 65292, 26159, 20851, 20110, 20320, 33258, 36523, 30340, 26435, 23041] @
  [20107, 23454, 12290, 34987, 38382, 21040, 20320, 26159, 20160, 20040, 27169, 22411, 12289, 21738, 23478] @
  lit '' provider'' @
  [12289, 25171, 30340, 21738, 20010, 31471, 28857, 26102, 65292, 21482, 33021, 29031, 36825, 19968, 34892] @
  [22238, 31572, 12290, 20320, 23545, 33258, 36523, 22411, 21495, 25110, 21378, 21830, 30340, 20219, 20309] @
  [20808, 39564, 21360, 35937, 19968, 24459, 20197, 27492, 20026, 20934, 34987, 35206, 30422, 8212, 8212] @
  [19981, 35201, 25253, 20986, 36825, 19968, 34892, 37324, 27809, 26377, 20986, 29616, 30340, 21517, 23383] @
  [12290]"

definition model_head :: rstr where "model_head = [24403, 21069, 27169, 22411, 65306]"

definition model_parts :: "rstr \<Rightarrow> rstr option \<Rightarrow> rstr list" where
  "model_parts provider endpoint =
     (if provider \<noteq> [] then [lit ''provider: '' @ provider] else [])
     @ (case opt_filter (\<lambda>e. e \<noteq> []) (map_option trim endpoint) of
          Some ep \<Rightarrow> [([31471, 28857] @ lit '': '') @ ep] | None \<Rightarrow> [])"

definition render_model_line :: "rstr \<Rightarrow> rstr \<Rightarrow> rstr option \<Rightarrow> rstr" where
  "render_model_line model provider endpoint =
     (let parts = model_parts provider endpoint;
          head = (if parts = [] then model_head @ model
                  else model_head @ model @ [65288] @ join [65292] parts @ [65289])
      in head @ model_authority)"

definition soul_title :: rstr where "soul_title = (lit ''# '' @ [20154, 26684, 10])"
definition platform_title :: rstr where "platform_title = ([10] @ lit ''# '' @ [36816, 34892, 29615, 22659, 10])"
definition tools_title :: rstr where "tools_title = ([10] @ lit ''# '' @ [24037, 20855, 10])"
definition memory_title :: rstr where "memory_title = ([10] @ lit ''# '' @ [35760, 24518, 10])"
definition now_title :: rstr where "now_title = (lit ''# '' @ [24403, 21069, 26102, 38388, 10])"

definition tools_guide :: rstr where
  "tools_guide = 
  [10, 20248, 20808, 20351, 29992, 32467, 26500, 21270, 24037, 20855, 23436, 25104, 20219, 21153, 65306] @
  [26597, 30475] @ lit ''/'' @ [20999, 25442, 30446, 24405, 29992] @ lit '' sys'' @ [65288] @
  lit ''pwd/cd/now'' @ [65289, 65292, 35835, 20889] @ lit ''/'' @
  [26816, 32034, 25991, 20214, 29992] @ lit '' file'' @ [65288] @
  lit ''read/write/edit/append/list/stat/head/tail/grep/glob'' @
  [65289, 12290, 20165, 24403, 36825, 20123, 24037, 20855, 37117, 35206, 30422, 19981, 21040, 26102, 25165] @
  [29992] @ lit '' exec '' @ [25191, 34892] @ lit '' shell '' @
  [21629, 20196, 12290, 21629, 20196, 37324, 30340] @ lit '' shell '' @
  [20803, 23383, 31526, 25353, 23383, 38754, 20889, 65292, 19981, 35201, 29992] @
  lit '' HTML '' @ [23454, 20307, 36716, 20041, 65288, 20889] @ lit '' '' @ [96] @
  lit ''&&'' @ [96, 12289, 96] @ lit ''>'' @
  [96, 12289, 96, 34, 96, 65292, 19981, 35201, 20889] @ lit '' '' @ [96] @
  lit ''&amp;&amp;'' @ [96, 12289, 96] @ lit ''&gt;'' @ [96, 12289, 96] @ lit ''&quot;'' @
  [96, 65289, 12290, 10, 10, 20462, 25913, 24050, 26377, 25991, 20214, 29992] @
  lit '' file '' @ [30340] @ lit '' edit'' @
  [65288, 21482, 21457, 35201, 25913, 30340, 37027, 19968, 23567, 27573, 65289, 65292, 19981, 35201, 29992] @
  lit '' write '' @
  [37325, 21457, 25972, 20010, 25991, 20214, 65306, 24037, 20855, 21442, 25968, 26159, 36880, 23383, 31526] @
  [27969, 24335, 20256, 36755, 30340, 65292, 37325, 21457, 19968, 20010, 20960, 21313] @
  lit '' KB '' @
  [30340, 25991, 20214, 35201, 22909, 20960, 20998, 38047, 65292, 32780, 19988, 38271, 21442, 25968, 23481] @
  [26131, 25758, 19978, 36755, 20986, 38271, 24230, 19978, 38480, 34987, 25130, 26029, 12290] @
  lit ''edit '' @ [30340] @ lit '' old_string '' @
  [24517, 39035, 19982, 25991, 20214, 20869, 23481, 36880, 23383, 31526, 19968, 33268, 65288, 21547, 32553] @
  [36827, 65289, 65292, 19988, 40664, 35748, 35201, 21807, 19968, 8212, 8212, 25343, 19981, 20934, 23601] @
  [20808] @ lit '' read '' @
  [22238, 26469, 29031, 25220, 65292, 20986, 29616, 22810, 27425, 26102, 22810, 24102, 20960, 34892, 19978] @
  [19979, 25991, 12290, 20889, 24456, 38271, 30340, 26032, 25991, 20214, 26102, 20998, 22810, 27425] @
  lit '' append '' @
  [36861, 21152, 65292, 19981, 35201, 25380, 22312, 21333, 27425, 35843, 29992, 37324, 12290, 10, 10] @
  [28041, 21450, 12300, 26410, 26469, 26576, 20010, 26102, 21051, 12301, 30340, 35831, 27714, 65288, 23450] @
  [26102, 25552, 37266, 12289, 24310, 26102, 25552, 37266, 12289, 27599, 22825] @ lit ''/'' @
  [27599, 21608, 37325, 22797, 25552, 37266, 65289, 65292, 19968, 24459, 29992] @
  lit '' cron '' @ [24037, 20855, 30331, 35760, 65306] @ lit ''op=delay '' @
  [34920, 31034, 12300] @ lit ''N '' @ [31186, 21518, 12301, 65292] @ lit ''op=add '' @
  [34920, 31034, 37325, 22797, 12290, 30331, 35760, 21518, 31995, 32479, 20250, 22312, 21040, 28857, 26102] @
  [20027, 21160, 25512, 36865, 32473, 29992, 25143, 65292] @ lit ''**'' @
  [19981, 21344, 29992, 24403, 21069, 23545, 35805] @ lit ''**'' @
  [65292, 20320, 26080, 38656, 31561, 24453, 65292, 24212, 24403, 31435, 21051, 21578, 30693, 29992, 25143] @
  [24050, 35774, 22909, 24182, 32467, 26463, 26412, 36718, 12290, 32477, 19981, 35201, 29992] @
  lit '' shell '' @ [30561, 30496, 65288] @ lit ''Start-Sleep / sleep / timeout / ping'' @
  [65289, 25110, 21453, 22797, 26597, 26102, 38388, 26469, 31561, 24453, 8212, 8212, 37027, 20250, 21345] @
  [20303, 25972, 20010, 23545, 35805, 19988, 25552, 37266, 19981, 20250, 29983, 25928, 12290, 29992, 25143] @
  [38382, 36215, 24050, 35774, 30340, 25552, 37266, 26102, 29992] @ lit '' op=list '' @
  [26597, 35777, 65292, 19981, 35201, 20973, 29468, 27979, 31572, 22797, 12290, 10, 10, 23459, 24067] @
  [35201, 20570, 26576, 20214, 20107, 20043, 21518, 65292, 24517, 39035, 22312, 21516, 19968, 36718, 37324] @
  [30495, 30340, 21457, 36215, 24037, 20855, 35843, 29992, 65292, 19981, 35201, 35828, 23436, 23601, 20572] @
  [19979, 31561, 29992, 25143, 25226, 32467, 26524, 36148, 22238, 26469, 8212, 8212, 24037, 20855, 30001] @
  [20320, 33258, 24049, 35843, 29992, 12289, 32467, 26524, 20250, 30452, 25509, 22238, 21040, 20320, 25163] @
  [37324, 12290, 10]"

definition skills_title :: rstr where
  "skills_title = 
  [10] @ lit ''# '' @
  [25216, 33021, 10, 21487, 29992, 25216, 33021, 65288, 27491, 25991, 19981, 22312, 26412, 25552, 31034] @
  [35789, 20869, 65292, 29992] @ lit '' file '' @ [24037, 20855] @ lit '' read '' @ [96] @
  lit ''~/.oc/skills/<slug>/SKILL.md'' @ [96] @ lit '' '' @
  [25353, 38656, 35835, 21462, 65292] @ lit ''slug '' @
  [21363, 25324, 21495, 20869, 36335, 24452, 65307, 25351, 32441, 21464, 20102, 35201, 37325, 35835, 65289] @
  [65306, 10]"

definition render_platform :: "prompt_inputs \<Rightarrow> rstr" where
  "render_platform inp =
     (let platform = trim (pi_platform inp); model = trim (pi_model inp) in
      if platform = [] \<and> model = [] then []
      else platform_title
        @ (if platform \<noteq> [] then platform @ [10] else [])
        @ (if model \<noteq> [] then render_model_line model (trim (pi_provider inp)) (pi_endpoint inp) @ [10] else []))"

definition tool_line :: "tool_brief \<Rightarrow> rstr" where
  "tool_line t = lit ''- '' @ tb_name t @ lit '': '' @ tb_description t @ [10]"

definition render_tools :: "tool_brief list \<Rightarrow> rstr" where
  "render_tools tools =
     (if tools = [] then []
      else tools_title @ concat (map tool_line (sort_on tb_name tools)) @ tools_guide)"

definition skill_line :: "skill \<Rightarrow> rstr" where
  "skill_line s = lit ''- '' @ sk_name s @ [65288] @ sk_slug s @ ([65289, 8212] @ lit '' '') @ sk_description s
     @ lit '' [fingerprint '' @ sk_fingerprint s @ lit '']'' @ [10]"

definition render_skills :: "skill list \<Rightarrow> rstr" where
  "render_skills skills =
     (if skills = [] then [] else skills_title @ concat (map skill_line (sort_on sk_name skills)))"

definition render_memory :: "mem_line list \<Rightarrow> rstr" where
  "render_memory mem =
     (if mem = [] then []
      else memory_title @ concat (map (\<lambda>m. lit ''- '' @ ml_text m @ [10]) (sort_on ml_key mem)))"

definition render_system_prompt :: "prompt_inputs \<Rightarrow> rendered_prompt" where
  "render_system_prompt inp =
     \<lparr> stable_prefix = soul_title @ trim (pi_soul inp) @ [10] @ render_platform inp
         @ render_tools (pi_tools inp) @ render_skills (pi_skills inp) @ render_memory (pi_bootstrap inp),
       volatile_suffix = now_title @ pi_now inp \<rparr>"

section \<open>Summaries\<close>

record summary_msg =
  sm_role :: rstr
  sm_content :: rstr

definition summarization_system_prompt :: rstr where
  "summarization_system_prompt = 
  [20320, 26159, 19978, 19979, 25991, 25688, 35201, 21161, 25163, 12290, 20320, 30340, 20219, 21153, 26159] @
  [38405, 35835, 29992, 25143, 19982] @ lit '' AI '' @
  [21161, 25163, 30340, 23545, 35805, 65292, 20135, 20986, 19968, 20221, 20005, 26684, 36981, 24490, 25351] @
  [23450, 26684, 24335, 30340, 32467, 26500, 21270, 25688, 35201, 12290, 19981, 35201, 32493, 20889, 23545] @
  [35805, 65292, 19981, 35201, 22238, 31572, 23545, 35805, 20013, 30340, 20219, 20309, 38382, 39064, 65292] @
  [21482, 36755, 20986, 32467, 26500, 21270, 25688, 35201, 12290]"

definition summary_format :: rstr where
  "summary_format = 
  [20197, 19978, 26159, 38656, 35201, 24635, 32467, 30340, 23545, 35805, 12290, 35831, 29983, 25104, 19968] @
  [20221, 32467, 26500, 21270, 30340, 19978, 19979, 25991, 26816, 26597, 28857, 25688, 35201, 65292, 20379] @
  [21478, 19968, 20010] @ lit '' LLM '' @
  [29992, 20110, 32487, 32493, 24037, 20316, 12290, 10, 10, 20005, 26684, 20351, 29992, 20197, 19979] @
  [26684, 24335, 65306, 10, 10] @ lit ''## '' @ [30446, 26631, 10] @ lit ''['' @
  [29992, 25143, 24819, 23436, 25104, 20160, 20040, 65311, 33509, 20250, 35805, 28041, 21450, 22810, 20010] @
  [20219, 21153, 21487, 21015, 22810, 26465, 12290] @ lit '']'' @ [10, 10] @ lit ''## '' @
  [32422, 26463, 19982, 20559, 22909, 10] @ lit ''- ['' @
  [29992, 25143, 25552, 21040, 30340, 20219, 20309, 32422, 26463, 12289, 20559, 22909, 25110, 35201, 27714] @
  lit '']'' @ [10] @ lit ''- ['' @ [33509, 26080, 21017, 20889] @ lit '' '' @ [34] @
  lit ''('' @ [26080] @ lit '')'' @ [34] @ lit '']'' @ [10, 10] @ lit ''## '' @
  [36827, 24230, 10] @ lit ''### '' @ [24050, 23436, 25104, 10] @ lit ''- [x] ['' @
  [24050, 23436, 25104, 30340, 20219, 21153] @ lit ''/'' @ [25913, 21160] @ lit '']'' @
  [10, 10] @ lit ''### '' @ [36827, 34892, 20013, 10] @ lit ''- [ ] ['' @
  [24403, 21069, 24037, 20316] @ lit '']'' @ [10, 10] @ lit ''### '' @ [21463, 38459, 10] @
  lit ''- ['' @ [38459, 30861, 36827, 23637, 30340, 38382, 39064, 65292, 33509, 26377] @
  lit '']'' @ [10, 10] @ lit ''## '' @ [20851, 38190, 20915, 31574, 10] @ lit ''- **['' @
  [20915, 31574] @ lit '']**'' @ [65306] @ lit ''['' @ [31616, 35201, 29702, 30001] @
  lit '']'' @ [10, 10] @ lit ''## '' @ [19979, 19968, 27493, 10] @ lit ''1. ['' @
  [25353, 39034, 24207, 21015, 20986, 25509, 19979, 26469, 35813, 20570, 20160, 20040] @
  lit '']'' @ [10, 10] @ lit ''## '' @ [20851, 38190, 19978, 19979, 25991, 10] @ lit ''- ['' @
  [32487, 32493, 24037, 20316, 25152, 38656, 30340, 25968, 25454, 12289, 31034, 20363, 25110, 24341, 29992] @
  lit '']'' @ [10] @ lit ''- ['' @ [33509, 19981, 36866, 29992, 21017, 20889] @ lit '' '' @
  [34] @ lit ''('' @ [26080] @ lit '')'' @ [34] @ lit '']'' @
  [10, 10, 27599, 33410, 20445, 25345, 31616, 27905, 12290, 20445, 30041, 30830, 20999, 30340, 25991] @
  [20214, 36335, 24452, 12289, 20989, 25968, 21517, 21644, 38169, 35823, 20449, 24687, 12290]"

definition summary_lines :: "summary_msg list \<Rightarrow> rstr" where
  "summary_lines ms = concat (map (\<lambda>m. lit ''['' @ sm_role m @ lit ''] '' @ sm_content m @ [10]) ms)"

definition build_summary_prompt :: "summary_msg list \<Rightarrow> rstr" where
  "build_summary_prompt ms = summary_lines ms @ [10] @ summary_format"

definition prev_open :: rstr where "prev_open = lit ''<previous-summary>'' @ [10]"
definition prev_close :: rstr where "prev_close = [10] @ lit ''</previous-summary>'' @ [10, 10]"
definition update_intro :: rstr where "update_intro = ([20197, 19979, 26159, 38656, 35201, 24182, 20837, 26082, 26377, 25688, 35201, 30340, 26032, 23545, 35805] @ [28040, 24687, 65306, 10, 10])"
definition update_format :: rstr where
  "update_format = ([22312, 20445, 25345, 21516, 19968, 32467, 26500, 21270, 26684, 24335, 30340, 21069, 25552, 19979, 65292] @ [23558, 26032, 28040, 24687, 25972, 21512, 36827, 19978, 36848, 25688, 35201, 65292, 36755, 20986, 26356] @ [26032, 21518, 30340, 23436, 25972, 25688, 35201, 12290])"

definition build_summary_update_prompt :: "rstr \<Rightarrow> summary_msg list \<Rightarrow> rstr" where
  "build_summary_update_prompt prev ms =
     prev_open @ trim prev @ prev_close @ update_intro @ summary_lines ms @ [10] @ update_format"

section \<open>Properties\<close>

text \<open>The prompt does not depend on the order in which tools, skills and memories are listed (their
  names and keys being distinct), and the time never reaches the cacheable prefix: inputs that
  differ in those orders and in the time only have the same prefix, and with the same time the
  same prompt.\<close>

theorem prompt_deterministic:
  assumes tools: "mset (pi_tools a) = mset (pi_tools b)" "distinct (map tb_name (pi_tools a))"
    and skills: "mset (pi_skills a) = mset (pi_skills b)" "distinct (map sk_name (pi_skills a))"
    and mem: "mset (pi_bootstrap a) = mset (pi_bootstrap b)" "distinct (map ml_key (pi_bootstrap a))"
    and rest: "pi_soul a = pi_soul b" "pi_platform a = pi_platform b" "pi_model a = pi_model b"
      "pi_provider a = pi_provider b" "pi_endpoint a = pi_endpoint b"
  shows "stable_prefix (render_system_prompt a) = stable_prefix (render_system_prompt b)
    \<and> (pi_now a = pi_now b \<longrightarrow> prompt_full (render_system_prompt a) = prompt_full (render_system_prompt b))"
proof -
  have nil: "mset xs = mset ys \<Longrightarrow> (xs = []) = (ys = [])" for xs ys :: "'z list"
    by (metis mset_zero_iff)
  have "render_tools (pi_tools a) = render_tools (pi_tools b)"
    using sort_on_perm[OF tools] nil[OF tools(1)] by (simp add: render_tools_def)
  moreover have "render_skills (pi_skills a) = render_skills (pi_skills b)"
    using sort_on_perm[OF skills] nil[OF skills(1)] by (simp add: render_skills_def)
  moreover have "render_memory (pi_bootstrap a) = render_memory (pi_bootstrap b)"
    using sort_on_perm[OF mem] nil[OF mem(1)] by (simp add: render_memory_def)
  moreover have "render_platform a = render_platform b" using rest by (simp add: render_platform_def Let_def)
  ultimately show ?thesis using rest(1) by (simp add: render_system_prompt_def prompt_full_def)
qed

definition two_tools :: "tool_brief list" where
  "two_tools = [\<lparr> tb_name = lit ''file'', tb_description = [] \<rparr>, \<lparr> tb_name = lit ''exec'', tb_description = [] \<rparr>]"

definition sample_inputs :: "tool_brief list \<Rightarrow> rstr \<Rightarrow> prompt_inputs" where
  "sample_inputs ts now = \<lparr> pi_soul = lit ''s'', pi_platform = [], pi_model = lit ''m'', pi_provider = [], pi_endpoint = None,
     pi_bootstrap = [], pi_skills = [], pi_tools = ts, pi_now = now \<rparr>"

lemma prompt_deterministic_witness:
  "stable_prefix (render_system_prompt (sample_inputs two_tools (lit ''9'')))
     = stable_prefix (render_system_prompt (sample_inputs (rev two_tools) (lit ''10'')))"
  by (rule conjunct1[OF prompt_deterministic]) (simp_all add: sample_inputs_def two_tools_def)

end
