(* ===== verification/Fts.thy ===== *)
theory Fts
  imports Prelude "HOL-Library.List_Lexorder"
begin

text \<open>
  \<open>crates/oc-store/src/fts.rs\<close>: the text stored in the full-text index and the MATCH expression of a
  query.  A document and a query term are both cut into windows of two adjacent characters, folded
  to lower case and stripped to letters and digits.  Parameters: \<open>lc\<close> is \<open>char::to_lowercase\<close> (one
  character to several) and \<open>alnum\<close> is \<open>char::is_alphanumeric\<close>.  The result that matters is that the
  windows of a substring are windows of the text, whatever these two functions are.
\<close>

definition WINDOW :: nat where "WINDOW = 2"

definition fold_window :: "(rchar \<Rightarrow> rstr) \<Rightarrow> (rchar \<Rightarrow> bool) \<Rightarrow> rstr \<Rightarrow> rstr option" where
  "fold_window lc alnum w =
     (let t = filter alnum (concat (map lc w)) in if t \<noteq> [] then Some t else None)"

text \<open>\<open>slice::windows\<close> of size two.\<close>

fun windows2 :: "rstr \<Rightarrow> rstr list" where
  "windows2 (a # b # s) = [a, b] # windows2 (b # s)"
| "windows2 _ = []"

definition windows :: "(rchar \<Rightarrow> rstr) \<Rightarrow> (rchar \<Rightarrow> bool) \<Rightarrow> rstr \<Rightarrow> rstr list" where
  "windows lc alnum s =
     (if s = [] then []
      else if length s < WINDOW then (case fold_window lc alnum s of Some t \<Rightarrow> [t] | None \<Rightarrow> [])
      else List.map_filter (fold_window lc alnum) (windows2 s))"

definition encode_doc :: "(rchar \<Rightarrow> rstr) \<Rightarrow> (rchar \<Rightarrow> bool) \<Rightarrow> rstr \<Rightarrow> rstr" where
  "encode_doc lc alnum text = join (lit '' '') (remdups_adj (sort (windows lc alnum text)))"

definition term_tokens :: "(rchar \<Rightarrow> rstr) \<Rightarrow> (rchar \<Rightarrow> bool) \<Rightarrow> rstr \<Rightarrow> rstr list option" where
  "term_tokens lc alnum term =
     (let tokens = remdups_adj (sort (windows lc alnum term)) in if tokens = [] then None else Some tokens)"

definition term_expr :: "(rchar \<Rightarrow> rstr) \<Rightarrow> (rchar \<Rightarrow> bool) \<Rightarrow> rstr \<Rightarrow> rstr option" where
  "term_expr lc alnum term =
     map_option (\<lambda>tokens. lit ''('' @ join (lit '' AND '') (map (\<lambda>t. [34] @ t @ [34]) tokens) @ lit '')'')
       (term_tokens lc alnum term)"

fun all_some :: "'a option list \<Rightarrow> 'a list option" where
  "all_some [] = Some []"
| "all_some (None # xs) = None"
| "all_some (Some x # xs) = map_option (\<lambda>ys. x # ys) (all_some xs)"

definition match_expr :: "(rchar \<Rightarrow> rstr) \<Rightarrow> (rchar \<Rightarrow> bool) \<Rightarrow> rstr list \<Rightarrow> rstr option" where
  "match_expr lc alnum query_terms =
     (if query_terms = [] then None
      else map_option (join (lit '' OR '')) (all_some (map (term_expr lc alnum) query_terms)))"

text \<open>The same expression before printing: the tokens of each term, which the index conjoins, the
  terms being disjoined.\<close>

definition match_terms :: "(rchar \<Rightarrow> rstr) \<Rightarrow> (rchar \<Rightarrow> bool) \<Rightarrow> rstr list \<Rightarrow> rstr list list option" where
  "match_terms lc alnum query_terms =
     (if query_terms = [] then None else all_some (map (term_tokens lc alnum) query_terms))"

definition index_tokens :: "(rchar \<Rightarrow> rstr) \<Rightarrow> (rchar \<Rightarrow> bool) \<Rightarrow> rstr \<Rightarrow> rstr set" where
  "index_tokens lc alnum text = set (windows lc alnum text)"

definition index_hit :: "rstr list list \<Rightarrow> rstr set \<Rightarrow> bool" where
  "index_hit q toks \<longleftrightarrow> (\<exists>term \<in> set q. set term \<subseteq> toks)"

section \<open>Facts\<close>

lemma windows2_length: "length (windows2 s) = length s - 1"
  by (induction s rule: windows2.induct) auto

lemma windows2_append_left: "set (windows2 s) \<subseteq> set (windows2 (p @ s))"
proof (induction p)
  case (Cons a p)
  then show ?case by (cases "p @ s") auto
qed simp

lemma windows2_append_right: "set (windows2 s) \<subseteq> set (windows2 (s @ q))"
  by (induction s rule: windows2.induct) auto

lemma windows2_sublist: "set (windows2 s) \<subseteq> set (windows2 (p @ s @ q))"
  using windows2_append_left[of "s @ q" p] windows2_append_right[of s q] by blast

lemma set_map_filter: "set (List.map_filter f xs) = {y. \<exists>x \<in> set xs. f x = Some y}"
  by (force simp: List.map_filter_def)

lemma windows_long:
  "2 \<le> length s \<Longrightarrow> set (windows lc alnum s) = {t. \<exists>w \<in> set (windows2 s). fold_window lc alnum w = Some t}"
  by (auto simp: windows_def WINDOW_def set_map_filter)

lemma windows_substring:
  assumes "2 \<le> length t"
  shows "set (windows lc alnum t) \<subseteq> set (windows lc alnum (p @ t @ q))"
proof -
  have "2 \<le> length (p @ t @ q)" using assms by simp
  from windows_long[OF assms] windows_long[OF this] windows2_sublist[of t p q] show ?thesis by blast
qed

lemma windows2_map: "windows2 (map f s) = map (map f) (windows2 s)"
  by (induction s rule: windows2.induct) auto

lemma map_filter_map: "List.map_filter g (map f xs) = List.map_filter (g \<circ> f) xs"
  by (simp add: List.map_filter_def comp_def filter_map)

text \<open>ASCII case does not matter when \<open>lc\<close> folds it.\<close>

lemma windows_ascii_lower:
  assumes "\<And>c. lc (ascii_lower c) = lc c"
  shows "windows lc alnum (to_ascii_lowercase s) = windows lc alnum s"
proof -
  have fw: "fold_window lc alnum (map ascii_lower w) = fold_window lc alnum w" for w
    by (simp add: fold_window_def comp_def assms)
  show ?thesis
    by (simp add: windows_def to_ascii_lowercase_def windows2_map map_filter_map comp_def fw)
qed

lemma term_tokens_windows: "term_tokens lc alnum t = Some ts \<Longrightarrow> set ts = set (windows lc alnum t)"
  by (auto simp: term_tokens_def Let_def split: if_splits)

lemma all_some_map: "all_some (map f xs) = Some ys \<Longrightarrow> x \<in> set xs \<Longrightarrow> \<exists>y \<in> set ys. f x = Some y"
proof (induction xs arbitrary: ys)
  case (Cons a xs)
  then show ?case by (cases "f a") auto
qed simp

lemma all_some_map_conv: "all_some (map f xs) = Some ys \<longleftrightarrow> map f xs = map Some ys"
proof (induction xs arbitrary: ys)
  case (Cons a xs)
  then show ?case by (cases "f a"; cases ys) auto
qed (auto)

definition render_term :: "rstr list \<Rightarrow> rstr" where
  "render_term tokens = lit ''('' @ join (lit '' AND '') (map (\<lambda>t. [34] @ t @ [34]) tokens) @ lit '')''"

lemma all_some_map_option: "all_some (map (\<lambda>x. map_option f (g x)) xs) = map_option (map f) (all_some (map g xs))"
proof (induction xs)
  case (Cons a xs)
  then show ?case by (cases "g a") (auto simp: option.map_comp comp_def)
qed simp

text \<open>The printed expression is the structured one, printed.\<close>

lemma match_expr_terms:
  "match_expr lc alnum qt = map_option (\<lambda>q. join (lit '' OR '') (map render_term q)) (match_terms lc alnum qt)"
proof -
  have "term_expr lc alnum = (\<lambda>t. map_option render_term (term_tokens lc alnum t))"
    by (rule ext) (simp add: term_expr_def render_term_def[abs_def])
  then show ?thesis
    by (cases "qt = []") (simp_all only: match_expr_def match_terms_def all_some_map_option option.map_comp
        comp_def option.simps if_True if_False simp_thms)
qed

lemma index_is_superset_gen:
  assumes fold: "\<And>c. lc (ascii_lower c) = lc c"
    and q: "match_terms lc alnum qt = Some q"
    and t: "t \<in> set qt" "2 \<le> length t"
    and hit: "contains (to_ascii_lowercase text) (to_ascii_lowercase t)"
  shows "index_hit q (index_tokens lc alnum text)"
proof -
  obtain ts where ts: "ts \<in> set q" "term_tokens lc alnum t = Some ts"
    using q t(1) all_some_map by (fastforce simp: match_terms_def split: if_splits)
  obtain p s where "to_ascii_lowercase text = p @ to_ascii_lowercase t @ s"
    using hit by (auto simp: contains_sublist sublist_def)
  then have "set (windows lc alnum (to_ascii_lowercase t)) \<subseteq> set (windows lc alnum (to_ascii_lowercase text))"
    using windows_substring[of "to_ascii_lowercase t"] t(2) by (simp add: to_ascii_lowercase_def)
  then have "set ts \<subseteq> index_tokens lc alnum text"
    by (simp add: windows_ascii_lower[of lc, OF fold] term_tokens_windows[OF ts(2)] index_tokens_def)
  with ts(1) show ?thesis by (auto simp: index_hit_def)
qed

section \<open>Properties\<close>

text \<open>The index loses nothing for terms of two or more characters: if a term occurs in a text, up to
  ASCII case, then every query that contains the term and can be expressed selects the text.  This
  holds whatever Unicode case folding does, provided it folds ASCII.\<close>

theorem index_is_superset:
  assumes fold: "\<And>c. lc (ascii_lower c) = lc c"
    and q: "match_terms lc alnum qt = Some q"
    and t: "t \<in> set qt" "2 \<le> length t"
    and hit: "contains (to_ascii_lowercase text) (to_ascii_lowercase t)"
  shows "index_hit q (index_tokens lc alnum text)"
  by (rule index_is_superset_gen[OF assms])

definition lower_char :: "rchar \<Rightarrow> rstr" where "lower_char c = [ascii_lower c]"

lemma index_is_superset_witness:
  "index_hit [[lit ''st'', lit ''us'']] (index_tokens lower_char is_ascii_alnum (lit ''in Rust''))"
proof (rule index_is_superset)
  show "lower_char (ascii_lower c) = lower_char c" for c by (simp add: lower_char_def ascii_lower_def)
  show "match_terms lower_char is_ascii_alnum [lit ''UST''] = Some [[lit ''st'', lit ''us'']]" by code_simp
  show "lit ''UST'' \<in> set [lit ''UST'']" by simp
  show "2 \<le> length (lit ''UST'')" by simp
  show "contains (to_ascii_lowercase (lit ''in Rust'')) (to_ascii_lowercase (lit ''UST''))" by code_simp
qed

text \<open>A term of one character is outside this: the text contains it, the query can be expressed, and
  the index does not select the text.\<close>

theorem single_char_term_lost:
  "contains (lit ''rust'') (lit ''u'') \<and>
   (\<exists>q. match_terms lower_char is_ascii_alnum [lit ''u''] = Some q
      \<and> \<not> index_hit q (index_tokens lower_char is_ascii_alnum (lit ''rust'')))"
proof
  show "contains (lit ''rust'') (lit ''u'')" by code_simp
  have "match_terms lower_char is_ascii_alnum [lit ''u''] = Some [[lit ''u'']]" by code_simp
  moreover have "\<not> index_hit [[lit ''u'']] (index_tokens lower_char is_ascii_alnum (lit ''rust''))" by code_simp
  ultimately show "\<exists>q. match_terms lower_char is_ascii_alnum [lit ''u''] = Some q
      \<and> \<not> index_hit q (index_tokens lower_char is_ascii_alnum (lit ''rust''))" by blast
qed

end
