(* ===== verification/Store_Db.thy ===== *)
theory Store_Db
  imports Prelude Float_Model
begin

text \<open>
  \<open>crates/oc-store/src/types.rs\<close>, \<open>error.rs\<close> and the tables of \<open>schema.rs\<close>.  The database is a
  record of tables; a table is the list of its rows in insertion order.  Enumerations are stored
  as text and read back by the lenient \<open>from_db_str\<close>.  SQLite itself is modelled by what the
  statements of \<open>ops.rs\<close> ask of it: unique keys, the foreign key of \<open>entry\<close>, \<open>AUTOINCREMENT\<close>,
  \<open>MAX\<close>, \<open>COALESCE\<close>, \<open>ORDER BY\<close> (stable, ties in table order) and \<open>LIMIT\<close> (negative: no limit).
\<close>

section \<open>Enumerations\<close>

datatype session_kind = KindMain | KindCron | KindDreaming | KindLane2

definition kind_str :: "session_kind \<Rightarrow> rstr" where
  "kind_str k = (case k of KindMain \<Rightarrow> lit ''main'' | KindCron \<Rightarrow> lit ''cron''
     | KindDreaming \<Rightarrow> lit ''dreaming'' | KindLane2 \<Rightarrow> lit ''lane2'')"

datatype parse_enum_error = ParseEnumError rstr rstr

datatype store_role = RoleUser | RoleAssistant | RoleTool | RoleSystem

definition role_str :: "store_role \<Rightarrow> rstr" where
  "role_str r = (case r of RoleUser \<Rightarrow> lit ''user'' | RoleAssistant \<Rightarrow> lit ''assistant''
     | RoleTool \<Rightarrow> lit ''tool'' | RoleSystem \<Rightarrow> lit ''system'')"

definition role_from_str :: "rstr \<Rightarrow> parse_enum_error + store_role" where
  "role_from_str s =
     (if s = lit ''user'' then Inr RoleUser
      else if s = lit ''assistant'' then Inr RoleAssistant
      else if s = lit ''tool'' then Inr RoleTool
      else if s = lit ''system'' then Inr RoleSystem
      else Inl (ParseEnumError (lit ''role'') s))"

definition role_from_db :: "rstr \<Rightarrow> store_role" where
  "role_from_db s = (case role_from_str s of Inr r \<Rightarrow> r | Inl _ \<Rightarrow> RoleUser)"

datatype store_tier = TierCurated | TierEpisodic | TierProspective | TierReview

definition tier_str :: "store_tier \<Rightarrow> rstr" where
  "tier_str t = (case t of TierCurated \<Rightarrow> lit ''curated'' | TierEpisodic \<Rightarrow> lit ''episodic''
     | TierProspective \<Rightarrow> lit ''prospective'' | TierReview \<Rightarrow> lit ''review'')"

definition tier_from_str :: "rstr \<Rightarrow> parse_enum_error + store_tier" where
  "tier_from_str s =
     (if s = lit ''curated'' then Inr TierCurated
      else if s = lit ''episodic'' then Inr TierEpisodic
      else if s = lit ''prospective'' then Inr TierProspective
      else if s = lit ''review'' then Inr TierReview
      else Inl (ParseEnumError (lit ''tier'') s))"

definition tier_from_db :: "rstr \<Rightarrow> store_tier" where
  "tier_from_db s = (case tier_from_str s of Inr t \<Rightarrow> t | Inl _ \<Rightarrow> TierEpisodic)"

datatype store_origin = OriginOwner | OriginAgent | OriginUntrusted | OriginSystem

definition origin_str :: "store_origin \<Rightarrow> rstr" where
  "origin_str r = (case r of OriginOwner \<Rightarrow> lit ''owner'' | OriginAgent \<Rightarrow> lit ''agent''
     | OriginUntrusted \<Rightarrow> lit ''untrusted'' | OriginSystem \<Rightarrow> lit ''system'')"

definition origin_from_str :: "rstr \<Rightarrow> parse_enum_error + store_origin" where
  "origin_from_str s =
     (if s = lit ''owner'' then Inr OriginOwner
      else if s = lit ''agent'' then Inr OriginAgent
      else if s = lit ''untrusted'' then Inr OriginUntrusted
      else if s = lit ''system'' then Inr OriginSystem
      else Inl (ParseEnumError (lit ''origin'') s))"

definition origin_from_db :: "rstr \<Rightarrow> store_origin" where
  "origin_from_db s = (case origin_from_str s of Inr r \<Rightarrow> r | Inl _ \<Rightarrow> OriginUntrusted)"

section \<open>Inputs\<close>

record new_entry =
  ne_session_id :: rstr
  ne_role :: store_role
  ne_content :: rstr
  ne_tokens_est :: int
  ne_tool_calls :: "rstr option"
  ne_tool_call_id :: "rstr option"

definition new_entry_text :: "rstr \<Rightarrow> store_role \<Rightarrow> rstr \<Rightarrow> int \<Rightarrow> new_entry" where
  "new_entry_text sid r content tokens =
     \<lparr> ne_session_id = sid, ne_role = r, ne_content = content, ne_tokens_est = tokens,
       ne_tool_calls = None, ne_tool_call_id = None \<rparr>"

record new_memory =
  nm_id :: rstr
  nm_tier :: store_tier
  nm_origin :: store_origin
  nm_text :: rstr
  nm_keywords :: "rstr option"
  nm_importance :: flt
  nm_content_hash :: rstr
  nm_pref_key :: "rstr option"
  nm_source :: "rstr option"

record new_cron =
  nc_id :: rstr
  nc_expr :: rstr
  nc_prompt :: rstr
  nc_tz :: rstr
  nc_next_at :: "int option"

record new_intent =
  ni_id :: rstr
  ni_text :: rstr
  ni_keywords :: "rstr list"
  ni_cooldown_secs :: int
  ni_budget :: nat
  ni_expiry_at :: "int option"

section \<open>Tables\<close>

record session_row =
  sr_id :: rstr
  sr_kind :: rstr
  sr_created_at :: int
  sr_reset_at :: "int option"

record entry_row =
  er_id :: int
  er_session_id :: rstr
  er_seq :: int
  er_role :: rstr
  er_content :: rstr
  er_tokens_est :: int
  er_tool_calls :: "rstr option"
  er_tool_call_id :: "rstr option"
  er_created_at :: int

record memory_row =
  mr_no :: int
  mr_id :: rstr
  mr_tier :: rstr
  mr_origin :: rstr
  mr_text :: rstr
  mr_keywords :: "rstr option"
  mr_importance :: flt
  mr_created_at :: int
  mr_last_used_at :: "int option"
  mr_use_count :: int
  mr_content_hash :: rstr
  mr_pref_key :: "rstr option"
  mr_source :: "rstr option"

record cron_row =
  cr_id :: rstr
  cr_expr :: rstr
  cr_prompt :: rstr
  cr_tz :: rstr
  cr_next_at :: "int option"
  cr_last_fired_at :: "int option"
  cr_enabled :: int

record intent_row =
  ir_id :: rstr
  ir_text :: rstr
  ir_keywords :: "rstr option"
  ir_cooldown_secs :: int
  ir_budget :: int
  ir_fired_count :: int
  ir_last_fired_at :: "int option"
  ir_expiry_at :: "int option"
  ir_created_at :: int

record audit_row =
  ar_at :: int
  ar_actor :: rstr
  ar_action :: rstr
  ar_payload :: "rstr option"
  ar_hash_prev :: rstr
  ar_hash_self :: rstr

record db =
  sessions :: "session_row list"
  entries :: "entry_row list"
  last_entry_id :: int
  memories :: "memory_row list"
  memory_fts :: "(int \<times> rstr) list"
  crons :: "cron_row list"
  intents :: "intent_row list"
  audits :: "audit_row list"

definition db_empty :: db where
  "db_empty = \<lparr> sessions = [], entries = [], last_entry_id = 0, memories = [], memory_fts = [],
                crons = [], intents = [], audits = [] \<rparr>"

section \<open>Errors\<close>

text \<open>Of the SQLite errors the model has the violated constraints; \<open>WriterDead\<close> is the dead writer
  thread.\<close>

datatype store_error = UniqueViolation | ForeignKeyViolation | NoRow | Migration rstr | WriterDead

section \<open>What the statements use of SQLite\<close>

definition sql_limit :: "int \<Rightarrow> 'a list \<Rightarrow> 'a list" where
  "sql_limit n xs = (if n < 0 then xs else take (nat n) xs)"

definition sql_max :: "int list \<Rightarrow> int option" where
  "sql_max xs = (if xs = [] then None else Some (Max (set xs)))"

definition coalesce :: "int option \<Rightarrow> int \<Rightarrow> int" where
  "coalesce x d = (case x of Some v \<Rightarrow> v | None \<Rightarrow> d)"

lemma coalesce_simps [simp]: "coalesce None d = d" "coalesce (Some v) d = v"
  by (simp_all add: coalesce_def)

definition update_where :: "('r \<Rightarrow> bool) \<Rightarrow> ('r \<Rightarrow> 'r) \<Rightarrow> 'r list \<Rightarrow> 'r list" where
  "update_where p f rows = map (\<lambda>r. if p r then f r else r) rows"

lemma length_update_where [simp]: "length (update_where p f rows) = length rows"
  by (simp add: update_where_def)

lemma map_update_where: "(\<And>r. g (f r) = g r) \<Longrightarrow> map g (update_where p f rows) = map g rows"
  by (simp add: update_where_def)

lemma filter_update_where:
  "(\<And>r. q (f r) = q r) \<Longrightarrow> filter q (update_where p f rows) = update_where p f (filter q rows)"
  by (induction rows) (auto simp: update_where_def)

lemma role_roundtrip:
  "role_from_str (role_str r) = Inr r \<and> role_from_db (role_str r) = r"
  "role_from_db s \<noteq> RoleUser \<Longrightarrow> s = role_str (role_from_db s)"
  by (cases r; simp add: role_str_def role_from_str_def role_from_db_def)
     (simp add: role_str_def role_from_str_def role_from_db_def split: if_splits)

lemma tier_roundtrip:
  "tier_from_str (tier_str t) = Inr t \<and> tier_from_db (tier_str t) = t"
  "tier_from_db s \<noteq> TierEpisodic \<Longrightarrow> s = tier_str (tier_from_db s)"
  by (cases t; simp add: tier_str_def tier_from_str_def tier_from_db_def)
     (simp add: tier_str_def tier_from_str_def tier_from_db_def split: if_splits)

lemma origin_roundtrip:
  "origin_from_str (origin_str g) = Inr g \<and> origin_from_db (origin_str g) = g"
  "origin_from_db s \<noteq> OriginUntrusted \<Longrightarrow> s = origin_str (origin_from_db s)"
  by (cases g; simp add: origin_str_def origin_from_str_def origin_from_db_def)
     (simp add: origin_str_def origin_from_str_def origin_from_db_def split: if_splits)

section \<open>Properties\<close>

text \<open>Every role, tier and origin reads back from its stored text, through the strict and the
  lenient parser; and a text the strict parser refuses reads as the least privileged value: the
  role of a user, the episodic tier, the untrusted origin.\<close>

theorem enum_roundtrip:
  "role_from_str (role_str r) = Inr r \<and> role_from_db (role_str r) = r
   \<and> tier_from_str (tier_str t) = Inr t \<and> tier_from_db (tier_str t) = t
   \<and> origin_from_str (origin_str g) = Inr g \<and> origin_from_db (origin_str g) = g
   \<and> (origin_from_db s \<noteq> OriginUntrusted \<longrightarrow> s = origin_str (origin_from_db s))
   \<and> (tier_from_db s \<noteq> TierEpisodic \<longrightarrow> s = tier_str (tier_from_db s))
   \<and> (role_from_db s \<noteq> RoleUser \<longrightarrow> s = role_str (role_from_db s))"
  using role_roundtrip tier_roundtrip origin_roundtrip by blast

lemma enum_roundtrip_witness:
  "origin_from_db (lit ''owner'') \<noteq> OriginUntrusted \<and> lit ''owner'' = origin_str (origin_from_db (lit ''owner''))"
proof
  show n: "origin_from_db (lit ''owner'') \<noteq> OriginUntrusted"
    by (simp add: origin_from_db_def origin_from_str_def)
  show "lit ''owner'' = origin_str (origin_from_db (lit ''owner''))"
    using enum_roundtrip[of undefined undefined undefined "lit ''owner''"] n by blast
qed

end
