(* ===== verification/Store_Transcript.thy ===== *)
theory Store_Transcript
  imports Store_Db
begin

text \<open>
  The session and transcript operations of \<open>crates/oc-store/src/ops.rs\<close>.  A session keeps its
  entries for ever; \<open>reset_at\<close> is the sequence number after which its context begins.  The clock is
  the argument \<open>now\<close>.  The locale \<open>transcript_log\<close> is what the session component uses of the store.
\<close>

definition session_entries :: "rstr \<Rightarrow> db \<Rightarrow> entry_row list" where
  "session_entries sid d = filter (\<lambda>e. er_session_id e = sid) (entries d)"

definition max_seq :: "rstr \<Rightarrow> db \<Rightarrow> int" where
  "max_seq sid d = coalesce (sql_max (map er_seq (session_entries sid d))) 0"

definition find_session :: "rstr \<Rightarrow> db \<Rightarrow> session_row option" where
  "find_session sid d = find (\<lambda>s. sr_id s = sid) (sessions d)"

definition ensure_session :: "int \<Rightarrow> rstr \<Rightarrow> rstr \<Rightarrow> db \<Rightarrow> store_error + db" where
  "ensure_session now sid kind d =
     (if find_session sid d \<noteq> None then Inr d
      else Inr (d\<lparr>sessions := sessions d @ [\<lparr> sr_id = sid, sr_kind = kind, sr_created_at = now, sr_reset_at = None \<rparr>]\<rparr>))"

definition insert_entry :: "int \<Rightarrow> rstr \<Rightarrow> int \<Rightarrow> rstr \<Rightarrow> rstr \<Rightarrow> int \<Rightarrow> rstr option \<Rightarrow> rstr option \<Rightarrow> db \<Rightarrow> store_error + db" where
  "insert_entry now sid seq role content tokens calls call_id d =
     (if find_session sid d = None then Inl ForeignKeyViolation
      else if \<exists>e \<in> set (entries d). er_session_id e = sid \<and> er_seq e = seq then Inl UniqueViolation
      else let i = last_entry_id d + 1 in
        Inr (d\<lparr>entries := entries d @ [\<lparr> er_id = i, er_session_id = sid, er_seq = seq, er_role = role,
                 er_content = content, er_tokens_est = tokens, er_tool_calls = calls,
                 er_tool_call_id = call_id, er_created_at = now \<rparr>], last_entry_id := i\<rparr>))"

definition append_entry :: "int \<Rightarrow> new_entry \<Rightarrow> db \<Rightarrow> store_error + int \<times> db" where
  "append_entry now e d =
     (let next_seq = max_seq (ne_session_id e) d + 1 in
      case insert_entry now (ne_session_id e) next_seq (role_str (ne_role e)) (ne_content e)
             (ne_tokens_est e) (ne_tool_calls e) (ne_tool_call_id e) d of
        Inl err \<Rightarrow> Inl err
      | Inr d' \<Rightarrow> Inr (next_seq, d'))"

definition session_list :: "db \<Rightarrow> session_row list" where
  "session_list d = map (\<lambda>s. s\<lparr>sr_reset_at := Some (coalesce (sr_reset_at s) 0)\<rparr>)
     (sort_by (\<lambda>a b. sr_created_at a < sr_created_at b) (sessions d))"

definition reset_session :: "rstr \<Rightarrow> db \<Rightarrow> store_error + db" where
  "reset_session sid d =
     Inr (d\<lparr>sessions := update_where (\<lambda>s. sr_id s = sid) (\<lambda>s. s\<lparr>sr_reset_at := Some (max_seq sid d)\<rparr>) (sessions d)\<rparr>)"

definition reset_at :: "rstr \<Rightarrow> db \<Rightarrow> int" where
  "reset_at sid d = (case find_session sid d of Some s \<Rightarrow> coalesce (sr_reset_at s) 0 | None \<Rightarrow> 0)"

text \<open>An entry as the callers get it: the role parsed, the other columns as stored.\<close>

record entry =
  en_id :: int
  en_session_id :: rstr
  en_seq :: int
  en_role :: store_role
  en_content :: rstr
  en_tokens_est :: int
  en_tool_calls :: "rstr option"
  en_tool_call_id :: "rstr option"
  en_created_at :: int

definition read_entry :: "entry_row \<Rightarrow> entry" where
  "read_entry e = \<lparr> en_id = er_id e, en_session_id = er_session_id e, en_seq = er_seq e,
     en_role = role_from_db (er_role e), en_content = er_content e, en_tokens_est = er_tokens_est e,
     en_tool_calls = er_tool_calls e, en_tool_call_id = er_tool_call_id e, en_created_at = er_created_at e \<rparr>"

definition load_transcript :: "rstr \<Rightarrow> int \<Rightarrow> db \<Rightarrow> entry list" where
  "load_transcript sid max_entries d =
     (let rows = filter (\<lambda>e. reset_at sid d < er_seq e) (session_entries sid d)
      in rev (map read_entry (sql_limit max_entries (sort_by (\<lambda>a b. er_seq a < er_seq b) rows))))"

text \<open>The heading of a summary entry.\<close>

definition summary_heading :: rstr where
  "summary_heading = [12304, 19978, 19979, 25991, 25688, 35201, 12305, 10]"

definition compact_with_summary :: "int \<Rightarrow> rstr \<Rightarrow> int \<Rightarrow> rstr \<Rightarrow> db \<Rightarrow> store_error + db" where
  "compact_with_summary now sid up_to_seq summary_text d =
     (let content = summary_heading @ summary_text;
          tokens_est = max (int (length content) div 4) 1;
          next_seq = max_seq sid d + 1
      in case insert_entry now sid next_seq (role_str RoleSystem) content tokens_est None None d of
           Inl err \<Rightarrow> Inl err
         | Inr d' \<Rightarrow> Inr (d'\<lparr>sessions := update_where (\<lambda>s. sr_id s = sid)
             (\<lambda>s. s\<lparr>sr_reset_at := Some (max (coalesce (sr_reset_at s) 0) up_to_seq)\<rparr>) (sessions d')\<rparr>))"

section \<open>Invariant\<close>

text \<open>Within a session the sequence numbers are 1, 2, 3, ... in table order; session ids are unique;
  entries belong to sessions; no context begins after the last entry.\<close>

definition transcript_inv :: "db \<Rightarrow> bool" where
  "transcript_inv d \<longleftrightarrow>
     (\<forall>sid. map er_seq (session_entries sid d) = map int [1..<length (session_entries sid d) + 1])
   \<and> distinct (map sr_id (sessions d))
   \<and> (\<forall>e \<in> set (entries d). find_session (er_session_id e) d \<noteq> None)
   \<and> (\<forall>sid. 0 \<le> reset_at sid d \<and> reset_at sid d \<le> max_seq sid d)"

lemma inv_reset_range: "transcript_inv d \<Longrightarrow> 0 \<le> reset_at sid d \<and> reset_at sid d \<le> max_seq sid d"
  by (simp add: transcript_inv_def)

lemma max_upto: "sql_max (map int [1..<n + 1]) = (if n = 0 then None else Some (int n))"
proof (cases n)
  case (Suc m)
  have "Max (int ` {Suc 0..<Suc (Suc m)}) = int (Suc m)"
    by (rule Max_eqI) (auto intro: image_eqI[of _ _ "Suc m"])
  with Suc show ?thesis by (simp add: sql_max_def del: upt_Suc)
qed (simp add: sql_max_def)

lemma max_seq_inv: "transcript_inv d \<Longrightarrow> max_seq sid d = int (length (session_entries sid d))"
  unfolding transcript_inv_def max_seq_def by (metis coalesce_simps max_upto of_nat_0)

lemma seq_range:
  assumes "transcript_inv d" "e \<in> set (session_entries sid d)"
  shows "1 \<le> er_seq e \<and> er_seq e \<le> max_seq sid d"
proof -
  have "er_seq e \<in> set (map er_seq (session_entries sid d))" using assms(2) by simp
  then have "er_seq e \<in> set (map int [1..<length (session_entries sid d) + 1])"
    using assms(1) unfolding transcript_inv_def by metis
  then show ?thesis using max_seq_inv[OF assms(1)] by auto
qed

lemma find_session_append:
  "find_session sid (d\<lparr>sessions := sessions d @ [s]\<rparr>) =
     (case find_session sid d of Some x \<Rightarrow> Some x | None \<Rightarrow> if sr_id s = sid then Some s else None)"
proof -
  have "find p (xs @ [s]) = (case find p xs of Some x \<Rightarrow> Some x | None \<Rightarrow> if p s then Some s else None)" for p xs
    by (induction xs) auto
  then show ?thesis by (simp add: find_session_def)
qed

lemma find_session_entries [simp]:
  "find_session sid (d\<lparr>entries := es, last_entry_id := i\<rparr>) = find_session sid d"
  by (simp add: find_session_def)

lemma session_entries_upd [simp]:
  "session_entries sid (d\<lparr>sessions := ss\<rparr>) = session_entries sid d"
  "session_entries sid (d\<lparr>entries := es @ [e], last_entry_id := i\<rparr>) =
     filter (\<lambda>e. er_session_id e = sid) es @ (if er_session_id e = sid then [e] else [])"
  by (simp_all add: session_entries_def)

lemma max_seq_upd [simp]: "max_seq sid (d\<lparr>sessions := ss\<rparr>) = max_seq sid d"
  by (simp add: max_seq_def)

lemma find_update_where:
  assumes "\<And>r. sr_id (f r) = sr_id r"
  shows "find_session sid (d\<lparr>sessions := update_where (\<lambda>s. sr_id s = k) f (sessions d)\<rparr>) =
     map_option (\<lambda>s. if sid = k then f s else s) (find_session sid d)"
proof -
  have "find (\<lambda>s. sr_id s = sid) (update_where (\<lambda>s. sr_id s = k) f xs) =
      map_option (\<lambda>s. if sid = k then f s else s) (find (\<lambda>s. sr_id s = sid) xs)" for xs
    by (induction xs) (auto simp: update_where_def assms)
  then show ?thesis by (simp add: find_session_def)
qed

lemma insert_entry_Inr:
  assumes "insert_entry now sid seq role content tokens calls cid d = Inr d'"
  shows "find_session sid d \<noteq> None" "sessions d' = sessions d"
    "session_entries k d' = session_entries k d @ (if k = sid then [\<lparr> er_id = last_entry_id d + 1,
       er_session_id = sid, er_seq = seq, er_role = role, er_content = content, er_tokens_est = tokens,
       er_tool_calls = calls, er_tool_call_id = cid, er_created_at = now \<rparr>] else [])"
    "set (map er_session_id (entries d')) = insert sid (set (map er_session_id (entries d)))"
  using assms by (auto simp: insert_entry_def Let_def session_entries_def split: if_splits)

lemma insert_next_inv:
  assumes "transcript_inv d" "insert_entry now sid (max_seq sid d + 1) role content tokens calls cid d = Inr d'"
  shows "transcript_inv d'" "max_seq sid d' = max_seq sid d + 1" "\<And>k. reset_at k d' = reset_at k d"
proof -
  note ins = insert_entry_Inr[OF assms(2)]
  have fs: "find_session k d' = find_session k d" for k using ins(2) by (simp add: find_session_def)
  show ra: "\<And>k. reset_at k d' = reset_at k d" by (simp add: reset_at_def fs)
  have seqs: "map er_seq (session_entries k d') = map int [1..<length (session_entries k d') + 1]" for k
    using assms(1) max_seq_inv[OF assms(1), of sid] by (auto simp: ins(3) transcript_inv_def)
  have mx: "max_seq k d' = int (length (session_entries k d'))" for k
    unfolding max_seq_def seqs max_upto by simp
  show "max_seq sid d' = max_seq sid d + 1" by (simp add: mx max_seq_inv[OF assms(1)] ins(3))
  have "\<forall>e \<in> set (entries d'). find_session (er_session_id e) d' \<noteq> None"
  proof
    fix e assume "e \<in> set (entries d')"
    then have "er_session_id e \<in> insert sid (set (map er_session_id (entries d)))"
      using ins(4) by (metis imageI list.set_map)
    then show "find_session (er_session_id e) d' \<noteq> None"
      using assms(1) ins(1) by (auto simp: fs transcript_inv_def)
  qed
  moreover have "reset_at k d \<le> max_seq k d \<and> max_seq k d \<le> max_seq k d'" for k
    using assms(1) by (simp add: mx max_seq_inv[OF assms(1)] ins(3) transcript_inv_def)
  ultimately show "transcript_inv d'"
    using assms(1) seqs ins(2) ra unfolding transcript_inv_def by (metis order_trans)
qed

lemma append_entry_inv:
  "transcript_inv d \<Longrightarrow> append_entry now e d = Inr (s, d') \<Longrightarrow> transcript_inv d'"
  using insert_next_inv(1) by (fastforce simp: append_entry_def Let_def split: sum.splits)

lemma ensure_session_inv:
  assumes "transcript_inv d" "ensure_session now sid kind d = Inr d'"
  shows "transcript_inv d' \<and> find_session sid d' \<noteq> None"
proof (cases "find_session sid d = None")
  case False
  with assms show ?thesis by (auto simp: ensure_session_def)
next
  case True
  let ?s = "\<lparr> sr_id = sid, sr_kind = kind, sr_created_at = now, sr_reset_at = None \<rparr>"
  have d': "d' = d\<lparr>sessions := sessions d @ [?s]\<rparr>" using assms(2) True by (simp add: ensure_session_def)
  have fs: "find_session k d' = (if k = sid then Some ?s else find_session k d)" for k
    using True by (auto simp: d' find_session_append split: option.splits)
  have "sid \<notin> set (map sr_id (sessions d))"
    using True by (auto simp: find_session_def find_None_iff)
  moreover have "0 \<le> max_seq sid d" by (simp add: max_seq_inv[OF assms(1)])
  moreover have ra: "reset_at k d' = (if k = sid then 0 else reset_at k d)" for k
    by (auto simp: reset_at_def fs)
  ultimately show ?thesis using assms(1) fs
    by (auto simp: transcript_inv_def d' ra) 
qed

lemma set_reset_inv:
  assumes "transcript_inv d" "\<And>s. sr_id (f s) = sr_id s"
    and "\<And>s. find_session sid d = Some s \<Longrightarrow>
      0 \<le> coalesce (sr_reset_at (f s)) 0 \<and> coalesce (sr_reset_at (f s)) 0 \<le> max_seq sid d"
  shows "transcript_inv (d\<lparr>sessions := update_where (\<lambda>s. sr_id s = sid) f (sessions d)\<rparr>)"
    (is "transcript_inv ?d")
proof -
  have fs: "find_session k ?d = map_option (\<lambda>s. if k = sid then f s else s) (find_session k d)" for k
    by (rule find_update_where[OF assms(2)])
  have "0 \<le> reset_at k ?d \<and> reset_at k ?d \<le> max_seq k d" for k
  proof (cases "k = sid")
    case True
    have "0 \<le> max_seq sid d" by (simp add: max_seq_inv[OF assms(1)])
    with True assms(3) show ?thesis by (auto simp: reset_at_def fs split: option.splits)
  next
    case False
    then show ?thesis using assms(1)
      by (simp add: reset_at_def fs option.map_ident transcript_inv_def)
  qed
  then show ?thesis using assms(1) by (auto simp: transcript_inv_def fs map_update_where assms(2))
qed

lemma reset_session_inv: "transcript_inv d \<Longrightarrow> reset_session sid d = Inr d' \<Longrightarrow> transcript_inv d'"
  unfolding reset_session_def by (auto intro!: set_reset_inv simp: max_seq_inv)


lemma compact_inv:
  assumes "transcript_inv d" "compact_with_summary now sid up_to txt d = Inr d'" "up_to \<le> max_seq sid d"
  shows "transcript_inv d'"
proof -
  obtain d1 where d1: "insert_entry now sid (max_seq sid d + 1) (role_str RoleSystem) (summary_heading @ txt)
      (max (int (length (summary_heading @ txt)) div 4) 1) None None d = Inr d1"
    "d' = d1\<lparr>sessions := update_where (\<lambda>s. sr_id s = sid)
         (\<lambda>s. s\<lparr>sr_reset_at := Some (max (coalesce (sr_reset_at s) 0) up_to)\<rparr>) (sessions d1)\<rparr>"
    using assms(2) by (auto simp: compact_with_summary_def Let_def split: sum.splits)
  note ins = insert_next_inv[OF assms(1) d1(1)]
  show ?thesis unfolding d1(2)
  proof (rule set_reset_inv[OF ins(1)])
    fix s assume "find_session sid d1 = Some s"
    then have "coalesce (sr_reset_at s) 0 = reset_at sid d1" by (simp add: reset_at_def)
    then show "0 \<le> coalesce (sr_reset_at (s\<lparr>sr_reset_at := Some (max (coalesce (sr_reset_at s) 0) up_to)\<rparr>)) 0
      \<and> coalesce (sr_reset_at (s\<lparr>sr_reset_at := Some (max (coalesce (sr_reset_at s) 0) up_to)\<rparr>)) 0 \<le> max_seq sid d1"
      using inv_reset_range[OF ins(1), of sid] ins(2) assms(3) by (simp add: max_def)
  qed simp
qed

section \<open>What a load returns\<close>

definition visible :: "rstr \<Rightarrow> db \<Rightarrow> entry list" where
  "visible sid d = load_transcript sid (- 1) d"

lemma seqs_ascending:
  assumes "transcript_inv d"
  shows "sorted_wrt (\<lambda>a b. er_seq a < er_seq b) (session_entries sid d)"
proof -
  have eq: "map er_seq (session_entries sid d) = map int [1..<length (session_entries sid d) + 1]"
    using assms unfolding transcript_inv_def by blast
  have "sorted_wrt (<) (map int [1..<length (session_entries sid d) + 1])"
    by (simp only: sorted_wrt_map of_nat_less_iff sorted_wrt_upt)
  then have "sorted_wrt (<) (map er_seq (session_entries sid d))" by (simp only: eq)
  then show ?thesis by (simp add: sorted_wrt_map)
qed

lemma load_transcript_eq:
  assumes "transcript_inv d"
  shows "load_transcript sid n d = rev (sql_limit n (rev (visible sid d)))"
    and "visible sid d = map read_entry (filter (\<lambda>e. reset_at sid d < er_seq e) (session_entries sid d))"
proof -
  have "sorted_wrt (\<lambda>a b. er_seq a < er_seq b) (filter (\<lambda>e. reset_at sid d < er_seq e) (session_entries sid d))"
    using seqs_ascending[OF assms] by (rule sorted_wrt_filter)
  note srt = sort_by_rev[OF this]
  show v: "visible sid d = map read_entry (filter (\<lambda>e. reset_at sid d < er_seq e) (session_entries sid d))"
    by (simp add: visible_def load_transcript_def srt sql_limit_def rev_map)
  show "load_transcript sid n d = rev (sql_limit n (rev (visible sid d)))"
    unfolding v by (simp add: load_transcript_def srt sql_limit_def rev_map take_map)
qed

lemma visible_append:
  assumes "transcript_inv d" "append_entry now e d = Inr (s, d')"
  shows "transcript_inv d'" "s = max_seq (ne_session_id e) d + 1"
    "\<exists>x. en_role x = ne_role e \<and> en_content x = ne_content e \<and> en_tool_calls x = ne_tool_calls e
       \<and> en_tool_call_id x = ne_tool_call_id e \<and> en_tokens_est x = ne_tokens_est e \<and> en_seq x = s
       \<and> visible (ne_session_id e) d' = visible (ne_session_id e) d @ [x]"
    "k \<noteq> ne_session_id e \<Longrightarrow> visible k d' = visible k d"
proof -
  let ?sid = "ne_session_id e"
  have ins: "insert_entry now ?sid (max_seq ?sid d + 1) (role_str (ne_role e)) (ne_content e)
      (ne_tokens_est e) (ne_tool_calls e) (ne_tool_call_id e) d = Inr d'" and s: "s = max_seq ?sid d + 1"
    using assms(2) by (auto simp: append_entry_def Let_def split: sum.splits)
  show "s = max_seq ?sid d + 1" by (rule s)
  note i = insert_entry_Inr[OF ins] and n = insert_next_inv[OF assms(1) ins]
  show inv: "transcript_inv d'" by (rule n(1))
  have "reset_at ?sid d \<le> max_seq ?sid d" using assms(1) by (simp add: transcript_inv_def)
  then show "\<exists>x. en_role x = ne_role e \<and> en_content x = ne_content e \<and> en_tool_calls x = ne_tool_calls e
       \<and> en_tool_call_id x = ne_tool_call_id e \<and> en_tokens_est x = ne_tokens_est e \<and> en_seq x = s
       \<and> visible ?sid d' = visible ?sid d @ [x]"
    unfolding load_transcript_eq(2)[OF inv] load_transcript_eq(2)[OF assms(1)] n(3) i(3) s
    by (simp add: read_entry_def role_roundtrip)
  show "k \<noteq> ?sid \<Longrightarrow> visible k d' = visible k d"
    unfolding load_transcript_eq(2)[OF inv] load_transcript_eq(2)[OF assms(1)] n(3) i(3) by simp
qed

lemma visible_reset:
  assumes "transcript_inv d" "reset_session sid d = Inr d'"
  shows "transcript_inv d'" "visible sid d' = [] \<or> find_session sid d = None"
    "k \<noteq> sid \<Longrightarrow> visible k d' = visible k d"
proof -
  show inv: "transcript_inv d'" by (rule reset_session_inv[OF assms])
  have d': "d' = d\<lparr>sessions := update_where (\<lambda>s. sr_id s = sid)
      (\<lambda>s. s\<lparr>sr_reset_at := Some (max_seq sid d)\<rparr>) (sessions d)\<rparr>"
    using assms(2) by (simp add: reset_session_def)
  have fs: "find_session k d' = map_option (\<lambda>s. if k = sid then s\<lparr>sr_reset_at := Some (max_seq sid d)\<rparr> else s)
      (find_session k d)" for k
    unfolding d' by (rule find_update_where) simp
  have se: "session_entries k d' = session_entries k d" for k by (simp add: d')
  show "visible sid d' = [] \<or> find_session sid d = None"
    using seq_range[OF assms(1), of _ sid]
    by (auto simp: load_transcript_eq(2)[OF inv] se reset_at_def fs filter_empty_conv not_less)
  show "k \<noteq> sid \<Longrightarrow> visible k d' = visible k d"
    unfolding load_transcript_eq(2)[OF inv] load_transcript_eq(2)[OF assms(1)] se
    by (simp add: reset_at_def fs option.map_ident)
qed


lemma visible_compact:
  assumes "transcript_inv d" "compact_with_summary now sid up_to txt d = Inr d'" "up_to \<le> max_seq sid d"
  shows "transcript_inv d'" "reset_at sid d' = max (reset_at sid d) up_to"
    "\<exists>x. en_role x = RoleSystem \<and> en_content x = summary_heading @ txt \<and> en_seq x = max_seq sid d + 1
       \<and> visible sid d' = filter (\<lambda>e. up_to < en_seq e) (visible sid d) @ [x]"
    "k \<noteq> sid \<Longrightarrow> visible k d' = visible k d"
proof -
  show inv: "transcript_inv d'" by (rule compact_inv[OF assms])
  let ?f = "\<lambda>s. s\<lparr>sr_reset_at := Some (max (coalesce (sr_reset_at s) 0) up_to)\<rparr>"
  obtain d1 where d1: "insert_entry now sid (max_seq sid d + 1) (role_str RoleSystem) (summary_heading @ txt)
      (max (int (length (summary_heading @ txt)) div 4) 1) None None d = Inr d1"
    and d': "d' = d1\<lparr>sessions := update_where (\<lambda>s. sr_id s = sid) ?f (sessions d1)\<rparr>"
    using assms(2) by (auto simp: compact_with_summary_def Let_def split: sum.splits)
  note i = insert_entry_Inr[OF d1] and n = insert_next_inv[OF assms(1) d1]
  have fs: "find_session k d' = map_option (\<lambda>s. if k = sid then ?f s else s) (find_session k d)" for k
    unfolding d' by (subst find_update_where) (simp_all add: find_session_def i(2))
  have ra: "reset_at k d' = (if k = sid then max (reset_at sid d) up_to else reset_at k d)" for k
    using i(1) by (auto simp: reset_at_def fs split: option.splits)
  then show "reset_at sid d' = max (reset_at sid d) up_to" by simp
  have se: "session_entries k d' = session_entries k d1" for k by (simp add: d')
  note v = load_transcript_eq(2)[OF inv] load_transcript_eq(2)[OF assms(1)]
  show "k \<noteq> sid \<Longrightarrow> visible k d' = visible k d" unfolding v by (simp add: se i(3) ra)
  have lt: "max (reset_at sid d) up_to < max_seq sid d + 1"
    using inv_reset_range[OF assms(1), of sid] assms(3) by simp
  have ff: "filter (\<lambda>e. max (reset_at sid d) up_to < er_seq e) xs
      = filter (\<lambda>e. up_to < er_seq e) (filter (\<lambda>e. reset_at sid d < er_seq e) xs)" for xs
    by (induction xs) auto
  have fm: "filter (\<lambda>e. up_to < en_seq e) (map read_entry xs) = map read_entry (filter (\<lambda>e. up_to < er_seq e) xs)" for xs
    by (induction xs) (auto simp: read_entry_def)
  have "reset_at sid d' = max (reset_at sid d) up_to" by (simp add: ra)
  moreover define row where "row = \<lparr> er_id = last_entry_id d + 1, er_session_id = sid,
      er_seq = max_seq sid d + 1, er_role = role_str RoleSystem, er_content = summary_heading @ txt,
      er_tokens_est = max (int (length (summary_heading @ txt)) div 4) 1, er_tool_calls = None,
      er_tool_call_id = None, er_created_at = now \<rparr>"
  moreover have "session_entries sid d1 = session_entries sid d @ [row]"
    using i(3)[of sid] by (simp add: row_def)
  ultimately have row: "er_role row = role_str RoleSystem" "er_content row = summary_heading @ txt"
    "er_seq row = max_seq sid d + 1"
    "visible sid d' = map read_entry (filter (\<lambda>e. max (reset_at sid d) up_to < er_seq e) (session_entries sid d @ [row]))"
    unfolding v se by simp_all
  show "\<exists>x. en_role x = RoleSystem \<and> en_content x = summary_heading @ txt \<and> en_seq x = max_seq sid d + 1
       \<and> visible sid d' = filter (\<lambda>e. up_to < en_seq e) (visible sid d) @ [x]"
  proof (intro exI[of _ "read_entry row"] conjI)
    show "visible sid d' = filter (\<lambda>e. up_to < en_seq e) (visible sid d) @ [read_entry row]"
      using lt row(3) unfolding row(4) v(2) by (simp only: filter_append map_append ff fm) simp
  qed (simp_all add: read_entry_def row role_roundtrip)
qed

section \<open>The log contract\<close>

text \<open>What the session component relies on: a log whose visible part grows by what is appended,
  empties on reset, and is private to its key.\<close>

locale transcript_log =
  fixes inv :: "'d \<Rightarrow> bool"
    and vis :: "'k \<Rightarrow> 'd \<Rightarrow> 'e list"
    and app :: "'n \<Rightarrow> 'd \<Rightarrow> 'd option"
    and key :: "'n \<Rightarrow> 'k"
    and shows_as :: "'n \<Rightarrow> 'e \<Rightarrow> bool"
    and reset :: "'k \<Rightarrow> 'd \<Rightarrow> 'd"
  assumes app_inv: "inv d \<Longrightarrow> app n d = Some d' \<Longrightarrow> inv d'"
    and app_vis: "inv d \<Longrightarrow> app n d = Some d' \<Longrightarrow> \<exists>e. shows_as n e \<and> vis (key n) d' = vis (key n) d @ [e]"
    and app_other: "inv d \<Longrightarrow> app n d = Some d' \<Longrightarrow> k \<noteq> key n \<Longrightarrow> vis k d' = vis k d"
    and reset_inv: "inv d \<Longrightarrow> inv (reset k d)"
    and reset_other: "inv d \<Longrightarrow> j \<noteq> k \<Longrightarrow> vis j (reset k d) = vis j d"
begin

fun app_all :: "'n list \<Rightarrow> 'd \<Rightarrow> 'd option" where
  "app_all [] d = Some d"
| "app_all (n # ns) d = (case app n d of None \<Rightarrow> None | Some d' \<Rightarrow> app_all ns d')"

lemma app_all_vis:
  "inv d \<Longrightarrow> app_all ns d = Some d' \<Longrightarrow>
     inv d' \<and> (\<exists>es. list_all2 shows_as (filter (\<lambda>n. key n = k) ns) es \<and> vis k d' = vis k d @ es)"
proof (induction ns arbitrary: d)
  case (Cons n ns)
  obtain d1 where d1: "app n d = Some d1" "app_all ns d1 = Some d'"
    using Cons.prems(2) by (auto split: option.splits)
  obtain es where es: "inv d'" "list_all2 shows_as (filter (\<lambda>n. key n = k) ns) es" "vis k d' = vis k d1 @ es"
    using Cons.IH[OF app_inv[OF Cons.prems(1) d1(1)] d1(2)] by blast
  show ?case
  proof (cases "key n = k")
    case True
    then obtain e where "shows_as n e" "vis k d1 = vis k d @ [e]"
      using app_vis[OF Cons.prems(1) d1(1)] by auto
    with es True show ?thesis by (auto intro!: exI[of _ "e # es"])
  next
    case False
    then show ?thesis using es app_other[OF Cons.prems(1) d1(1)] by auto
  qed
qed auto

end

definition shows_entry :: "new_entry \<Rightarrow> entry \<Rightarrow> bool" where
  "shows_entry n e \<longleftrightarrow> en_role e = ne_role n \<and> en_content e = ne_content n \<and> en_tool_calls e = ne_tool_calls n
     \<and> en_tool_call_id e = ne_tool_call_id n \<and> en_tokens_est e = ne_tokens_est n"

definition append_opt :: "int \<Rightarrow> new_entry \<Rightarrow> db \<Rightarrow> db option" where
  "append_opt now n d = (case append_entry now n d of Inr (_, d') \<Rightarrow> Some d' | Inl _ \<Rightarrow> None)"

definition reset_total :: "rstr \<Rightarrow> db \<Rightarrow> db" where
  "reset_total sid d = (case reset_session sid d of Inr d' \<Rightarrow> d' | Inl _ \<Rightarrow> d)"

lemma append_opt_Some: "append_opt now n d = Some d' \<longleftrightarrow> (\<exists>s. append_entry now n d = Inr (s, d'))"
  by (auto simp: append_opt_def split: sum.splits)

lemma reset_total_Inr: "reset_session sid d = Inr (reset_total sid d)"
  by (simp add: reset_total_def reset_session_def)

interpretation tlog: transcript_log transcript_inv visible "append_opt now" ne_session_id shows_entry reset_total
  for now
proof unfold_locales
  fix d n d' assume d: "transcript_inv d" "append_opt now n d = Some d'"
  then obtain s where a: "append_entry now n d = Inr (s, d')" by (auto simp: append_opt_Some)
  show "transcript_inv d'" by (rule visible_append(1)[OF d(1) a])
  show "\<exists>e. shows_entry n e \<and> visible (ne_session_id n) d' = visible (ne_session_id n) d @ [e]"
    using visible_append(3)[OF d(1) a] by (auto simp: shows_entry_def)
  show "\<And>k. k \<noteq> ne_session_id n \<Longrightarrow> visible k d' = visible k d" by (rule visible_append(4)[OF d(1) a])
qed (simp_all add: visible_reset[OF _ reset_total_Inr])

text \<open>Appending one by one, as the persistence of a run does.\<close>

fun append_entries :: "int \<Rightarrow> new_entry list \<Rightarrow> db \<Rightarrow> db option" where
  "append_entries now [] d = Some d"
| "append_entries now (n # ns) d = (case append_opt now n d of None \<Rightarrow> None | Some d' \<Rightarrow> append_entries now ns d')"

lemma append_entries_app_all: "append_entries now ns d = tlog.app_all now ns d"
  by (induction ns arbitrary: d) (auto split: option.splits)

section \<open>Properties\<close>

text \<open>C17. Whatever mixture of sessions is written to, loading a session gives what it showed before
  followed by exactly the entries appended to it, in order and with role, text and tool structure
  intact; the table invariant survives.\<close>

theorem appended_is_loaded:
  assumes "transcript_inv d" "append_entries now ns d = Some d'"
  shows "transcript_inv d' \<and> (\<exists>es. list_all2 shows_entry (filter (\<lambda>n. ne_session_id n = sid) ns) es
           \<and> load_transcript sid (- 1) d' = load_transcript sid (- 1) d @ es)"
  using tlog.app_all_vis[OF assms(1) assms(2)[unfolded append_entries_app_all], of sid]
  by (simp add: visible_def)

definition one_session :: db where
  "one_session = db_empty\<lparr>sessions := [\<lparr> sr_id = [115], sr_kind = kind_str KindMain, sr_created_at = 0, sr_reset_at = None \<rparr>]\<rparr>"

lemma one_session_inv: "transcript_inv one_session"
  by (auto simp: transcript_inv_def one_session_def db_empty_def session_entries_def reset_at_def
      find_session_def max_seq_def sql_max_def)

lemma appended_is_loaded_witness:
  "\<exists>d'. append_entries 5 [new_entry_text [115] RoleUser [104, 105] 1] one_session = Some d'
     \<and> transcript_inv d'"
proof -
  obtain d' where d': "append_entries 5 [new_entry_text [115] RoleUser [104, 105] 1] one_session = Some d'"
    by (simp add: append_opt_def append_entry_def insert_entry_def one_session_def new_entry_text_def
        find_session_def db_empty_def Let_def)
  then show ?thesis using appended_is_loaded[OF one_session_inv d'] by blast
qed

text \<open>Compacting never brings back what was reset: the start of the context only moves forward, the
  entries still visible are those after the compacted interval, the summary is the last of them,
  and other sessions see no change.\<close>

theorem compaction_is_monotone:
  assumes "transcript_inv d" "up_to \<le> max_seq sid d"
    and "compact_with_summary now sid up_to txt d = Inr d'"
  shows "transcript_inv d' \<and> reset_at sid d \<le> reset_at sid d' \<and> up_to \<le> reset_at sid d'
    \<and> (\<exists>x. en_role x = RoleSystem \<and> en_content x = summary_heading @ txt
         \<and> load_transcript sid (- 1) d' = filter (\<lambda>e. up_to < en_seq e) (load_transcript sid (- 1) d) @ [x])
    \<and> (\<forall>k. k \<noteq> sid \<longrightarrow> load_transcript k n d' = load_transcript k n d)"
  using visible_compact[OF assms(1,3,2)]
  by (auto simp: load_transcript_eq(1)[OF assms(1), of _ n] load_transcript_eq(1)[of d' _ n] visible_def)

lemma compaction_is_monotone_witness:
  "\<exists>d'. compact_with_summary 5 [115] 0 [120] one_session = Inr d' \<and> transcript_inv d'"
proof -
  obtain d' where d': "compact_with_summary 5 [115] 0 [120] one_session = Inr d'"
    by (simp add: compact_with_summary_def insert_entry_def one_session_def find_session_def db_empty_def Let_def)
  have "0 \<le> max_seq [115] one_session" by (simp add: max_seq_inv[OF one_session_inv])
  from compaction_is_monotone[OF one_session_inv this d'] d' show ?thesis by blast
qed

text \<open>After a reset a session loads empty, with its entries still in the table, and no other
  session is touched.\<close>

theorem reset_hides_all:
  assumes "transcript_inv d" "find_session sid d = Some s" "reset_session sid d = Inr d'"
  shows "load_transcript sid n d' = [] \<and> entries d' = entries d \<and> transcript_inv d'
    \<and> (\<forall>k. k \<noteq> sid \<longrightarrow> load_transcript k n d' = load_transcript k n d)"
proof -
  note v = visible_reset[OF assms(1,3)]
  have "entries d' = entries d" using assms(3) by (auto simp: reset_session_def)
  with v assms(1,2) show ?thesis
    by (auto simp: load_transcript_eq(1)[OF v(1), of _ n] load_transcript_eq(1)[OF assms(1), of _ n] sql_limit_def)
qed

lemma reset_hides_all_witness:
  "\<exists>d'. reset_session [115] one_session = Inr d' \<and> load_transcript [115] 10 d' = []"
proof -
  obtain d' where d': "reset_session [115] one_session = Inr d'" by (simp add: reset_session_def)
  obtain s where "find_session [115] one_session = Some s" by (simp add: one_session_def find_session_def)
  from reset_hides_all[OF one_session_inv this d', of 10] d' show ?thesis by blast
qed

end
