(* ===== verification/Store_Memory.thy ===== *)
theory Store_Memory
  imports Store_Db Fts
begin

text \<open>
  The memory operations of \<open>crates/oc-store/src/ops.rs\<close>: the table \<open>memory\<close>, its contentless
  full-text index \<open>memory_fts\<close> (row number to encoded text), and the lexical search.  FTS5's
  \<open>unicode61\<close> is used as the code relies on it: it cuts the stored text at spaces.  The locale
  \<open>keyed_table\<close> states what callers assume of a table with a unique text key.
\<close>

section \<open>Operations\<close>

definition find_memory :: "rstr \<Rightarrow> db \<Rightarrow> memory_row option" where
  "find_memory mid d = find (\<lambda>m. mr_id m = mid) (memories d)"

definition index_memory_text :: "(rchar \<Rightarrow> rstr) \<Rightarrow> (rchar \<Rightarrow> bool) \<Rightarrow> int \<Rightarrow> rstr \<Rightarrow> db \<Rightarrow> db" where
  "index_memory_text lc alnum no text d =
     d\<lparr>memory_fts := filter (\<lambda>(n, _). n \<noteq> no) (memory_fts d) @ [(no, encode_doc lc alnum text)]\<rparr>"

definition next_no :: "db \<Rightarrow> int" where
  "next_no d = coalesce (sql_max (map mr_no (memories d))) 0 + 1"

definition overwrite_memory :: "new_memory \<Rightarrow> memory_row \<Rightarrow> memory_row" where
  "overwrite_memory m r = r\<lparr>mr_text := nm_text m, mr_keywords := nm_keywords m, mr_importance := nm_importance m,
     mr_content_hash := nm_content_hash m, mr_pref_key := nm_pref_key m, mr_source := nm_source m\<rparr>"

definition fresh_memory :: "int \<Rightarrow> int \<Rightarrow> new_memory \<Rightarrow> memory_row" where
  "fresh_memory now no m = \<lparr> mr_no = no, mr_id = nm_id m, mr_tier = tier_str (nm_tier m),
     mr_origin = origin_str (nm_origin m), mr_text = nm_text m, mr_keywords = nm_keywords m,
     mr_importance = nm_importance m, mr_created_at = now, mr_last_used_at = None, mr_use_count = 0,
     mr_content_hash = nm_content_hash m, mr_pref_key = nm_pref_key m, mr_source = nm_source m \<rparr>"

definition upsert_memory :: "(rchar \<Rightarrow> rstr) \<Rightarrow> (rchar \<Rightarrow> bool) \<Rightarrow> int \<Rightarrow> new_memory \<Rightarrow> db \<Rightarrow> store_error + db" where
  "upsert_memory lc alnum now m d =
     (let d1 = (if find_memory (nm_id m) d \<noteq> None
                then d\<lparr>memories := update_where (\<lambda>r. mr_id r = nm_id m) (overwrite_memory m) (memories d)\<rparr>
                else d\<lparr>memories := memories d @ [fresh_memory now (next_no d) m]\<rparr>)
      in case find_memory (nm_id m) d1 of
           None \<Rightarrow> Inl NoRow
         | Some r \<Rightarrow> Inr (index_memory_text lc alnum (mr_no r) (nm_text m) d1))"

definition touch_memory :: "rstr \<Rightarrow> int \<Rightarrow> db \<Rightarrow> store_error + db" where
  "touch_memory mid when d = Inr (d\<lparr>memories := update_where (\<lambda>r. mr_id r = mid)
     (\<lambda>r. r\<lparr>mr_last_used_at := Some when, mr_use_count := mr_use_count r + 1\<rparr>) (memories d)\<rparr>)"

definition dream_candidates :: "int \<Rightarrow> db \<Rightarrow> memory_row list" where
  "dream_candidates limit d =
     sql_limit limit (sort_by (\<lambda>a b. mr_use_count a < mr_use_count b
         \<or> mr_use_count a = mr_use_count b \<and> mr_created_at b < mr_created_at a)
       (filter (\<lambda>m. mr_tier m = lit ''episodic'') (memories d)))"

definition importance_floor :: "flt \<Rightarrow> flt" where
  "importance_floor i = flt_max i (f64 (6 / 10))"

definition promote_memory :: "rstr \<Rightarrow> db \<Rightarrow> store_error + db" where
  "promote_memory mid d = Inr (d\<lparr>memories := update_where (\<lambda>r. mr_id r = mid \<and> mr_tier r = lit ''episodic'')
     (\<lambda>r. r\<lparr>mr_tier := lit ''curated'', mr_importance := importance_floor (mr_importance r)\<rparr>) (memories d)\<rparr>)"

definition curated_list :: "db \<Rightarrow> (rstr \<times> rstr) list" where
  "curated_list d = map (\<lambda>m. (mr_id m, mr_text m))
     (sort_by (\<lambda>a b. mr_no b < mr_no a) (filter (\<lambda>m. mr_tier m = lit ''curated'') (memories d)))"

definition delete_row :: "int \<Rightarrow> db \<Rightarrow> db" where
  "delete_row no d = d\<lparr>memories := filter (\<lambda>m. mr_no m \<noteq> no) (memories d),
                      memory_fts := filter (\<lambda>(n, _). n \<noteq> no) (memory_fts d)\<rparr>"

definition merge_memory :: "(rchar \<Rightarrow> rstr) \<Rightarrow> (rchar \<Rightarrow> bool) \<Rightarrow> rstr \<Rightarrow> rstr \<Rightarrow> rstr \<Rightarrow> rstr \<Rightarrow> db \<Rightarrow> store_error + db" where
  "merge_memory lc alnum source_id target_id merged_text merged_hash d =
     (case find_memory target_id d of
        None \<Rightarrow> Inr d
      | Some t \<Rightarrow>
          let d1 = d\<lparr>memories := update_where (\<lambda>r. mr_no r = mr_no t)
                (\<lambda>r. r\<lparr>mr_text := merged_text, mr_importance := importance_floor (mr_importance r),
                      mr_content_hash := merged_hash\<rparr>) (memories d)\<rparr>;
              d2 = index_memory_text lc alnum (mr_no t) merged_text d1
          in if source_id \<noteq> target_id
             then (case find_memory source_id d2 of Some s \<Rightarrow> Inr (delete_row (mr_no s) d2) | None \<Rightarrow> Inr d2)
             else Inr d2)"

definition memory_by_pref_key :: "rstr \<Rightarrow> db \<Rightarrow> memory_row list" where
  "memory_by_pref_key key d = sort_by (\<lambda>a b. mr_created_at b < mr_created_at a)
     (filter (\<lambda>m. mr_pref_key m = Some key \<and> mr_tier m = lit ''curated'') (memories d))"

definition delete_memory :: "rstr \<Rightarrow> db \<Rightarrow> store_error + bool \<times> db" where
  "delete_memory mid d = (case find_memory mid d of
     None \<Rightarrow> Inr (False, d)
   | Some m \<Rightarrow> Inr (True, delete_row (mr_no m) d))"

section \<open>Search\<close>

text \<open>\<open>LIKE\<close>: percent for any text, underscore for any character, ASCII case ignored.\<close>

function like :: "rstr \<Rightarrow> rstr \<Rightarrow> bool" where
  "like [] s = (s = [])"
| "like (p # ps) s =
     (if p = 37 then like ps s \<or> (case s of [] \<Rightarrow> False | _ # s' \<Rightarrow> like (p # ps) s')
      else case s of [] \<Rightarrow> False | c # s' \<Rightarrow> (p = 95 \<or> ascii_lower p = ascii_lower c) \<and> like ps s')"
  by pat_completeness auto
termination
  by (relation "measure (\<lambda>(p, s). length p + length s)") auto

definition like_any :: "rstr list \<Rightarrow> rstr \<Rightarrow> bool" where
  "like_any terms text \<longleftrightarrow> (\<exists>t \<in> set terms. like ([37] @ t @ [37]) text)"

definition fts_tokens :: "rstr \<Rightarrow> rstr set" where
  "fts_tokens terms = set (filter (\<lambda>w. w \<noteq> []) (split_char 32 terms))"

definition tier_ok :: "store_tier option \<Rightarrow> memory_row \<Rightarrow> bool" where
  "tier_ok tf m = (case tf of Some t \<Rightarrow> mr_tier m = tier_str t | None \<Rightarrow> True)"

definition newest_first :: "memory_row \<Rightarrow> memory_row \<Rightarrow> bool" where
  "newest_first a b \<longleftrightarrow> mr_no a < mr_no b"

definition search_candidates :: "(rchar \<Rightarrow> rstr) \<Rightarrow> (rchar \<Rightarrow> bool) \<Rightarrow> rstr list \<Rightarrow> store_tier option \<Rightarrow> int \<Rightarrow> db \<Rightarrow> memory_row list" where
  "search_candidates lc alnum query_terms tier_filter limit d =
     (if query_terms = []
      then sql_limit limit (sort_by newest_first (filter (tier_ok tier_filter) (memories d)))
      else case match_terms lc alnum query_terms of
        Some q \<Rightarrow> sql_limit limit (sort_by newest_first
           (filter (\<lambda>m. (\<exists>f \<in> set (memory_fts d). fst f = mr_no m \<and> index_hit q (fts_tokens (snd f)))
                        \<and> tier_ok tier_filter m \<and> like_any query_terms (mr_text m)) (memories d)))
      | None \<Rightarrow> sql_limit limit (sort_by newest_first
           (filter (\<lambda>m. like_any query_terms (mr_text m) \<and> tier_ok tier_filter m) (memories d))))"

section \<open>Invariant: keys are unique and the index is in step\<close>

definition memory_inv :: "(rchar \<Rightarrow> rstr) \<Rightarrow> (rchar \<Rightarrow> bool) \<Rightarrow> db \<Rightarrow> bool" where
  "memory_inv lc alnum d \<longleftrightarrow>
     distinct (map mr_id (memories d)) \<and> distinct (map mr_no (memories d))
   \<and> set (memory_fts d) = (\<lambda>m. (mr_no m, encode_doc lc alnum (mr_text m))) ` set (memories d)"

lemma find_memory_Some: "find_memory mid d = Some m \<Longrightarrow> m \<in> set (memories d) \<and> mr_id m = mid"
  by (auto simp: find_memory_def find_Some_iff)

lemma find_memory_None: "find_memory mid d = None \<longleftrightarrow> mid \<notin> mr_id ` set (memories d)"
  by (auto simp: find_memory_def find_None_iff)

lemma find_memory_eq:
  assumes "memory_inv lc alnum d" "m \<in> set (memories d)"
  shows "find_memory (mr_id m) d = Some m"
proof -
  obtain m' where m': "find_memory (mr_id m) d = Some m'"
    using assms(2) find_memory_None[of "mr_id m" d] by auto
  have "m' = m" using find_memory_Some[OF m'] assms
    by (auto simp: memory_inv_def distinct_map dest: inj_onD)
  with m' show ?thesis by simp
qed

lemma same_no:
  "memory_inv lc alnum d \<Longrightarrow> a \<in> set (memories d) \<Longrightarrow> b \<in> set (memories d) \<Longrightarrow> mr_no a = mr_no b \<Longrightarrow> a = b"
  by (auto simp: memory_inv_def distinct_map dest: inj_onD)

lemma same_id:
  "memory_inv lc alnum d \<Longrightarrow> a \<in> set (memories d) \<Longrightarrow> b \<in> set (memories d) \<Longrightarrow> mr_id a = mr_id b \<Longrightarrow> a = b"
  by (auto simp: memory_inv_def distinct_map dest: inj_onD)

lemma next_no_fresh: "m \<in> set (memories d) \<Longrightarrow> mr_no m < next_no d"
proof -
  assume m: "m \<in> set (memories d)"
  then have "mr_no m \<le> Max (set (map mr_no (memories d)))" by (intro Max_ge) auto
  then show ?thesis using m by (auto simp: next_no_def sql_max_def)
qed

text \<open>Changing rows in place and reindexing the only one whose text changed.\<close>

lemma reindex_inv:
  assumes "memory_inv lc alnum d" "m \<in> set (memories d)"
    and f: "\<And>r. mr_id (f r) = mr_id r" "\<And>r. mr_no (f r) = mr_no r" "mr_text (f m) = text"
  shows "memory_inv lc alnum (index_memory_text lc alnum (mr_no m) text
     (d\<lparr>memories := update_where (\<lambda>r. mr_no r = mr_no m) f (memories d)\<rparr>))"
proof -
  have rows: "set (update_where (\<lambda>r. mr_no r = mr_no m) f (memories d))
      = insert (f m) (set (memories d) - {m})"
  proof -
    have "update_where (\<lambda>r. mr_no r = mr_no m) f (memories d) = map (\<lambda>r. if r = m then f r else r) (memories d)"
      unfolding update_where_def using same_no[OF assms(1) _ assms(2)] by (intro map_cong) auto
    then show ?thesis using assms(2) by auto
  qed
  have "{p \<in> set (memory_fts d). fst p \<noteq> mr_no m}
      = (\<lambda>m. (mr_no m, encode_doc lc alnum (mr_text m))) ` (set (memories d) - {m})"
    using assms(1,2) same_no[OF assms(1)] unfolding memory_inv_def by auto
  then show ?thesis using assms(1) f rows
    by (auto simp: memory_inv_def index_memory_text_def map_update_where case_prod_unfold)
qed

lemma keep_inv:
  assumes "memory_inv lc alnum d"
    and f: "\<And>r. mr_id (f r) = mr_id r" "\<And>r. mr_no (f r) = mr_no r" "\<And>r. mr_text (f r) = mr_text r"
  shows "memory_inv lc alnum (d\<lparr>memories := update_where p f (memories d)\<rparr>)"
proof -
  have "(\<lambda>m. (mr_no m, encode_doc lc alnum (mr_text m))) ` set (update_where p f (memories d))
      = (\<lambda>m. (mr_no m, encode_doc lc alnum (mr_text m))) ` set (memories d)"
    unfolding update_where_def set_map image_image by (intro image_cong) (auto simp: f)
  then show ?thesis using assms(1) f by (simp add: memory_inv_def map_update_where)
qed

lemma delete_row_inv: "memory_inv lc alnum d \<Longrightarrow> memory_inv lc alnum (delete_row no d)"
  by (auto simp: memory_inv_def delete_row_def distinct_map_filter case_prod_unfold)

lemma update_by_id_is_by_no:
  assumes "memory_inv lc alnum d" "m \<in> set (memories d)"
  shows "update_where (\<lambda>r. mr_id r = mr_id m) f (memories d) = update_where (\<lambda>r. mr_no r = mr_no m) f (memories d)"
  unfolding update_where_def using same_no[OF assms(1) _ assms(2)] same_id[OF assms(1) _ assms(2)]
  by (intro map_cong) auto

lemma find_update_memory:
  assumes "memory_inv lc alnum d" "m \<in> set (memories d)" "\<And>r. mr_id (f r) = mr_id r"
  shows "find_memory (mr_id m) (d\<lparr>memories := update_where (\<lambda>r. mr_id r = mr_id m) f (memories d)\<rparr>) = Some (f m)"
proof -
  have "find (\<lambda>r. mr_id r = i) (update_where (\<lambda>r. mr_id r = i) f xs) = map_option f (find (\<lambda>r. mr_id r = i) xs)" for i xs
    by (induction xs) (auto simp: update_where_def assms(3))
  then show ?thesis using find_memory_eq[OF assms(1,2)] by (simp add: find_memory_def)
qed

lemma upsert_old:
  assumes "memory_inv lc alnum d" "find_memory (nm_id m) d = Some r"
  shows "upsert_memory lc alnum now m d = Inr (index_memory_text lc alnum (mr_no r) (nm_text m)
     (d\<lparr>memories := update_where (\<lambda>x. mr_no x = mr_no r) (overwrite_memory m) (memories d)\<rparr>))"
proof -
  have r: "r \<in> set (memories d)" "nm_id m = mr_id r" using find_memory_Some[OF assms(2)] by auto
  have "find_memory (nm_id m) (d\<lparr>memories := update_where (\<lambda>x. mr_id x = nm_id m) (overwrite_memory m) (memories d)\<rparr>)
      = Some (overwrite_memory m r)"
    unfolding r(2) by (rule find_update_memory[OF assms(1) r(1)]) (simp add: overwrite_memory_def)
  then show ?thesis using assms(2) update_by_id_is_by_no[OF assms(1) r(1)]
    by (simp add: upsert_memory_def Let_def overwrite_memory_def[of m r] r(2))
qed

lemma upsert_new:
  assumes "find_memory (nm_id m) d = None"
  shows "upsert_memory lc alnum now m d = Inr (index_memory_text lc alnum (next_no d) (nm_text m)
     (d\<lparr>memories := memories d @ [fresh_memory now (next_no d) m]\<rparr>))"
proof -
  have "find_memory (nm_id m) (d\<lparr>memories := memories d @ [fresh_memory now (next_no d) m]\<rparr>)
      = Some (fresh_memory now (next_no d) m)"
  proof -
    have "find p xs = None \<Longrightarrow> p x \<Longrightarrow> find p (xs @ [x]) = Some x" for p xs and x :: memory_row
      by (induction xs) (auto split: if_splits)
    then show ?thesis using assms by (simp add: find_memory_def fresh_memory_def)
  qed
  then show ?thesis using assms by (simp add: upsert_memory_def fresh_memory_def)
qed

lemma upsert_inv:
  assumes "memory_inv lc alnum d" "upsert_memory lc alnum now m d = Inr d'"
  shows "memory_inv lc alnum d'"
proof (cases "find_memory (nm_id m) d")
  case (Some r)
  have r: "r \<in> set (memories d)" using find_memory_Some[OF Some] by auto
  have "d' = index_memory_text lc alnum (mr_no r) (nm_text m)
     (d\<lparr>memories := update_where (\<lambda>x. mr_no x = mr_no r) (overwrite_memory m) (memories d)\<rparr>)"
    using upsert_old[OF assms(1) Some] assms(2) by simp
  then show ?thesis using reindex_inv[OF assms(1) r, of "overwrite_memory m"]
    by (simp add: overwrite_memory_def)
next
  case None
  have new: "p \<in> set (memory_fts d) \<Longrightarrow> fst p \<noteq> next_no d" for p
    using assms(1) next_no_fresh by (fastforce simp: memory_inv_def)
  have "next_no d \<notin> mr_no ` set (memories d)" using next_no_fresh by fastforce
  moreover have "filter (\<lambda>(n, _). n \<noteq> next_no d) (memory_fts d) = memory_fts d"
    by (rule filter_True) (use new in fastforce)
  ultimately show ?thesis using assms None upsert_new[OF None]
    by (auto simp: memory_inv_def index_memory_text_def fresh_memory_def find_memory_None)
qed

lemma merge_inv:
  assumes "memory_inv lc alnum d" "merge_memory lc alnum sid tid text h d = Inr d'"
  shows "memory_inv lc alnum d'"
proof (cases "find_memory tid d")
  case (Some t)
  let ?d2 = "index_memory_text lc alnum (mr_no t) text (d\<lparr>memories := update_where (\<lambda>r. mr_no r = mr_no t)
       (\<lambda>r. r\<lparr>mr_text := text, mr_importance := importance_floor (mr_importance r), mr_content_hash := h\<rparr>) (memories d)\<rparr>)"
  have t: "t \<in> set (memories d)" using find_memory_Some[OF Some] by auto
  have inv: "memory_inv lc alnum ?d2" by (rule reindex_inv[OF assms(1) t]) simp_all
  have "d' = ?d2 \<or> (\<exists>n. d' = delete_row n ?d2)"
    using assms(2) Some by (auto simp: merge_memory_def Let_def split: if_splits option.splits)
  with inv delete_row_inv[OF inv] show ?thesis by auto
qed (use assms in \<open>simp add: merge_memory_def\<close>)


section \<open>LIKE and the index\<close>

lemma like_percent [simp]: "like [37] s"
  by (induction s) auto

lemma like_plain:
  "37 \<notin> set t \<Longrightarrow> 95 \<notin> set t \<Longrightarrow>
     like (t @ [37]) s \<longleftrightarrow> starts_with (to_ascii_lowercase s) (to_ascii_lowercase t)"
proof (induction t arbitrary: s)
  case (Cons c t)
  then show ?case by (cases s) (auto simp: starts_with_def to_ascii_lowercase_def)
qed (simp add: starts_with_def to_ascii_lowercase_def del: like.simps)

lemma like_infix:
  assumes "37 \<notin> set t" "95 \<notin> set t"
  shows "like ([37] @ t @ [37]) s \<longleftrightarrow> contains (to_ascii_lowercase s) (to_ascii_lowercase t)"
proof (induction s)
  case Nil
  show ?case using like_plain[OF assms, of "[]"] by (cases t) (auto simp: starts_with_def to_ascii_lowercase_def)
next
  case (Cons c s)
  then show ?case using like_plain[OF assms, of "c # s"] by (simp add: to_ascii_lowercase_def)
qed

lemma join_Cons2: "join sep (w # v # ws) = w @ sep @ join sep (v # ws)"
  by (simp add: join_def)

lemma split_join:
  "ws \<noteq> [] \<Longrightarrow> (\<And>w. w \<in> set ws \<Longrightarrow> 32 \<notin> set w) \<Longrightarrow> split_char 32 (join [32] ws) = ws"
proof (induction ws rule: induct_list012)
  case (2 w)
  then show ?case by (auto simp: join_def intro!: split_by_none)
next
  case (3 w v ws)
  have "32 \<notin> set w" using 3(4)[of w] by simp
  then have "split_char 32 (w @ 32 # join [32] (v # ws)) = w # split_char 32 (join [32] (v # ws))"
    by (intro split_by_append_sep) auto
  with 3 show ?case by (simp add: join_Cons2)
qed simp

lemma windows_tokens:
  assumes "t \<in> set (windows lc alnum s)"
  shows "t \<noteq> [] \<and> (\<forall>c \<in> set t. alnum c)"
proof -
  have "fold_window lc alnum w = Some t \<Longrightarrow> t \<noteq> [] \<and> (\<forall>c \<in> set t. alnum c)" for w
    by (auto simp: fold_window_def Let_def split: if_splits)
  with assms show ?thesis
    by (fastforce simp: windows_def set_map_filter split: if_splits option.splits)
qed

lemma fts_tokens_encode:
  assumes "\<not> alnum 32"
  shows "fts_tokens (encode_doc lc alnum text) = index_tokens lc alnum text"
proof (cases "windows lc alnum text = []")
  case True
  then show ?thesis by (simp add: fts_tokens_def encode_doc_def index_tokens_def join_def)
next
  case False
  let ?ws = "remdups_adj (sort (windows lc alnum text))"
  have "?ws \<noteq> []" using False by (metis remdups_adj_Nil_iff set_empty set_sort)
  moreover have "32 \<notin> set w" if "w \<in> set ?ws" for w using that windows_tokens[of w lc alnum "text"] assms by auto
  ultimately have "split_char 32 (encode_doc lc alnum text) = ?ws"
    unfolding encode_doc_def using split_join[of ?ws] by simp
  then show ?thesis using windows_tokens[of _ lc alnum "text"] by (auto simp: fts_tokens_def index_tokens_def)
qed

lemma index_row:
  assumes "memory_inv lc alnum d" "\<not> alnum 32" "m \<in> set (memories d)"
  shows "(\<exists>f \<in> set (memory_fts d). fst f = mr_no m \<and> index_hit q (fts_tokens (snd f)))
     \<longleftrightarrow> index_hit q (index_tokens lc alnum (mr_text m))"
proof -
  have "set (memory_fts d) = (\<lambda>m. (mr_no m, encode_doc lc alnum (mr_text m))) ` set (memories d)"
    using assms(1) by (simp add: memory_inv_def)
  then have "(\<exists>f \<in> set (memory_fts d). fst f = mr_no m \<and> index_hit q (fts_tokens (snd f)))
     \<longleftrightarrow> (\<exists>r \<in> set (memories d). mr_no r = mr_no m \<and> index_hit q (index_tokens lc alnum (mr_text r)))"
    by (simp add: fts_tokens_encode[of alnum, OF assms(2)])
  then show ?thesis using same_no[OF assms(1) _ assms(3)] assms(3) by metis
qed

section \<open>The table contract\<close>

locale keyed_table =
  fixes inv :: "'d \<Rightarrow> bool"
    and abs :: "'d \<Rightarrow> 'k \<Rightarrow> 'v option"
    and put :: "'x \<Rightarrow> 'd \<Rightarrow> 'd option"
    and key :: "'x \<Rightarrow> 'k"
    and val :: "'x \<Rightarrow> 'v"
    and del :: "'k \<Rightarrow> 'd \<Rightarrow> 'd"
  assumes put_law: "inv d \<Longrightarrow> put x d = Some d' \<Longrightarrow> inv d' \<and> abs d' = (abs d)(key x \<mapsto> val x)"
    and del_law: "inv d \<Longrightarrow> inv (del k d) \<and> abs (del k d) = (abs d)(k := None)"
begin

fun run_table :: "('x + 'k) list \<Rightarrow> 'd \<Rightarrow> 'd option" where
  "run_table [] d = Some d"
| "run_table (Inl x # cs) d = (case put x d of None \<Rightarrow> None | Some d' \<Rightarrow> run_table cs d')"
| "run_table (Inr k # cs) d = run_table cs (del k d)"

fun run_map :: "('x + 'k) list \<Rightarrow> ('k \<Rightarrow> 'v option) \<Rightarrow> ('k \<Rightarrow> 'v option)" where
  "run_map [] m = m"
| "run_map (Inl x # cs) m = run_map cs (m(key x \<mapsto> val x))"
| "run_map (Inr k # cs) m = run_map cs (m(k := None))"

lemma run_refines: "inv d \<Longrightarrow> run_table cs d = Some d' \<Longrightarrow> inv d' \<and> abs d' = run_map cs (abs d)"
  by (induction cs d rule: run_table.induct) (auto simp: del_law dest: put_law split: option.splits)

end

text \<open>The texts under their ids.\<close>

definition memory_texts :: "db \<Rightarrow> rstr \<Rightarrow> rstr option" where
  "memory_texts d mid = map_option mr_text (find_memory mid d)"

definition put_memory :: "(rchar \<Rightarrow> rstr) \<Rightarrow> (rchar \<Rightarrow> bool) \<Rightarrow> int \<Rightarrow> new_memory \<Rightarrow> db \<Rightarrow> db option" where
  "put_memory lc alnum now m d = (case upsert_memory lc alnum now m d of Inr d' \<Rightarrow> Some d' | Inl _ \<Rightarrow> None)"

definition drop_memory :: "rstr \<Rightarrow> db \<Rightarrow> db" where
  "drop_memory mid d = (case delete_memory mid d of Inr (_, d') \<Rightarrow> d' | Inl _ \<Rightarrow> d)"

lemma find_fts [simp]: "find_memory i (index_memory_text lc alnum n t d) = find_memory i d"
  by (simp add: find_memory_def index_memory_text_def)

lemma find_map:
  assumes "\<And>r. mr_id (f r) = mr_id r"
  shows "find_memory i (d\<lparr>memories := map f (memories d)\<rparr>) = map_option f (find_memory i d)"
proof -
  have "find (\<lambda>r. mr_id r = i) (map f xs) = map_option f (find (\<lambda>r. mr_id r = i) xs)" for xs
    by (induction xs) (auto simp: assms)
  then show ?thesis by (simp add: find_memory_def)
qed

lemma texts_upsert:
  assumes inv: "memory_inv lc alnum d" and up: "upsert_memory lc alnum now m d = Inr d'"
  shows "memory_texts d' = (memory_texts d)(nm_id m \<mapsto> nm_text m)"
proof (rule ext)
  fix i
  show "memory_texts d' i = ((memory_texts d)(nm_id m \<mapsto> nm_text m)) i"
  proof (cases "find_memory (nm_id m) d")
    case (Some r)
    have r: "r \<in> set (memories d)" "mr_id r = nm_id m" using find_memory_Some[OF Some] by auto
    have "d' = index_memory_text lc alnum (mr_no r) (nm_text m)
       (d\<lparr>memories := update_where (\<lambda>x. mr_no x = mr_no r) (overwrite_memory m) (memories d)\<rparr>)"
      using upsert_old[OF inv Some] up by simp
    then have "find_memory i d' = map_option (\<lambda>x. if mr_no x = mr_no r then overwrite_memory m x else x) (find_memory i d)"
      by (simp add: update_where_def) (subst find_map, simp_all add: overwrite_memory_def)
    then show ?thesis
      using Some r same_no[OF inv _ r(1)] find_memory_Some[of i d]
      by (cases "find_memory i d") (auto simp: memory_texts_def overwrite_memory_def)
  next
    case None
    have "find p (xs @ [x]) = (case find p xs of Some y \<Rightarrow> Some y | None \<Rightarrow> if p x then Some x else None)" for p xs and x :: memory_row
      by (induction xs) auto
    moreover have "memories d' = memories d @ [fresh_memory now (next_no d) m]"
      using upsert_new[OF None, of lc alnum now] up by (auto simp: index_memory_text_def)
    moreover have "mr_id (fresh_memory now (next_no d) m) = nm_id m" by (simp add: fresh_memory_def)
    ultimately have "find_memory i d' = (case find_memory i d of Some y \<Rightarrow> Some y
        | None \<Rightarrow> if nm_id m = i then Some (fresh_memory now (next_no d) m) else None)"
      by (simp add: find_memory_def)
    then show ?thesis using None by (auto simp: memory_texts_def fresh_memory_def split: option.splits)
  qed
qed

lemma texts_delete:
  assumes "memory_inv lc alnum d"
  shows "memory_inv lc alnum (drop_memory k d) \<and> memory_texts (drop_memory k d) = (memory_texts d)(k := None)"
proof (cases "find_memory k d")
  case None
  then show ?thesis using assms by (auto simp: drop_memory_def delete_memory_def memory_texts_def fun_eq_iff)
next
  case (Some r)
  have r: "r \<in> set (memories d)" "mr_id r = k" using find_memory_Some[OF Some] by auto
  have d': "drop_memory k d = delete_row (mr_no r) d" by (simp add: drop_memory_def delete_memory_def Some)
  have inv': "memory_inv lc alnum (delete_row (mr_no r) d)" by (rule delete_row_inv[OF assms])
  have set': "set (memories (delete_row (mr_no r) d)) = set (memories d) - {r}"
    using same_no[OF assms _ r(1)] r(1) by (auto simp: delete_row_def)
  have "find_memory i (delete_row (mr_no r) d) = (if i = k then None else find_memory i d)" for i
  proof (cases "i = k")
    case True
    then show ?thesis using set' same_id[OF assms _ r(1)] r(2) by (auto simp: find_memory_None)
  next
    case False
    show ?thesis
    proof (cases "find_memory i d")
      case None
      then have "find_memory i (delete_row (mr_no r) d) = None" using set' by (auto simp: find_memory_None)
      with None False show ?thesis by simp
    next
      case (Some x)
      have "x \<in> set (memories (delete_row (mr_no r) d))" "mr_id x = i"
        using find_memory_Some[OF Some] set' r(2) False by auto
      then show ?thesis using find_memory_eq[OF inv'] Some False by force
    qed
  qed
  then show ?thesis using inv' d' by (auto simp: memory_texts_def fun_eq_iff)
qed

interpretation memtab: keyed_table "memory_inv lc alnum" memory_texts "put_memory lc alnum now" nm_id nm_text drop_memory
  for lc alnum now
  by unfold_locales
     (auto simp: put_memory_def texts_delete upsert_inv texts_upsert split: sum.splits)


text \<open>A sequence of writes (\<open>Inl\<close>) and deletions (\<open>Inr\<close>), on the table and on the map it stands for.\<close>

fun memory_writes :: "(rchar \<Rightarrow> rstr) \<Rightarrow> (rchar \<Rightarrow> bool) \<Rightarrow> int \<Rightarrow> (new_memory + rstr) list \<Rightarrow> db \<Rightarrow> db option" where
  "memory_writes lc alnum now [] d = Some d"
| "memory_writes lc alnum now (Inl m # cs) d =
     (case put_memory lc alnum now m d of None \<Rightarrow> None | Some d' \<Rightarrow> memory_writes lc alnum now cs d')"
| "memory_writes lc alnum now (Inr k # cs) d = memory_writes lc alnum now cs (drop_memory k d)"

fun map_writes :: "(new_memory + rstr) list \<Rightarrow> (rstr \<Rightarrow> rstr option) \<Rightarrow> (rstr \<Rightarrow> rstr option)" where
  "map_writes [] f = f"
| "map_writes (Inl m # cs) f = map_writes cs (f(nm_id m \<mapsto> nm_text m))"
| "map_writes (Inr k # cs) f = map_writes cs (f(k := None))"

lemma memory_writes_eq: "memory_writes lc alnum now cs d = memtab.run_table lc alnum now cs d"
  by (induction lc alnum now cs d rule: memory_writes.induct) (auto split: option.splits)

lemma map_writes_eq: "map_writes cs f = memtab.run_map cs f"
  by (induction cs f rule: map_writes.induct) (simp_all del: fun_upd_apply)

section \<open>Properties\<close>

text \<open>C18. The table of memories with its index behaves as a map from ids to texts: after any writes
  and deletions, the text of an id is the last one written to it, and the ids stay unique and the
  index in step with the rows.\<close>

theorem memory_table_refines_map:
  assumes "memory_inv lc alnum d" "memory_writes lc alnum now cs d = Some d'"
  shows "memory_inv lc alnum d' \<and> memory_texts d' = map_writes cs (memory_texts d)"
  using memtab.run_refines[OF assms(1)] assms(2) by (simp add: memory_writes_eq map_writes_eq)

lemma empty_memory_inv: "memory_inv lc alnum db_empty"
  by (simp add: memory_inv_def db_empty_def)

definition sample_memory :: "rstr \<Rightarrow> rstr \<Rightarrow> new_memory" where
  "sample_memory i t = \<lparr> nm_id = i, nm_tier = TierCurated, nm_origin = OriginOwner, nm_text = t,
     nm_keywords = None, nm_importance = Fin 1, nm_content_hash = [], nm_pref_key = None, nm_source = None \<rparr>"

lemma memory_table_refines_map_witness:
  "\<exists>d'. memory_writes lower_char is_ascii_alnum 5 [Inl (sample_memory [1] (lit ''abc''))] db_empty = Some d'
     \<and> memory_texts d' [1] = Some (lit ''abc'')"
proof -
  have "find_memory (nm_id (sample_memory [1] (lit ''abc''))) db_empty = None"
    by (simp add: find_memory_def db_empty_def)
  from upsert_new[OF this, of lower_char is_ascii_alnum 5]
  obtain d' where d': "memory_writes lower_char is_ascii_alnum 5 [Inl (sample_memory [1] (lit ''abc''))] db_empty = Some d'"
    by (simp add: put_memory_def)
  from memory_table_refines_map[OF empty_memory_inv d'] d' show ?thesis
    by (auto simp: sample_memory_def)
qed

text \<open>C21. For query terms of two or more characters without wildcards, the search through the index
  answers exactly what scanning every text would: the newest \<open>limit\<close> rows of the tier that contain
  one of the terms, ASCII case ignored.\<close>

theorem search_is_scan:
  assumes inv: "memory_inv lc alnum d"
    and lc: "\<And>c. lc (ascii_lower c) = lc c" and sp: "\<not> alnum 32"
    and terms: "\<forall>t \<in> set terms. 2 \<le> length t \<and> 37 \<notin> set t \<and> 95 \<notin> set t" "terms \<noteq> []"
  shows "search_candidates lc alnum terms tf limit d =
     sql_limit limit (sort_by newest_first (filter (\<lambda>m. tier_ok tf m
       \<and> (\<exists>t \<in> set terms. contains (to_ascii_lowercase (mr_text m)) (to_ascii_lowercase t))) (memories d)))"
proof -
  have like: "like_any terms x \<longleftrightarrow> (\<exists>t \<in> set terms. contains (to_ascii_lowercase x) (to_ascii_lowercase t))" for x
    using terms(1) like_infix by (simp add: like_any_def del: append.simps)
  show ?thesis
  proof (cases "match_terms lc alnum terms")
    case None
    have "(\<lambda>m. like_any terms (mr_text m) \<and> tier_ok tf m) = (\<lambda>m. tier_ok tf m
       \<and> (\<exists>t \<in> set terms. contains (to_ascii_lowercase (mr_text m)) (to_ascii_lowercase t)))"
      using like by auto
    with None terms(2) show ?thesis by (simp add: search_candidates_def)
  next
    case (Some q)
    have "((\<exists>f \<in> set (memory_fts d). fst f = mr_no m \<and> index_hit q (fts_tokens (snd f)))
            \<and> tier_ok tf m \<and> like_any terms (mr_text m)) \<longleftrightarrow> (tier_ok tf m
       \<and> (\<exists>t \<in> set terms. contains (to_ascii_lowercase (mr_text m)) (to_ascii_lowercase t)))"
      if m: "m \<in> set (memories d)" for m
      using index_row[OF inv sp m, of q] like[of "mr_text m"] terms(1)
        index_is_superset_gen[of lc alnum terms q _ "mr_text m", OF lc Some] by metis
    then have "filter (\<lambda>m. (\<exists>f \<in> set (memory_fts d). fst f = mr_no m \<and> index_hit q (fts_tokens (snd f)))
            \<and> tier_ok tf m \<and> like_any terms (mr_text m)) (memories d) = filter (\<lambda>m. tier_ok tf m
       \<and> (\<exists>t \<in> set terms. contains (to_ascii_lowercase (mr_text m)) (to_ascii_lowercase t))) (memories d)"
      by (intro filter_cong) auto
    with Some terms(2) show ?thesis by (simp add: search_candidates_def)
  qed
qed

lemma search_is_scan_witness:
  "search_candidates lower_char is_ascii_alnum [lit ''ab''] None 10 db_empty = []"
proof -
  have "search_candidates lower_char is_ascii_alnum [lit ''ab''] None 10 db_empty =
     sql_limit 10 (sort_by newest_first (filter (\<lambda>m. tier_ok None m
       \<and> (\<exists>t \<in> set [lit ''ab'']. contains (to_ascii_lowercase (mr_text m)) (to_ascii_lowercase t))) (memories db_empty)))"
    by (rule search_is_scan[OF empty_memory_inv]) (simp_all add: lower_char_def ascii_lower_def is_ascii_alnum_def is_ascii_digit_def is_ascii_alpha_def)
  then show ?thesis by (simp add: db_empty_def sql_limit_def)
qed

text \<open>Writing a memory under an id that exists replaces its text, importance, topic and source but
  leaves the tier and the origin it was first written with: an explicit, curated memory of the
  owner whose text was flushed before as an episode stays an episode of the agent.\<close>

theorem upsert_keeps_tier:
  assumes "memory_inv lc alnum d" "find_memory (nm_id m) d = Some r"
    and "upsert_memory lc alnum now m d = Inr d'"
  shows "\<exists>r'. find_memory (nm_id m) d' = Some r' \<and> mr_text r' = nm_text m \<and> mr_importance r' = nm_importance m
    \<and> mr_pref_key r' = nm_pref_key m \<and> mr_tier r' = mr_tier r \<and> mr_origin r' = mr_origin r"
proof -
  have r: "r \<in> set (memories d)" "mr_id r = nm_id m" using find_memory_Some[OF assms(2)] by auto
  have "d' = index_memory_text lc alnum (mr_no r) (nm_text m)
     (d\<lparr>memories := update_where (\<lambda>x. mr_id x = mr_id r) (overwrite_memory m) (memories d)\<rparr>)"
    using upsert_old[OF assms(1,2)] assms(3) update_by_id_is_by_no[OF assms(1) r(1)] by simp
  then have "find_memory (nm_id m) d' = Some (overwrite_memory m r)"
    using find_update_memory[OF assms(1) r(1), of "overwrite_memory m"] r(2) by (simp add: overwrite_memory_def)
  then show ?thesis by (simp add: overwrite_memory_def)
qed

definition flushed_db :: db where
  "flushed_db = db_empty\<lparr>memories := [\<lparr> mr_no = 1, mr_id = [1], mr_tier = lit ''episodic'', mr_origin = lit ''agent'',
     mr_text = lit ''tea'', mr_keywords = None, mr_importance = Fin (1 / 2), mr_created_at = 0,
     mr_last_used_at = None, mr_use_count = 0, mr_content_hash = [], mr_pref_key = None, mr_source = None \<rparr>],
     memory_fts := [(1, encode_doc lower_char is_ascii_alnum (lit ''tea''))]\<rparr>"

lemma upsert_keeps_tier_witness:
  "\<exists>d' r'. upsert_memory lower_char is_ascii_alnum 5 (sample_memory [1] (lit ''tea'')) flushed_db = Inr d'
     \<and> find_memory [1] d' = Some r' \<and> mr_tier r' = lit ''episodic''"
proof -
  have inv: "memory_inv lower_char is_ascii_alnum flushed_db"
    by (simp add: memory_inv_def flushed_db_def)
  obtain r where r: "find_memory (nm_id (sample_memory [1] (lit ''tea''))) flushed_db = Some r" "mr_tier r = lit ''episodic''"
    by (simp add: find_memory_def flushed_db_def sample_memory_def)
  from upsert_old[OF inv r(1), of 5] obtain d'
    where d': "upsert_memory lower_char is_ascii_alnum 5 (sample_memory [1] (lit ''tea'')) flushed_db = Inr d'" by blast
  from upsert_keeps_tier[OF inv r(1) d'] r(2) d' show ?thesis by (auto simp: sample_memory_def)
qed


text \<open>Outside that the index is not a superset: a one-character term and a term with a wildcard
  match a stored text by LIKE, but the search does not find it.\<close>

theorem search_misses:
  "memory_inv lower_char is_ascii_alnum flushed_db
   \<and> like_any [lit ''e''] (lit ''tea'') \<and> search_candidates lower_char is_ascii_alnum [lit ''e''] None 10 flushed_db = []
   \<and> like_any [lit ''t_a''] (lit ''tea'') \<and> search_candidates lower_char is_ascii_alnum [lit ''t_a''] None 10 flushed_db = []"
proof (intro conjI)
  show "memory_inv lower_char is_ascii_alnum flushed_db" by (simp add: memory_inv_def flushed_db_def)
  show "like_any [lit ''e''] (lit ''tea'')" by code_simp
  show "like_any [lit ''t_a''] (lit ''tea'')" by code_simp
  have q: "match_terms lower_char is_ascii_alnum [lit ''e''] = Some [[lit ''e'']]"
    "match_terms lower_char is_ascii_alnum [lit ''t_a''] = Some [[lit ''a'', lit ''t'']]"
    and t: "fts_tokens (encode_doc lower_char is_ascii_alnum (lit ''tea'')) = {lit ''ea'', lit ''te''}"
    by code_simp+
  show "search_candidates lower_char is_ascii_alnum [lit ''e''] None 10 flushed_db = []"
    "search_candidates lower_char is_ascii_alnum [lit ''t_a''] None 10 flushed_db = []"
    using q t by (simp_all add: search_candidates_def flushed_db_def index_hit_def sql_limit_def)
qed

end
