(* ===== verification/Store_Proactive.thy ===== *)
theory Store_Proactive
  imports Store_Db Nag_Policy "HOL-Library.List_Lexorder"
begin

text \<open>
  The tables of scheduled tasks and standing intents in \<open>crates/oc-store/src/ops.rs\<close>, with the
  encoding of an intent's keywords.  \<open>budget\<close> and \<open>fired_count\<close> come back through \<open>as u32\<close>.
\<close>

section \<open>Scheduled tasks\<close>

definition cron_add :: "new_cron \<Rightarrow> db \<Rightarrow> store_error + db" where
  "cron_add c d =
     (if \<exists>r \<in> set (crons d). cr_id r = nc_id c then Inl UniqueViolation
      else Inr (d\<lparr>crons := crons d @ [\<lparr> cr_id = nc_id c, cr_expr = nc_expr c, cr_prompt = nc_prompt c,
             cr_tz = nc_tz c, cr_next_at = nc_next_at c, cr_last_fired_at = None, cr_enabled = 1 \<rparr>]\<rparr>))"

record cron_view =
  cv_id :: rstr
  cv_expr :: rstr
  cv_prompt :: rstr
  cv_tz :: rstr
  cv_next_at :: "int option"
  cv_last_fired_at :: "int option"
  cv_enabled :: bool

definition cron_view_of :: "cron_row \<Rightarrow> cron_view" where
  "cron_view_of r = \<lparr> cv_id = cr_id r, cv_expr = cr_expr r, cv_prompt = cr_prompt r, cv_tz = cr_tz r,
     cv_next_at = cr_next_at r, cv_last_fired_at = cr_last_fired_at r, cv_enabled = (cr_enabled r \<noteq> 0) \<rparr>"

definition cron_list :: "db \<Rightarrow> cron_view list" where
  "cron_list d = map cron_view_of (sort_by (\<lambda>a b. cr_id b < cr_id a) (crons d))"

definition cron_rm :: "rstr \<Rightarrow> db \<Rightarrow> store_error + bool \<times> db" where
  "cron_rm cid d = Inr (\<exists>r \<in> set (crons d). cr_id r = cid, d\<lparr>crons := filter (\<lambda>r. cr_id r \<noteq> cid) (crons d)\<rparr>)"

definition cron_mark_fired :: "rstr \<Rightarrow> int \<Rightarrow> int option \<Rightarrow> db \<Rightarrow> store_error + db" where
  "cron_mark_fired cid fired_at next_at d = Inr (d\<lparr>crons := update_where (\<lambda>r. cr_id r = cid)
     (\<lambda>r. r\<lparr>cr_last_fired_at := Some fired_at, cr_next_at := next_at\<rparr>) (crons d)\<rparr>)"

section \<open>Standing intents\<close>

definition normal_keyword :: "rstr \<Rightarrow> rstr" where
  "normal_keyword k = join [32] (split_whitespace k)"

definition encode_keywords :: "rstr list \<Rightarrow> rstr" where
  "encode_keywords kws = join [10] (filter (\<lambda>k. k \<noteq> []) (map normal_keyword kws))"

definition decode_keywords :: "rstr option \<Rightarrow> rstr list" where
  "decode_keywords s = (case s of
     Some t \<Rightarrow> filter (\<lambda>w. w \<noteq> []) (map trim (split_char 10 t))
   | None \<Rightarrow> [])"

definition intent_add :: "int \<Rightarrow> new_intent \<Rightarrow> db \<Rightarrow> store_error + db" where
  "intent_add now i d =
     (if \<exists>r \<in> set (intents d). ir_id r = ni_id i then Inl UniqueViolation
      else Inr (d\<lparr>intents := intents d @ [\<lparr> ir_id = ni_id i, ir_text = ni_text i,
             ir_keywords = Some (encode_keywords (ni_keywords i)), ir_cooldown_secs = ni_cooldown_secs i,
             ir_budget = int (ni_budget i), ir_fired_count = 0, ir_last_fired_at = None,
             ir_expiry_at = ni_expiry_at i, ir_created_at = now \<rparr>]\<rparr>))"

record intent_view =
  iv_id :: rstr
  iv_text :: rstr
  iv_keywords :: "rstr list"
  iv_cooldown_secs :: int
  iv_budget :: nat
  iv_fired_count :: nat
  iv_last_fired_at :: "int option"
  iv_expiry_at :: "int option"
  iv_created_at :: int

definition as_u32 :: "int \<Rightarrow> nat" where
  "as_u32 i = nat (i mod 2 ^ 32)"

definition intent_view_of :: "intent_row \<Rightarrow> intent_view" where
  "intent_view_of r = \<lparr> iv_id = ir_id r, iv_text = ir_text r, iv_keywords = decode_keywords (ir_keywords r),
     iv_cooldown_secs = ir_cooldown_secs r, iv_budget = as_u32 (ir_budget r),
     iv_fired_count = as_u32 (ir_fired_count r), iv_last_fired_at = ir_last_fired_at r,
     iv_expiry_at = ir_expiry_at r, iv_created_at = ir_created_at r \<rparr>"

definition intent_list :: "db \<Rightarrow> intent_view list" where
  "intent_list d = map intent_view_of (sort_by (\<lambda>a b. ir_created_at b < ir_created_at a) (intents d))"

definition intent_rm :: "rstr \<Rightarrow> db \<Rightarrow> store_error + bool \<times> db" where
  "intent_rm iid d = Inr (\<exists>r \<in> set (intents d). ir_id r = iid, d\<lparr>intents := filter (\<lambda>r. ir_id r \<noteq> iid) (intents d)\<rparr>)"

definition intent_mark_fired :: "rstr \<Rightarrow> int \<Rightarrow> db \<Rightarrow> store_error + db" where
  "intent_mark_fired iid fired_at d = Inr (d\<lparr>intents := update_where (\<lambda>r. ir_id r = iid)
     (\<lambda>r. r\<lparr>ir_fired_count := ir_fired_count r + 1, ir_last_fired_at := Some fired_at\<rparr>) (intents d)\<rparr>)"

section \<open>Keywords\<close>

lemma join_nonempty:
  "ws \<noteq> [] \<Longrightarrow> (\<And>w. w \<in> set ws \<Longrightarrow> w \<noteq> []) \<Longrightarrow> join sep ws \<noteq> [] \<and> hd (join sep ws) = hd (hd ws)
     \<and> last (join sep ws) = last (last ws)"
proof (induction ws rule: induct_list012)
  case (3 w v ws)
  have "join sep (w # v # ws) = w @ sep @ join sep (v # ws)" by (simp add: join_def)
  with 3 show ?case by auto
qed (auto simp: join_def)

lemma set_join: "set (join sep ws) \<subseteq> set sep \<union> \<Union> (set ` set ws)"
  by (cases ws) (auto simp: join_def)

lemma split_join_char:
  "ws \<noteq> [] \<Longrightarrow> (\<And>w. w \<in> set ws \<Longrightarrow> d \<notin> set w) \<Longrightarrow> split_char d (join [d] ws) = ws"
proof (induction ws rule: induct_list012)
  case (2 w)
  then show ?case by (auto simp: join_def intro!: split_by_none)
next
  case (3 w v ws)
  have "d \<notin> set w" using 3(4)[of w] by simp
  then have "split_char d (w @ d # join [d] (v # ws)) = w # split_char d (join [d] (v # ws))"
    by (intro split_by_append_sep) auto
  with 3 show ?case by (simp add: join_def)
qed simp

lemma trim_id: "s = [] \<or> \<not> is_ws (hd s) \<and> \<not> is_ws (last s) \<Longrightarrow> trim s = s"
proof -
  assume s: "s = [] \<or> \<not> is_ws (hd s) \<and> \<not> is_ws (last s)"
  show ?thesis
  proof (cases "s = []")
    case False
    then have "dropWhile is_ws s = s" "dropWhile is_ws (rev s) = rev s"
      using s by (auto simp: dropWhile_eq_self_iff hd_rev)
    then show ?thesis by (simp add: trim_def trim_start_def trim_end_def)
  qed (simp add: trim_def trim_start_def trim_end_def)
qed

lemma split_whitespace_words:
  assumes "w \<in> set (split_whitespace k)"
  shows "w \<noteq> [] \<and> (\<forall>c \<in> set w. \<not> is_ws c)"
  using assms split_by_no_sep[of w is_ws k] by (auto simp: split_whitespace_def)

lemma normal_keyword_facts:
  "trim (normal_keyword k) = normal_keyword k" "10 \<notin> set (normal_keyword k)"
proof -
  let ?ws = "split_whitespace k"
  show "trim (normal_keyword k) = normal_keyword k"
  proof (cases "?ws = []")
    case True
    then show ?thesis by (simp add: normal_keyword_def join_def trim_id)
  next
    case False
    have "hd ?ws \<in> set ?ws" "last ?ws \<in> set ?ws" using False by auto
    then have "\<not> is_ws (hd (hd ?ws)) \<and> \<not> is_ws (last (last ?ws))"
      using split_whitespace_words by (metis hd_in_set last_in_set)
    then show ?thesis
      using join_nonempty[OF False, of "[32]"] split_whitespace_words by (simp add: normal_keyword_def trim_id)
  qed
  have "\<not> (\<exists>w \<in> set ?ws. 10 \<in> set w)"
    using split_whitespace_words by (fastforce simp: is_ws_def)
  then show "10 \<notin> set (normal_keyword k)"
    using set_join[of "[32]" ?ws] by (auto simp: normal_keyword_def)
qed

lemma crons_upd: "crons (d\<lparr>crons := rows\<rparr>) = rows"
  by simp

section \<open>Properties\<close>

text \<open>Keywords survive the table: what is read back is every keyword that is not blank, in order,
  with its inner white space reduced to single spaces; a keyword of several words stays one.\<close>

lemma keywords_roundtrip:
  "decode_keywords (Some (encode_keywords kws)) = filter (\<lambda>k. k \<noteq> []) (map normal_keyword kws)"
proof (cases "filter (\<lambda>k. k \<noteq> []) (map normal_keyword kws) = []")
  case True
  then show ?thesis by (simp add: encode_keywords_def decode_keywords_def join_def trim_id)
next
  case False
  let ?ks = "filter (\<lambda>k. k \<noteq> []) (map normal_keyword kws)"
  have "split_char 10 (join [10] ?ks) = ?ks"
    using normal_keyword_facts(2) by (intro split_join_char[OF False]) auto
  moreover have "map trim ?ks = ?ks"
    using normal_keyword_facts(1) by (intro map_idI) auto
  ultimately show ?thesis by (simp add: encode_keywords_def decode_keywords_def)
qed

text \<open>A task id can be scheduled once: a second \<open>cron_add\<close> under it is refused until it is removed,
  the list then shows it no more, and marking a task fired changes only its two time stamps.\<close>

theorem cron_table_laws:
  "(cron_add c d = Inl UniqueViolation \<longleftrightarrow> nc_id c \<in> cv_id ` set (cron_list d))
   \<and> (case cron_rm k d of Inr (b, d') \<Rightarrow> (b \<longleftrightarrow> k \<in> cv_id ` set (cron_list d))
        \<and> set (cron_list d') = {v \<in> set (cron_list d). cv_id v \<noteq> k} | Inl _ \<Rightarrow> False)
   \<and> (case cron_mark_fired k t n d of Inr d' \<Rightarrow>
        set (cron_list d') = (\<lambda>v. if cv_id v = k then v\<lparr>cv_last_fired_at := Some t, cv_next_at := n\<rparr> else v) ` set (cron_list d)
      | Inl _ \<Rightarrow> False)"
proof (intro conjI)
  have ids: "cv_id ` set (cron_list d) = cr_id ` set (crons d)"
    by (simp add: cron_list_def cron_view_of_def image_image)
  show "cron_add c d = Inl UniqueViolation \<longleftrightarrow> nc_id c \<in> cv_id ` set (cron_list d)"
    unfolding ids by (auto simp: cron_add_def image_iff dest: sym)
  show "case cron_rm k d of Inr (b, d') \<Rightarrow> (b \<longleftrightarrow> k \<in> cv_id ` set (cron_list d))
        \<and> set (cron_list d') = {v \<in> set (cron_list d). cv_id v \<noteq> k} | Inl _ \<Rightarrow> False"
  proof -
    have "{v \<in> cron_view_of ` S. cv_id v \<noteq> k} = cron_view_of ` {r \<in> S. cr_id r \<noteq> k}" for S
      by (rule set_eqI) (force simp: cron_view_of_def)
    moreover have "(\<exists>r \<in> set (crons d). cr_id r = k) \<longleftrightarrow> k \<in> cr_id ` set (crons d)" by blast
    ultimately show ?thesis unfolding ids by (simp add: cron_rm_def cron_list_def)
  qed
  have "cron_view_of (if cr_id r = k then r\<lparr>cr_last_fired_at := Some t, cr_next_at := n\<rparr> else r)
      = (if cv_id (cron_view_of r) = k then (cron_view_of r)\<lparr>cv_last_fired_at := Some t, cv_next_at := n\<rparr> else cron_view_of r)" for r
    by (simp add: cron_view_of_def)
  then show "case cron_mark_fired k t n d of Inr d' \<Rightarrow>
        set (cron_list d') = (\<lambda>v. if cv_id v = k then v\<lparr>cv_last_fired_at := Some t, cv_next_at := n\<rparr> else v) ` set (cron_list d)
      | Inl _ \<Rightarrow> False"
    by (simp only: cron_mark_fired_def cron_list_def update_where_def set_map set_sort_by image_image
        sum.case crons_upd)
qed

end
