(* ===== verification/Store_Audit.thy ===== *)
theory Store_Audit
  imports Store_Db "HOL-Library.Word"
begin

unbundle bit_operations_syntax

text \<open>
  The audit chain of \<open>crates/oc-store/src/ops.rs\<close> (FNV-1a over the UTF-8 bytes of a record and the
  hash before it) and the forward migrations of \<open>crates/oc-store/src/migrate.rs\<close>.
\<close>

section \<open>UTF-8 and the hash\<close>

definition utf8_bytes :: "rchar \<Rightarrow> nat list" where
  "utf8_bytes c =
     (if c < 128 then [c]
      else if c < 2048 then [192 + c div 64, 128 + c mod 64]
      else if c < 65536 then [224 + c div 4096, 128 + c div 64 mod 64, 128 + c mod 64]
      else [240 + c div 262144, 128 + c div 4096 mod 64, 128 + c div 64 mod 64, 128 + c mod 64])"

definition as_bytes :: "rstr \<Rightarrow> nat list" where
  "as_bytes s = concat (map utf8_bytes s)"

lemma length_as_bytes: "length (as_bytes s) = byte_len s"
  by (induction s) (auto simp: as_bytes_def utf8_bytes_def utf8_width_def)

type_synonym u64 = "64 word"

definition fnv_step :: "u64 \<Rightarrow> nat \<Rightarrow> u64" where
  "fnv_step h b = (h XOR of_nat b) * 1099511628211"

definition fnv1a :: "rstr \<Rightarrow> u64" where
  "fnv1a s = fold (\<lambda>b h. fnv_step h b) (as_bytes s) 14695981039346656037"

definition hex_digit :: "nat \<Rightarrow> rchar" where
  "hex_digit n = (if n < 10 then 48 + n else 87 + n)"

text \<open>\<open>{hash:016x}\<close>: sixteen digits, the most significant first.\<close>

definition fnv1a_hex :: "rstr \<Rightarrow> rstr" where
  "fnv1a_hex s = (let h = unat (fnv1a s) in map (\<lambda>i. hex_digit (h div 16 ^ i mod 16)) (rev [0..<16]))"

section \<open>The chain\<close>

definition audit_material :: "int \<Rightarrow> rstr \<Rightarrow> rstr \<Rightarrow> rstr option \<Rightarrow> rstr \<Rightarrow> rstr" where
  "audit_material t actor action payload hash_prev =
     show_int t @ [124] @ actor @ [124] @ action @ [124] @ (case payload of Some p \<Rightarrow> p | None \<Rightarrow> []) @ [124] @ hash_prev"

definition last_hash :: "audit_row list \<Rightarrow> rstr" where
  "last_hash rows = (if rows = [] then [] else ar_hash_self (last rows))"

definition write_audit :: "int \<Rightarrow> rstr \<Rightarrow> rstr \<Rightarrow> rstr option \<Rightarrow> db \<Rightarrow> store_error + db" where
  "write_audit now actor action payload d =
     (let hash_prev = last_hash (audits d);
          hash_self = fnv1a_hex (audit_material now actor action payload hash_prev)
      in Inr (d\<lparr>audits := audits d @ [\<lparr> ar_at = now, ar_actor = actor, ar_action = action, ar_payload = payload,
               ar_hash_prev = hash_prev, ar_hash_self = hash_self \<rparr>]\<rparr>))"

text \<open>What a verifier of the table checks, from the hash before the first row.\<close>

fun chain_ok :: "rstr \<Rightarrow> audit_row list \<Rightarrow> bool" where
  "chain_ok prev [] = True"
| "chain_ok prev (r # rows) \<longleftrightarrow>
     ar_hash_prev r = prev
     \<and> ar_hash_self r = fnv1a_hex (audit_material (ar_at r) (ar_actor r) (ar_action r) (ar_payload r) prev)
     \<and> chain_ok (ar_hash_self r) rows"

lemma chain_ok_append:
  "chain_ok prev (rows @ rest) \<longleftrightarrow> chain_ok prev rows \<and> chain_ok (if rows = [] then prev else ar_hash_self (last rows)) rest"
  by (induction rows arbitrary: prev) auto

section \<open>Migrations\<close>

definition TARGET_VERSION :: nat where "TARGET_VERSION = 3"

text \<open>The schema: the version stored in the file and the steps applied to it.\<close>

record schema_state =
  user_version :: int
  applied :: "nat list"

definition migration_newer :: rstr where "migration_newer = lit ''newer than target''"
definition migration_undefined :: rstr where "migration_undefined = lit ''no migration step''"

definition migrate_step :: "nat \<Rightarrow> schema_state \<Rightarrow> store_error + schema_state" where
  "migrate_step version s =
     (if version = 1 \<or> version = 2 \<or> version = 3 then Inr (s\<lparr>applied := applied s @ [version]\<rparr>)
      else Inl (Migration migration_undefined))"

function migrate_loop :: "nat \<Rightarrow> schema_state \<Rightarrow> store_error + schema_state" where
  "migrate_loop current s =
     (if current < TARGET_VERSION
      then (case migrate_step (current + 1) s of
              Inl e \<Rightarrow> Inl e
            | Inr s' \<Rightarrow> migrate_loop (current + 1) (s'\<lparr>user_version := int (current + 1)\<rparr>))
      else Inr s)"
  by pat_completeness auto
termination
  by (relation "measure (\<lambda>(c, s). TARGET_VERSION - c)") auto

declare migrate_loop.simps [simp del]

definition run_migrations :: "schema_state \<Rightarrow> store_error + schema_state" where
  "run_migrations s =
     (let current = nat (user_version s mod 2 ^ 32) in
      if TARGET_VERSION < current then Inl (Migration migration_newer) else migrate_loop current s)"

section \<open>Properties\<close>

lemma write_audit_chain:
  assumes "chain_ok [] (audits d)" "write_audit now actor action payload d = Inr d'"
  shows "chain_ok [] (audits d') \<and> (\<exists>r. audits d' = audits d @ [r] \<and> ar_hash_prev r = last_hash (audits d)
    \<and> ar_actor r = actor \<and> ar_action r = action \<and> ar_payload r = payload)"
  using assms by (auto simp: write_audit_def Let_def chain_ok_append last_hash_def)

text \<open>The records that a sequence of calls writes.\<close>

fun write_all :: "(int \<times> rstr \<times> rstr \<times> rstr option) list \<Rightarrow> db \<Rightarrow> db" where
  "write_all [] d = d"
| "write_all ((t, actor, action, payload) # cs) d =
     (case write_audit t actor action payload d of Inl _ \<Rightarrow> d | Inr d' \<Rightarrow> write_all cs d')"

text \<open>A row whose fields the hashed text keeps apart: no bar in actor and action, and no empty payload.\<close>

definition bar_free :: "rstr \<Rightarrow> rstr \<Rightarrow> rstr option \<Rightarrow> bool" where
  "bar_free actor action payload \<longleftrightarrow> 124 \<notin> set actor \<and> 124 \<notin> set action \<and> payload \<noteq> Some []"

definition row_free :: "audit_row \<Rightarrow> bool" where
  "row_free r \<longleftrightarrow> bar_free (ar_actor r) (ar_action r) (ar_payload r)"

definition row_material :: "audit_row \<Rightarrow> rstr" where
  "row_material r = audit_material (ar_at r) (ar_actor r) (ar_action r) (ar_payload r) (ar_hash_prev r)"

lemma write_all_rows:
  "chain_ok [] (audits d) \<Longrightarrow> list_all row_free (audits d) \<Longrightarrow> list_all (\<lambda>(t, a, b, p). bar_free a b p) cs \<Longrightarrow>
   chain_ok [] (audits (write_all cs d)) \<and> list_all row_free (audits (write_all cs d))
     \<and> length (audits (write_all cs d)) = length (audits d) + length cs"
proof (induction cs arbitrary: d)
  case (Cons c cs)
  obtain t a b p where c: "c = (t, a, b, p)" by (cases c) auto
  obtain d' where w: "write_audit t a b p d = Inr d'" by (simp add: write_audit_def Let_def)
  from write_audit_chain[OF Cons.prems(1) w] obtain r where r: "chain_ok [] (audits d')" "audits d' = audits d @ [r]"
    "ar_actor r = a" "ar_action r = b" "ar_payload r = p" by blast
  have "row_free r" using r(3-5) Cons.prems(3) c by (simp add: row_free_def)
  then have "list_all row_free (audits d')" using Cons.prems(2) r(2) by simp
  then show ?case using Cons.IH[OF r(1)] Cons.prems(3) r(2) w c by simp
qed simp

lemma bar_split: "a @ 124 # x = b @ 124 # y \<Longrightarrow> 124 \<notin> set a \<Longrightarrow> 124 \<notin> set b \<Longrightarrow> a = b \<and> x = (y :: rstr)"
proof (induction a arbitrary: b)
  case (Cons c a)
  then show ?case by (cases b) auto
qed (auto simp: Cons_eq_append_conv)

lemma show_nat_inj: "show_nat m = show_nat n \<Longrightarrow> m = n"
  using dec_value_show_nat by (metis option.inject)

lemma show_int_inj: "show_int i = show_int j \<Longrightarrow> i = j"
proof -
  have "hd (show_nat n) \<noteq> 45" for n using show_nat_digits[of "hd (show_nat n)" n] hd_in_set[OF show_nat_not_Nil, of n] by (auto simp: is_ascii_digit_def)
  then have minus: "show_nat n \<noteq> 45 # x" "45 # x \<noteq> show_nat n" for n x by (metis list.sel(1))+
  assume e: "show_int i = show_int j"
  consider "i < 0" "j < 0" | "i < 0" "0 \<le> j" | "0 \<le> i" "j < 0" | "0 \<le> i" "0 \<le> j" by linarith
  then show "i = j" by cases (use e minus in \<open>auto simp: show_int_def dest: show_nat_inj\<close>)
qed

lemma no_bar: "124 \<notin> set (show_int i)" "124 \<notin> set (fnv1a_hex s)"
  using show_nat_digits by (fastforce simp: show_int_def is_ascii_digit_def split: if_splits)
    (auto simp: fnv1a_hex_def Let_def hex_digit_def split: if_splits)

text \<open>The hashed text of such a row determines the row.\<close>

lemma material_inj:
  assumes "audit_material t a b p h = audit_material t' a' b' p' h'" "bar_free a b p" "bar_free a' b' p'"
    "124 \<notin> set h" "124 \<notin> set h'"
  shows "t = t' \<and> a = a' \<and> b = b' \<and> p = p' \<and> h = h'"
proof -
  let ?pay = "\<lambda>p. case p of Some x \<Rightarrow> x | None \<Rightarrow> []"
  have m: "audit_material t a b p h = show_int t @ 124 # (a @ 124 # (b @ 124 # (?pay p @ 124 # h)))" for t a b p h
    by (simp add: audit_material_def)
  note free = assms(2,3)[unfolded bar_free_def]
  have 1: "show_int t = show_int t' \<and> a @ 124 # (b @ 124 # (?pay p @ 124 # h)) = a' @ 124 # (b' @ 124 # (?pay p' @ 124 # h'))"
    by (rule bar_split) (use assms(1) no_bar(1) in \<open>simp_all add: m\<close>)
  then have 2: "a = a' \<and> b @ 124 # (?pay p @ 124 # h) = b' @ 124 # (?pay p' @ 124 # h')" using bar_split free by blast
  then have 3: "b = b' \<and> ?pay p @ 124 # h = ?pay p' @ 124 # h'" using bar_split free by blast
  then have "rev h @ 124 # rev (?pay p) = rev h' @ 124 # rev (?pay p')"
    by (metis append_Cons append_Nil append_assoc rev.simps(2) rev_append)
  then have "rev h = rev h' \<and> rev (?pay p) = rev (?pay p')" using bar_split assms(4,5) by (metis set_rev)
  then have "h = h' \<and> ?pay p = ?pay p'" by simp
  then show ?thesis using 1 2 3 free show_int_inj by (auto split: option.splits)
qed

lemma chain_determined:
  assumes "chain_ok [] xs" "chain_ok [] ys" "length xs = length ys" "last_hash xs = last_hash ys"
    "list_all row_free xs" "list_all row_free ys"
    "\<And>i. i < length xs \<Longrightarrow> fnv1a_hex (row_material (xs ! i)) = fnv1a_hex (row_material (ys ! i)) \<Longrightarrow>
       row_material (xs ! i) = row_material (ys ! i)"
  shows "xs = ys"
  using assms
proof (induction xs arbitrary: ys rule: rev_induct)
  case (snoc x xs)
  then obtain ys' y where ys: "ys = ys' @ [y]" by (cases ys rule: rev_cases) auto
  have prev: "chain_ok [] xs" "chain_ok [] ys'" "ar_hash_prev x = last_hash xs" "ar_hash_prev y = last_hash ys'"
    "ar_hash_self x = fnv1a_hex (row_material x)" "ar_hash_self y = fnv1a_hex (row_material y)"
    using snoc.prems(1,2) by (simp_all add: ys chain_ok_append last_hash_def row_material_def split: if_splits)
  have len: "length xs = length ys'" using snoc.prems(3) ys by simp
  have self: "ar_hash_self x = ar_hash_self y" using snoc.prems(4) by (simp add: ys last_hash_def)
  have "row_material x = row_material y"
    using snoc.prems(7)[of "length xs"] self prev(5,6) len by (simp add: ys nth_append)
  moreover have hex: "124 \<notin> set (last_hash zs)" if "chain_ok [] zs" for zs
    using that no_bar(2) by (cases zs rule: rev_cases) (auto simp: last_hash_def chain_ok_append)
  ultimately have f: "ar_at x = ar_at y" "ar_actor x = ar_actor y" "ar_action x = ar_action y" "ar_payload x = ar_payload y"
    "ar_hash_prev x = ar_hash_prev y"
    using material_inj[of "ar_at x" "ar_actor x" "ar_action x" "ar_payload x" "ar_hash_prev x"
        "ar_at y" "ar_actor y" "ar_action y" "ar_payload y" "ar_hash_prev y"] snoc.prems(5,6) prev hex
    by (simp_all add: row_material_def row_free_def ys)
  have "row_material (xs ! i) = row_material (ys' ! i)"
    if "i < length xs" "fnv1a_hex (row_material (xs ! i)) = fnv1a_hex (row_material (ys' ! i))" for i
    using snoc.prems(7)[of i] that len by (simp add: ys nth_append)
  then have "xs = ys'" using snoc.IH[of ys'] prev len f(5) snoc.prems(5,6) ys by simp
  then show ?case using f self ys by (cases x; cases y) simp
qed simp

text \<open>C39. The audit table shows tampering: a table that verifies as a chain, has as many rows as the one the code wrote and ends in the
  same hash is that table, unless two of the rows at the same place collide under FNV-1a.  This holds as long as actors and
  actions contain no bar and payloads are not empty, as in the calls of the server; outside of that the hashed text is
  ambiguous, \<open>audit_hash_ambiguous\<close>.\<close>

theorem audit_tamper_evident:
  assumes "list_all (\<lambda>(t, actor, action, payload). bar_free actor action payload) calls"
    and "chain_ok [] rows" "list_all row_free rows"
    and "length rows = length calls" "last_hash rows = last_hash (audits (write_all calls db_empty))"
    and "\<And>i. i < length rows \<Longrightarrow> fnv1a_hex (row_material (rows ! i)) = fnv1a_hex (row_material (audits (write_all calls db_empty) ! i)) \<Longrightarrow>
       row_material (rows ! i) = row_material (audits (write_all calls db_empty) ! i)"
  shows "rows = audits (write_all calls db_empty)"
proof -
  have e: "audits db_empty = []" by (simp add: db_empty_def)
  note w = write_all_rows[of db_empty calls, unfolded e, simplified, OF assms(1)]
  show ?thesis by (rule chain_determined) (use w assms(2-6) in simp_all)
qed

definition two_records :: "audit_row list" where
  "two_records = [\<lparr> ar_at = 7, ar_actor = [97], ar_action = [98], ar_payload = None, ar_hash_prev = [],
        ar_hash_self = fnv1a_hex [55, 124, 97, 124, 98, 124, 124] \<rparr>,
      \<lparr> ar_at = 8, ar_actor = [97], ar_action = [99], ar_payload = Some [5], ar_hash_prev = fnv1a_hex [55, 124, 97, 124, 98, 124, 124],
        ar_hash_self = fnv1a_hex ([56, 124, 97, 124, 99, 124, 5, 124] @ fnv1a_hex [55, 124, 97, 124, 98, 124, 124]) \<rparr>]"

lemma audit_tamper_evident_witness:
  "two_records = audits (write_all [(7, [97], [98], None), (8, [97], [99], Some [5])] db_empty)"
proof -
  have n: "show_nat 7 = [55]" "show_nat 8 = [56]" by (simp_all add: show_nat.simps)
  have eq: "audits (write_all [(7, [97], [98], None), (8, [97], [99], Some [5])] db_empty) = two_records"
    by (simp add: write_audit_def Let_def audit_material_def show_int_def n last_hash_def db_empty_def two_records_def)
  show ?thesis
    by (rule audit_tamper_evident)
      (unfold eq, simp_all add: bar_free_def row_free_def two_records_def audit_material_def show_int_def n)
qed

text \<open>What is hashed does not separate its fields: two different records (a bar moved from the actor
  to the action, no payload against an empty one) have the same hash, so exchanging them leaves
  the chain intact.\<close>

theorem audit_hash_ambiguous:
  "fnv1a_hex (audit_material t (a @ [124] @ b) c p h) = fnv1a_hex (audit_material t a (b @ [124] @ c) p h)
   \<and> fnv1a_hex (audit_material t a c None h) = fnv1a_hex (audit_material t a c (Some []) h)"
  by (simp add: audit_material_def)

text \<open>Opening a database brings it to the current version by the missing steps, each once and in
  order, and touches nothing when it is current; a database of a later version is refused.\<close>

theorem migrations_forward:
  "run_migrations s =
     (let v = nat (user_version s mod 2 ^ 32) in
      if v \<le> 3 then Inr \<lparr> user_version = (if v = 3 then user_version s else 3), applied = applied s @ [v + 1..<4] \<rparr>
      else Inl (Migration migration_newer))"
proof -
  have l3: "migrate_loop 3 s = Inr s" for s by (simp add: migrate_loop.simps TARGET_VERSION_def)
  have l2: "migrate_loop 2 s = Inr (s\<lparr>applied := applied s @ [3], user_version := 3\<rparr>)" for s
    by (subst migrate_loop.simps) (simp add: TARGET_VERSION_def migrate_step_def l3)
  have l1: "migrate_loop 1 s = Inr (s\<lparr>applied := applied s @ [2, 3], user_version := 3\<rparr>)" for s
    by (subst migrate_loop.simps) (simp add: TARGET_VERSION_def migrate_step_def l2 numeral_2_eq_2[symmetric])
  have l0: "migrate_loop 0 s = Inr (s\<lparr>applied := applied s @ [1, 2, 3], user_version := 3\<rparr>)" for s
    by (subst migrate_loop.simps) (simp add: TARGET_VERSION_def migrate_step_def l1[simplified])
  define v where "v = nat (user_version s mod 2 ^ 32)"
  have upts: "[0 + 1..<4] = [1, 2, 3 :: nat]" "[1 + 1..<4] = [2, 3 :: nat]" "[2 + 1..<4] = [3 :: nat]" "[3 + 1..<4] = ([] :: nat list)"
    by (simp_all add: upt_rec)
  consider "v = 0" | "v = 1" | "v = 2" | "v = 3" | "3 < v" by linarith
  then show ?thesis
    unfolding run_migrations_def Let_def v_def[symmetric]
    by cases (simp_all only: l0 l1 l2 l3 upts TARGET_VERSION_def, simp_all)
qed

end
