(* ===== verification/Proto.thy ===== *)
theory Proto
  imports Prelude Float_Model
begin

text \<open>
  The values that cross component borders: the events a server pushes
  (\<open>crates/oc-proto/src/event.rs\<close>) and the provider-independent request and stream types
  (\<open>crates/oc-llm/src/types.rs\<close>).  \<open>proto_ok\<close> is what a provider demands of a message list: a
  dispatch and its result stand next to each other, and neither stands alone.
\<close>

section \<open>Events\<close>

datatype run_error_kind = KAborted | KFailed | KPanicked | KLoopDetected | KTimeout | KTruncated

datatype lifecycle_phase = PhStart | PhEnd | PhError rstr run_error_kind

datatype tool_status = TsOk | TsError | TsAborted | TsBackgrounded

datatype tool_phase = TpStart rstr rstr | TpUpdate rstr | TpEnd tool_status

datatype proactive_kind = PkReminder | PkWake

datatype proactive_source = PsCron rstr | PsIntent rstr | PsHeartbeat

datatype task_state = TaskQueued | TaskRunning | TaskDone | TaskFailed | TaskCancelled

datatype event =
    EvLifecycle rstr rstr lifecycle_phase
  | EvAssistant rstr rstr rstr
  | EvReasoning rstr rstr rstr
  | EvTool rstr rstr rstr tool_phase
  | EvProactive rstr proactive_kind rstr proactive_source
  | EvTask rstr rstr task_state "rstr option"
  | EvUsage rstr nat nat
  | EvApproval rstr rstr rstr rstr rstr
  | EvUserInput rstr rstr rstr rstr

fun is_terminal_event :: "event \<Rightarrow> bool" where
  "is_terminal_event (EvLifecycle _ _ PhEnd) \<longleftrightarrow> True"
| "is_terminal_event (EvLifecycle _ _ (PhError _ _)) \<longleftrightarrow> True"
| "is_terminal_event _ \<longleftrightarrow> False"

fun is_reasoning :: "event \<Rightarrow> bool" where
  "is_reasoning (EvReasoning _ _ _) \<longleftrightarrow> True"
| "is_reasoning _ \<longleftrightarrow> False"

section \<open>Model messages and streams\<close>

datatype msg_role = MSystem | MUser | MAssistant | MTool

record tool_call_spec =
  tc_id :: rstr
  tc_name :: rstr
  tc_args :: rstr

record message =
  m_role :: msg_role
  m_content :: rstr
  m_tool_call_id :: "rstr option"
  m_tool_calls :: "tool_call_spec list"
  m_reasoning :: "rstr option"

text \<open>A tool specification; its JSON schema is kept as text.\<close>

record tool_spec =
  ts_name :: rstr
  ts_description :: rstr
  ts_parameters :: rstr

record model_request =
  rq_model :: rstr
  rq_system :: "rstr option"
  rq_messages :: "message list"
  rq_tools :: "tool_spec list"
  rq_max_tokens :: "nat option"
  rq_temperature :: "flt option"

datatype finish_reason = FrStop | FrToolUse | FrLength

record usage =
  us_input :: nat
  us_output :: nat

record tool_call_delta =
  td_call_id :: rstr
  td_name :: "rstr option"
  td_args_chunk :: rstr

datatype delta =
    DText rstr
  | DReasoning rstr
  | DToolCall tool_call_delta
  | DUsage usage
  | DDone finish_reason

definition plain_msg :: "msg_role \<Rightarrow> rstr \<Rightarrow> message" where
  "plain_msg r c = \<lparr> m_role = r, m_content = c, m_tool_call_id = None, m_tool_calls = [], m_reasoning = None \<rparr>"

lemma plain_msg_simps [simp]:
  "m_role (plain_msg r c) = r" "m_content (plain_msg r c) = c" "m_tool_call_id (plain_msg r c) = None"
  "m_tool_calls (plain_msg r c) = []" "m_reasoning (plain_msg r c) = None"
  by (simp_all add: plain_msg_def)

section \<open>The pairing rule of the provider\<close>

definition is_dispatch :: "message \<Rightarrow> bool" where
  "is_dispatch m \<longleftrightarrow> m_role m = MAssistant \<and> m_tool_calls m \<noteq> []"

text \<open>A result that carries the id of the call it answers.\<close>

definition is_result :: "message \<Rightarrow> bool" where
  "is_result m \<longleftrightarrow> m_role m = MTool"

definition answers :: "message \<Rightarrow> message \<Rightarrow> bool" where
  "answers d r \<longleftrightarrow> is_result r \<and> (\<exists>c \<in> set (m_tool_calls d). m_tool_call_id r = Some (tc_id c))"

fun proto_ok :: "message list \<Rightarrow> bool" where
  "proto_ok [] \<longleftrightarrow> True"
| "proto_ok [m] \<longleftrightarrow> \<not> is_dispatch m \<and> \<not> is_result m"
| "proto_ok (m # n # ms) \<longleftrightarrow>
     (if is_dispatch m then answers m n \<and> proto_ok ms else \<not> is_result m \<and> proto_ok (n # ms))"

lemma not_dispatch_result: "\<not> (is_dispatch m \<and> is_result m)"
  by (auto simp: is_dispatch_def is_result_def)

lemma answers_result: "answers d r \<Longrightarrow> is_result r \<and> \<not> is_dispatch r"
  using not_dispatch_result by (auto simp: answers_def)

lemma plain_msg_flags [simp]:
  "\<not> is_dispatch (plain_msg r c)" "is_result (plain_msg r c) \<longleftrightarrow> r = MTool"
  by (simp_all add: is_dispatch_def is_result_def)

lemma proto_ok_plain [simp]:
  "\<not> is_dispatch m \<Longrightarrow> \<not> is_result m \<Longrightarrow> proto_ok (m # ms) = proto_ok ms"
  by (cases ms) auto

lemma proto_ok_append: "proto_ok xs \<Longrightarrow> proto_ok ys \<Longrightarrow> proto_ok (xs @ ys)"
proof (induction xs rule: proto_ok.induct)
  case (3 m n ms)
  then show ?case by (cases "is_dispatch m") auto
qed auto

lemma proto_ok_pair: "is_dispatch d \<Longrightarrow> answers d r \<Longrightarrow> proto_ok (d # r # ms) = proto_ok ms"
  by simp

text \<open>The same rule stated by position.\<close>

lemma proto_ok_dispatch:
  "proto_ok ms \<Longrightarrow> i < length ms \<Longrightarrow> is_dispatch (ms ! i) \<Longrightarrow> Suc i < length ms \<and> answers (ms ! i) (ms ! Suc i)"
proof (induction ms arbitrary: i rule: proto_ok.induct)
  case (3 m n ms)
  show ?case
  proof (cases i)
    case (Suc j)
    show ?thesis
    proof (cases "is_dispatch m")
      case True
      then have "j \<noteq> 0" using 3 Suc answers_result[of m n] by (cases j) auto
      then obtain k where "j = Suc k" by (cases j) auto
      then show ?thesis using 3 True Suc by auto
    qed (use 3 Suc in auto)
  qed (use 3 in auto)
qed auto

lemma proto_ok_result:
  "proto_ok ms \<Longrightarrow> i < length ms \<Longrightarrow> is_result (ms ! i) \<Longrightarrow> \<exists>j. i = Suc j \<and> is_dispatch (ms ! j) \<and> answers (ms ! j) (ms ! i)"
proof (induction ms arbitrary: i rule: proto_ok.induct)
  case (3 m n ms)
  show ?case
  proof (cases i)
    case 0
    then show ?thesis using 3 not_dispatch_result[of m] by (auto split: if_splits)
  next
    case (Suc j)
    show ?thesis
    proof (cases "is_dispatch m")
      case True
      show ?thesis
      proof (cases j)
        case (Suc k)
        then obtain l where "k = Suc l" "is_dispatch (ms ! l)" "answers (ms ! l) (ms ! k)"
          using 3 True \<open>i = Suc j\<close> by fastforce
        then show ?thesis using Suc \<open>i = Suc j\<close> by (intro exI[of _ j]) simp
      qed (use 3 True Suc in auto)
    next
      case False
      then obtain l where "j = Suc l" "is_dispatch ((n # ms) ! l)" "answers ((n # ms) ! l) ((n # ms) ! j)"
        using 3 Suc by fastforce
      then show ?thesis using Suc by (intro exI[of _ j]) simp
    qed
  qed
qed auto

lemma proto_okI:
  assumes "\<And>i. i < length ms \<Longrightarrow> is_dispatch (ms ! i) \<Longrightarrow> Suc i < length ms \<and> answers (ms ! i) (ms ! Suc i)"
    and "\<And>i. i < length ms \<Longrightarrow> is_result (ms ! i) \<Longrightarrow> \<exists>j. i = Suc j \<and> is_dispatch (ms ! j) \<and> answers (ms ! j) (ms ! i)"
  shows "proto_ok ms"
  using assms
proof (induction ms rule: proto_ok.induct)
  case (2 m)
  then show ?case using 2(1)[of 0] 2(2)[of 0] by auto
next
  case (3 m n ms)
  note D = "3.prems"(1) and R = "3.prems"(2)
  have m: "\<not> is_result m" using R[of 0] by auto
  show ?case
  proof (cases "is_dispatch m")
    case True
    then have a: "answers m n" using D[of 0] by auto
    have "proto_ok ms"
    proof (rule 3(1)[OF True])
      fix i assume i: "i < length ms"
      { assume "is_dispatch (ms ! i)"
        then show "Suc i < length ms \<and> answers (ms ! i) (ms ! Suc i)" using D[of "Suc (Suc i)"] i by auto }
      assume r: "is_result (ms ! i)"
      then obtain j where j: "Suc (Suc i) = Suc j" "is_dispatch ((m # n # ms) ! j)"
          "answers ((m # n # ms) ! j) (ms ! i)"
        using R[of "Suc (Suc i)"] i by auto
      then show "\<exists>j. i = Suc j \<and> is_dispatch (ms ! j) \<and> answers (ms ! j) (ms ! i)"
        using answers_result[OF a] by (cases i) auto
    qed
    then show ?thesis using True a by simp
  next
    case False
    have "proto_ok (n # ms)"
    proof (rule 3(2)[OF False])
      fix i assume i: "i < length (n # ms)"
      { assume "is_dispatch ((n # ms) ! i)"
        then show "Suc i < length (n # ms) \<and> answers ((n # ms) ! i) ((n # ms) ! Suc i)" using D[of "Suc i"] i by auto }
      assume r: "is_result ((n # ms) ! i)"
      then obtain j where "Suc i = Suc j" "is_dispatch ((m # n # ms) ! j)"
          "answers ((m # n # ms) ! j) ((n # ms) ! i)"
        using R[of "Suc i"] i by auto
      then show "\<exists>j. i = Suc j \<and> is_dispatch ((n # ms) ! j) \<and> answers ((n # ms) ! j) ((n # ms) ! i)"
        using False by (cases i) auto
    qed
    then show ?thesis using False m by simp
  qed
qed auto

end
