(* ===== verification/Run_Log.thy ===== *)
theory Run_Log
  imports Proto
begin

text \<open>
  \<open>crates/oc-server/src/run_log.rs\<close> and \<open>sink.rs\<close>: the log of the inline events of a detached run,
  from which a client that comes back is replayed, and the three kinds of outlet a run writes its
  events to.  A subscriber is the list of the events it has been sent; the peer of a connection
  accepts a number of further events, or every one (\<open>None\<close>).  The broadcast is the lossy one that
  \<open>sink.rs\<close> describes: it retains a bounded number of events, and a receiver that falls behind
  continues at the oldest retained one.  The interface \<open>inline_sink\<close> is what an outlet with one
  peer promises a run.
\<close>

section \<open>The log\<close>

definition CAP :: nat where "CAP = 1024"

record subscriber =
  sub_open :: bool
  sub_got :: "event list"

record run_log =
  rl_buf :: "event list"
  rl_pushed :: nat
  rl_marks :: "(int \<times> nat) list"
  rl_subs :: "subscriber list"

definition log_new :: run_log where
  "log_new = \<lparr> rl_buf = [], rl_pushed = 0, rl_marks = [], rl_subs = [] \<rparr>"

definition log_push :: "event \<Rightarrow> run_log \<Rightarrow> run_log" where
  "log_push ev l =
     (let b = (if length (rl_buf l) = CAP then tl (rl_buf l) else rl_buf l) in
      l\<lparr> rl_buf := b @ [ev], rl_pushed := rl_pushed l + 1,
         rl_subs := map (\<lambda>s. s\<lparr>sub_got := sub_got s @ [ev]\<rparr>) (filter sub_open (rl_subs l)) \<rparr>)"

definition log_mark :: "int \<Rightarrow> run_log \<Rightarrow> run_log" where
  "log_mark seq l = l\<lparr> rl_marks := rl_marks l @ [(seq, rl_pushed l)] \<rparr>"

definition replay_from :: "int \<Rightarrow> run_log \<Rightarrow> nat" where
  "replay_from since l =
     (case find (\<lambda>m. fst m \<le> since) (rev (rl_marks l)) of Some m \<Rightarrow> snd m | None \<Rightarrow> 0)"

definition replay_of :: "int \<Rightarrow> bool \<Rightarrow> run_log \<Rightarrow> event list" where
  "replay_of since replay_reasoning l =
     filter (\<lambda>ev. replay_reasoning \<or> \<not> is_reasoning ev)
       (drop (replay_from since l - (rl_pushed l - length (rl_buf l))) (rl_buf l))"

definition log_subscribe_from :: "int \<Rightarrow> bool \<Rightarrow> run_log \<Rightarrow> run_log" where
  "log_subscribe_from since replay_reasoning l =
     l\<lparr> rl_subs := rl_subs l @ [\<lparr> sub_open = True, sub_got = replay_of since replay_reasoning l \<rparr>] \<rparr>"

definition log_subscribe :: "bool \<Rightarrow> run_log \<Rightarrow> run_log" where
  "log_subscribe replay_reasoning l = log_subscribe_from 0 replay_reasoning l"

section \<open>The sinks\<close>

record conn =
  cn_sent :: "event list"
  cn_room :: "nat option"

definition conn_send :: "event \<Rightarrow> conn \<Rightarrow> bool \<times> conn" where
  "conn_send ev c = (case cn_room c of
     Some 0 \<Rightarrow> (False, c)
   | Some (Suc n) \<Rightarrow> (True, c\<lparr>cn_sent := cn_sent c @ [ev], cn_room := Some n\<rparr>)
   | None \<Rightarrow> (True, c\<lparr>cn_sent := cn_sent c @ [ev]\<rparr>))"

text \<open>A broadcast: the number of events sent so far, the last of them, and for each receiver the index of
  the event it reads next, what it has read and how many events it has missed.  Without a receiver a
  send stores nothing.\<close>

record receiver =
  rv_next :: nat
  rv_got :: "event list"
  rv_missed :: nat

record bcast =
  bs_cap :: nat
  bs_count :: nat
  bs_ring :: "event list"
  bs_receivers :: "receiver list"

definition bcast_send :: "event \<Rightarrow> bcast \<Rightarrow> bool \<times> bcast" where
  "bcast_send ev b =
     (if bs_receivers b = [] then (False, b)
      else (True, b\<lparr> bs_count := bs_count b + 1,
                    bs_ring := drop (length (bs_ring b) + 1 - bs_cap b) (bs_ring b @ [ev]) \<rparr>))"

definition bcast_recv :: "nat \<Rightarrow> bcast \<Rightarrow> bcast" where
  "bcast_recv i b =
     (let r = bs_receivers b ! i; oldest = bs_count b - length (bs_ring b) in
      if length (bs_receivers b) \<le> i then b
      else if rv_next r < oldest
      then b\<lparr>bs_receivers := (bs_receivers b)[i := r\<lparr>rv_next := oldest, rv_missed := rv_missed r + (oldest - rv_next r)\<rparr>]\<rparr>
      else if rv_next r < bs_count b
      then b\<lparr>bs_receivers := (bs_receivers b)[i := r\<lparr>rv_next := rv_next r + 1, rv_got := rv_got r @ [bs_ring b ! (rv_next r - oldest)]\<rparr>]\<rparr>
      else b)"

datatype run_sink = SinkConn conn | SinkBroadcast bcast | SinkDetached conn run_log

definition sink_send :: "event \<Rightarrow> run_sink \<Rightarrow> bool \<times> run_sink" where
  "sink_send ev s = (case s of
     SinkDetached tx lg \<Rightarrow> (True, SinkDetached (snd (conn_send ev tx)) (log_push ev lg))
   | SinkConn tx \<Rightarrow> (case conn_send ev tx of (ok, tx') \<Rightarrow> (ok, SinkConn tx'))
   | SinkBroadcast b \<Rightarrow> (True, SinkBroadcast (snd (bcast_send ev b))))"

text \<open>Whether the wait for the end of the peer returns, during a stream and during a question.\<close>

definition sink_closed :: "run_sink \<Rightarrow> bool" where
  "sink_closed s = (case s of
     SinkConn tx \<Rightarrow> cn_room tx = Some 0 | SinkBroadcast _ \<Rightarrow> False | SinkDetached _ _ \<Rightarrow> False)"

definition sink_closed_interactive :: "run_sink \<Rightarrow> bool" where
  "sink_closed_interactive s = (case s of
     SinkConn tx \<Rightarrow> cn_room tx = Some 0 | SinkDetached tx _ \<Rightarrow> cn_room tx = Some 0 | SinkBroadcast _ \<Rightarrow> False)"

definition is_detached :: "run_sink \<Rightarrow> bool" where
  "is_detached s = (case s of SinkDetached _ _ \<Rightarrow> True | _ \<Rightarrow> False)"

definition sink_mark :: "int \<Rightarrow> run_sink \<Rightarrow> run_sink" where
  "sink_mark seq s = (case s of SinkDetached tx lg \<Rightarrow> SinkDetached tx (log_mark seq lg) | _ \<Rightarrow> s)"

section \<open>The log keeps the last events\<close>

text \<open>What the log looks like after the events \<open>h\<close>, and the marks set while they were pushed.\<close>

definition log_inv :: "event list \<Rightarrow> run_log \<Rightarrow> bool" where
  "log_inv h l \<longleftrightarrow> rl_pushed l = length h \<and> rl_buf l = drop (length h - CAP) h
     \<and> (\<forall>m \<in> set (rl_marks l). snd m \<le> length h)"

lemma log_inv_new: "log_inv [] log_new"
  by (simp add: log_inv_def log_new_def)

lemma log_inv_push: "log_inv h l \<Longrightarrow> log_inv (h @ [ev]) (log_push ev l)"
proof -
  assume l: "log_inv h l"
  have "(if length (drop (length h - CAP) h) = CAP then tl (drop (length h - CAP) h) else drop (length h - CAP) h)
      = drop (Suc (length h) - CAP) h"
  proof (cases "CAP \<le> length h")
    case True
    then show ?thesis by (simp add: Suc_diff_le tl_drop drop_Suc)
  qed (simp add: CAP_def)
  moreover have "Suc (length h) - CAP - length h = 0" by (simp add: CAP_def)
  ultimately show ?thesis using l by (auto simp: log_inv_def log_push_def Let_def)
qed

lemma log_inv_mark: "log_inv h l \<Longrightarrow> log_inv h (log_mark seq l)"
  by (auto simp: log_inv_def log_mark_def)

lemma log_inv_subscribe: "log_inv h l \<Longrightarrow> log_inv h (log_subscribe_from since r l)"
  by (auto simp: log_inv_def log_subscribe_from_def)

lemma replay_from_le: "log_inv h l \<Longrightarrow> replay_from since l \<le> length h"
proof (cases "find (\<lambda>m. fst m \<le> since) (rev (rl_marks l))")
  case (Some m)
  then have "m \<in> set (rl_marks l)" by (metis find_Some_iff nth_mem set_rev)
  then show "log_inv h l \<Longrightarrow> replay_from since l \<le> length h" using Some by (auto simp: log_inv_def replay_from_def)
qed (simp add: replay_from_def)

lemma replay_of_inv:
  assumes "log_inv h l"
  shows "replay_of since r l =
    filter (\<lambda>ev. r \<or> \<not> is_reasoning ev) (drop (max (replay_from since l) (length h - CAP)) h)"
proof -
  have "drop (replay_from since l - (length h - (length h - (length h - CAP)))) (drop (length h - CAP) h)
      = drop (max (replay_from since l) (length h - CAP)) h"
    by (auto simp: max_def intro!: arg_cong[of _ _ "\<lambda>n. drop n h"])
  with assms show ?thesis by (simp add: replay_of_def log_inv_def)
qed

text \<open>The history of a log: events pushed and marks set, in order.\<close>

datatype log_op = OpPush event | OpMark int | OpSubscribe int bool

fun apply_op :: "log_op \<Rightarrow> run_log \<Rightarrow> run_log" where
  "apply_op (OpPush ev) l = log_push ev l"
| "apply_op (OpMark s) l = log_mark s l"
| "apply_op (OpSubscribe s r) l = log_subscribe_from s r l"

fun pushed_of :: "log_op list \<Rightarrow> event list" where
  "pushed_of [] = []"
| "pushed_of (OpPush ev # ops) = ev # pushed_of ops"
| "pushed_of (_ # ops) = pushed_of ops"

lemma pushed_of_append [simp]: "pushed_of (xs @ ys) = pushed_of xs @ pushed_of ys"
  by (induction xs rule: pushed_of.induct) auto

lemma log_inv_ops: "log_inv h l \<Longrightarrow> log_inv (h @ pushed_of ops) (fold apply_op ops l)"
proof (induction ops arbitrary: h l)
  case (Cons op ops)
  show ?case
  proof (cases op)
    case (OpPush ev)
    then show ?thesis using Cons.IH[OF log_inv_push[OF Cons.prems, of ev]] by simp
  qed (use Cons log_inv_mark log_inv_subscribe in auto)
qed simp

lemmas log_inv_history = log_inv_ops[OF log_inv_new, simplified]

text \<open>The marks of a history.\<close>

fun marks_of :: "nat \<Rightarrow> log_op list \<Rightarrow> (int \<times> nat) list" where
  "marks_of n [] = []"
| "marks_of n (OpPush ev # ops) = marks_of (Suc n) ops"
| "marks_of n (OpMark s # ops) = (s, n) # marks_of n ops"
| "marks_of n (OpSubscribe s r # ops) = marks_of n ops"

lemma rl_marks_ops:
  "rl_marks (fold apply_op ops l) = rl_marks l @ marks_of (rl_pushed l) ops"
  by (induction ops arbitrary: l rule: pushed_of.induct)
    (auto simp: log_push_def log_mark_def log_subscribe_from_def Let_def)

lemma marks_of_append: "marks_of n (xs @ ys) = marks_of n xs @ marks_of (n + length (pushed_of xs)) ys"
  by (induction n xs rule: marks_of.induct) auto

text \<open>A subscriber that stays open is sent every later event.\<close>

lemma subs_step:
  assumes "i < length (rl_subs l)" "\<forall>s \<in> set (rl_subs l). sub_open s"
  shows "i < length (rl_subs (apply_op op l)) \<and> (\<forall>s \<in> set (rl_subs (apply_op op l)). sub_open s)
      \<and> sub_got (rl_subs (apply_op op l) ! i) = sub_got (rl_subs l ! i) @ pushed_of [op]"
proof (cases op)
  case (OpPush ev)
  have "filter sub_open (rl_subs l) = rl_subs l" using assms(2) by simp
  with OpPush assms show ?thesis by (simp add: log_push_def Let_def)
qed (use assms in \<open>simp_all add: log_mark_def log_subscribe_from_def nth_append\<close>)

lemma subs_follow:
  assumes "i < length (rl_subs l)" "\<forall>s \<in> set (rl_subs l). sub_open s"
  shows "sub_got (rl_subs (fold apply_op ops l) ! i) = sub_got (rl_subs l ! i) @ pushed_of ops"
  using assms
proof (induction ops arbitrary: l)
  case (Cons op ops)
  have "pushed_of (op # ops) = pushed_of [op] @ pushed_of ops" by (cases op) auto
  then show ?case using Cons.IH[of "apply_op op l"] subs_step[OF Cons.prems, of op] by simp
qed simp

section \<open>The interface of a sink\<close>

text \<open>What an outlet with one peer promises a run: events arrive in the order of the sends, and a peer
  that is gone stays gone.\<close>

locale inline_sink =
  fixes send :: "event \<Rightarrow> 's \<Rightarrow> bool \<times> 's"
    and arrived :: "'s \<Rightarrow> event list"
    and gone :: "'s \<Rightarrow> bool"
    and direct :: "'s \<Rightarrow> bool"
  assumes send_direct: "direct (snd (send ev s)) = direct s"
    and send_there: "direct s \<Longrightarrow> \<not> gone s \<Longrightarrow> arrived (snd (send ev s)) = arrived s @ [ev]"
    and send_gone: "direct s \<Longrightarrow> gone s \<Longrightarrow> arrived (snd (send ev s)) = arrived s \<and> gone (snd (send ev s))"
begin

fun send_all :: "event list \<Rightarrow> 's \<Rightarrow> 's" where
  "send_all [] s = s"
| "send_all (ev # evs) s = send_all evs (snd (send ev s))"

lemma send_all_gone: "direct s \<Longrightarrow> gone s \<Longrightarrow> arrived (send_all evs s) = arrived s \<and> gone (send_all evs s)"
  by (induction evs arbitrary: s) (auto simp: send_gone send_direct)

lemma arrives_prefix:
  "direct s \<Longrightarrow> \<exists>n \<le> length evs. arrived (send_all evs s) = arrived s @ take n evs"
proof (induction evs arbitrary: s)
  case (Cons ev evs)
  show ?case
  proof (cases "gone s")
    case True
    then show ?thesis using send_all_gone[OF Cons.prems True, of "ev # evs"] by (intro exI[of _ 0]) auto
  next
    case False
    obtain n where n: "n \<le> length evs" "arrived (send_all evs (snd (send ev s))) = arrived (snd (send ev s)) @ take n evs"
      using Cons send_direct by blast
    then show ?thesis using send_there[OF Cons.prems False] by (intro exI[of _ "Suc n"]) auto
  qed
qed simp

lemma arrives_all:
  "direct s \<Longrightarrow> \<not> gone (send_all evs s) \<Longrightarrow> arrived (send_all evs s) = arrived s @ evs"
proof (induction evs arbitrary: s)
  case (Cons ev evs)
  then have "\<not> gone s" using send_all_gone[OF Cons.prems(1), of "ev # evs"] by auto
  then show ?case using Cons send_there send_direct by auto
qed simp

end

text \<open>The events that reached the peer of a \<open>Conn\<close> or a detached outlet.  The log of a detached one
  counts them all, whether the peer is there or not.\<close>

definition sink_arrived :: "run_sink \<Rightarrow> event list" where
  "sink_arrived s = (case s of SinkConn tx \<Rightarrow> cn_sent tx | SinkBroadcast _ \<Rightarrow> [] | SinkDetached tx _ \<Rightarrow> cn_sent tx)"

definition sink_gone :: "run_sink \<Rightarrow> bool" where
  "sink_gone s = (case s of SinkConn tx \<Rightarrow> cn_room tx = Some 0 | SinkBroadcast _ \<Rightarrow> False
     | SinkDetached tx _ \<Rightarrow> cn_room tx = Some 0)"

definition sink_direct :: "run_sink \<Rightarrow> bool" where
  "sink_direct s = (case s of SinkBroadcast _ \<Rightarrow> False | _ \<Rightarrow> True)"

lemma conn_send_simps:
  "cn_room c = Some 0 \<Longrightarrow> conn_send ev c = (False, c)"
  "cn_room c \<noteq> Some 0 \<Longrightarrow> fst (conn_send ev c) \<and> cn_sent (snd (conn_send ev c)) = cn_sent c @ [ev]"
  by (auto simp: conn_send_def split: option.splits nat.splits)

lemma sink_send_cases:
  "snd (sink_send ev (SinkDetached tx lg)) = SinkDetached (snd (conn_send ev tx)) (log_push ev lg)"
  "snd (sink_send ev (SinkBroadcast b)) = SinkBroadcast (snd (bcast_send ev b))"
  by (simp_all add: sink_send_def)

lemma sink_direct_send: "sink_direct (snd (sink_send ev s)) = sink_direct s"
  by (simp add: sink_direct_def sink_send_def split: run_sink.splits prod.splits)

interpretation rsink: inline_sink sink_send sink_arrived sink_gone sink_direct
proof
  show "sink_direct (snd (sink_send ev s)) = sink_direct s" for ev s by (rule sink_direct_send)
  show "sink_arrived (snd (sink_send ev s)) = sink_arrived s @ [ev]" if "sink_direct s" "\<not> sink_gone s" for ev s
    using that conn_send_simps(2)
    by (cases s) (auto simp: sink_send_def sink_arrived_def sink_gone_def sink_direct_def case_prod_beta)
  show "sink_arrived (snd (sink_send ev s)) = sink_arrived s \<and> sink_gone (snd (sink_send ev s))"
    if "sink_direct s" "sink_gone s" for ev s
    using that conn_send_simps(1)
    by (cases s) (auto simp: sink_send_def sink_arrived_def sink_gone_def sink_direct_def)
qed

lemma sink_send_ok: "fst (sink_send ev s) \<longleftrightarrow> is_detached s \<or> \<not> sink_gone s"
  using conn_send_simps
  by (cases s) (auto simp: sink_send_def is_detached_def sink_gone_def case_prod_beta)

text \<open>The log of a detached outlet takes every event.\<close>

lemma detached_log_keeps:
  "log_inv h lg \<Longrightarrow> \<exists>tx' lg'. rsink.send_all evs (SinkDetached tx lg) = SinkDetached tx' lg' \<and> log_inv (h @ evs) lg'"
proof (induction evs arbitrary: h tx lg)
  case (Cons ev evs)
  show ?case using Cons.IH[OF log_inv_push[OF Cons.prems, of ev]] by (simp add: sink_send_cases)
qed simp

section \<open>What a broadcast loses\<close>

definition bcast_inv :: "event list \<Rightarrow> bcast \<Rightarrow> bool" where
  "bcast_inv h b \<longleftrightarrow> bs_count b = length h \<and> bs_ring b = drop (length h - bs_cap b) h"

lemma bcast_inv_send:
  assumes "bcast_inv h b" "bs_receivers b \<noteq> []"
  shows "bcast_inv (h @ [ev]) (snd (bcast_send ev b))"
    "bs_receivers (snd (bcast_send ev b)) = bs_receivers b" "bs_cap (snd (bcast_send ev b)) = bs_cap b"
  using assms by (cases "bs_cap b \<le> length h"; simp add: bcast_inv_def bcast_send_def Suc_diff_le)+

lemma broadcast_sends:
  "bcast_inv h b \<Longrightarrow> bs_receivers b \<noteq> [] \<Longrightarrow>
   \<exists>b'. rsink.send_all evs (SinkBroadcast b) = SinkBroadcast b' \<and> bcast_inv (h @ evs) b'
      \<and> bs_receivers b' = bs_receivers b \<and> bs_cap b' = bs_cap b"
proof (induction evs arbitrary: h b)
  case (Cons ev evs)
  note st = bcast_inv_send[OF Cons.prems, of ev]
  show ?case using Cons.IH[OF st(1)] st(2,3) Cons.prems by (simp add: sink_send_cases)
qed simp

text \<open>A receiver that was up to date and reads nothing while more events are sent than the broadcast
  retains misses the first of them.\<close>

lemma slow_receiver_lags:
  assumes "bcast_inv h b" "i < length (bs_receivers b)" "rv_next (bs_receivers b ! i) = length h"
    "bs_cap b < length evs"
  shows "\<exists>b'. rsink.send_all evs (SinkBroadcast b) = SinkBroadcast b'
     \<and> rv_missed (bs_receivers (bcast_recv i b') ! i) = rv_missed (bs_receivers b ! i) + (length evs - bs_cap b)
     \<and> rv_got (bs_receivers (bcast_recv i b') ! i) = rv_got (bs_receivers b ! i)"
proof -
  have "bs_receivers b \<noteq> []" using assms(2) by auto
  then obtain b' where b': "rsink.send_all evs (SinkBroadcast b) = SinkBroadcast b'" "bcast_inv (h @ evs) b'"
    "bs_receivers b' = bs_receivers b" "bs_cap b' = bs_cap b"
    using broadcast_sends[OF assms(1)] by blast
  obtain k where k: "length evs = bs_cap b + Suc k" using assms(4) less_iff_Suc_add by auto
  then have "bs_count b' - length (bs_ring b') = length h + Suc k"
    using b'(2,4) by (simp add: bcast_inv_def)
  then show ?thesis using b'(1,3) assms(2,3) k by (simp add: bcast_recv_def Let_def)
qed

lemma sink_mark_broadcast [simp]: "sink_mark seq (SinkBroadcast b) = SinkBroadcast b"
  by (simp add: sink_mark_def)

section \<open>Properties\<close>

text \<open>C23. Resuming a detached run neither loses nor repeats an event.  A client that subscribes with
  the history mark \<open>since\<close> after the history \<open>ops\<close> and stays connected has been sent, after any
  further history \<open>later\<close>: the events pushed after the last mark not above \<open>since\<close> (those the ring
  still holds, without the reasoning unless asked for), then every later event, once and in order.\<close>

theorem resume_no_gap:
  assumes subs: "\<forall>s \<in> set (rl_subs (fold apply_op ops log_new)). sub_open s"
  defines "l \<equiv> fold apply_op ops log_new"
  shows "sub_got (rl_subs (fold apply_op later (log_subscribe_from since r l)) ! length (rl_subs l)) =
     filter (\<lambda>ev. r \<or> \<not> is_reasoning ev)
       (drop (max (replay_from since l) (length (pushed_of ops) - CAP)) (pushed_of ops)) @ pushed_of later"
proof -
  have inv: "log_inv (pushed_of ops) l" unfolding l_def by (rule log_inv_history)
  have "sub_got (rl_subs (fold apply_op later (log_subscribe_from since r l)) ! length (rl_subs l))
      = sub_got (rl_subs (log_subscribe_from since r l) ! length (rl_subs l)) @ pushed_of later"
    by (rule subs_follow) (use subs in \<open>auto simp: log_subscribe_from_def l_def\<close>)
  then show ?thesis using replay_of_inv[OF inv] by (simp add: log_subscribe_from_def)
qed

lemma resume_no_gap_witness:
  "sub_got (rl_subs (fold apply_op [OpPush (EvAssistant [] [] [3])]
      (log_subscribe_from 7 False (fold apply_op
         [OpPush (EvAssistant [] [] [1]), OpMark 7, OpPush (EvReasoning [] [] [9]), OpPush (EvAssistant [] [] [2])] log_new))) ! 0)
   = [EvAssistant [] [] [2], EvAssistant [] [] [3]]"
  using resume_no_gap[of "[OpPush (EvAssistant [] [] [1]), OpMark 7, OpPush (EvReasoning [] [] [9]), OpPush (EvAssistant [] [] [2])]"
      "[OpPush (EvAssistant [] [] [3])]" 7 False]
  by (simp add: log_push_def log_mark_def log_new_def CAP_def Let_def replay_from_def)

text \<open>An event whose content is not in an entry the client already has is replayed: when the
  last mark at or below \<open>since\<close> was set after the events \<open>before\<close>, every event pushed later is sent,
  unless the ring of 1024 has lost it; nothing that was pushed before that mark is sent.\<close>

theorem resume_covers_unpersisted:
  fixes s :: int and before after :: "log_op list"
  assumes "s \<le> since" "\<forall>m \<in> set (marks_of 0 after). since < fst m"
  defines "l \<equiv> fold apply_op (before @ OpMark s # after) log_new"
  shows "replay_of since True l =
    drop (length (pushed_of after) - CAP) (pushed_of after)"
proof -
  have inv: "log_inv (pushed_of before @ pushed_of after) l"
    using log_inv_history[of "before @ OpMark s # after"] by (simp add: l_def)
  have shift: "map fst (marks_of n ops) = map fst (marks_of 0 ops)" for n ops
  proof -
    have "map fst (marks_of n ops) = map fst (marks_of k ops)" for k
      by (induction n ops arbitrary: k rule: marks_of.induct) auto
    then show ?thesis .
  qed
  have "set (map fst (marks_of (length (pushed_of before)) after)) = set (map fst (marks_of 0 after))"
    by (simp only: shift[of "length (pushed_of before)"])
  then have "\<forall>m \<in> set (marks_of (length (pushed_of before)) after). \<not> fst m \<le> since"
    using assms(2) by (metis image_iff list.set_map not_le)
  then have none: "find (\<lambda>m. fst m \<le> since) (rev (marks_of (length (pushed_of before)) after)) = None"
    by (auto simp: find_None_iff)
  have app: "find p (xs @ ys) = (case find p xs of None \<Rightarrow> find p ys | Some x \<Rightarrow> Some x)" for p and xs ys :: "(int \<times> nat) list"
    by (induction xs) auto
  have "replay_from since l = length (pushed_of before)"
    using none assms(1) rl_marks_ops[of "before @ OpMark s # after" log_new]
    by (simp only: replay_from_def l_def) (simp add: marks_of_append app log_new_def)
  then show ?thesis
    unfolding replay_of_inv[OF inv] by (simp add: max_def)
qed

lemma resume_covers_unpersisted_witness:
  "replay_of 7 True (fold apply_op ([OpPush (EvAssistant [] [] [1])] @ OpMark 7 # [OpPush (EvAssistant [] [] [2]), OpMark 8]) log_new)
   = [EvAssistant [] [] [2]]"
  using resume_covers_unpersisted[of 7 7 "[OpPush (EvAssistant [] [] [2]), OpMark 8]" "[OpPush (EvAssistant [] [] [1])]"]
  by (simp add: CAP_def)

text \<open>C24. An outlet with one peer, a connection or a detached one, drops no event in the middle: what has
  arrived at the peer is always a prefix of what was sent, and all of it while the peer is connected.  A detached outlet
  answers every send with success, and its log holds the last 1024 of all events sent, those included
  that found the peer gone.  (The broadcast of the tests is no such outlet: a slow receiver misses
  events, \<open>slow_receiver_lags\<close>.)\<close>

theorem sink_lossless:
  assumes "sink_direct s"
  shows "(\<exists>n \<le> length evs. sink_arrived (rsink.send_all evs s) = sink_arrived s @ take n evs)
   \<and> (sink_gone (rsink.send_all evs s) \<or> sink_arrived (rsink.send_all evs s) = sink_arrived s @ evs)
   \<and> (\<forall>tx lg h. s = SinkDetached tx lg \<and> log_inv h lg \<longrightarrow> fst (sink_send ev s)
        \<and> (\<exists>tx' lg'. rsink.send_all evs s = SinkDetached tx' lg'
             \<and> rl_pushed lg' = length h + length evs \<and> rl_buf lg' = drop (length h + length evs - CAP) (h @ evs)))"
proof -
  have "fst (sink_send ev s)
        \<and> (\<exists>tx' lg'. rsink.send_all evs s = SinkDetached tx' lg'
             \<and> rl_pushed lg' = length h + length evs \<and> rl_buf lg' = drop (length h + length evs - CAP) (h @ evs))"
    if "s = SinkDetached tx lg" "log_inv h lg" for tx lg h
    using detached_log_keeps[OF that(2), of evs tx] that(1) by (auto simp: sink_send_def log_inv_def)
  then show ?thesis using rsink.arrives_prefix[OF assms, of evs] rsink.arrives_all[OF assms, of evs] by blast
qed

lemma sink_lossless_witness:
  "sink_arrived (rsink.send_all [EvAssistant [] [] [1], EvAssistant [] [] [2]] (SinkConn \<lparr> cn_sent = [], cn_room = Some 5 \<rparr>))
     = [EvAssistant [] [] [1], EvAssistant [] [] [2]]
   \<and> (\<exists>tx lg. rsink.send_all [EvAssistant [] [] [1]] (SinkDetached \<lparr> cn_sent = [], cn_room = Some 0 \<rparr> log_new) = SinkDetached tx lg
        \<and> rl_buf lg = [EvAssistant [] [] [1]])"
proof -
  have d: "sink_direct (SinkConn \<lparr> cn_sent = [], cn_room = Some 5 \<rparr>)"
    "sink_direct (SinkDetached \<lparr> cn_sent = [], cn_room = Some 0 \<rparr> log_new)" by (simp_all add: sink_direct_def)
  have "\<not> sink_gone (rsink.send_all [EvAssistant [] [] [1], EvAssistant [] [] [2]] (SinkConn \<lparr> cn_sent = [], cn_room = Some 5 \<rparr>))"
    by (simp add: sink_send_def conn_send_def sink_gone_def numeral_eq_Suc)
  then show ?thesis
    using sink_lossless[OF d(1), of "[EvAssistant [] [] [1], EvAssistant [] [] [2]]"]
      sink_lossless[OF d(2), of "[EvAssistant [] [] [1]]"] log_inv_new
    by (fastforce simp: sink_arrived_def CAP_def)
qed

end
