(* ===== verification/Session_History.thy ===== *)
theory Session_History
  imports Proto Store_Transcript
begin

text \<open>
  The replay of a stored session as model messages: \<open>entry_to_message\<close>, \<open>load_history\<close> and
  \<open>drop_orphan_tool_msgs\<close> of \<open>crates/oc-server/src/session.rs\<close>.  The JSON reader of the stored tool
  calls (\<open>serde_json\<close>) is the parameter \<open>parse_specs\<close>; it answers \<open>None\<close> on text it cannot read.
\<close>

definition UNKNOWN_TOOL_NAME :: rstr where
  "UNKNOWN_TOOL_NAME = lit ''unknown_tool''"

text \<open>\<open>(chars / 4).max(1)\<close>.\<close>

definition estimate_tokens :: "rstr \<Rightarrow> int" where
  "estimate_tokens s = max (int (length s) div 4) 1"

definition history_result_tag :: rstr where
  "history_result_tag = [12304, 21382, 21490, 24037, 20855, 32467, 26524, 12305, 10]"

definition entry_to_message :: "(rstr \<Rightarrow> tool_call_spec list option) \<Rightarrow> entry \<Rightarrow> message" where
  "entry_to_message parse_specs e = (case en_role e of
     RoleSystem \<Rightarrow> plain_msg MSystem (en_content e)
   | RoleUser \<Rightarrow> plain_msg MUser (en_content e)
   | RoleAssistant \<Rightarrow>
       let specs = (case Option.bind (en_tool_calls e) parse_specs of Some xs \<Rightarrow> xs | None \<Rightarrow> []);
           named = map (\<lambda>s. if tc_name s = [] then s\<lparr>tc_name := UNKNOWN_TOOL_NAME\<rparr> else s) specs
       in (plain_msg MAssistant (en_content e))\<lparr>m_tool_calls := named\<rparr>
   | RoleTool \<Rightarrow> (case en_tool_call_id e of
         Some i \<Rightarrow> (plain_msg MTool (en_content e))\<lparr>m_tool_call_id := Some i\<rparr>
       | None \<Rightarrow> plain_msg MUser (history_result_tag @ en_content e)))"

text \<open>Which messages stay: a tool result does when the kept message before it made the call.\<close>

fun keep_flags :: "(message \<times> bool) option \<Rightarrow> message list \<Rightarrow> bool list" where
  "keep_flags prev [] = []"
| "keep_flags prev (m # ms) =
     (let k = (if m_role m \<noteq> MTool \<or> m_tool_call_id m = None then True
               else case prev of None \<Rightarrow> False
                 | Some (p, kp) \<Rightarrow> kp \<and> m_role p = MAssistant
                     \<and> list_ex (\<lambda>c. Some (tc_id c) = m_tool_call_id m) (m_tool_calls p))
      in k # keep_flags (Some (m, k)) ms)"

definition answered :: "message \<Rightarrow> message list \<Rightarrow> bool" where
  "answered m rest = (case rest of [] \<Rightarrow> False
     | n # _ \<Rightarrow> m_role n = MTool \<and> list_ex (\<lambda>c. m_tool_call_id n = Some (tc_id c)) (m_tool_calls m))"

fun strip_unanswered :: "message list \<Rightarrow> message list" where
  "strip_unanswered [] = []"
| "strip_unanswered (m # ms) =
     (if m_tool_calls m = [] \<or> answered m ms then m else m\<lparr>m_tool_calls := []\<rparr>) # strip_unanswered ms"

definition keepable :: "message \<Rightarrow> bool" where
  "keepable m \<longleftrightarrow> m_role m \<noteq> MAssistant \<or> m_content m \<noteq> [] \<or> m_tool_calls m \<noteq> []"

definition retain_flags :: "bool list \<Rightarrow> 'a list \<Rightarrow> 'a list" where
  "retain_flags ks ms = map fst (filter snd (zip ms ks))"

definition drop_orphan_tool_msgs :: "message list \<Rightarrow> message list" where
  "drop_orphan_tool_msgs ms = filter keepable (strip_unanswered (retain_flags (keep_flags None ms) ms))"

text \<open>The walk from the newest entry back, while the budget lasts.\<close>

fun keep_recent_entries :: "(entry \<Rightarrow> message) \<Rightarrow> int \<Rightarrow> entry list \<Rightarrow> message list \<Rightarrow> message list" where
  "keep_recent_entries f budget [] kept = kept"
| "keep_recent_entries f budget (e # es) kept =
     (let cost = max (en_tokens_est e) 1 in
      if budget - cost < 0 \<and> kept \<noteq> [] then kept
      else keep_recent_entries f (budget - cost) es (kept @ [f e]))"

definition load_history :: "(rstr \<Rightarrow> tool_call_spec list option) \<Rightarrow> int \<Rightarrow> int \<Rightarrow> rstr \<Rightarrow> db \<Rightarrow> message list" where
  "load_history parse_specs max_entries token_budget sid d =
     drop_orphan_tool_msgs (rev (keep_recent_entries (entry_to_message parse_specs) token_budget
        (rev (load_transcript sid max_entries d)) []))"

section \<open>Facts\<close>

text \<open>What \<open>entry_to_message\<close> guarantees of a single message.\<close>

definition wf_msg :: "message \<Rightarrow> bool" where
  "wf_msg m \<longleftrightarrow> (m_role m \<noteq> MAssistant \<longrightarrow> m_tool_calls m = []) \<and> (m_role m = MTool \<longrightarrow> m_tool_call_id m \<noteq> None)"

lemma wf_clear: "wf_msg m \<Longrightarrow> wf_msg (m\<lparr>m_tool_calls := []\<rparr>)"
  by (simp add: wf_msg_def)

lemma wf_entry_to_message: "wf_msg (entry_to_message p e)"
  by (auto simp: wf_msg_def entry_to_message_def Let_def split: store_role.splits option.splits)

lemma retain_flags_simps [simp]:
  "retain_flags [] ms = []" "retain_flags ks [] = []"
  "retain_flags (k # ks) (m # ms) = (if k then m # retain_flags ks ms else retain_flags ks ms)"
  by (simp_all add: retain_flags_def)

lemma set_retain_flags: "set (retain_flags ks ms) \<subseteq> set ms"
  by (auto simp: retain_flags_def dest: set_zip_leftD)

fun res_ok :: "message option \<Rightarrow> message list \<Rightarrow> bool" where
  "res_ok p [] \<longleftrightarrow> True"
| "res_ok p (m # ms) \<longleftrightarrow>
     (is_result m \<longrightarrow> (case p of None \<Rightarrow> False | Some d \<Rightarrow> is_dispatch d \<and> answers d m)) \<and> res_ok (Some m) ms"

lemma keep_flags_res_ok:
  assumes "\<forall>m \<in> set ms. wf_msg m" "case prev of Some (p, True) \<Rightarrow> q = Some p | _ \<Rightarrow> True"
  shows "res_ok q (retain_flags (keep_flags prev ms) ms)"
  using assms
proof (induction prev ms arbitrary: q rule: keep_flags.induct)
  case (2 prev m ms)
  define k where "k = hd (keep_flags prev (m # ms))"
  have ks: "keep_flags prev (m # ms) = k # keep_flags (Some (m, k)) ms" by (simp add: k_def Let_def)
  have IH: "res_ok q' (retain_flags (keep_flags (Some (m, k)) ms) ms)" if "k \<longrightarrow> q' = Some m" for q'
    using 2(1)[of k q'] 2(2) that by (auto simp: k_def Let_def split: bool.splits)
  show ?case
  proof (cases k)
    case True
    have "is_result m \<longrightarrow> (case q of None \<Rightarrow> False | Some d \<Rightarrow> is_dispatch d \<and> answers d m)"
    proof
      assume r: "is_result m"
      then have "m_role m = MTool" "m_tool_call_id m \<noteq> None" using 2(2) by (auto simp: is_result_def wf_msg_def)
      then obtain p where p: "prev = Some (p, True)" "m_role p = MAssistant"
          "list_ex (\<lambda>c. Some (tc_id c) = m_tool_call_id m) (m_tool_calls p)"
        using True by (auto simp: k_def Let_def split: option.splits)
      then have "is_dispatch p \<and> answers p m" using r
        by (auto simp: is_dispatch_def answers_def list_ex_iff intro: sym)
      then show "case q of None \<Rightarrow> False | Some d \<Rightarrow> is_dispatch d \<and> answers d m" using 2(3) p(1) by simp
    qed
    then show ?thesis unfolding ks using True IH[of "Some m"] by simp
  next
    case False
    then show ?thesis unfolding ks using IH[of q] by simp
  qed
qed simp

lemma answered_answers: "answered m (n # ms) \<longleftrightarrow> answers m n"
  by (auto simp: answered_def answers_def is_result_def list_ex_iff)

lemma strip_proto_ok:
  assumes "\<forall>m \<in> set ms. wf_msg m" "res_ok p ms" "\<not> (\<exists>r rest. ms = r # rest \<and> is_result r)"
  shows "proto_ok (filter keepable (strip_unanswered ms))"
  using assms
proof (induction ms arbitrary: p rule: induct_list012)
  case (2 m)
  then show ?case by (auto simp: answered_def is_dispatch_def is_result_def)
next
  case (3 m n ms)
  show ?case
  proof (cases "is_dispatch m \<and> answers m n")
    case True
    have n: "m_tool_calls n = []" "is_result n" "\<not> is_dispatch n" "m_role n \<noteq> MAssistant"
      using 3(3) True by (auto simp: answers_def is_result_def wf_msg_def is_dispatch_def)
    have hd: "\<not> (\<exists>r rest. ms = r # rest \<and> is_result r)" using 3(4) n(3) by auto
    have "proto_ok (filter keepable (strip_unanswered ms))"
      using 3(1)[of "Some n"] 3(3,4) True hd by auto
    moreover have "keepable m" "keepable n" using True n by (auto simp: keepable_def is_dispatch_def)
    ultimately show ?thesis using True n by (simp add: answered_answers)
  next
    case False
    define m' where "m' = (if m_tool_calls m = [] \<or> answered m (n # ms) then m else m\<lparr>m_tool_calls := []\<rparr>)"
    have m': "\<not> is_dispatch m'" "\<not> is_result m'"
      using False 3(3,5) by (auto simp: m'_def is_dispatch_def is_result_def answered_answers wf_msg_def)
    have "\<not> is_result n" using 3(4) False by (auto split: option.splits)
    then have "proto_ok (filter keepable (strip_unanswered (n # ms)))"
      using 3(2)[of "Some m"] 3(3,4) by simp
    then have "proto_ok (filter keepable (m' # strip_unanswered (n # ms)))"
      using m' by (simp del: strip_unanswered.simps)
    then show ?thesis by (simp add: m'_def)
  qed
qed simp

lemma drop_orphan_proto_ok:
  assumes "\<forall>m \<in> set ms. wf_msg m"
  shows "proto_ok (drop_orphan_tool_msgs ms)"
proof -
  let ?r = "retain_flags (keep_flags None ms) ms"
  have ok: "res_ok None ?r" by (rule keep_flags_res_ok) (use assms in simp_all)
  then have "\<not> (\<exists>r rest. ?r = r # rest \<and> is_result r)" by (metis option.simps(4) res_ok.simps(2))
  moreover have "\<forall>m \<in> set ?r. wf_msg m" using assms set_retain_flags[of "keep_flags None ms" ms] by blast
  ultimately show ?thesis unfolding drop_orphan_tool_msgs_def using strip_proto_ok[OF _ ok] by blast
qed

lemma keep_recent_entries_eq:
  "\<exists>n \<le> length es. keep_recent_entries f b es kept = kept @ map f (take n es)
     \<and> (n < length es \<longrightarrow> kept @ map f (take n es) \<noteq> [] \<and> b < (\<Sum>e \<leftarrow> take (Suc n) es. max (en_tokens_est e) 1))
     \<and> (\<forall>k. 0 < k \<and> k \<le> n \<and> (kept \<noteq> [] \<or> 1 < k) \<longrightarrow> (\<Sum>e \<leftarrow> take k es. max (en_tokens_est e) 1) \<le> b)"
proof (induction f b es kept rule: keep_recent_entries.induct)
  case (2 f b e es kept)
  define c where "c = max (en_tokens_est e) 1"
  show ?case
  proof (cases "b - c < 0 \<and> kept \<noteq> []")
    case True
    then show ?thesis by (intro exI[of _ 0]) (simp add: c_def Let_def)
  next
    case False
    then obtain n where n: "n \<le> length es"
        "keep_recent_entries f (b - c) es (kept @ [f e]) = (kept @ [f e]) @ map f (take n es)"
        "n < length es \<longrightarrow> b - c < (\<Sum>e \<leftarrow> take (Suc n) es. max (en_tokens_est e) 1)"
        "\<And>k. 0 < k \<and> k \<le> n \<Longrightarrow> (\<Sum>e \<leftarrow> take k es. max (en_tokens_est e) 1) \<le> b - c"
      using 2[of c] by (auto simp: c_def)
    have "(\<Sum>e \<leftarrow> take k (e # es). max (en_tokens_est e) 1) \<le> b"
      if "0 < k" "k \<le> Suc n" "kept \<noteq> [] \<or> 1 < k" for k
    proof (cases k)
      case (Suc j)
      show ?thesis using n(4)[of j] that Suc False by (cases j) (auto simp: c_def)
    qed (use that in simp)
    then show ?thesis using n(1-3) False by (intro exI[of _ "Suc n"]) (auto simp: c_def Let_def)
  qed
qed simp

lemma load_history_proto_ok: "proto_ok (load_history parse_specs max_entries token_budget sid d)"
proof -
  obtain n where "keep_recent_entries (entry_to_message parse_specs) token_budget (rev (load_transcript sid max_entries d)) []
      = map (entry_to_message parse_specs) (take n (rev (load_transcript sid max_entries d)))"
    using keep_recent_entries_eq[of "rev (load_transcript sid max_entries d)" "entry_to_message parse_specs" token_budget "[]"]
    by auto
  then show ?thesis unfolding load_history_def by (auto intro!: drop_orphan_proto_ok wf_entry_to_message)
qed

section \<open>Properties\<close>

text \<open>C16. Whatever a session's table holds, its replay obeys the pairing rule of the provider: every
  dispatch is followed by its own result and every result follows its own dispatch, also when the
  budget cut a pair in two, when a run stopped between a call and its result, and when stored tool
  calls cannot be read.\<close>

theorem history_obeys_pairing:
  "proto_ok (load_history parse_specs max_entries token_budget sid d)"
  by (rule load_history_proto_ok)

text \<open>A replay that needs no repair is not touched: on messages that obey the rule, with
  results directly after single dispatches and no empty assistant message, the repair is the identity.\<close>

lemma flags_all_kept:
  assumes "proto_ok ms" "case prev of Some (p, kp) \<Rightarrow> kp | None \<Rightarrow> True"
  shows "keep_flags prev ms = replicate (length ms) True"
  using assms
proof (induction ms arbitrary: prev rule: proto_ok.induct)
  case (3 m n ms)
  show ?case
  proof (cases "is_dispatch m")
    case True
    then have "\<exists>c \<in> set (m_tool_calls m). Some (tc_id c) = m_tool_call_id n" "m_role n = MTool"
      using 3(3) by (auto simp: answers_def is_result_def)
    then show ?thesis using 3(1)[of "Some (n, True)"] 3(3) True
      by (auto simp: is_dispatch_def Let_def list_ex_iff)
  next
    case False
    then show ?thesis using 3(2)[of "Some (m, True)"] 3(3) by (auto simp: is_result_def Let_def)
  qed
qed (auto simp: is_result_def Let_def)

lemma retain_all [simp]: "retain_flags (replicate (length ms) True) ms = ms"
  by (induction ms) auto

lemma strip_id:
  assumes "proto_ok ms" "\<forall>m \<in> set ms. wf_msg m"
  shows "strip_unanswered ms = ms"
  using assms
proof (induction ms rule: proto_ok.induct)
  case (2 m)
  then show ?case by (auto simp: is_dispatch_def wf_msg_def)
next
  case (3 m n ms)
  show ?case
  proof (cases "is_dispatch m")
    case True
    then have "m_tool_calls n = []" using 3(3,4) by (auto simp: answers_def is_result_def wf_msg_def)
    then show ?thesis using 3 True by (auto simp: answered_answers)
  next
    case False
    then have "m_tool_calls m = []" using 3(4) by (auto simp: is_dispatch_def wf_msg_def)
    then show ?thesis using 3 False by auto
  qed
qed simp

text \<open>The repair touches nothing that is in order, and repairing twice is repairing once.\<close>

theorem orphan_repair_idempotent:
  assumes "\<forall>m \<in> set ms. wf_msg m"
  shows "(proto_ok ms \<and> (\<forall>m \<in> set ms. keepable m) \<longrightarrow> drop_orphan_tool_msgs ms = ms)
    \<and> drop_orphan_tool_msgs (drop_orphan_tool_msgs ms) = drop_orphan_tool_msgs ms"
proof -
  have id: "drop_orphan_tool_msgs xs = xs"
    if "proto_ok xs" "\<forall>m \<in> set xs. keepable m" "\<forall>m \<in> set xs. wf_msg m" for xs
  proof -
    have "keep_flags None xs = replicate (length xs) True" by (rule flags_all_kept[OF that(1)]) simp
    then show ?thesis unfolding drop_orphan_tool_msgs_def
      by (simp only: retain_all strip_id[OF that(1,3)]) (rule filter_True[OF that(2)])
  qed
  have "\<forall>m \<in> set xs. wf_msg m \<Longrightarrow> \<forall>m \<in> set (strip_unanswered xs). wf_msg m" for xs
    by (induction xs) (simp_all add: wf_clear)
  then have "\<forall>m \<in> set (strip_unanswered (retain_flags (keep_flags None ms) ms)). wf_msg m"
    using assms set_retain_flags[of "keep_flags None ms" ms] by blast
  then have w: "\<forall>m \<in> set (drop_orphan_tool_msgs ms). wf_msg m" "\<forall>m \<in> set (drop_orphan_tool_msgs ms). keepable m"
    unfolding drop_orphan_tool_msgs_def by simp_all
  show ?thesis using id[of ms] id[OF drop_orphan_proto_ok[OF assms] w(2,1)] assms by blast
qed

lemma orphan_repair_idempotent_witness:
  "drop_orphan_tool_msgs (drop_orphan_tool_msgs [(plain_msg MTool [1])\<lparr>m_tool_call_id := Some [7]\<rparr>, plain_msg MUser [2]])
    = drop_orphan_tool_msgs [(plain_msg MTool [1])\<lparr>m_tool_call_id := Some [7]\<rparr>, plain_msg MUser [2]]"
  using orphan_repair_idempotent[of "[(plain_msg MTool [1])\<lparr>m_tool_call_id := Some [7]\<rparr>, plain_msg MUser [2]]"]
  by (simp add: wf_msg_def)

text \<open>The budget: the replay keeps the newest entries, as many as fit; it always keeps the
  newest one, an entry is left out only when adding it would exceed the budget, and more than one
  entry is kept only within the budget.\<close>

theorem history_budget:
  fixes d :: db and sid :: rstr and max_entries :: int
  defines "es \<equiv> rev (load_transcript sid max_entries d)"
  shows "\<exists>n \<le> length es.
     keep_recent_entries f token_budget es [] = map f (take n es)
     \<and> (es \<noteq> [] \<longrightarrow> 0 < n)
     \<and> (n < length es \<longrightarrow> token_budget < (\<Sum>e \<leftarrow> take (Suc n) es. max (en_tokens_est e) 1))
     \<and> (1 < n \<longrightarrow> (\<Sum>e \<leftarrow> take n es. max (en_tokens_est e) 1) \<le> token_budget)"
proof -
  obtain n where n: "n \<le> length es" "keep_recent_entries f token_budget es [] = map f (take n es)"
     "n < length es \<longrightarrow> map f (take n es) \<noteq> [] \<and> token_budget < (\<Sum>e \<leftarrow> take (Suc n) es. max (en_tokens_est e) 1)"
     "\<forall>k. 0 < k \<and> k \<le> n \<and> 1 < k \<longrightarrow> (\<Sum>e \<leftarrow> take k es. max (en_tokens_est e) 1) \<le> token_budget"
    using keep_recent_entries_eq[of es f token_budget "[]"] by auto
  have "0 < n" if "es \<noteq> []" using n(1,3) that by (cases "n < length es") auto
  moreover have "(\<Sum>e \<leftarrow> take n es. max (en_tokens_est e) 1) \<le> token_budget" if "1 < n" using n(4) that by simp
  ultimately show ?thesis using n(1-3) by (intro exI[of _ n]) blast
qed

lemma history_budget_witness:
  "\<exists>n. keep_recent_entries (entry_to_message (\<lambda>_. None)) 100 (rev (load_transcript [115] 10 one_session)) [] =
     map (entry_to_message (\<lambda>_. None)) (take n (rev (load_transcript [115] 10 one_session)))"
  using history_budget[of "[115]" 10 one_session "entry_to_message (\<lambda>_. None)" 100] by blast

end
