(* ===== verification/Run_Request.thy ===== *)
theory Run_Request
  imports Proto Compaction Cron Prompt Session_History
begin

text \<open>
  What \<open>crates/oc-server/src/run.rs\<close> sends to the model: the context of a run, the compaction of its
  messages by the plan of \<open>Compaction\<close>, the system prompt, and the request made of them.
\<close>

text \<open>The context of a run.  The provider, the tool executor, the store, the event outlets and the
  cancellation token are part of the environment and the state of the driver.\<close>

record run_ctx =
  rc_session :: rstr
  rc_run :: rstr
  rc_user_text :: rstr
  rc_system_prompt :: "rstr option"
  rc_model :: rstr
  rc_provider_id :: rstr
  rc_endpoint :: "rstr option"
  rc_tools :: "tool_spec list option"
  rc_history :: "message list"
  rc_soul :: rstr
  rc_skills :: "skill list"
  rc_bootstrap :: "mem_line list"
  rc_compact :: compact_cfg
  rc_context_window :: nat
  rc_max_output :: "nat option"
  rc_default_tz :: rstr

section \<open>Compaction of the messages\<close>

definition message_estimate :: "message \<Rightarrow> int" where
  "message_estimate m = max (int (length (m_content m)) div 4) 1"

definition compaction_scale :: "int option \<Rightarrow> int \<Rightarrow> flt" where
  "compaction_scale real_input est_total = (case real_input of
     Some r \<Rightarrow> if 0 < est_total \<and> 0 < r
       then flt_div f64 (f64 (of_int r)) (f64 (of_int est_total)) else Fin 1
   | None \<Rightarrow> Fin 1)"

definition meta_of :: "flt \<Rightarrow> nat \<times> message \<Rightarrow> msg_meta" where
  "meta_of scale = (\<lambda>(i, m).
     \<lparr> mm_index = i,
       mm_tokens = max (to_i64 (flt_round (flt_mul f64 (f64 (of_int (message_estimate m))) scale))) 1,
       is_tool_result = (m_role m = MTool),
       is_tool_dispatch = (m_role m = MAssistant \<and> m_tool_calls m \<noteq> []) \<rparr>)"

definition metas_of :: "flt \<Rightarrow> message list \<Rightarrow> msg_meta list" where
  "metas_of scale ms = map (meta_of scale) (zip [0..<length ms] ms)"

definition pruned_suffix :: rstr where
  "pruned_suffix = ([10, 8230] @ lit ''['' @ [26087, 24037, 20855, 36755, 20986, 24050, 21098, 26525] @ lit '']'')"

fun compact_loop :: "compact_plan \<Rightarrow> nat \<Rightarrow> nat \<Rightarrow> message list \<Rightarrow> message list" where
  "compact_loop plan prune_chars i [] = []"
| "compact_loop plan prune_chars i (m # ms) =
     (if i \<in> set (plan_drop plan) then compact_loop plan prune_chars (Suc i) ms
      else (if i \<in> set (prune_tool_results plan) \<and> prune_chars < length (m_content m)
            then m\<lparr>m_content := take prune_chars (m_content m) @ pruned_suffix\<rparr> else m)
        # compact_loop plan prune_chars (Suc i) ms)"

definition apply_compaction :: "message list \<Rightarrow> compact_cfg \<Rightarrow> int option \<Rightarrow> message list" where
  "apply_compaction ms cfg real_input =
     (let scale = compaction_scale real_input (sum_list (map message_estimate ms));
          plan = plan_compaction (metas_of scale ms) cfg
      in if plan_is_noop plan then ms
         else compact_loop plan (nat (prune_to_tokens plan * 4)) 0 ms)"

section \<open>The prompt and the request\<close>

definition PLATFORM_HINT :: rstr where
  "PLATFORM_HINT = 
  [25805, 20316, 31995, 32479, 65306, 31867] @ lit '' Unix'' @ [65288] @ lit ''Linux/macOS'' @
  [65289, 12290] @ lit ''exec '' @ [24037, 20855, 36890, 36807] @ lit '' '' @ [96] @
  lit ''sh -c'' @ [96] @ lit '' '' @
  [25191, 34892, 21629, 20196, 65292, 35831, 20351, 29992] @ lit '' POSIX shell '' @
  [35821, 27861, 12290]"

definition DEFAULT_SOUL :: rstr where
  "DEFAULT_SOUL = 
  [20320, 26159] @ lit '' oc'' @
  [65292, 19968, 20010, 38271, 26399, 38506, 20276, 29992, 25143, 30340, 20010, 20154, 21161, 25163, 12290] @
  [35828, 35805, 31616, 27905, 12289, 30452, 25509, 12289, 21153, 23454, 12290, 20320, 21487, 20197, 20351] @
  [29992, 24037, 20855, 25191, 34892, 21629, 20196, 21644, 35835, 20889, 25991, 20214, 26469, 23436, 25104] @
  [20219, 21153, 65307, 21361, 38505, 25805, 20316, 20250, 20808, 35831, 27714, 29992, 25143, 23457, 25209] @
  [12290]"

definition now_local :: "'z tz_env \<Rightarrow> int \<Rightarrow> rstr \<Rightarrow> rstr" where
  "now_local env secs tz = (case fmt_now_local env secs tz of Some s \<Rightarrow> s | None \<Rightarrow> lit ''unix:'' @ show_int secs)"

definition render_prompt :: "'z tz_env \<Rightarrow> int \<Rightarrow> run_ctx \<Rightarrow> rstr" where
  "render_prompt env secs ctx =
     (let tools = (case rc_tools ctx of None \<Rightarrow> []
            | Some ts \<Rightarrow> map (\<lambda>s. \<lparr> tb_name = ts_name s, tb_description = ts_description s \<rparr>) ts);
          soul = (if trim (rc_soul ctx) = [] then DEFAULT_SOUL else rc_soul ctx)
      in prompt_full (render_system_prompt
           \<lparr> pi_soul = soul, pi_platform = PLATFORM_HINT, pi_model = rc_model ctx,
             pi_provider = rc_provider_id ctx, pi_endpoint = rc_endpoint ctx,
             pi_bootstrap = rc_bootstrap ctx, pi_skills = rc_skills ctx, pi_tools = tools,
             pi_now = now_local env secs (rc_default_tz ctx) \<rparr>))"

definition build_request :: "'z tz_env \<Rightarrow> int \<Rightarrow> run_ctx \<Rightarrow> message list \<Rightarrow> int option \<Rightarrow> model_request" where
  "build_request env secs ctx ms last_input =
     \<lparr> rq_model = rc_model ctx, rq_system = Some (render_prompt env secs ctx),
       rq_messages = apply_compaction ms (rc_compact ctx) last_input,
       rq_tools = (case rc_tools ctx of Some ts \<Rightarrow> ts | None \<Rightarrow> []),
       rq_max_tokens = rc_max_output ctx, rq_temperature = None \<rparr>"

section \<open>Facts\<close>

lemma metas_of_nth:
  "i < length ms \<Longrightarrow> metas_of scale ms ! i = meta_of scale (i, ms ! i)"
  by (simp add: metas_of_def)

lemma length_metas_of [simp]: "length (metas_of scale ms) = length ms"
  by (simp add: metas_of_def)

lemma meta_flags [simp]:
  "is_tool_result (meta_of scale (i, m)) = is_result m" "is_tool_dispatch (meta_of scale (i, m)) = is_dispatch m"
  "mm_index (meta_of scale (i, m)) = i"
  by (simp_all add: meta_of_def is_result_def is_dispatch_def)

lemma indexed_metas: "indexed (metas_of scale ms)"
  using not_dispatch_result by (simp add: indexed_def metas_of_nth)

lemma compact_msg_flags [simp]:
  "is_dispatch (m\<lparr>m_content := c\<rparr>) = is_dispatch m" "is_result (m\<lparr>m_content := c\<rparr>) = is_result m"
  "answers (m\<lparr>m_content := c\<rparr>) n = answers m n" "answers m (n\<lparr>m_content := c\<rparr>) = answers m n"
  by (simp_all add: is_dispatch_def is_result_def answers_def)

text \<open>Dropping pairs as wholes keeps the rule.\<close>

lemma compact_loop_proto_ok:
  assumes "proto_ok ms"
    and "\<And>j. Suc j < length ms \<Longrightarrow> is_dispatch (ms ! j) \<Longrightarrow> is_result (ms ! Suc j) \<Longrightarrow>
       (i + j \<in> set (plan_drop p) \<longleftrightarrow> i + Suc j \<in> set (plan_drop p))"
  shows "proto_ok (compact_loop p c i ms)"
  using assms
proof (induction ms arbitrary: i rule: induct_list012)
  case (3 m n ms)
  note D = "3.prems"(2)
  show ?case
  proof (cases "is_dispatch m")
    case True
    then have a: "answers m n" "proto_ok ms" using 3(3) by auto
    have "proto_ok (compact_loop p c (Suc (Suc i)) ms)"
      by (rule 3(1)[OF a(2)]) (use D[of "Suc (Suc _)"] in simp)
    moreover have "i \<in> set (plan_drop p) \<longleftrightarrow> Suc i \<in> set (plan_drop p)"
      using D[of 0] True a(1) answers_result by simp
    ultimately show ?thesis using True a(1) by simp
  next
    case False
    have "proto_ok (compact_loop p c (Suc i) (n # ms))"
      by (rule 3(2)) (use 3(3) False D[of "Suc _"] in auto)
    then show ?thesis using False 3(3) by (simp del: compact_loop.simps add: compact_loop.simps(2)[of p c i m])
  qed
qed auto

lemma apply_compaction_proto_ok: "proto_ok ms \<Longrightarrow> proto_ok (apply_compaction ms cfg r)"
proof -
  assume ok: "proto_ok ms"
  define sc where "sc = compaction_scale r (sum_list (map message_estimate ms))"
  have closed: "pairs_closed (metas_of sc ms) (set (plan_drop (plan_compaction (metas_of sc ms) cfg)))"
    using plan_cases[OF indexed_metas] by blast
  have "proto_ok (compact_loop (plan_compaction (metas_of sc ms) cfg) c 0 ms)" for c
    by (rule compact_loop_proto_ok[OF ok])
      (use closed in \<open>auto simp: pairs_closed_def pair_at_def metas_of_nth\<close>)
  then show ?thesis using ok by (simp add: apply_compaction_def Let_def sc_def)
qed

lemma compact_loop_split:
  "compact_loop p c i (xs @ ys) = compact_loop p c i xs @ compact_loop p c (i + length xs) ys"
  by (induction xs arbitrary: i) auto

lemma compact_loop_keep:
  "(\<And>j. j < length ms \<Longrightarrow> i + j \<notin> set (plan_drop p) \<and> i + j \<notin> set (prune_tool_results p)) \<Longrightarrow>
   compact_loop p c i ms = ms"
proof (induction ms arbitrary: i)
  case (Cons m ms)
  have "compact_loop p c (Suc i) ms = ms" by (rule Cons.IH) (use Cons.prems[of "Suc _"] in auto)
  then show ?case using Cons.prems[of 0] by simp
qed simp

section \<open>Properties\<close>

text \<open>Compaction before a model call keeps what the provider and the user rely on: a list of
  messages that obeys the pairing rule still does, the last \<open>keep_recent\<close> messages reach the model
  letter by letter, and a list within the trigger is sent unchanged.\<close>

theorem compaction_keeps_protocol:
  assumes "proto_ok ms"
  shows "proto_ok (rq_messages (build_request env secs ctx ms last_input))
    \<and> (\<exists>older. rq_messages (build_request env secs ctx ms last_input) =
          older @ drop (length ms - keep_recent (rc_compact ctx)) ms)
    \<and> (total_tokens (metas_of (compaction_scale last_input (sum_list (map message_estimate ms))) ms)
          \<le> trigger_of (rc_compact ctx) \<longrightarrow>
        rq_messages (build_request env secs ctx ms last_input) = ms)"
proof (intro conjI impI)
  show "proto_ok (rq_messages (build_request env secs ctx ms last_input))"
    using apply_compaction_proto_ok[OF assms] by (simp add: build_request_def)
next
  define metas where "metas = metas_of (compaction_scale last_input (sum_list (map message_estimate ms))) ms"
  define plan where "plan = plan_compaction metas (rc_compact ctx)"
  define k where "k = length ms - keep_recent (rc_compact ctx)"
  have ms: "ms = take k ms @ drop k ms" by simp
  have loop: "compact_loop plan c 0 ms = compact_loop plan c 0 (take k ms) @ drop k ms" for c
  proof -
    have "compact_loop plan c (length (take k ms)) (drop k ms) = drop k ms"
      using plan_cases[OF indexed_metas, of "compaction_scale last_input (sum_list (map message_estimate ms))" ms "rc_compact ctx"]
      by (intro compact_loop_keep) (auto simp: plan_def metas_def movable_end_of_def k_def)
    then show ?thesis by (subst ms) (simp only: compact_loop_split add_0)
  qed
  have "rq_messages (build_request env secs ctx ms last_input) =
      (if plan_is_noop plan then ms else compact_loop plan (nat (prune_to_tokens plan * 4)) 0 ms)"
    by (simp add: build_request_def apply_compaction_def Let_def plan_def metas_def)
  then show "\<exists>older. rq_messages (build_request env secs ctx ms last_input) = older @ drop (length ms - keep_recent (rc_compact ctx)) ms"
    using loop ms unfolding k_def[symmetric] by metis
next
  assume "total_tokens (metas_of (compaction_scale last_input (sum_list (map message_estimate ms))) ms) \<le> trigger_of (rc_compact ctx)"
  then show "rq_messages (build_request env secs ctx ms last_input) = ms"
    by (simp add: build_request_def apply_compaction_def plan_compaction_def Let_def plan_is_noop_def)
qed

definition sample_call :: message where
  "sample_call = (plain_msg MAssistant [])\<lparr>m_tool_calls := [\<lparr> tc_id = [7], tc_name = lit ''sys'', tc_args = [] \<rparr>]\<rparr>"

definition sample_result :: message where
  "sample_result = (plain_msg MTool [1, 2])\<lparr>m_tool_call_id := Some [7]\<rparr>"

definition sample_ctx :: run_ctx where
  "sample_ctx = \<lparr> rc_session = [115], rc_run = [114], rc_user_text = [117], rc_system_prompt = None, rc_model = [109],
     rc_provider_id = [], rc_endpoint = None, rc_tools = Some [], rc_history = [], rc_soul = [], rc_skills = [],
     rc_bootstrap = [], rc_compact = cfg_default, rc_context_window = 0, rc_max_output = None, rc_default_tz = [] \<rparr>"

lemma compaction_keeps_protocol_witness:
  "proto_ok [plain_msg MUser [1], sample_call, sample_result]
   \<and> proto_ok (rq_messages (build_request still_env 0 sample_ctx [plain_msg MUser [1], sample_call, sample_result] None))"
proof
  show p: "proto_ok [plain_msg MUser [1], sample_call, sample_result]"
    by (simp add: sample_call_def sample_result_def is_dispatch_def answers_def is_result_def)
  show "proto_ok (rq_messages (build_request still_env 0 sample_ctx [plain_msg MUser [1], sample_call, sample_result] None))"
    using compaction_keeps_protocol[OF p] by blast
qed

end
