(* ===== verification/Run_Driver.thy ===== *)
theory Run_Driver
  imports Agent Run_Log Run_Request Tool_Policy
begin

text \<open>
  \<open>crates/oc-server/src/run.rs\<close>: the driver of one run.  It feeds the stream of a model call to the
  state machine of \<open>Agent\<close>, executes the effects, runs the tools, continues after a truncation and
  writes the transcript.  What the driver does not decide is the record \<open>env\<close>: what the \<open>k\<close>-th model
  call answers (a stream, an error, or a peer that leaves first), what a tool does to the world, the
  clocks, the identifiers and the JSON writer.  In a stream the environment also says which branch
  of the driver's \<open>select!\<close> is taken before each item.  Diagnostics and log lines are not modelled.
\<close>

definition LOOP_REPEAT_THRESHOLD :: nat where "LOOP_REPEAT_THRESHOLD = 3"
definition MAX_TOOL_ROUNDS :: nat where "MAX_TOOL_ROUNDS = 24"
definition MAX_TRUNCATION_CONTINUATIONS :: nat where "MAX_TRUNCATION_CONTINUATIONS = 2"

definition CONTINUATION_INSTRUCTION :: rstr where
  "CONTINUATION_INSTRUCTION = 
  [19978, 19968, 36718, 22238, 22797, 22240, 36755, 20986, 38271, 24230, 19978, 38480, 34987, 25130, 26029] @
  [65292, 27809, 26377, 35828, 23436, 12290, 35831, 32039, 25509, 30528, 25130, 26029, 22788, 32487, 32493] @
  [20889, 23436, 65292, 19981, 35201, 37325, 36848, 24050, 32463, 35828, 36807, 30340, 20869, 23481, 12289] @
  [19981, 35201, 20174, 22836, 24320, 22987, 12290, 22914, 26524, 20219, 21153, 38656, 35201, 35843, 29992] @
  [24037, 20855, 25165, 33021, 23436, 25104, 65292, 29616, 22312, 30452, 25509, 21457, 36215, 24037, 20855] @
  [35843, 29992, 12290]"

definition TOOL_TRUNCATION_INSTRUCTION :: rstr where
  "TOOL_TRUNCATION_INSTRUCTION = 
  [19978, 19968, 36718, 20320, 21457, 36215, 30340, 24037, 20855, 35843, 29992, 22240, 20026, 21442, 25968] @
  [22826, 38271, 65292, 22312, 20256, 36755, 20013, 34987, 36755, 20986, 38271, 24230, 19978, 38480, 25130] @
  [26029, 20102, 65292, 27809, 26377, 25191, 34892, 12290, 21442, 25968, 20869, 23481, 24050, 20002, 22833] @
  [65292, 20320, 30475, 19981, 21040, 23427, 12290, 19981, 35201, 21407, 26679, 37325, 20889, 19968, 36941] @
  [8212, 8212, 37027, 26679, 20250, 22312, 21516, 19968, 20010, 20301, 32622, 20877, 27425, 34987, 25130] @
  [26029, 12290, 35831, 25226, 24037, 20316, 25286, 23567, 21518, 37325, 20570, 65306, 20889, 38271, 25991] @
  [20214, 29992] @ lit '' file '' @ [30340] @ lit '' append '' @
  [20998, 22810, 27425, 36861, 21152, 65288, 20808, 20889, 31532, 19968, 37096, 20998, 65292, 20877, 36880] @
  [27573, 34917, 65289, 65292, 25913, 21160, 24050, 26377, 25991, 20214, 29992] @
  lit '' file '' @ [30340] @ lit '' edit '' @
  [21482, 21457, 35201, 25913, 30340, 29255, 27573, 65292, 19981, 35201, 25226, 22823, 27573, 20869, 23481] @
  [22622, 36827, 21333, 27425, 35843, 29992, 30340, 21442, 25968, 37324, 12290]"

section \<open>World, environment and state\<close>

text \<open>What a run shares with its tools: the event outlet, the cancellation token and the store.
  \<open>w_emitted\<close> records every event handed to the outlet, whatever the outlet did with it; no definition
  reads it, it is there to state what a run announces.\<close>

record world =
  w_sink :: run_sink
  w_emitted :: "event list"
  w_cancelled :: bool
  w_db :: db

datatype stream_item =
    PickCancelled
  | PickClosed
  | ItemDelta delta
  | ItemErr rstr
  | ItemIdle

datatype opened = OpenClosed | OpenErr rstr | OpenStream "stream_item list"

record 'z env =
  e_provider :: "nat \<Rightarrow> model_request \<Rightarrow> opened"
  e_executor :: "rstr \<Rightarrow> rstr \<Rightarrow> rstr \<Rightarrow> world \<Rightarrow> tool_status \<times> rstr \<times> world"
  e_gen_call_id :: "nat \<Rightarrow> rstr"
  e_to_json :: "tool_call_spec list \<Rightarrow> rstr option"
  e_secs :: "nat \<Rightarrow> int"
  e_db_now :: "nat \<Rightarrow> int"
  e_tz :: "'z tz_env"

record driver =
  dr_state :: run_state
  dr_acc :: rstr
  dr_reasoning :: rstr
  dr_messages :: "message list"
  dr_fps :: "tool_fingerprint list"
  dr_rounds :: nat
  dr_truncs :: nat
  dr_carried :: rstr
  dr_last_input :: "int option"
  dr_world :: world
  dr_bus :: "event list"
  dr_calls :: nat

record partial_tool =
  pt_name :: rstr
  pt_args_chars :: nat

datatype turn_result =
    TrCompleted
  | TrToolCall rstr rstr rstr
  | TrTruncated "partial_tool option"
  | TrTerminal run_outcome

definition outcome_of :: "run_state \<Rightarrow> run_outcome" where
  "outcome_of s = (case s of Terminal o' \<Rightarrow> o' | _ \<Rightarrow> Completed)"

section \<open>Effects\<close>

definition world_emit :: "event \<Rightarrow> world \<Rightarrow> bool \<times> world" where
  "world_emit ev w = (case sink_send ev (w_sink w) of
     (ok, s) \<Rightarrow> (ok, w\<lparr>w_sink := s, w_emitted := w_emitted w @ [ev], w_cancelled := w_cancelled w \<or> \<not> ok\<rparr>))"

definition emit_inline :: "event \<Rightarrow> driver \<Rightarrow> bool \<times> driver" where
  "emit_inline ev dr = (case world_emit ev (dr_world dr) of (ok, w) \<Rightarrow> (ok, dr\<lparr>dr_world := w\<rparr>))"

definition emit_error :: "run_ctx \<Rightarrow> run_error_kind \<Rightarrow> rstr \<Rightarrow> driver \<Rightarrow> driver" where
  "emit_error ctx kind msg dr = snd (emit_inline (EvLifecycle (rc_session ctx) (rc_run ctx) (PhError msg kind)) dr)"

definition cancel :: "driver \<Rightarrow> driver" where
  "cancel dr = dr\<lparr>dr_world := (dr_world dr)\<lparr>w_cancelled := True\<rparr>\<rparr>"

definition execute_effect :: "run_ctx \<Rightarrow> effect \<Rightarrow> bool \<times> driver \<Rightarrow> bool \<times> driver" where
  "execute_effect ctx eff = (\<lambda>(keep, dr). case eff of
     EmitLifecycleStart \<Rightarrow>
       (case emit_inline (EvLifecycle (rc_session ctx) (rc_run ctx) PhStart) dr of (ok, dr') \<Rightarrow> (keep \<and> ok, dr'))
   | EmitAssistant txt \<Rightarrow>
       (case emit_inline (EvAssistant (rc_session ctx) (rc_run ctx) txt) (dr\<lparr>dr_acc := dr_acc dr @ txt\<rparr>) of
          (ok, dr') \<Rightarrow> (keep \<and> ok, dr'))
   | EmitLifecycleEnd \<Rightarrow> (False, snd (emit_inline (EvLifecycle (rc_session ctx) (rc_run ctx) PhEnd) dr))
   | EmitLifecycleError msg \<Rightarrow> (False, emit_error ctx KFailed msg dr)
   | PersistAssistant _ \<Rightarrow> (keep, dr)
   | CallModel \<Rightarrow> (keep, dr)
   | ExecTool _ _ _ \<Rightarrow> (keep, dr))"

definition execute_effects :: "run_ctx \<Rightarrow> effect list \<Rightarrow> driver \<Rightarrow> bool \<times> driver" where
  "execute_effects ctx effs dr = fold (execute_effect ctx) effs (True, dr)"

text \<open>One step of the state machine with its effects.\<close>

definition feed :: "run_ctx \<Rightarrow> step_event \<Rightarrow> driver \<Rightarrow> driver" where
  "feed ctx ev dr = (case step (dr_state dr) ev (dr_acc dr) of
     (n, effs) \<Rightarrow> snd (execute_effects ctx effs (dr\<lparr>dr_state := n\<rparr>)))"

definition persist :: "'z env \<Rightarrow> run_ctx \<Rightarrow> store_role \<Rightarrow> rstr \<Rightarrow> rstr option \<Rightarrow> rstr option \<Rightarrow> driver \<Rightarrow> driver" where
  "persist env ctx role content calls call_id dr =
     (if content = [] \<and> calls = None then dr
      else case append_entry (e_db_now env (dr_calls dr))
             \<lparr> ne_session_id = rc_session ctx, ne_role = role, ne_content = content,
               ne_tokens_est = max (int (length content) div 4) 1, ne_tool_calls = calls,
               ne_tool_call_id = call_id \<rparr> (w_db (dr_world dr)) of
        Inr (seq, d) \<Rightarrow> dr\<lparr>dr_world := (dr_world dr)\<lparr>w_db := d, w_sink := sink_mark seq (w_sink (dr_world dr))\<rparr>\<rparr>
      | Inl _ \<Rightarrow> dr)"

section \<open>One model call\<close>

definition take_usage :: "run_ctx \<Rightarrow> usage \<Rightarrow> driver \<Rightarrow> driver" where
  "take_usage ctx u dr =
     (if 0 < us_input u
      then dr\<lparr>dr_last_input := Some (int (us_input u)),
              dr_bus := dr_bus dr @ [EvUsage (rc_session ctx) (us_input u) (rc_context_window ctx)]\<rparr>
      else dr)"

definition msg_idle :: rstr where "msg_idle = [31354, 38386, 30475, 38376, 29399, 35302, 21457]"
definition unnamed_tool :: rstr where "unnamed_tool = (lit ''('' @ [26410, 21629, 21517] @ lit '')'')"

definition tool_name_of :: "rstr \<Rightarrow> rstr" where
  "tool_name_of n = (if n = [] then UNKNOWN_TOOL_NAME else n)"

definition take_call :: "tool_call_delta \<Rightarrow> rstr \<times> rstr \<times> rstr \<Rightarrow> rstr \<times> rstr \<times> rstr" where
  "take_call tc = (\<lambda>(i, n, a).
     (if td_call_id tc \<noteq> [] then td_call_id tc else i,
      case opt_filter (\<lambda>n. n \<noteq> []) (td_name tc) of Some n' \<Rightarrow> n' | None \<Rightarrow> n,
      a @ td_args_chunk tc))"

text \<open>The loop over the stream.  The triple is the tool call put together so far.\<close>

fun consume :: "'z env \<Rightarrow> run_ctx \<Rightarrow> stream_item list \<Rightarrow> rstr \<times> rstr \<times> rstr \<Rightarrow> driver \<Rightarrow> turn_result \<times> driver" where
  "consume env ctx [] call dr = (TrCompleted, feed ctx ModelDone dr)"
| "consume env ctx (PickCancelled # rest) call dr =
     (let dr' = feed ctx Abort dr in (TrTerminal (outcome_of (dr_state dr')), dr'))"
| "consume env ctx (PickClosed # rest) call dr =
     (let dr' = feed ctx Abort (cancel dr) in (TrTerminal (outcome_of (dr_state dr')), dr'))"
| "consume env ctx (ItemErr e # rest) call dr =
     (let dr' = feed ctx (ModelError e) dr in (TrTerminal (outcome_of (dr_state dr')), dr'))"
| "consume env ctx (ItemIdle # rest) call dr =
     (let dr' = feed ctx Abort (cancel dr)
      in (TrTerminal (outcome_of (dr_state dr')), emit_error ctx KTimeout msg_idle dr'))"
| "consume env ctx (ItemDelta d # rest) call dr = (case d of
     DText t \<Rightarrow> consume env ctx rest call (feed ctx (ModelText t) dr)
   | DReasoning r \<Rightarrow>
       consume env ctx rest call
         (snd (emit_inline (EvReasoning (rc_session ctx) (rc_run ctx) r) (dr\<lparr>dr_reasoning := dr_reasoning dr @ r\<rparr>)))
   | DToolCall tc \<Rightarrow> consume env ctx rest (take_call tc call) dr
   | DUsage u \<Rightarrow> consume env ctx rest call (take_usage ctx u dr)
   | DDone reason \<Rightarrow>
       (case call of (cid, cname, cargs) \<Rightarrow>
         (case reason of
            FrToolUse \<Rightarrow>
              let nm = tool_name_of cname;
                  dr' = dr\<lparr>dr_state := fst (step (dr_state dr) (ModelToolCall cid nm cargs) (dr_acc dr))\<rparr>
              in (TrToolCall (if cid = [] then e_gen_call_id env (dr_calls dr) else cid) nm cargs, dr')
          | FrLength \<Rightarrow>
              (TrTruncated (if cargs = [] then None
                 else Some \<lparr> pt_name = (if cname = [] then unnamed_tool else cname), pt_args_chars = length cargs \<rparr>), dr)
          | FrStop \<Rightarrow> (TrCompleted, feed ctx ModelDone dr))))"

definition run_model_turn :: "'z env \<Rightarrow> run_ctx \<Rightarrow> driver \<Rightarrow> turn_result \<times> driver" where
  "run_model_turn env ctx dr0 =
     (let req = build_request (e_tz env) (e_secs env (dr_calls dr0)) ctx (dr_messages dr0) (dr_last_input dr0);
          dr = dr0\<lparr>dr_calls := dr_calls dr0 + 1\<rparr>
      in case e_provider env (dr_calls dr0) req of
           OpenClosed \<Rightarrow> let dr' = feed ctx Abort (cancel dr) in (TrTerminal (outcome_of (dr_state dr')), dr')
         | OpenErr e \<Rightarrow> let dr' = feed ctx (ModelError e) dr in (TrTerminal (outcome_of (dr_state dr')), dr')
         | OpenStream items \<Rightarrow> consume env ctx items ([], [], []) dr)"

section \<open>Tools\<close>

definition no_executor_pre :: rstr where "no_executor_pre = ([24037, 20855] @ lit '' '')"
definition no_executor_post :: rstr where "no_executor_post = (lit '' '' @ [19981, 21487, 29992, 65288, 26080, 24037, 20855, 25191, 34892, 22120, 65289])"

definition exec_tool :: "'z env \<Rightarrow> run_ctx \<Rightarrow> rstr \<Rightarrow> rstr \<Rightarrow> rstr \<Rightarrow> driver \<Rightarrow> rstr \<times> driver" where
  "exec_tool env ctx cid nm args dr =
     (let dr1 = snd (emit_inline (EvTool (rc_session ctx) (rc_run ctx) cid (TpStart nm args)) dr)
      in if rc_tools ctx = None then (no_executor_pre @ nm @ no_executor_post, dr1)
         else case e_executor env nm args cid (dr_world dr1) of
           (status, content, w) \<Rightarrow>
             (content, snd (emit_inline (EvTool (rc_session ctx) (rc_run ctx) cid (TpEnd status)) (dr1\<lparr>dr_world := w\<rparr>))))"

section \<open>The main loop\<close>

definition msg_loop :: rstr where "msg_loop = [26816, 27979, 21040, 24037, 20855, 35843, 29992, 25171, 36716]"
definition msg_rounds :: rstr where "msg_rounds = [36229, 36807, 26368, 22823, 24037, 20855, 36718, 25968]"
definition msg_trunc_outcome :: rstr where "msg_trunc_outcome = ([36755, 20986, 34987] @ lit '' max_tokens '' @ [25130, 26029])"
definition msg_trunc :: "nat \<Rightarrow> rstr" where
  "msg_trunc n = ([27169, 22411, 36755, 20986, 36830, 32493] @ lit '' '') @ show_nat n @ (lit '' '' @ [36718, 34987, 38271, 24230, 19978, 38480, 25130, 26029, 65292, 26410, 33021, 23436, 25104, 22238, 31572] @ [12290, 21487, 22312] @ lit '' config '' @ [35843, 22823] @ lit '' model.max_output_tokens'' @ [12290])"

text \<open>After a truncation: give up after two continuations, or ask the model to go on.\<close>

definition on_truncated :: "run_ctx \<Rightarrow> partial_tool option \<Rightarrow> driver \<Rightarrow> driver + run_outcome \<times> driver" where
  "on_truncated ctx pt dr0 =
     (let dr = dr0\<lparr>dr_truncs := dr_truncs dr0 + 1\<rparr> in
      if MAX_TRUNCATION_CONTINUATIONS < dr_truncs dr
      then Inr (Failed msg_trunc_outcome, emit_error ctx KTruncated (msg_trunc (dr_truncs dr)) dr)
      else let dr1 = (if dr_acc dr = [] then dr
                 else dr\<lparr>dr_messages := dr_messages dr @ [plain_msg MAssistant (dr_acc dr)],
                         dr_carried := dr_carried dr @ dr_acc dr\<rparr>);
               instruction = (case pt of Some _ \<Rightarrow> TOOL_TRUNCATION_INSTRUCTION | None \<Rightarrow> CONTINUATION_INSTRUCTION)
           in Inl (dr1\<lparr>dr_messages := dr_messages dr1 @ [plain_msg MUser instruction], dr_acc := []\<rparr>))"

text \<open>The first half of a tool round: the call enters the messages and the transcript.\<close>

definition dispatch_message :: "driver \<Rightarrow> tool_call_spec list \<Rightarrow> message" where
  "dispatch_message dr specs =
     \<lparr> m_role = MAssistant, m_content = dr_acc dr, m_tool_call_id = None, m_tool_calls = specs,
       m_reasoning = (if dr_reasoning dr = [] then None else Some (dr_reasoning dr)) \<rparr>"

definition record_call :: "'z env \<Rightarrow> run_ctx \<Rightarrow> rstr \<Rightarrow> rstr \<Rightarrow> rstr \<Rightarrow> driver \<Rightarrow> driver" where
  "record_call env ctx cid nm args dr0 =
     (let specs = [\<lparr> tc_id = cid, tc_name = nm, tc_args = args \<rparr>];
          dr = dr0\<lparr>dr_messages := dr_messages dr0 @ [dispatch_message dr0 specs], dr_carried := []\<rparr>;
          dr1 = persist env ctx RoleAssistant (dr_carried dr0 @ dr_acc dr0) (e_to_json env specs) None dr
      in dr1\<lparr>dr_fps := dr_fps dr1 @ [\<lparr> fp_name = nm, fp_args = args \<rparr>]\<rparr>)"

text \<open>The second half: the tool runs and its result is fed back.\<close>

definition run_tool_round :: "'z env \<Rightarrow> run_ctx \<Rightarrow> rstr \<Rightarrow> rstr \<Rightarrow> rstr \<Rightarrow> driver \<Rightarrow> driver" where
  "run_tool_round env ctx cid nm args dr =
     (case exec_tool env ctx cid nm args dr of
        (output, dr1) \<Rightarrow>
          let dr2 = persist env ctx RoleTool output None (Some cid) dr1;
              dr3 = dr2\<lparr>dr_messages := dr_messages dr2 @ [(plain_msg MTool output)\<lparr>m_tool_call_id := Some cid\<rparr>]\<rparr>;
              dr4 = feed ctx (ToolResult cid []) dr3
          in dr4\<lparr>dr_acc := []\<rparr>)"

definition on_tool_call :: "'z env \<Rightarrow> run_ctx \<Rightarrow> rstr \<Rightarrow> rstr \<Rightarrow> rstr \<Rightarrow> driver \<Rightarrow> driver + run_outcome \<times> driver" where
  "on_tool_call env ctx cid nm args dr0 =
     (let dr = record_call env ctx cid nm args dr0 in
      if detect_loop (dr_fps dr) LOOP_REPEAT_THRESHOLD
      then Inr (LoopDetected, emit_error ctx KLoopDetected msg_loop dr)
      else let dr1 = dr\<lparr>dr_rounds := dr_rounds dr + 1\<rparr> in
           if MAX_TOOL_ROUNDS < dr_rounds dr1
           then Inr (LoopDetected, emit_error ctx KLoopDetected msg_rounds dr1)
           else Inl (run_tool_round env ctx cid nm args dr1))"

definition loop_body :: "'z env \<Rightarrow> run_ctx \<Rightarrow> driver \<Rightarrow> driver + run_outcome \<times> driver" where
  "loop_body env ctx dr0 =
     (case run_model_turn env ctx (dr0\<lparr>dr_reasoning := []\<rparr>) of (turn, dr) \<Rightarrow>
       (case turn of
          TrCompleted \<Rightarrow>
            Inr (outcome_of (dr_state dr), persist env ctx RoleAssistant (dr_carried dr @ dr_acc dr) None None dr)
        | TrTerminal outcome \<Rightarrow> Inr (outcome, dr)
        | TrTruncated pt \<Rightarrow> on_truncated ctx pt dr
        | TrToolCall cid nm args \<Rightarrow> on_tool_call env ctx cid nm args dr))"

section \<open>The loop ends\<close>

lemma emit_inline_frame [simp]:
  "dr_state (snd (emit_inline ev dr)) = dr_state dr" "dr_acc (snd (emit_inline ev dr)) = dr_acc dr"
  "dr_reasoning (snd (emit_inline ev dr)) = dr_reasoning dr" "dr_messages (snd (emit_inline ev dr)) = dr_messages dr"
  "dr_fps (snd (emit_inline ev dr)) = dr_fps dr" "dr_rounds (snd (emit_inline ev dr)) = dr_rounds dr"
  "dr_truncs (snd (emit_inline ev dr)) = dr_truncs dr" "dr_carried (snd (emit_inline ev dr)) = dr_carried dr"
  "dr_last_input (snd (emit_inline ev dr)) = dr_last_input dr" "dr_bus (snd (emit_inline ev dr)) = dr_bus dr"
  "dr_calls (snd (emit_inline ev dr)) = dr_calls dr" "w_db (dr_world (snd (emit_inline ev dr))) = w_db (dr_world dr)"
  by (simp_all add: emit_inline_def world_emit_def split: prod.splits)

lemma emit_error_frame [simp]:
  "dr_state (emit_error ctx k m dr) = dr_state dr" "dr_acc (emit_error ctx k m dr) = dr_acc dr"
  "dr_messages (emit_error ctx k m dr) = dr_messages dr"
  "dr_fps (emit_error ctx k m dr) = dr_fps dr" "dr_rounds (emit_error ctx k m dr) = dr_rounds dr"
  "dr_truncs (emit_error ctx k m dr) = dr_truncs dr" "dr_carried (emit_error ctx k m dr) = dr_carried dr"
  "dr_calls (emit_error ctx k m dr) = dr_calls dr" "w_db (dr_world (emit_error ctx k m dr)) = w_db (dr_world dr)"
  by (simp_all add: emit_error_def)

text \<open>What a model call leaves alone.\<close>

definition frame_of :: "driver \<Rightarrow> message list \<times> tool_fingerprint list \<times> nat \<times> nat \<times> rstr \<times> nat \<times> db" where
  "frame_of dr = (dr_messages dr, dr_fps dr, dr_rounds dr, dr_truncs dr, dr_carried dr, dr_calls dr, w_db (dr_world dr))"

lemma frame_upd [simp]:
  "frame_of (snd (emit_inline ev dr)) = frame_of dr" "frame_of (emit_error ctx k m dr) = frame_of dr"
  "frame_of (cancel dr) = frame_of dr" "frame_of (take_usage ctx u dr) = frame_of dr"
  "frame_of (dr\<lparr>dr_state := s\<rparr>) = frame_of dr" "frame_of (dr\<lparr>dr_reasoning := r\<rparr>) = frame_of dr"
  "frame_of (dr\<lparr>dr_acc := r\<rparr>) = frame_of dr"
  by (simp_all add: frame_of_def cancel_def take_usage_def)

lemma execute_effect_frame [simp]: "frame_of (snd (execute_effect ctx eff p)) = frame_of (snd p)"
  by (cases p; cases eff) (simp_all add: execute_effect_def case_prod_beta)

lemma execute_effects_frame [simp]: "frame_of (snd (execute_effects ctx effs dr)) = frame_of dr"
proof -
  have "frame_of (snd (fold (execute_effect ctx) effs p)) = frame_of (snd p)" for p
    by (induction effs arbitrary: p) simp_all
  then show ?thesis by (simp add: execute_effects_def)
qed

lemma feed_frame [simp]: "frame_of (feed ctx ev dr) = frame_of dr"
  by (simp add: feed_def case_prod_beta)

lemma consume_frame [simp]: "frame_of (snd (consume env ctx items call dr)) = frame_of dr"
proof (induction items arbitrary: call dr)
  case (Cons it items)
  show ?case
  proof (cases it)
    case (ItemDelta d)
    then show ?thesis using Cons.IH
      by (cases d; cases call) (simp_all add: Let_def split: finish_reason.split)
  qed (simp_all add: Let_def)
qed simp

text \<open>A model call counts itself and leaves the rest of the frame alone.\<close>

lemma turn_frame:
  assumes "run_model_turn env ctx dr0 = (res, dr)"
  shows "frame_of dr = frame_of (dr0\<lparr>dr_calls := dr_calls dr0 + 1\<rparr>)"
proof -
  have "frame_of (snd (run_model_turn env ctx dr0)) = frame_of (dr0\<lparr>dr_calls := dr_calls dr0 + 1\<rparr>)"
    by (simp add: run_model_turn_def Let_def split: opened.split)
  then show ?thesis using assms by simp
qed

lemma turn_frame_fields:
  assumes "run_model_turn env ctx (dr0\<lparr>dr_reasoning := []\<rparr>) = (res, dr)"
  shows "dr_messages dr = dr_messages dr0" "dr_fps dr = dr_fps dr0" "dr_rounds dr = dr_rounds dr0"
    "dr_truncs dr = dr_truncs dr0" "dr_carried dr = dr_carried dr0" "dr_calls dr = dr_calls dr0 + 1"
    "w_db (dr_world dr) = w_db (dr_world dr0)"
  using turn_frame[OF assms] by (simp_all add: frame_of_def)

lemma persist_arith [simp]:
  "dr_rounds (persist env ctx r c tc ci dr) = dr_rounds dr" "dr_truncs (persist env ctx r c tc ci dr) = dr_truncs dr"
  "dr_calls (persist env ctx r c tc ci dr) = dr_calls dr" "dr_state (persist env ctx r c tc ci dr) = dr_state dr"
  "dr_messages (persist env ctx r c tc ci dr) = dr_messages dr" "dr_acc (persist env ctx r c tc ci dr) = dr_acc dr"
  "dr_fps (persist env ctx r c tc ci dr) = dr_fps dr" "dr_carried (persist env ctx r c tc ci dr) = dr_carried dr"
  "dr_last_input (persist env ctx r c tc ci dr) = dr_last_input dr"
  by (auto simp: persist_def split: sum.splits)

lemma exec_tool_arith [simp]:
  "dr_rounds (snd (exec_tool env ctx i n a dr)) = dr_rounds dr" "dr_truncs (snd (exec_tool env ctx i n a dr)) = dr_truncs dr"
  "dr_calls (snd (exec_tool env ctx i n a dr)) = dr_calls dr" "dr_state (snd (exec_tool env ctx i n a dr)) = dr_state dr"
  "dr_messages (snd (exec_tool env ctx i n a dr)) = dr_messages dr" "dr_acc (snd (exec_tool env ctx i n a dr)) = dr_acc dr"
  "dr_fps (snd (exec_tool env ctx i n a dr)) = dr_fps dr" "dr_carried (snd (exec_tool env ctx i n a dr)) = dr_carried dr"
  by (simp_all add: exec_tool_def Let_def case_prod_beta)

lemma record_call_arith [simp]:
  "dr_rounds (record_call env ctx i n a dr) = dr_rounds dr" "dr_truncs (record_call env ctx i n a dr) = dr_truncs dr"
  "dr_calls (record_call env ctx i n a dr) = dr_calls dr" "dr_state (record_call env ctx i n a dr) = dr_state dr"
  "dr_carried (record_call env ctx i n a dr) = []"
  by (simp_all add: record_call_def Let_def)

lemma run_tool_round_arith [simp]:
  "dr_rounds (run_tool_round env ctx i n a dr) = dr_rounds dr" "dr_truncs (run_tool_round env ctx i n a dr) = dr_truncs dr"
  "dr_calls (run_tool_round env ctx i n a dr) = dr_calls dr"
proof -
  have "frame_of (run_tool_round env ctx i n a dr) = frame_of ((persist env ctx RoleTool (fst (exec_tool env ctx i n a dr)) None (Some i)
      (snd (exec_tool env ctx i n a dr)))\<lparr>dr_messages := dr_messages dr @
         [(plain_msg MTool (fst (exec_tool env ctx i n a dr)))\<lparr>m_tool_call_id := Some i\<rparr>]\<rparr>)"
    by (simp add: run_tool_round_def Let_def case_prod_beta)
  then show "dr_rounds (run_tool_round env ctx i n a dr) = dr_rounds dr" "dr_truncs (run_tool_round env ctx i n a dr) = dr_truncs dr"
    "dr_calls (run_tool_round env ctx i n a dr) = dr_calls dr"
    by (simp_all add: frame_of_def)
qed

text \<open>One turn of the loop either ends the run or counts one more round or truncation, in bounds.\<close>

lemma loop_body_counts:
  assumes "loop_body env ctx dr = Inl dr'"
  shows "dr_calls dr' = dr_calls dr + 1
    \<and> (dr_rounds dr' = dr_rounds dr + 1 \<and> dr_truncs dr' = dr_truncs dr \<and> dr_rounds dr' \<le> MAX_TOOL_ROUNDS
       \<or> dr_rounds dr' = dr_rounds dr \<and> dr_truncs dr' = dr_truncs dr + 1 \<and> dr_truncs dr' \<le> MAX_TRUNCATION_CONTINUATIONS)"
proof -
  obtain res dr1 where t: "run_model_turn env ctx (dr\<lparr>dr_reasoning := []\<rparr>) = (res, dr1)" by fastforce
  note f = turn_frame_fields[OF t]
  show ?thesis
  proof (cases res)
    case (TrToolCall i n a)
    then have "on_tool_call env ctx i n a dr1 = Inl dr'" using assms t by (simp add: loop_body_def)
    then show ?thesis using f by (auto simp: on_tool_call_def Let_def split: if_splits)
  next
    case (TrTruncated pt)
    then have "on_truncated ctx pt dr1 = Inl dr'" using assms t by (simp add: loop_body_def)
    then show ?thesis using f by (auto simp: on_truncated_def Let_def split: if_splits)
  qed (use assms t in \<open>auto simp: loop_body_def\<close>)
qed

lemma loop_body_end_counts:
  assumes "loop_body env ctx dr = Inr (o', dr')"
  shows "dr_calls dr' = dr_calls dr + 1 \<and> dr_rounds dr' \<le> dr_rounds dr + 1 \<and> dr_truncs dr' \<le> dr_truncs dr + 1"
proof -
  obtain res dr1 where t: "run_model_turn env ctx (dr\<lparr>dr_reasoning := []\<rparr>) = (res, dr1)" by fastforce
  note f = turn_frame_fields[OF t]
  show ?thesis
    using assms t f
    by (cases res) (auto simp: loop_body_def on_tool_call_def on_truncated_def Let_def split: if_splits)
qed

function drive_loop :: "'z env \<Rightarrow> run_ctx \<Rightarrow> driver \<Rightarrow> run_outcome \<times> driver" where
  "drive_loop env ctx dr = (case loop_body env ctx dr of Inl dr' \<Rightarrow> drive_loop env ctx dr' | Inr r \<Rightarrow> r)"
  by pat_completeness auto
termination
  by (relation "measure (\<lambda>(env, ctx, dr). (MAX_TOOL_ROUNDS - dr_rounds dr) + (MAX_TRUNCATION_CONTINUATIONS - dr_truncs dr))")
    (use loop_body_counts in fastforce)+

declare drive_loop.simps [simp del]

definition drive_start :: "run_ctx \<Rightarrow> world \<Rightarrow> bool \<times> driver" where
  "drive_start ctx w =
     (let messages = (if rc_history ctx = [] then [plain_msg MUser (rc_user_text ctx)] else rc_history ctx);
          dr = \<lparr> dr_state = Idle, dr_acc = [], dr_reasoning = [], dr_messages = messages, dr_fps = [],
                 dr_rounds = 0, dr_truncs = 0, dr_carried = [], dr_last_input = None, dr_world = w,
                 dr_bus = [], dr_calls = 0 \<rparr>
      in case step (dr_state dr) Start (dr_acc dr) of
           (n, effs) \<Rightarrow> execute_effects ctx effs (dr\<lparr>dr_state := n\<rparr>))"

definition drive_inner :: "'z env \<Rightarrow> run_ctx \<Rightarrow> world \<Rightarrow> run_outcome \<times> driver" where
  "drive_inner env ctx w = (case drive_start ctx w of
     (ok, dr) \<Rightarrow> if ok then drive_loop env ctx dr else (outcome_of (dr_state dr), dr))"

text \<open>The wall-clock limit of a run drops the inner future at whatever point it has reached:
  \<open>expired\<close> is the state it left, if the limit strikes.\<close>

definition msg_run_timeout :: rstr where "msg_run_timeout = (lit ''run '' @ [36229, 26102])"

definition drive :: "'z env \<Rightarrow> run_ctx \<Rightarrow> world \<Rightarrow> driver option \<Rightarrow> run_outcome \<times> driver" where
  "drive env ctx w expired = (case expired of
     None \<Rightarrow> drive_inner env ctx w
   | Some dr \<Rightarrow> (Aborted, emit_error ctx KTimeout msg_run_timeout (cancel dr)))"

lemma drive_start_eq:
  "drive_start ctx w = emit_inline (EvLifecycle (rc_session ctx) (rc_run ctx) PhStart)
     \<lparr> dr_state = AwaitingModel, dr_acc = [], dr_reasoning = [],
       dr_messages = (if rc_history ctx = [] then [plain_msg MUser (rc_user_text ctx)] else rc_history ctx), dr_fps = [],
       dr_rounds = 0, dr_truncs = 0, dr_carried = [], dr_last_input = None, dr_world = w, dr_bus = [], dr_calls = 0 \<rparr>"
  by (simp add: drive_start_def step_def execute_effects_def execute_effect_def Let_def split: prod.splits)

section \<open>Reachable states of the loop\<close>

inductive loop_reach :: "'z env \<Rightarrow> run_ctx \<Rightarrow> world \<Rightarrow> driver \<Rightarrow> bool" for env ctx w where
  start: "drive_start ctx w = (True, dr) \<Longrightarrow> loop_reach env ctx w dr"
| turn: "loop_reach env ctx w dr \<Longrightarrow> loop_body env ctx dr = Inl dr' \<Longrightarrow> loop_reach env ctx w dr'"

text \<open>Every run ends from a reachable state, or before its first call.\<close>

lemma drive_loop_ends:
  "loop_reach env ctx w dr \<Longrightarrow> drive_loop env ctx dr = (o', dr') \<Longrightarrow>
   \<exists>last. loop_reach env ctx w last \<and> loop_body env ctx last = Inr (o', dr')"
proof (induction env ctx dr rule: drive_loop.induct)
  case (1 env ctx dr)
  show ?case
  proof (cases "loop_body env ctx dr")
    case (Inl d)
    then show ?thesis using 1 by (metis drive_loop.simps loop_reach.turn old.sum.simps(5))
  next
    case (Inr r)
    then show ?thesis using 1 by (auto simp: drive_loop.simps)
  qed
qed

lemma drive_inner_ends:
  assumes "drive_inner env ctx w = (o', dr')"
  obtains "drive_start ctx w = (False, dr')" "o' = Completed"
  | last where "loop_reach env ctx w last" "loop_body env ctx last = Inr (o', dr')"
proof -
  obtain ok dr where st: "drive_start ctx w = (ok, dr)" by fastforce
  show ?thesis
  proof (cases ok)
    case True
    then have "drive_loop env ctx dr = (o', dr')" "loop_reach env ctx w dr"
      using assms st by (simp_all add: drive_inner_def loop_reach.start)
    then show ?thesis using that(2) drive_loop_ends by blast
  next
    case False
    have "dr_state dr = AwaitingModel"
      using arg_cong[OF st[unfolded drive_start_eq], of snd] by (metis (no_types, lifting) driver.select_convs(1) emit_inline_frame(1) snd_conv)
    then show ?thesis using assms st False that(1) by (simp add: drive_inner_def outcome_of_def)
  qed
qed

lemma reach_counts:
  "loop_reach env ctx w dr \<Longrightarrow> dr_calls dr = dr_rounds dr + dr_truncs dr
     \<and> dr_rounds dr \<le> MAX_TOOL_ROUNDS \<and> dr_truncs dr \<le> MAX_TRUNCATION_CONTINUATIONS"
proof (induction rule: loop_reach.induct)
  case (start dr)
  then have "dr = snd (drive_start ctx w)" by simp
  then show ?case by (simp add: drive_start_eq)
next
  case (turn dr dr')
  then show ?case using loop_body_counts[OF turn(2)] by auto
qed

section \<open>Properties: termination\<close>

text \<open>C5. A run always ends: \<open>drive_inner\<close> is a total function, and whatever the model, the tools and
  the client do it makes at most 27 model calls, of which at most 25 ask for a tool and at most 3 are cut by the
  output limit.\<close>

theorem run_is_bounded:
  "dr_calls (snd (drive_inner env ctx w)) \<le> 27
   \<and> dr_rounds (snd (drive_inner env ctx w)) \<le> 25 \<and> dr_truncs (snd (drive_inner env ctx w)) \<le> 3"
proof -
  obtain o' dr' where d: "drive_inner env ctx w = (o', dr')" by fastforce
  from d show ?thesis
  proof (cases rule: drive_inner_ends)
    case 1
    then have "dr' = snd (drive_start ctx w)" by simp
    then show ?thesis using d by (simp add: drive_start_eq)
  next
    case (2 last)
    then show ?thesis using reach_counts[OF 2(1)] loop_body_end_counts[OF 2(2)] d
      by (auto simp: MAX_TOOL_ROUNDS_def MAX_TRUNCATION_CONTINUATIONS_def)
  qed
qed

end
