(* ===== verification/Run_Safety.thy ===== *)
theory Run_Safety
  imports Run_Driver
begin

text \<open>
  What a whole run of \<open>Run_Driver\<close> guarantees: the requests it sends obey the pairing rule, it
  announces its end, and its transcript holds the text it sent.  The events are those handed to the
  outlet of the run, whichever of the three it is.  What is asked of the tools is stated by three predicates:
  \<open>tools_quiet\<close> (they send no lifecycle event and no answer text), \<open>tools_spare\<close> (they do not write the
  transcript of the session) and \<open>tools_talk\<close> (they never answer with the empty text).
\<close>

section \<open>Steps from a live state\<close>

definition live :: "driver \<Rightarrow> bool" where
  "live dr \<longleftrightarrow> dr_state dr = AwaitingModel \<or> dr_state dr = Streaming"

lemma live_upd [simp]:
  "live (cancel dr) = live dr" "live (dr\<lparr>dr_reasoning := r\<rparr>) = live dr" "live (take_usage ctx u dr) = live dr"
  "live (snd (emit_inline ev dr)) = live dr" "live (dr\<lparr>dr_state := Streaming, dr_acc := a\<rparr>)" "live (dr\<lparr>dr_calls := k\<rparr>) = live dr"
  by (simp_all add: live_def cancel_def take_usage_def)

lemma acc_upd [simp]: "dr_acc (cancel dr) = dr_acc dr" "dr_acc (take_usage ctx u dr) = dr_acc dr"
  by (simp_all add: cancel_def take_usage_def)

lemma feed_text:
  "live dr \<Longrightarrow> feed ctx (ModelText t) dr = snd (emit_inline (EvAssistant (rc_session ctx) (rc_run ctx) t)
     (dr\<lparr>dr_state := Streaming, dr_acc := dr_acc dr @ t\<rparr>))"
  by (auto simp: live_def feed_def step_def execute_effects_def execute_effect_def case_prod_beta)

lemma feed_done:
  "live dr \<Longrightarrow> feed ctx ModelDone dr = snd (emit_inline (EvLifecycle (rc_session ctx) (rc_run ctx) PhEnd)
     (dr\<lparr>dr_state := Terminal Completed\<rparr>))"
  by (auto simp: live_def feed_def step_def execute_effects_def execute_effect_def case_prod_beta)

lemma feed_abort:
  "live dr \<Longrightarrow> feed ctx Abort dr = emit_error ctx KFailed msg_aborted (dr\<lparr>dr_state := Terminal Aborted\<rparr>)"
  by (auto simp: live_def feed_def step_def is_terminal_def execute_effects_def execute_effect_def case_prod_beta)

lemma feed_error:
  "live dr \<Longrightarrow> feed ctx (ModelError m) dr = emit_error ctx KFailed m (dr\<lparr>dr_state := Terminal (Failed m)\<rparr>)"
  by (auto simp: live_def feed_def step_def is_terminal_def execute_effects_def execute_effect_def case_prod_beta)

lemma feed_result:
  "dr_state dr = AwaitingTool \<Longrightarrow> feed ctx (ToolResult i t) dr = dr\<lparr>dr_state := AwaitingModel\<rparr>"
  by (simp add: feed_def step_def execute_effects_def execute_effect_def)

lemmas feed_eqs = feed_text feed_done feed_abort feed_error

section \<open>Events handed to the outlet\<close>

definition bc :: "driver \<Rightarrow> event list \<Rightarrow> bool" where
  "bc dr evs \<longleftrightarrow> w_emitted (dr_world dr) = evs"

lemma bc_emit: "bc dr evs \<Longrightarrow> bc (snd (emit_inline ev dr)) (evs @ [ev])"
  by (simp add: bc_def emit_inline_def world_emit_def case_prod_beta)

lemma bc_error:
  "bc dr evs \<Longrightarrow> bc (emit_error ctx k m dr) (evs @ [EvLifecycle (rc_session ctx) (rc_run ctx) (PhError m k)])"
  by (simp add: emit_error_def bc_emit)

lemma bc_upd [simp]:
  "bc (cancel dr) evs = bc dr evs" "bc (dr\<lparr>dr_state := s\<rparr>) evs = bc dr evs" "bc (dr\<lparr>dr_acc := t\<rparr>) evs = bc dr evs"
  "bc (dr\<lparr>dr_state := s, dr_acc := t\<rparr>) evs = bc dr evs"
  "bc (dr\<lparr>dr_reasoning := t\<rparr>) evs = bc dr evs" "bc (take_usage ctx u dr) evs = bc dr evs"
  "bc (dr\<lparr>dr_calls := k\<rparr>) evs = bc dr evs" "bc (dr\<lparr>dr_rounds := k\<rparr>) evs = bc dr evs"
  "bc (dr\<lparr>dr_truncs := k\<rparr>) evs = bc dr evs" "bc (dr\<lparr>dr_messages := m\<rparr>) evs = bc dr evs"
  by (simp_all add: bc_def cancel_def take_usage_def)

fun ev_text :: "event \<Rightarrow> rstr" where
  "ev_text (EvAssistant _ _ t) = t"
| "ev_text _ = []"

definition text_of :: "event list \<Rightarrow> rstr" where
  "text_of evs = concat (map ev_text evs)"

definition ends_in :: "event list \<Rightarrow> nat" where
  "ends_in evs = length (filter is_terminal_event evs)"

lemma text_of_simps [simp]: "text_of [] = []" "text_of (e # es) = ev_text e @ text_of es" "text_of (a @ b) = text_of a @ text_of b"
  by (simp_all add: text_of_def)

lemma ends_in_simps [simp]:
  "ends_in [] = 0" "ends_in (e # es) = (if is_terminal_event e then 1 else 0) + ends_in es"
  "ends_in (a @ b) = ends_in a + ends_in b"
  by (simp_all add: ends_in_def)

text \<open>Events that are no lifecycle event and carry no answer text.\<close>

fun is_quiet :: "event \<Rightarrow> bool" where
  "is_quiet (EvLifecycle _ _ _) \<longleftrightarrow> False"
| "is_quiet (EvAssistant _ _ _) \<longleftrightarrow> False"
| "is_quiet _ \<longleftrightarrow> True"

fun is_cancelled_event :: "event \<Rightarrow> bool" where
  "is_cancelled_event (EvLifecycle _ _ (PhError _ KAborted)) \<longleftrightarrow> True"
| "is_cancelled_event _ \<longleftrightarrow> False"

lemma quiet_facts: "is_quiet e \<Longrightarrow> ev_text e = [] \<and> \<not> is_terminal_event e \<and> \<not> is_cancelled_event e"
  by (cases e) auto

lemma quiet_list: "\<forall>e \<in> set es. is_quiet e \<Longrightarrow> text_of es = [] \<and> ends_in es = 0 \<and> (\<forall>e \<in> set es. \<not> is_cancelled_event e)"
  using quiet_facts by (induction es) auto

text \<open>What one model call does to the outlet, by its result.\<close>

definition turn_post :: "turn_result \<Rightarrow> driver \<Rightarrow> bool \<Rightarrow> event list \<Rightarrow> bool" where
  "turn_post res dr idle new \<longleftrightarrow> (\<forall>e \<in> set new. \<not> is_cancelled_event e) \<and> (case res of
     TrCompleted \<Rightarrow> dr_state dr = Terminal Completed \<and> ends_in new = 1
   | TrToolCall i n a \<Rightarrow> dr_state dr = AwaitingTool \<and> ends_in new = 0
   | TrTruncated pt \<Rightarrow> live dr \<and> ends_in new = 0
   | TrTerminal out \<Rightarrow> dr_state dr = Terminal out \<and> (out = Aborted \<or> (\<exists>m. out = Failed m))
        \<and> (ends_in new = 1 \<or> ends_in new = 2 \<and> idle))"

lemma turn_post_Cons: "\<not> is_terminal_event e \<Longrightarrow> \<not> is_cancelled_event e \<Longrightarrow> turn_post res dr i (e # new) = turn_post res dr i new"
  by (cases res) (simp_all add: turn_post_def)

lemma turn_post_idle: "turn_post res dr i new \<Longrightarrow> i \<longrightarrow> j \<Longrightarrow> turn_post res dr j new"
  by (auto simp: turn_post_def split: turn_result.splits)

lemma consume_done_bc:
  assumes "bc dr evs" "live dr" "consume env ctx (ItemDelta (DDone reason) # items) call dr = (res, dr')"
  shows "\<exists>new. bc dr' (evs @ new) \<and> dr_acc dr' = dr_acc dr @ text_of new \<and> turn_post res dr' False new"
proof -
  obtain cid cname cargs where call: "call = (cid, cname, cargs)" by (cases call) auto
  show ?thesis
  proof (cases reason)
    case FrStop
    then have "res = TrCompleted" "dr' = feed ctx ModelDone dr" using assms(3) call by auto
    then show ?thesis using assms(1,2)
      by (intro exI[of _ "[EvLifecycle (rc_session ctx) (rc_run ctx) PhEnd]"])
        (simp add: feed_done turn_post_def bc_emit)
  next
    case FrToolUse
    then obtain i n a where "res = TrToolCall i n a" "dr' = dr\<lparr>dr_state := AwaitingTool\<rparr>"
      using assms(2,3) call by (auto simp: Let_def step_def live_def)
    then show ?thesis using assms(1) by (intro exI[of _ "[]"]) (simp add: turn_post_def)
  next
    case FrLength
    then obtain p where "res = TrTruncated p" "dr' = dr" using assms(3) call by auto
    then show ?thesis using assms(1,2) by (intro exI[of _ "[]"]) (simp add: turn_post_def)
  qed
qed

lemma consume_bc:
  assumes "bc dr evs" "live dr" "consume env ctx items call dr = (res, dr')"
  shows "\<exists>new. bc dr' (evs @ new) \<and> dr_acc dr' = dr_acc dr @ text_of new \<and> turn_post res dr' (ItemIdle \<in> set items) new"
  using assms
proof (induction items arbitrary: dr call evs)
  case Nil
  then show ?case
    by (intro exI[of _ "[EvLifecycle (rc_session ctx) (rc_run ctx) PhEnd]"])
      (auto simp: feed_done turn_post_def intro: bc_emit)
next
  case (Cons it items)
  note IH = Cons.IH and bc = Cons.prems(1) and lv = Cons.prems(2)
  have err: "\<exists>new. bc (emit_error ctx KFailed m (d\<lparr>dr_state := Terminal out\<rparr>)) (evs @ new)
      \<and> dr_acc (emit_error ctx KFailed m (d\<lparr>dr_state := Terminal out\<rparr>)) = dr_acc dr @ text_of new
      \<and> turn_post (TrTerminal (outcome_of (dr_state (emit_error ctx KFailed m (d\<lparr>dr_state := Terminal out\<rparr>)))))
           (emit_error ctx KFailed m (d\<lparr>dr_state := Terminal out\<rparr>)) i new"
    if "bc d evs" "dr_acc d = dr_acc dr" "out = Aborted \<or> (\<exists>m. out = Failed m)" for d m out i
    using that by (intro exI[of _ "[EvLifecycle (rc_session ctx) (rc_run ctx) (PhError m KFailed)]"])
      (auto simp: turn_post_def outcome_of_def intro: bc_error)
  have can: "bc (cancel dr) evs" "dr_acc (cancel dr) = dr_acc dr" using bc by simp_all
  show ?case
  proof (cases it)
    case PickCancelled
    then show ?thesis using err[OF bc refl, of Aborted] Cons.prems by (auto simp: Let_def feed_abort)
  next
    case PickClosed
    then show ?thesis using err[OF can, of Aborted] Cons.prems by (auto simp: Let_def feed_abort)
  next
    case (ItemErr e)
    then show ?thesis using err[OF bc refl, of "Failed e"] Cons.prems by (auto simp: Let_def feed_error)
  next
    case ItemIdle
    let ?d = "emit_error ctx KFailed msg_aborted ((cancel dr)\<lparr>dr_state := Terminal Aborted\<rparr>)"
    let ?new = "[EvLifecycle (rc_session ctx) (rc_run ctx) (PhError msg_aborted KFailed),
                 EvLifecycle (rc_session ctx) (rc_run ctx) (PhError msg_idle KTimeout)]"
    have "bc (emit_error ctx KTimeout msg_idle ?d) (evs @ ?new)"
      using bc_error[OF bc_error[of "(cancel dr)\<lparr>dr_state := Terminal Aborted\<rparr>" evs ctx KFailed msg_aborted], of ctx KTimeout msg_idle] bc
      by simp
    moreover have "res = TrTerminal Aborted" "dr' = emit_error ctx KTimeout msg_idle ?d"
      using ItemIdle Cons.prems by (auto simp: Let_def feed_abort outcome_of_def)
    ultimately show ?thesis
      using ItemIdle can(2) by (intro exI[of _ ?new]) (simp add: turn_post_def)
  next
    case (ItemDelta d)
    have step: "\<exists>new. bc dr' (evs @ new) \<and> dr_acc dr' = dr_acc dr @ text_of new \<and> turn_post res dr' (ItemIdle \<in> set (it # items)) new"
      if c: "consume env ctx items call' d1 = (res, dr')" "bc d1 (evs @ es)" "live d1" "dr_acc d1 = dr_acc dr @ text_of es"
        "\<forall>e \<in> set es. \<not> is_terminal_event e \<and> \<not> is_cancelled_event e" for d1 call' es
    proof -
      obtain new where n: "bc dr' ((evs @ es) @ new)" "dr_acc dr' = dr_acc d1 @ text_of new" "turn_post res dr' (ItemIdle \<in> set items) new"
        using IH[OF c(2,3,1)] by blast
      have "turn_post res dr' (ItemIdle \<in> set items) (es @ new)"
        using c(5) n(3) by (induction es) (simp_all add: turn_post_Cons)
      then show ?thesis using n(1,2) c(4) turn_post_idle by (intro exI[of _ "es @ new"]) fastforce
    qed
    show ?thesis
    proof (cases d)
      case (DText t)
      let ?d = "dr\<lparr>dr_state := Streaming, dr_acc := dr_acc dr @ t\<rparr>" and ?e = "EvAssistant (rc_session ctx) (rc_run ctx) t"
      have c: "consume env ctx items call (snd (emit_inline ?e ?d)) = (res, dr')"
        using ItemDelta DText lv Cons.prems(3) by (simp add: feed_text)
      show ?thesis by (rule step[OF c, of "[?e]"]) (use bc in \<open>simp_all add: bc_emit\<close>)
    next
      case (DReasoning r)
      let ?d = "dr\<lparr>dr_reasoning := dr_reasoning dr @ r\<rparr>" and ?e = "EvReasoning (rc_session ctx) (rc_run ctx) r"
      have c: "consume env ctx items call (snd (emit_inline ?e ?d)) = (res, dr')"
        using ItemDelta DReasoning Cons.prems(3) by simp
      show ?thesis by (rule step[OF c, of "[?e]"]) (use bc lv in \<open>simp_all add: bc_emit\<close>)
    next
      case (DToolCall tc)
      then have c: "consume env ctx items (take_call tc call) dr = (res, dr')" using ItemDelta Cons.prems by simp
      show ?thesis by (rule step[OF c, of "[]"]) (use bc lv in simp_all)
    next
      case (DUsage u)
      then have c: "consume env ctx items call (take_usage ctx u dr) = (res, dr')" using ItemDelta Cons.prems by simp
      show ?thesis by (rule step[OF c, of "[]"]) (use bc lv in simp_all)
    next
      case (DDone reason)
      have "consume env ctx (ItemDelta (DDone reason) # items) call dr = (res, dr')"
        using ItemDelta DDone Cons.prems(3) by simp
      from consume_done_bc[OF bc lv this] show ?thesis using turn_post_idle[of res dr' False] by blast
    qed
  qed
qed

definition idle_free :: "'z env \<Rightarrow> bool" where
  "idle_free env \<longleftrightarrow> (\<forall>k req items. e_provider env k req = OpenStream items \<longrightarrow> ItemIdle \<notin> set items)"

lemma turn_bc:
  assumes "bc dr evs" "live dr" "run_model_turn env ctx dr = (res, dr')"
  shows "\<exists>new. bc dr' (evs @ new) \<and> dr_acc dr' = dr_acc dr @ text_of new \<and> turn_post res dr' (\<not> idle_free env) new"
proof -
  let ?d = "dr\<lparr>dr_calls := dr_calls dr + 1\<rparr>"
  have d: "bc ?d evs" "live ?d" "dr_acc ?d = dr_acc dr" using assms by simp_all
  define op where "op = e_provider env (dr_calls dr)
    (build_request (e_tz env) (e_secs env (dr_calls dr)) ctx (dr_messages dr) (dr_last_input dr))"
  show ?thesis
  proof (cases op)
    case OpenClosed
    then have r: "consume env ctx [PickClosed] ([], [], []) ?d = (res, dr')"
      using assms(3) op_def by (auto simp: run_model_turn_def Let_def)
    show ?thesis using consume_bc[OF d(1,2) r] turn_post_idle by fastforce
  next
    case (OpenErr e)
    then have r: "consume env ctx [ItemErr e] ([], [], []) ?d = (res, dr')"
      using assms(3) op_def by (auto simp: run_model_turn_def Let_def)
    show ?thesis using consume_bc[OF d(1,2) r] turn_post_idle by fastforce
  next
    case (OpenStream items)
    then have r: "consume env ctx items ([], [], []) ?d = (res, dr')"
      using assms(3) op_def by (simp add: run_model_turn_def Let_def)
    have "ItemIdle \<in> set items \<longrightarrow> \<not> idle_free env" using OpenStream by (auto simp: idle_free_def op_def)
    then show ?thesis using consume_bc[OF d(1,2) r] turn_post_idle by fastforce
  qed
qed

section \<open>The transcript of a run\<close>

lemma dr_emit_db: "w_db (dr_world (snd (emit_inline ev (dr\<lparr>dr_world := w\<rparr>)))) = w_db w"
  by simp

definition store_ok :: "rstr \<Rightarrow> db \<Rightarrow> bool" where
  "store_ok sid d \<longleftrightarrow> transcript_inv d \<and> find_session sid d \<noteq> None"

text \<open>What is asked of the tools.\<close>

definition tools_quiet :: "'z env \<Rightarrow> bool" where
  "tools_quiet env \<longleftrightarrow> (\<forall>nm args cid w. \<exists>more.
      w_emitted (snd (snd (e_executor env nm args cid w))) = w_emitted w @ more \<and> (\<forall>e \<in> set more. is_quiet e))"

definition tools_spare :: "'z env \<Rightarrow> rstr \<Rightarrow> bool" where
  "tools_spare env sid \<longleftrightarrow> (\<forall>nm args cid w. store_ok sid (w_db w) \<longrightarrow>
      store_ok sid (w_db (snd (snd (e_executor env nm args cid w))))
      \<and> visible sid (w_db (snd (snd (e_executor env nm args cid w)))) = visible sid (w_db w))"

definition tools_talk :: "'z env \<Rightarrow> bool" where
  "tools_talk env \<longleftrightarrow> (\<forall>nm args cid w. fst (snd (e_executor env nm args cid w)) \<noteq> [])"

text \<open>The JSON of tool calls can be written and read back.\<close>

definition json_ok :: "'z env \<Rightarrow> (rstr \<Rightarrow> tool_call_spec list option) \<Rightarrow> bool" where
  "json_ok env parse_specs \<longleftrightarrow> (\<forall>specs. \<exists>s. e_to_json env specs = Some s \<and> parse_specs s = Some specs)"

text \<open>The entries of tool rounds: a call, and its result unless the tool answered with nothing.  Without
  such answers every call is followed by its result.\<close>

definition call_of :: "(rstr \<Rightarrow> tool_call_spec list option) \<Rightarrow> entry \<Rightarrow> tool_call_spec \<Rightarrow> bool" where
  "call_of parse_specs a c \<longleftrightarrow> en_role a = RoleAssistant \<and> Option.bind (en_tool_calls a) parse_specs = Some [c]"

definition result_of :: "entry \<Rightarrow> tool_call_spec \<Rightarrow> bool" where
  "result_of r c \<longleftrightarrow> en_role r = RoleTool \<and> en_tool_call_id r = Some (tc_id c)"

inductive call_rounds :: "(rstr \<Rightarrow> tool_call_spec list option) \<Rightarrow> entry list \<Rightarrow> bool" for parse_specs where
  rounds_nil: "call_rounds parse_specs []"
| round_alone: "call_rounds parse_specs es \<Longrightarrow> call_of parse_specs a c \<Longrightarrow> call_rounds parse_specs (es @ [a])"
| round_done: "call_rounds parse_specs es \<Longrightarrow> call_of parse_specs a c \<Longrightarrow> result_of r c
    \<Longrightarrow> call_rounds parse_specs (es @ [a, r])"

inductive call_pairs :: "(rstr \<Rightarrow> tool_call_spec list option) \<Rightarrow> entry list \<Rightarrow> bool" for parse_specs where
  pairs_nil: "call_pairs parse_specs []"
| pair: "call_pairs parse_specs es \<Longrightarrow> call_of parse_specs a c \<Longrightarrow> result_of r c
    \<Longrightarrow> call_pairs parse_specs (es @ [a, r])"

definition answer_text :: "entry list \<Rightarrow> rstr" where
  "answer_text es = concat (map en_content (filter (\<lambda>e. en_role e = RoleAssistant) es))"

lemma answer_text_simps [simp]:
  "answer_text [] = []"
  "answer_text (e # es) = (if en_role e = RoleAssistant then en_content e else []) @ answer_text es"
  "answer_text (xs @ ys) = answer_text xs @ answer_text ys"
  by (simp_all add: answer_text_def)

lemma call_pairs_proto_ok: "call_pairs parse_specs es \<Longrightarrow> proto_ok (map (entry_to_message parse_specs) es)"
proof (induction rule: call_pairs.induct)
  case (pair es a c r)
  then have "proto_ok [entry_to_message parse_specs a, entry_to_message parse_specs r]"
    by (auto simp: call_of_def result_of_def entry_to_message_def is_dispatch_def answers_def is_result_def Let_def)
  then show ?case using proto_ok_append[OF pair.IH] by simp
qed simp

lemma append_entry_total:
  assumes "store_ok sid d"
  shows "\<exists>s d'. append_entry now \<lparr> ne_session_id = sid, ne_role = r, ne_content = c, ne_tokens_est = t,
     ne_tool_calls = tcs, ne_tool_call_id = ci \<rparr> d = Inr (s, d') \<and> store_ok sid d'
     \<and> (\<exists>x. en_role x = r \<and> en_content x = c \<and> en_tool_calls x = tcs \<and> en_tool_call_id x = ci
          \<and> visible sid d' = visible sid d @ [x])"
proof -
  let ?n = "\<lparr> ne_session_id = sid, ne_role = r, ne_content = c, ne_tokens_est = t, ne_tool_calls = tcs, ne_tool_call_id = ci \<rparr>"
  have "er_seq e \<le> max_seq sid d" if "e \<in> set (entries d)" "er_session_id e = sid" for e
    using seq_range[of d e sid] assms that by (simp add: store_ok_def session_entries_def)
  then have "\<not> (\<exists>e \<in> set (entries d). er_session_id e = sid \<and> er_seq e = max_seq sid d + 1)" by fastforce
  then obtain d' where d': "insert_entry now sid (max_seq sid d + 1) (role_str r) c t tcs ci d = Inr d'"
    using assms by (auto simp: insert_entry_def store_ok_def Let_def)
  then have a: "append_entry now ?n d = Inr (max_seq sid d + 1, d')" by (simp add: append_entry_def Let_def)
  have inv: "transcript_inv d" using assms by (simp add: store_ok_def)
  have "find_session sid d' = find_session sid d" using insert_entry_Inr(2)[OF d'] by (simp add: find_session_def)
  then have "store_ok sid d'" using assms visible_append(1)[OF inv a] by (simp add: store_ok_def)
  moreover have "\<exists>x. en_role x = r \<and> en_content x = c \<and> en_tool_calls x = tcs \<and> en_tool_call_id x = ci
          \<and> visible sid d' = visible sid d @ [x]"
    using visible_append(3)[OF inv a] by auto
  ultimately show ?thesis using a by blast
qed

lemma persist_skip: "persist env ctx r [] None ci dr = dr"
  by (simp add: persist_def)

lemma persist_appends:
  assumes "store_ok (rc_session ctx) (w_db (dr_world dr))" "\<not> (c = [] \<and> tcs = None)"
  shows "store_ok (rc_session ctx) (w_db (dr_world (persist env ctx r c tcs ci dr)))
    \<and> (\<exists>x. en_role x = r \<and> en_content x = c \<and> en_tool_calls x = tcs \<and> en_tool_call_id x = ci
        \<and> visible (rc_session ctx) (w_db (dr_world (persist env ctx r c tcs ci dr))) = visible (rc_session ctx) (w_db (dr_world dr)) @ [x])"
proof -
  obtain s d' where d: "append_entry (e_db_now env (dr_calls dr)) \<lparr> ne_session_id = rc_session ctx, ne_role = r, ne_content = c,
      ne_tokens_est = max (int (length c) div 4) 1, ne_tool_calls = tcs, ne_tool_call_id = ci \<rparr> (w_db (dr_world dr)) = Inr (s, d')"
    "store_ok (rc_session ctx) d'"
    "\<exists>x. en_role x = r \<and> en_content x = c \<and> en_tool_calls x = tcs \<and> en_tool_call_id x = ci
        \<and> visible (rc_session ctx) d' = visible (rc_session ctx) (w_db (dr_world dr)) @ [x]"
    using append_entry_total[OF assms(1)] by blast
  have "persist env ctx r c tcs ci dr = dr\<lparr>dr_world := (dr_world dr)\<lparr>w_db := d', w_sink := sink_mark s (w_sink (dr_world dr))\<rparr>\<rparr>"
    using assms(2) d(1) by (auto simp: persist_def)
  then show ?thesis using d(2,3) by simp
qed

text \<open>Writing the transcript sends nothing.\<close>

lemma persist_bc [simp]: "bc (persist env ctx r c tcs ci dr) evs = bc dr evs"
  by (auto simp: persist_def bc_def split: sum.splits)

lemma record_call_bc [simp]: "bc (record_call env ctx i n a dr) evs = bc dr evs"
proof -
  have "bc (d\<lparr>dr_fps := f\<rparr>) evs = bc d evs" "bc (d\<lparr>dr_messages := m, dr_carried := []\<rparr>) evs = bc d evs" for d f m
    by (simp_all add: bc_def)
  then show ?thesis by (simp add: record_call_def Let_def)
qed

lemma record_call_spec:
  fixes i n a :: rstr
  assumes "json_ok env parse_specs" "store_ok (rc_session ctx) (w_db (dr_world dr))"
  defines "dr' \<equiv> record_call env ctx i n a dr"
  shows "store_ok (rc_session ctx) (w_db (dr_world dr'))
    \<and> (\<exists>x. call_of parse_specs x \<lparr> tc_id = i, tc_name = n, tc_args = a \<rparr> \<and> en_content x = dr_carried dr @ dr_acc dr
        \<and> visible (rc_session ctx) (w_db (dr_world dr')) = visible (rc_session ctx) (w_db (dr_world dr)) @ [x])"
proof -
  let ?specs = "[\<lparr> tc_id = i, tc_name = n, tc_args = a \<rparr>]"
  obtain s where s: "e_to_json env ?specs = Some s" "parse_specs s = Some ?specs" using assms(1) unfolding json_ok_def by blast
  let ?d = "dr\<lparr>dr_messages := dr_messages dr @ [dispatch_message dr ?specs], dr_carried := []\<rparr>"
  have d: "store_ok (rc_session ctx) (w_db (dr_world ?d))" using assms(2) by simp
  have eq: "dr_world dr' = dr_world (persist env ctx RoleAssistant (dr_carried dr @ dr_acc dr) (Some s) None ?d)"
    unfolding dr'_def record_call_def Let_def s(1) by simp
  then show ?thesis
    using persist_appends[OF d, of "dr_carried dr @ dr_acc dr" "Some s" env RoleAssistant None] s(2)
    unfolding eq call_of_def by fastforce
qed

text \<open>A tool call: its events, and what it leaves in the store.\<close>

lemma exec_tool_ev:
  assumes "tools_quiet env" "bc dr evs" "exec_tool env ctx i n a dr = (out, dr')"
  shows "\<exists>more. bc dr' (evs @ more) \<and> (\<forall>e \<in> set more. is_quiet e)"
proof -
  let ?e1 = "EvTool (rc_session ctx) (rc_run ctx) i (TpStart n a)"
  let ?d1 = "snd (emit_inline ?e1 dr)"
  have b1: "bc ?d1 (evs @ [?e1])" using bc_emit[OF assms(2)] .
  show ?thesis
  proof (cases "rc_tools ctx = None")
    case True
    then show ?thesis using b1 assms(3) by (intro exI[of _ "[?e1]"]) (auto simp: exec_tool_def Let_def)
  next
    case False
    obtain st o' w where ex: "e_executor env n a i (dr_world ?d1) = (st, o', w)" by (cases "e_executor env n a i (dr_world ?d1)") auto
    let ?e2 = "EvTool (rc_session ctx) (rc_run ctx) i (TpEnd st)"
    have eq: "dr' = snd (emit_inline ?e2 (?d1\<lparr>dr_world := w\<rparr>))"
      using False ex assms(3) by (auto simp: exec_tool_def Let_def)
    obtain more where m: "w_emitted w = w_emitted (dr_world ?d1) @ more" "\<forall>e \<in> set more. is_quiet e"
      using assms(1) ex unfolding tools_quiet_def by (metis snd_conv)
    have "bc (?d1\<lparr>dr_world := w\<rparr>) ((evs @ [?e1]) @ more)" using m(1) b1 by (simp add: bc_def)
    then have "bc dr' (evs @ ([?e1] @ more @ [?e2]))" using bc_emit[of _ _ ?e2] eq by fastforce
    moreover have "\<forall>e \<in> set ([?e1] @ more @ [?e2]). is_quiet e" using m(2) by auto
    ultimately show ?thesis by blast
  qed
qed

lemma exec_tool_db:
  assumes "tools_spare env (rc_session ctx)" "store_ok (rc_session ctx) (w_db (dr_world dr))"
    "exec_tool env ctx i n a dr = (out, dr')"
  shows "store_ok (rc_session ctx) (w_db (dr_world dr'))"
    "visible (rc_session ctx) (w_db (dr_world dr')) = visible (rc_session ctx) (w_db (dr_world dr))"
    "tools_talk env \<Longrightarrow> out \<noteq> []"
proof -
  let ?d1 = "snd (emit_inline (EvTool (rc_session ctx) (rc_run ctx) i (TpStart n a)) dr)"
  obtain st o' w where ex: "e_executor env n a i (dr_world ?d1) = (st, o', w)" by (cases "e_executor env n a i (dr_world ?d1)") auto
  have w: "store_ok (rc_session ctx) (w_db w)" "visible (rc_session ctx) (w_db w) = visible (rc_session ctx) (w_db (dr_world dr))"
    using assms(1,2) spec[OF spec[OF spec[OF spec[OF assms(1)[unfolded tools_spare_def], of n], of a], of i], of "dr_world ?d1"] ex
    by simp_all
  have "w_db (dr_world dr') = w_db w \<or> w_db (dr_world dr') = w_db (dr_world dr)"
    using assms(3) ex by (auto simp: exec_tool_def Let_def split: if_splits)
  then show "store_ok (rc_session ctx) (w_db (dr_world dr'))"
    "visible (rc_session ctx) (w_db (dr_world dr')) = visible (rc_session ctx) (w_db (dr_world dr))"
    using w assms(2) by auto
  have "tools_talk env \<Longrightarrow> o' \<noteq> []" using ex unfolding tools_talk_def by (metis fst_conv snd_conv)
  then show "tools_talk env \<Longrightarrow> out \<noteq> []"
    using assms(3) ex by (auto simp: exec_tool_def Let_def no_executor_pre_def split: if_splits)
qed

lemma run_tool_round_ev:
  fixes i n a :: rstr and ctx :: run_ctx
  assumes "tools_quiet env" "bc dr evs" "dr_state dr = AwaitingTool"
  defines "dr' \<equiv> run_tool_round env ctx i n a dr"
  shows "live dr' \<and> dr_acc dr' = [] \<and> dr_carried dr' = dr_carried dr
    \<and> (\<exists>more. bc dr' (evs @ more) \<and> (\<forall>e \<in> set more. is_quiet e))"
proof -
  obtain out d1 where ex: "exec_tool env ctx i n a dr = (out, d1)" by fastforce
  have st: "dr_state d1 = AwaitingTool" "dr_carried d1 = dr_carried dr"
    using exec_tool_arith(4,8)[of env ctx i n a dr] ex assms(3) by simp_all
  let ?d2 = "persist env ctx RoleTool out None (Some i) d1"
  have "dr' = ?d2\<lparr>dr_messages := dr_messages ?d2 @ [(plain_msg MTool out)\<lparr>m_tool_call_id := Some i\<rparr>],
      dr_state := AwaitingModel, dr_acc := []\<rparr>"
    using ex st(1) by (simp add: dr'_def run_tool_round_def Let_def feed_result)
  moreover have "bc (d\<lparr>dr_messages := m, dr_state := AwaitingModel, dr_acc := []\<rparr>) e = bc d e" for d m e
    by (simp add: bc_def)
  ultimately show ?thesis using exec_tool_ev[OF assms(1,2) ex] st(2) by (simp add: live_def)
qed

lemma run_tool_round_db:
  fixes i n a :: rstr
  assumes "tools_spare env (rc_session ctx)" "store_ok (rc_session ctx) (w_db (dr_world dr))"
  defines "dr' \<equiv> run_tool_round env ctx i n a dr"
  shows "store_ok (rc_session ctx) (w_db (dr_world dr'))
    \<and> (\<not> tools_talk env \<and> visible (rc_session ctx) (w_db (dr_world dr')) = visible (rc_session ctx) (w_db (dr_world dr))
       \<or> (\<exists>x. en_role x = RoleTool \<and> en_tool_call_id x = Some i
        \<and> visible (rc_session ctx) (w_db (dr_world dr')) = visible (rc_session ctx) (w_db (dr_world dr)) @ [x]))"
proof -
  obtain out d1 where ex: "exec_tool env ctx i n a dr = (out, d1)" by fastforce
  note e = exec_tool_db[OF assms(1,2) ex]
  let ?d2 = "persist env ctx RoleTool out None (Some i) d1"
  have fw: "frame_of x = frame_of y \<Longrightarrow> w_db (dr_world x) = w_db (dr_world y)" for x y by (simp add: frame_of_def)
  have w: "w_db (dr_world dr') = w_db (dr_world ?d2)"
    using ex fw[OF feed_frame, of ctx "ToolResult i []"] by (simp add: dr'_def run_tool_round_def Let_def)
  show ?thesis
  proof (cases "out = []")
    case True
    then show ?thesis using w e persist_skip[of env ctx RoleTool "Some i" d1] by auto
  next
    case False
    then show ?thesis using w e persist_appends[OF e(1), of out None env RoleTool "Some i"] by auto
  qed
qed

text \<open>The state between two model calls, with the events \<open>new\<close> and the entries \<open>es\<close> since the start.\<close>

definition run_ev :: "event list \<Rightarrow> driver \<Rightarrow> event list \<Rightarrow> bool" where
  "run_ev evs0 dr new \<longleftrightarrow> live dr \<and> dr_acc dr = [] \<and> bc dr (evs0 @ new)
     \<and> ends_in new = 0 \<and> (\<forall>e \<in> set new. \<not> is_cancelled_event e)"

definition run_tr :: "(rstr \<Rightarrow> tool_call_spec list option) \<Rightarrow> bool \<Rightarrow> run_ctx \<Rightarrow> entry list \<Rightarrow> driver
    \<Rightarrow> event list \<Rightarrow> entry list \<Rightarrow> bool" where
  "run_tr parse_specs talk ctx old dr new es \<longleftrightarrow> store_ok (rc_session ctx) (w_db (dr_world dr))
     \<and> visible (rc_session ctx) (w_db (dr_world dr)) = old @ es
     \<and> call_rounds parse_specs es \<and> (talk \<longrightarrow> call_pairs parse_specs es) \<and> text_of new = answer_text es @ dr_carried dr"

lemma truncated_step:
  assumes "on_truncated ctx pt dr = Inl dr'" "live dr" "bc dr evs"
  shows "live dr'" "dr_acc dr' = []" "bc dr' evs" "w_db (dr_world dr') = w_db (dr_world dr)"
    "dr_carried dr' = dr_carried dr @ dr_acc dr"
  using assms by (auto simp: on_truncated_def Let_def live_def bc_def split: if_splits)

lemma loop_body_turn:
  assumes "run_ev evs0 dr new"
  obtains res dr1 m where "run_model_turn env ctx (dr\<lparr>dr_reasoning := []\<rparr>) = (res, dr1)"
    "bc dr1 (evs0 @ new @ m)" "dr_acc dr1 = text_of m" "turn_post res dr1 (\<not> idle_free env) m"
    "dr_carried dr1 = dr_carried dr" "w_db (dr_world dr1) = w_db (dr_world dr)"
proof -
  obtain res dr1 where t: "run_model_turn env ctx (dr\<lparr>dr_reasoning := []\<rparr>) = (res, dr1)" by fastforce
  have "bc (dr\<lparr>dr_reasoning := []\<rparr>) (evs0 @ new)" "live (dr\<lparr>dr_reasoning := []\<rparr>)" using assms by (simp_all add: run_ev_def)
  from turn_bc[OF this t] obtain m where "bc dr1 ((evs0 @ new) @ m)" "dr_acc dr1 = dr_acc (dr\<lparr>dr_reasoning := []\<rparr>) @ text_of m"
    "turn_post res dr1 (\<not> idle_free env) m" by blast
  moreover have "dr_acc dr = []" using assms by (simp add: run_ev_def)
  ultimately show ?thesis using that[OF t] turn_frame_fields(5,7)[OF t] by simp
qed

text \<open>A round that goes on: the call is recorded, the tool runs.\<close>

lemma tool_round_step:
  fixes i n a :: rstr
  assumes ev: "bc dr1 (evs0 @ new @ m)" "dr_state dr1 = AwaitingTool" and quiet: "tools_quiet env"
    and b: "on_tool_call env ctx i n a dr1 = Inl dr'"
  shows "\<exists>more. live dr' \<and> dr_acc dr' = [] \<and> bc dr' (evs0 @ new @ m @ more) \<and> (\<forall>e \<in> set more. is_quiet e)
    \<and> (tools_spare env (rc_session ctx) \<and> json_ok env parse_specs \<and> run_tr parse_specs (tools_talk env) ctx old dr1 new es
         \<and> dr_acc dr1 = text_of m \<longrightarrow> (\<exists>es'. run_tr parse_specs (tools_talk env) ctx old dr' (new @ m @ more) es'))"
proof -
  let ?c = "record_call env ctx i n a dr1" and ?call = "\<lparr> tc_id = i, tc_name = n, tc_args = a \<rparr>"
  let ?d = "?c\<lparr>dr_rounds := dr_rounds ?c + 1\<rparr>"
  have dr': "dr' = run_tool_round env ctx i n a ?d" using b by (simp add: on_tool_call_def Let_def split: if_splits)
  have d: "bc ?d (evs0 @ new @ m)" "dr_state ?d = AwaitingTool" using ev by simp_all
  obtain more where y: "live dr'" "dr_acc dr' = []" "dr_carried dr' = []" "bc dr' ((evs0 @ new @ m) @ more)"
    "\<forall>e \<in> set more. is_quiet e"
    using run_tool_round_ev[OF quiet d, of ctx i n a] unfolding dr' by auto
  have "\<exists>es'. run_tr parse_specs (tools_talk env) ctx old dr' (new @ m @ more) es'"
    if ok: "tools_spare env (rc_session ctx)" "json_ok env parse_specs"
      and tr: "run_tr parse_specs (tools_talk env) ctx old dr1 new es" and acc: "dr_acc dr1 = text_of m"
  proof -
    have db: "store_ok (rc_session ctx) (w_db (dr_world dr1))" using tr by (simp add: run_tr_def)
    obtain x where x: "store_ok (rc_session ctx) (w_db (dr_world ?d))" "call_of parse_specs x ?call"
      "en_content x = dr_carried dr1 @ dr_acc dr1" "visible (rc_session ctx) (w_db (dr_world ?d)) = (old @ es) @ [x]"
      using record_call_spec[OF ok(2) db, of i n a] tr by (auto simp: run_tr_def)
    have role: "en_role x = RoleAssistant" using x(2) by (simp add: call_of_def)
    have said: "text_of (new @ m @ more) = answer_text (es @ [x])"
      using tr x(3) role acc quiet_list[OF y(5)] by (simp add: run_tr_def)
    note db' = run_tool_round_db[OF ok(1) x(1), of i n a, folded dr']
    show ?thesis
    proof (cases "\<exists>r. en_role r = RoleTool \<and> en_tool_call_id r = Some i
        \<and> visible (rc_session ctx) (w_db (dr_world dr')) = visible (rc_session ctx) (w_db (dr_world ?d)) @ [r]")
      case True
      then obtain r where r: "result_of r ?call" "visible (rc_session ctx) (w_db (dr_world dr')) = (old @ es) @ [x, r]"
        using x(4) by (auto simp: result_of_def)
      have "call_rounds parse_specs (es @ [x, r])" "tools_talk env \<longrightarrow> call_pairs parse_specs (es @ [x, r])"
        using tr x(2) r(1) by (auto simp: run_tr_def intro: round_done pair)
      then have "run_tr parse_specs (tools_talk env) ctx old dr' (new @ m @ more) (es @ [x, r])"
        using db' r said y(3) by (auto simp: run_tr_def result_of_def)
      then show ?thesis by blast
    next
      case False
      then have "\<not> tools_talk env" "visible (rc_session ctx) (w_db (dr_world dr')) = (old @ es) @ [x]"
        using db' x(4) by auto
      then have "run_tr parse_specs (tools_talk env) ctx old dr' (new @ m @ more) (es @ [x])"
        using db' said y(3) tr x(2) by (auto simp: run_tr_def intro: round_alone)
      then show ?thesis by blast
    qed
  qed
  then show ?thesis using y by auto
qed

lemma run_step:
  assumes ev: "run_ev evs0 dr new" and quiet: "tools_quiet env" and body: "loop_body env ctx dr = Inl dr'"
  shows "\<exists>new'. run_ev evs0 dr' new'
    \<and> (tools_spare env (rc_session ctx) \<and> json_ok env parse_specs \<and> (\<exists>es. run_tr parse_specs (tools_talk env) ctx old dr new es)
        \<longrightarrow> (\<exists>es'. run_tr parse_specs (tools_talk env) ctx old dr' new' es'))"
proof -
  obtain res dr1 m where t: "run_model_turn env ctx (dr\<lparr>dr_reasoning := []\<rparr>) = (res, dr1)"
    "bc dr1 (evs0 @ new @ m)" "dr_acc dr1 = text_of m" "turn_post res dr1 (\<not> idle_free env) m"
    "dr_carried dr1 = dr_carried dr" "w_db (dr_world dr1) = w_db (dr_world dr)"
    using loop_body_turn[OF ev] by blast
  have tr1: "run_tr parse_specs (tools_talk env) ctx old dr1 new es \<longleftrightarrow> run_tr parse_specs (tools_talk env) ctx old dr new es" for es
    using t(5,6) by (simp add: run_tr_def)
  show ?thesis
  proof (cases res)
    case (TrTruncated pt)
    then have b: "on_truncated ctx pt dr1 = Inl dr'" using body t(1) by (simp add: loop_body_def)
    have m: "live dr1" "ends_in m = 0" "\<forall>e \<in> set m. \<not> is_cancelled_event e" using t(4) TrTruncated by (simp_all add: turn_post_def)
    have "run_ev evs0 dr' (new @ m)"
      using truncated_step[OF b m(1) t(2)] ev m(2,3) by (auto simp: run_ev_def)
    moreover have "run_tr parse_specs (tools_talk env) ctx old dr' (new @ m) es" if "run_tr parse_specs (tools_talk env) ctx old dr1 new es" for es
      using that truncated_step[OF b m(1) t(2)] t(3) by (simp add: run_tr_def)
    ultimately show ?thesis using tr1 by blast
  next
    case (TrToolCall i n a)
    then have b: "on_tool_call env ctx i n a dr1 = Inl dr'" using body t(1) by (simp add: loop_body_def)
    have m: "dr_state dr1 = AwaitingTool" "ends_in m = 0" "\<forall>e \<in> set m. \<not> is_cancelled_event e"
      using t(4) TrToolCall by (simp_all add: turn_post_def)
    define es0 where "es0 = (SOME es. run_tr parse_specs (tools_talk env) ctx old dr1 new es)"
    have es0: "run_tr parse_specs (tools_talk env) ctx old dr1 new es0" if "\<exists>es. run_tr parse_specs (tools_talk env) ctx old dr new es"
      using that tr1 someI_ex[of "\<lambda>es. run_tr parse_specs (tools_talk env) ctx old dr1 new es"] by (simp add: es0_def)
    obtain more where y: "live dr'" "dr_acc dr' = []" "bc dr' (evs0 @ new @ m @ more)" "\<forall>e \<in> set more. is_quiet e"
      "tools_spare env (rc_session ctx) \<and> json_ok env parse_specs \<and> run_tr parse_specs (tools_talk env) ctx old dr1 new es0
         \<and> dr_acc dr1 = text_of m \<longrightarrow> (\<exists>es'. run_tr parse_specs (tools_talk env) ctx old dr' (new @ m @ more) es')"
      using tool_round_step[OF t(2) m(1) quiet b, of parse_specs old es0] by blast
    have "run_ev evs0 dr' (new @ m @ more)"
      using y(1-3) ev m quiet_list[OF y(4)] by (auto simp: run_ev_def)
    then show ?thesis using y(5) es0 t(3) by blast
  qed (use body t(1) in \<open>auto simp: loop_body_def\<close>)
qed

text \<open>How a run ends: what its last model call adds.\<close>

definition ev_post :: "bool \<Rightarrow> event list \<Rightarrow> bool" where
  "ev_post idle new \<longleftrightarrow> (ends_in new = 1 \<or> ends_in new = 2 \<and> idle) \<and> (\<forall>e \<in> set new. \<not> is_cancelled_event e)"

text \<open>What a run may leave in the transcript: tool rounds, then at most one entry that is no call.\<close>

definition answer_entry :: "entry \<Rightarrow> bool" where
  "answer_entry x \<longleftrightarrow> en_role x = RoleAssistant \<and> en_tool_calls x = None"

definition rounds_then_answer :: "(rstr \<Rightarrow> tool_call_spec list option) \<Rightarrow> entry list \<Rightarrow> bool" where
  "rounds_then_answer parse_specs es \<longleftrightarrow> call_rounds parse_specs es
     \<or> (\<exists>rs x. es = rs @ [x] \<and> call_rounds parse_specs rs \<and> answer_entry x)"

definition tr_post :: "(rstr \<Rightarrow> tool_call_spec list option) \<Rightarrow> bool \<Rightarrow> run_outcome \<Rightarrow> event list \<Rightarrow> entry list \<Rightarrow> bool" where
  "tr_post parse_specs talk out new es \<longleftrightarrow>
     (out = Completed \<or> out = LoopDetected \<longrightarrow> answer_text es = text_of new)
   \<and> (out = Completed \<longrightarrow> rounds_then_answer parse_specs es \<and> (talk \<longrightarrow> proto_ok (map (entry_to_message parse_specs) es)))
   \<and> (out \<noteq> Completed \<longrightarrow> call_rounds parse_specs es)
   \<and> (out = Aborted \<or> (\<exists>m. out = Failed m) \<longrightarrow> talk \<longrightarrow> call_pairs parse_specs es)"

lemma end_completed:
  assumes "run_tr parse_specs talk ctx old dr1 new es" "dr_acc dr1 = text_of m"
  shows "\<exists>es'. visible (rc_session ctx) (w_db (dr_world (persist env ctx RoleAssistant (dr_carried dr1 @ dr_acc dr1) None None dr1))) = old @ es'
     \<and> tr_post parse_specs talk Completed (new @ m) es'"
proof (cases "dr_carried dr1 @ dr_acc dr1 = []")
  case True
  then show ?thesis using assms call_pairs_proto_ok
    by (intro exI[of _ es]) (simp add: run_tr_def persist_skip tr_post_def rounds_then_answer_def)
next
  case False
  let ?full = "dr_carried dr1 @ dr_acc dr1"
  obtain x where x: "en_role x = RoleAssistant" "en_content x = ?full" "en_tool_calls x = None"
    "visible (rc_session ctx) (w_db (dr_world (persist env ctx RoleAssistant ?full None None dr1))) = old @ es @ [x]"
    using persist_appends[of ctx dr1 ?full None env RoleAssistant None] False assms(1) by (auto simp: run_tr_def)
  have "entry_to_message parse_specs x = plain_msg MAssistant ?full" using x by (simp add: entry_to_message_def Let_def plain_msg_def)
  then have "talk \<longrightarrow> proto_ok (map (entry_to_message parse_specs) (es @ [x]))"
    using assms(1) proto_ok_append[OF call_pairs_proto_ok] by (simp add: run_tr_def)
  moreover have "rounds_then_answer parse_specs (es @ [x])"
    using assms(1) x by (auto simp: rounds_then_answer_def answer_entry_def run_tr_def)
  ultimately show ?thesis using x assms by (intro exI[of _ "es @ [x]"]) (simp add: run_tr_def tr_post_def)
qed

lemma end_loop:
  fixes i n a :: rstr
  assumes "run_tr parse_specs talk ctx old dr1 new es" "dr_acc dr1 = text_of m" "json_ok env parse_specs"
  shows "\<exists>es'. visible (rc_session ctx) (w_db (dr_world (record_call env ctx i n a dr1))) = old @ es'
     \<and> tr_post parse_specs talk LoopDetected (new @ m) es'"
proof -
  obtain x where x: "call_of parse_specs x \<lparr> tc_id = i, tc_name = n, tc_args = a \<rparr>" "en_content x = dr_carried dr1 @ dr_acc dr1"
    "visible (rc_session ctx) (w_db (dr_world (record_call env ctx i n a dr1))) = old @ es @ [x]"
    using record_call_spec[OF assms(3), of ctx dr1 i n a] assms(1) by (auto simp: run_tr_def)
  then show ?thesis using assms(1,2)
    by (intro exI[of _ "es @ [x]"]) (auto simp: tr_post_def run_tr_def call_of_def intro: round_alone)
qed

lemma run_end:
  assumes ev: "run_ev evs0 dr new" and body: "loop_body env ctx dr = Inr (out, dr')"
  shows "\<exists>new'. bc dr' (evs0 @ new') \<and> ev_post (\<not> idle_free env) new'
     \<and> (json_ok env parse_specs \<and> (\<exists>es. run_tr parse_specs talk ctx old dr new es)
        \<longrightarrow> (\<exists>es'. visible (rc_session ctx) (w_db (dr_world dr')) = old @ es' \<and> tr_post parse_specs talk out new' es'))"
proof -
  obtain res dr1 m where t: "run_model_turn env ctx (dr\<lparr>dr_reasoning := []\<rparr>) = (res, dr1)"
    "bc dr1 (evs0 @ new @ m)" "dr_acc dr1 = text_of m" "turn_post res dr1 (\<not> idle_free env) m"
    "dr_carried dr1 = dr_carried dr" "w_db (dr_world dr1) = w_db (dr_world dr)"
    using loop_body_turn[OF ev] by blast
  have tr1: "run_tr parse_specs talk ctx old dr1 new es \<longleftrightarrow> run_tr parse_specs talk ctx old dr new es" for es
    using t(5,6) by (simp add: run_tr_def)
  have i: "ends_in new = 0" "\<forall>e \<in> set new. \<not> is_cancelled_event e" using ev by (simp_all add: run_ev_def)
  show ?thesis
  proof (cases res)
    case TrCompleted
    then have st: "dr_state dr1 = Terminal Completed" "ends_in m = 1" "\<forall>e \<in> set m. \<not> is_cancelled_event e"
      using t(4) by (simp_all add: turn_post_def)
    have eq: "out = Completed" "dr' = persist env ctx RoleAssistant (dr_carried dr1 @ dr_acc dr1) None None dr1"
      using body t(1) TrCompleted st(1) by (auto simp: loop_body_def outcome_of_def)
    have "bc dr' (evs0 @ new @ m)" "ev_post (\<not> idle_free env) (new @ m)"
      using eq(2) t(2) i st by (auto simp: ev_post_def)
    then show ?thesis using end_completed[OF _ t(3)] tr1 eq by blast
  next
    case (TrTerminal o')
    then have "out = o'" "dr' = dr1" using body t(1) by (auto simp: loop_body_def)
    moreover have "ev_post (\<not> idle_free env) (new @ m)" "o' = Aborted \<or> (\<exists>x. o' = Failed x)"
      using TrTerminal t(4) i by (auto simp: ev_post_def turn_post_def)
    moreover have "tr_post parse_specs talk o' (new @ m) es" if "run_tr parse_specs talk ctx old dr new es" "o' = Aborted \<or> (\<exists>x. o' = Failed x)" for es
      using that by (auto simp: run_tr_def tr_post_def)
    ultimately show ?thesis using t(2,6) by (intro exI[of _ "new @ m"]) (auto simp: run_tr_def)
  next
    case (TrTruncated pt)
    then have b: "on_truncated ctx pt dr1 = Inr (out, dr')" using body t(1) by (simp add: loop_body_def)
    let ?k = "dr_truncs dr1 + 1"
    let ?e = "EvLifecycle (rc_session ctx) (rc_run ctx) (PhError (msg_trunc ?k) KTruncated)"
    have eq: "out = Failed msg_trunc_outcome" "dr' = emit_error ctx KTruncated (msg_trunc ?k) (dr1\<lparr>dr_truncs := ?k\<rparr>)"
      using b by (auto simp: on_truncated_def Let_def split: if_splits)
    have "bc dr' ((evs0 @ new @ m) @ [?e])" unfolding eq(2) by (rule bc_error) (use t(2) in simp)
    moreover have "w_db (dr_world dr') = w_db (dr_world dr)" unfolding eq(2) using t(6) by simp
    moreover have "ev_post (\<not> idle_free env) (new @ m @ [?e])"
      using TrTruncated t(4) i by (auto simp: ev_post_def turn_post_def)
    moreover have "tr_post parse_specs talk out (new @ m @ [?e]) es" if "run_tr parse_specs talk ctx old dr new es" for es
      using that eq(1) by (simp add: run_tr_def tr_post_def)
    ultimately show ?thesis by (intro exI[of _ "new @ m @ [?e]"]) (auto simp: run_tr_def)
  next
    case (TrToolCall i' n a)
    then have b: "on_tool_call env ctx i' n a dr1 = Inr (out, dr')" using body t(1) by (simp add: loop_body_def)
    have m: "ends_in m = 0" "\<forall>e \<in> set m. \<not> is_cancelled_event e" using t(4) TrToolCall by (simp_all add: turn_post_def)
    let ?c = "record_call env ctx i' n a dr1"
    obtain d msg where d: "dr' = emit_error ctx KLoopDetected msg d" "bc d (evs0 @ new @ m)" "w_db (dr_world d) = w_db (dr_world ?c)"
      "out = LoopDetected"
      using b t(2) by (auto simp: on_tool_call_def Let_def split: if_splits)
    let ?e = "EvLifecycle (rc_session ctx) (rc_run ctx) (PhError msg KLoopDetected)"
    have "bc dr' ((evs0 @ new @ m) @ [?e])" unfolding d(1) by (rule bc_error[OF d(2)])
    moreover have "w_db (dr_world dr') = w_db (dr_world ?c)" unfolding d(1) using d(3) by simp
    moreover have "ev_post (\<not> idle_free env) (new @ m @ [?e])" using m i by (auto simp: ev_post_def)
    moreover have "tr_post parse_specs talk LoopDetected (new @ m @ [?e]) es = tr_post parse_specs talk LoopDetected (new @ m) es" for es
      by (simp add: tr_post_def)
    ultimately show ?thesis using end_loop[OF _ t(3), of parse_specs talk ctx old new _ env i' n a] tr1 d(4)
      by (intro exI[of _ "new @ m @ [?e]"]) (auto simp: append_assoc)
  qed
qed

text \<open>The start of a run, and its end from there.\<close>

lemma start_inv:
  assumes "drive_start ctx w = (ok, dr)"
  shows "ok \<longleftrightarrow> is_detached (w_sink w) \<or> \<not> sink_gone (w_sink w)"
    "run_ev (w_emitted w) dr [EvLifecycle (rc_session ctx) (rc_run ctx) PhStart]"
    "store_ok (rc_session ctx) (w_db w) \<Longrightarrow>
      run_tr parse_specs talk ctx (visible (rc_session ctx) (w_db w)) dr [EvLifecycle (rc_session ctx) (rc_run ctx) PhStart] []"
proof -
  let ?e = "EvLifecycle (rc_session ctx) (rc_run ctx) PhStart"
  have d: "dr = snd (drive_start ctx w)" "ok = fst (drive_start ctx w)" using assms by simp_all
  show "ok \<longleftrightarrow> is_detached (w_sink w) \<or> \<not> sink_gone (w_sink w)"
    unfolding d(2) drive_start_eq sink_send_ok[symmetric, where ev = ?e] by (simp add: emit_inline_def world_emit_def case_prod_beta)
  have "bc dr (w_emitted w @ [?e])" unfolding d drive_start_eq by (rule bc_emit) (simp add: bc_def)
  moreover have "live dr" "dr_acc dr = []" "dr_carried dr = []" "w_db (dr_world dr) = w_db w"
    unfolding d drive_start_eq by (simp_all add: live_def)
  ultimately show "run_ev (w_emitted w) dr [?e]"
    "store_ok (rc_session ctx) (w_db w) \<Longrightarrow> run_tr parse_specs talk ctx (visible (rc_session ctx) (w_db w)) dr [?e] []"
    by (simp_all add: run_ev_def run_tr_def rounds_nil pairs_nil)
qed

lemma reach_inv:
  assumes "loop_reach env ctx w dr" "tools_quiet env"
  shows "\<exists>new. run_ev (w_emitted w) dr new
    \<and> (store_ok (rc_session ctx) (w_db w) \<and> tools_spare env (rc_session ctx) \<and> json_ok env parse_specs
       \<longrightarrow> (\<exists>es. run_tr parse_specs (tools_talk env) ctx (visible (rc_session ctx) (w_db w)) dr new es))"
  using assms
proof (induction rule: loop_reach.induct)
  case (start dr)
  then show ?case using start_inv(2,3)[OF start(1)] by blast
next
  case (turn dr dr')
  then obtain new where "run_ev (w_emitted w) dr new"
    "store_ok (rc_session ctx) (w_db w) \<and> tools_spare env (rc_session ctx) \<and> json_ok env parse_specs
       \<longrightarrow> (\<exists>es. run_tr parse_specs (tools_talk env) ctx (visible (rc_session ctx) (w_db w)) dr new es)" by blast
  then show ?case using run_step[OF _ turn(4,2)] by meson
qed

lemma run_result:
  assumes "tools_quiet env" "drive_inner env ctx w = (out, dr)"
  shows "\<exists>new. bc dr (w_emitted w @ new)
     \<and> (if is_detached (w_sink w) \<or> \<not> sink_gone (w_sink w) then ev_post (\<not> idle_free env) new
        else out = Completed \<and> new = [EvLifecycle (rc_session ctx) (rc_run ctx) PhStart])
     \<and> (store_ok (rc_session ctx) (w_db w) \<and> tools_spare env (rc_session ctx) \<and> json_ok env parse_specs
        \<longrightarrow> (\<exists>es. visible (rc_session ctx) (w_db (dr_world dr)) = visible (rc_session ctx) (w_db w) @ es
             \<and> tr_post parse_specs (tools_talk env) out new es))"
  using assms(2)
proof (cases rule: drive_inner_ends)
  case 1
  let ?new = "[EvLifecycle (rc_session ctx) (rc_run ctx) PhStart]"
  have "tr_post parse_specs (tools_talk env) Completed ?new []"
    by (simp add: tr_post_def rounds_then_answer_def rounds_nil)
  then show ?thesis using 1 start_inv[OF 1(1)]
    by (intro exI[of _ ?new]) (auto simp: run_ev_def run_tr_def)
next
  case (2 last)
  have "\<exists>ok d. drive_start ctx w = (ok, d) \<and> ok"
    using 2(1) by (induction rule: loop_reach.induct) auto
  then have on: "is_detached (w_sink w) \<or> \<not> sink_gone (w_sink w)" using start_inv(1) by blast
  obtain new where "run_ev (w_emitted w) last new"
    "store_ok (rc_session ctx) (w_db w) \<and> tools_spare env (rc_session ctx) \<and> json_ok env parse_specs
       \<longrightarrow> (\<exists>es. run_tr parse_specs (tools_talk env) ctx (visible (rc_session ctx) (w_db w)) last new es)"
    using reach_inv[OF 2(1) assms(1), of parse_specs] by blast
  then show ?thesis
    using run_end[OF _ 2(2), of "w_emitted w" new parse_specs "tools_talk env" "visible (rc_session ctx) (w_db w)"] on by auto
qed

text \<open>The messages of a run stay paired.\<close>

lemma reach_messages:
  "loop_reach env ctx w dr \<Longrightarrow> proto_ok (rc_history ctx) \<Longrightarrow> proto_ok (dr_messages dr)"
proof (induction rule: loop_reach.induct)
  case (start dr)
  then have "dr = snd (drive_start ctx w)" by simp
  then show ?case using start(2) by (simp add: drive_start_eq)
next
  case (turn dr dr')
  obtain res dr1 where t: "run_model_turn env ctx (dr\<lparr>dr_reasoning := []\<rparr>) = (res, dr1)" by fastforce
  have ok: "proto_ok (dr_messages dr1)" using turn turn_frame_fields(1)[OF t] by simp
  show ?case
  proof (cases res)
    case (TrTruncated pt)
    then have "on_truncated ctx pt dr1 = Inl dr'" using turn(2) t by (simp add: loop_body_def)
    then show ?thesis using ok proto_ok_append[OF ok] by (auto simp: on_truncated_def Let_def split: if_splits)
  next
    case (TrToolCall i n a)
    then have b: "on_tool_call env ctx i n a dr1 = Inl dr'" using turn(2) t by (simp add: loop_body_def)
    let ?c = "record_call env ctx i n a dr1" and ?specs = "[\<lparr> tc_id = i, tc_name = n, tc_args = a \<rparr>]"
    let ?d = "?c\<lparr>dr_rounds := dr_rounds ?c + 1\<rparr>"
    have dr': "dr' = run_tool_round env ctx i n a ?d" using b by (simp add: on_tool_call_def Let_def split: if_splits)
    obtain out d1 where ex: "exec_tool env ctx i n a ?d = (out, d1)" by fastforce
    have "dr_messages d1 = dr_messages ?d" using exec_tool_arith(5)[of env ctx i n a ?d] unfolding ex snd_conv .
    then have m1: "dr_messages d1 = dr_messages dr1 @ [dispatch_message dr1 ?specs]"
      by (simp add: record_call_def Let_def)
    let ?r = "(plain_msg MTool out)\<lparr>m_tool_call_id := Some i\<rparr>"
    have fm: "frame_of a = frame_of b \<Longrightarrow> dr_messages a = dr_messages b" for a b by (simp add: frame_of_def)
    have "dr_messages dr' = dr_messages d1 @ [?r]"
      unfolding dr' using ex fm[OF feed_frame, of ctx "ToolResult i []"] by (simp add: run_tool_round_def Let_def)
    moreover have "proto_ok [dispatch_message dr1 ?specs, ?r]"
      by (simp add: dispatch_message_def is_dispatch_def answers_def is_result_def)
    ultimately show ?thesis using proto_ok_append[OF ok] m1 by simp
  qed (use turn(2) t in \<open>auto simp: loop_body_def\<close>)
qed

section \<open>Properties\<close>

text \<open>C2. Every request of a run obeys the pairing rule of the provider, from the replayed history through tool
  rounds, continuations after truncation and compaction: at each reachable state of the loop the
  messages of the next request pair every tool call with its result.\<close>

theorem requests_obey_pairing:
  assumes "rc_history ctx = load_history parse_specs max_entries token_budget (rc_session ctx) d"
    "loop_reach env ctx w dr"
  shows "proto_ok (rq_messages (build_request (e_tz env) secs ctx (dr_messages dr) (dr_last_input dr)))"
proof -
  have "proto_ok (rc_history ctx)" unfolding assms(1) by (rule load_history_proto_ok)
  from reach_messages[OF assms(2) this] show ?thesis by (simp add: build_request_def apply_compaction_proto_ok)
qed

text \<open>C6. Unless the client is gone before it starts, a run that ends by itself hands its outlet exactly one
  terminal event (the end or an error), two at most when the idle watchdog struck, whatever the model, the tools and the client do; the outlet may be any of
  the three, the tools only must not send lifecycle events of their own.  A run whose client is already gone stops
  after its start event.  A run stopped by its wall-clock limit, in whatever state \<open>dr\<close>, announces the timeout as its last event.\<close>

theorem run_announces_end:
  assumes "tools_quiet env"
  shows "(\<exists>new. w_emitted (dr_world (snd (drive env ctx w None))) = w_emitted w @ new
      \<and> (if is_detached (w_sink w) \<or> \<not> sink_gone (w_sink w)
         then ends_in new = 1 \<or> ends_in new = 2 \<and> \<not> idle_free env
         else new = [EvLifecycle (rc_session ctx) (rc_run ctx) PhStart]))
    \<and> w_emitted (dr_world (snd (drive env ctx w (Some dr)))) =
        w_emitted (dr_world dr) @ [EvLifecycle (rc_session ctx) (rc_run ctx) (PhError msg_run_timeout KTimeout)]"
proof
  obtain new where n: "w_emitted (dr_world (snd (drive_inner env ctx w))) = w_emitted w @ new"
    "if is_detached (w_sink w) \<or> \<not> sink_gone (w_sink w) then ev_post (\<not> idle_free env) new
        else new = [EvLifecycle (rc_session ctx) (rc_run ctx) PhStart]"
    using run_result[OF assms, of ctx w "fst (drive_inner env ctx w)" "snd (drive_inner env ctx w)" "\<lambda>_. None"]
    by (fastforce simp: bc_def split: if_splits)
  then show "\<exists>new. w_emitted (dr_world (snd (drive env ctx w None))) = w_emitted w @ new
      \<and> (if is_detached (w_sink w) \<or> \<not> sink_gone (w_sink w)
         then ends_in new = 1 \<or> ends_in new = 2 \<and> \<not> idle_free env
         else new = [EvLifecycle (rc_session ctx) (rc_run ctx) PhStart])"
    by (intro exI[of _ new]) (auto simp: drive_def ev_post_def split: if_splits)
  show "w_emitted (dr_world (snd (drive env ctx w (Some dr)))) =
        w_emitted (dr_world dr) @ [EvLifecycle (rc_session ctx) (rc_run ctx) (PhError msg_run_timeout KTimeout)]"
    using bc_error[of "cancel dr" "w_emitted (dr_world dr)" ctx KTimeout msg_run_timeout]
    by (simp add: drive_def bc_def cancel_def)
qed


text \<open>Whatever ends a run, no event tells the client that it was cancelled: an abort is announced
  with the kind \<open>failed\<close>.\<close>

theorem abort_announced_as_failure:
  assumes "tools_quiet env" "\<not> sink_gone (w_sink w)"
  shows "\<exists>new. w_emitted (dr_world (snd (drive_inner env ctx w))) = w_emitted w @ new
    \<and> (\<forall>s r m. EvLifecycle s r (PhError m KAborted) \<notin> set new)"
proof -
  obtain new where n: "bc (snd (drive_inner env ctx w)) (w_emitted w @ new)" "\<forall>e \<in> set new. \<not> is_cancelled_event e"
    using run_result[OF assms(1), of ctx w "fst (drive_inner env ctx w)" "snd (drive_inner env ctx w)" "\<lambda>_. None"] assms(2)
    by (auto simp: ev_post_def)
  have "EvLifecycle s r (PhError m KAborted) \<notin> set new" for s r m
    using n(2) is_cancelled_event.simps(1)[of s r m] by blast
  then show ?thesis using n(1) by (auto simp: bc_def)
qed

section \<open>A concrete run\<close>

text \<open>A writer and a reader of tool calls, with lengths in place of the JSON syntax.\<close>

definition put_str :: "rstr \<Rightarrow> rstr" where
  "put_str s = length s # s"

fun get_str :: "rstr \<Rightarrow> (rstr \<times> rstr) option" where
  "get_str [] = None"
| "get_str (n # xs) = (if n \<le> length xs then Some (take n xs, drop n xs) else None)"

definition put_specs :: "tool_call_spec list \<Rightarrow> rstr" where
  "put_specs specs = length specs # concat (map (\<lambda>c. put_str (tc_id c) @ put_str (tc_name c) @ put_str (tc_args c)) specs)"

fun get_specs_n :: "nat \<Rightarrow> rstr \<Rightarrow> tool_call_spec list option" where
  "get_specs_n 0 xs = Some []"
| "get_specs_n (Suc k) xs = Option.bind (get_str xs) (\<lambda>(i, xs1). Option.bind (get_str xs1) (\<lambda>(n, xs2).
     Option.bind (get_str xs2) (\<lambda>(a, xs3). map_option (\<lambda>r. \<lparr> tc_id = i, tc_name = n, tc_args = a \<rparr> # r) (get_specs_n k xs3))))"

fun get_specs :: "rstr \<Rightarrow> tool_call_spec list option" where
  "get_specs [] = None"
| "get_specs (k # xs) = get_specs_n k xs"

lemma get_put_str [simp]: "get_str (put_str s @ t) = Some (s, t)"
  by (simp add: put_str_def)

lemma get_put_specs: "get_specs (put_specs specs) = Some specs"
proof -
  have "get_specs_n (length specs) (concat (map (\<lambda>c. put_str (tc_id c) @ put_str (tc_name c) @ put_str (tc_args c)) specs)) = Some specs"
    by (induction specs) simp_all
  then show ?thesis by (simp add: put_specs_def)
qed

definition sample_env :: "rstr \<Rightarrow> unit env" where
  "sample_env output =
     \<lparr> e_provider = (\<lambda>k req. if k = 0
          then OpenStream [ItemDelta (DText [104]),
                 ItemDelta (DToolCall \<lparr> td_call_id = [7], td_name = Some (lit ''sys''), td_args_chunk = [] \<rparr>), ItemDelta (DDone FrToolUse)]
          else OpenStream [ItemDelta (DText [105]), ItemDelta (DDone FrStop)]),
       e_executor = (\<lambda>nm args cid w. (TsOk, output, w)), e_gen_call_id = (\<lambda>k. [k]),
       e_to_json = (\<lambda>specs. Some (put_specs specs)), e_secs = (\<lambda>k. 0), e_db_now = (\<lambda>k. 0), e_tz = still_env \<rparr>"

definition sample_world :: world where
  "sample_world = \<lparr> w_sink = SinkConn \<lparr> cn_sent = [], cn_room = None \<rparr>, w_emitted = [], w_cancelled = False, w_db = one_session \<rparr>"

lemma sample_ok:
  "w_emitted sample_world = []" "\<not> sink_gone (w_sink sample_world)" "store_ok (rc_session sample_ctx) (w_db sample_world)"
  "json_ok (sample_env output) get_specs" "idle_free (sample_env output)" "tools_quiet (sample_env output)"
  "tools_spare (sample_env output) (rc_session sample_ctx)" "output \<noteq> [] \<Longrightarrow> tools_talk (sample_env output)"
proof -
  show "store_ok (rc_session sample_ctx) (w_db sample_world)"
    using one_session_inv by (simp add: store_ok_def sample_world_def sample_ctx_def) (simp add: one_session_def find_session_def)
  show "idle_free (sample_env output)" by (auto simp: idle_free_def sample_env_def split: if_splits)
  show "tools_quiet (sample_env output)" "tools_spare (sample_env output) (rc_session sample_ctx)"
    "output \<noteq> [] \<Longrightarrow> tools_talk (sample_env output)"
    by (simp_all add: tools_quiet_def tools_spare_def tools_talk_def sample_env_def)
qed (simp_all add: sample_world_def sink_gone_def json_ok_def sample_env_def get_put_specs)

lemma run_announces_end_witness:
  "\<exists>new. w_emitted (dr_world (snd (drive (sample_env [111]) sample_ctx sample_world None))) = new \<and> ends_in new = 1"
  using run_announces_end[OF sample_ok(6)[of "[111]"], of sample_ctx sample_world] sample_ok(1,2) sample_ok(5)[of "[111]"] by auto

lemma abort_announced_as_failure_witness:
  "\<exists>new. w_emitted (dr_world (snd (drive_inner (sample_env [111]) sample_ctx sample_world))) = new
     \<and> EvLifecycle [115] [114] (PhError [] KAborted) \<notin> set new"
  using abort_announced_as_failure[OF sample_ok(6)[of "[111]"] sample_ok(2), of sample_ctx] sample_ok(1) by auto

text \<open>The two model calls of the sample run.\<close>

lemma sample_first_call:
  assumes "live dr" "dr_calls dr = 0" "dr_fps dr = []" "dr_rounds dr = 0" "dr_state dr = AwaitingModel" "rc_tools ctx \<noteq> None"
  shows "\<exists>dr' c r. loop_body (sample_env out) ctx dr = Inl dr' \<and> live dr' \<and> dr_calls dr' = 1
     \<and> dr_messages dr' = dr_messages dr @ [c, r] \<and> is_dispatch c \<and> map tc_id (m_tool_calls c) = [[7]]
     \<and> m_role r = MTool \<and> m_tool_call_id r = Some [7] \<and> m_content r = out"
proof -
  let ?env = "sample_env out"
  obtain d1 where t: "run_model_turn ?env ctx (dr\<lparr>dr_reasoning := []\<rparr>) = (TrToolCall [7] (lit ''sys'') [], d1)"
    "dr_state d1 = AwaitingTool"
    using assms(1,2) by (simp add: run_model_turn_def sample_env_def Let_def feed_text step_def take_call_def tool_name_of_def)
  have f: "dr_fps d1 = []" "dr_rounds d1 = 0" "dr_calls d1 = 1" "dr_messages d1 = dr_messages dr"
    using turn_frame_fields[OF t(1)] assms by simp_all
  let ?c = "record_call ?env ctx [7] (lit ''sys'') [] d1"
  let ?d = "?c\<lparr>dr_rounds := dr_rounds ?c + 1\<rparr>"
  let ?specs = "[\<lparr> tc_id = [7], tc_name = lit ''sys'', tc_args = [] \<rparr>]"
  have "length (dr_fps ?c) = 1" using f(1) by (simp add: record_call_def Let_def)
  then have "\<not> detect_loop (dr_fps ?c) LOOP_REPEAT_THRESHOLD"
    by (simp add: detect_loop_def LOOP_REPEAT_THRESHOLD_def)
  then have body: "loop_body ?env ctx dr = Inl (run_tool_round ?env ctx [7] (lit ''sys'') [] ?d)"
    using t(1) f(2) by (simp add: loop_body_def on_tool_call_def Let_def MAX_TOOL_ROUNDS_def)
  have calls: "dr_calls (run_tool_round ?env ctx [7] (lit ''sys'') [] ?d) = 1" using f(3) by simp
  obtain o' d2 where ex: "exec_tool ?env ctx [7] (lit ''sys'') [] ?d = (o', d2)" by fastforce
  have d2: "dr_state d2 = AwaitingTool" "dr_messages d2 = dr_messages dr @ [dispatch_message d1 ?specs]"
    using exec_tool_arith(4,5)[of ?env ctx "[7]" "lit ''sys''" "[]" ?d] t(2) f(4) unfolding ex snd_conv
    by (simp_all add: record_call_def Let_def)
  have o': "o' = out" using ex assms(6) by (auto simp: exec_tool_def Let_def sample_env_def)
  have "live (run_tool_round ?env ctx [7] (lit ''sys'') [] ?d)"
    "dr_messages (run_tool_round ?env ctx [7] (lit ''sys'') [] ?d)
      = dr_messages dr @ [dispatch_message d1 ?specs, (plain_msg MTool out)\<lparr>m_tool_call_id := Some [7]\<rparr>]"
    using d2 unfolding run_tool_round_def ex prod.case o' by (simp_all add: Let_def feed_result live_def)
  then show ?thesis using body calls
    by (intro exI[of _ "run_tool_round ?env ctx [7] (lit ''sys'') [] ?d"] exI[of _ "dispatch_message d1 ?specs"]
        exI[of _ "(plain_msg MTool out)\<lparr>m_tool_call_id := Some [7]\<rparr>"])
      (simp add: dispatch_message_def is_dispatch_def)
qed

lemma sample_second_call:
  assumes "live dr" "dr_calls dr = 1"
  shows "\<exists>dr'. loop_body (sample_env out) sample_ctx dr = Inr (Completed, dr')"
  using assms by (simp add: loop_body_def run_model_turn_def sample_env_def Let_def feed_text feed_done outcome_of_def)

lemma sample_run_completes: "fst (drive_inner (sample_env out) sample_ctx sample_world) = Completed"
proof -
  obtain ok d where st: "drive_start sample_ctx sample_world = (ok, d)" by fastforce
  have "d = snd (drive_start sample_ctx sample_world)" using st by simp
  then have "dr_calls d = 0" "dr_rounds d = 0" "dr_fps d = []" "dr_state d = AwaitingModel" by (simp_all add: drive_start_eq)
  moreover have "ok" "live d" using start_inv(1,2)[OF st] sample_ok(2) by (simp_all add: run_ev_def)
  moreover have "rc_tools sample_ctx \<noteq> None" by (simp add: sample_ctx_def)
  ultimately obtain d1 d2 where d: "loop_body (sample_env out) sample_ctx d = Inl d1"
    "loop_body (sample_env out) sample_ctx d1 = Inr (Completed, d2)"
    using sample_first_call[of d sample_ctx out] sample_second_call by metis
  then show ?thesis using st \<open>ok\<close> by (simp add: drive_inner_def drive_loop.simps)
qed


lemma requests_obey_pairing_witness:
  "proto_ok (rq_messages (build_request still_env 0 (sample_ctx\<lparr>rc_history := load_history get_specs 10 100 [115] one_session\<rparr>)
     (dr_messages (snd (drive_start (sample_ctx\<lparr>rc_history := load_history get_specs 10 100 [115] one_session\<rparr>) sample_world))) None))"
proof -
  let ?ctx = "sample_ctx\<lparr>rc_history := load_history get_specs 10 100 [115] one_session\<rparr>"
  have ok: "fst (drive_start ?ctx sample_world)"
    by (simp add: drive_start_eq emit_inline_def world_emit_def sample_world_def sink_send_def conn_send_def)
  then have r: "loop_reach (sample_env [111]) ?ctx sample_world (snd (drive_start ?ctx sample_world))"
    by (intro loop_reach.start) (simp add: prod_eq_iff)
  have h: "rc_history ?ctx = load_history get_specs 10 100 (rc_session ?ctx) one_session" by (simp add: sample_ctx_def)
  have l: "dr_last_input (snd (drive_start ?ctx sample_world)) = None" by (simp add: drive_start_eq)
  show ?thesis using requests_obey_pairing[OF h r, of 0] unfolding l by (simp add: sample_env_def)
qed

section \<open>What the rules miss\<close>

text \<open>The idle watchdog announces the end of its run twice: as a failure with the text of an abort, then
  as a timeout.\<close>

theorem watchdog_announces_twice:
  assumes "live dr" "bc dr evs"
  shows "w_emitted (dr_world (snd (consume env ctx (ItemIdle # items) call dr))) = evs @
     [EvLifecycle (rc_session ctx) (rc_run ctx) (PhError msg_aborted KFailed),
      EvLifecycle (rc_session ctx) (rc_run ctx) (PhError msg_idle KTimeout)]"
proof -
  let ?d = "(cancel dr)\<lparr>dr_state := Terminal Aborted\<rparr>"
  have "bc (emit_error ctx KTimeout msg_idle (emit_error ctx KFailed msg_aborted ?d))
     ((evs @ [EvLifecycle (rc_session ctx) (rc_run ctx) (PhError msg_aborted KFailed)])
        @ [EvLifecycle (rc_session ctx) (rc_run ctx) (PhError msg_idle KTimeout)])"
    by (intro bc_error) (use assms(2) in simp)
  then show ?thesis using assms(1) by (simp add: feed_abort Let_def bc_def)
qed

lemma watchdog_announces_twice_witness:
  "\<exists>dr. live dr \<and> w_emitted (dr_world (snd (consume (sample_env []) sample_ctx [ItemIdle] ([], [], []) dr))) =
     [EvLifecycle [115] [114] (PhError msg_aborted KFailed), EvLifecycle [115] [114] (PhError msg_idle KTimeout)]"
proof -
  let ?d = "\<lparr> dr_state = AwaitingModel, dr_acc = [], dr_reasoning = [], dr_messages = [], dr_fps = [], dr_rounds = 0,
     dr_truncs = 0, dr_carried = [], dr_last_input = None, dr_world = sample_world, dr_bus = [], dr_calls = 0 \<rparr>"
  have "live ?d" "bc ?d []" by (simp_all add: live_def bc_def sample_world_def)
  from watchdog_announces_twice[OF this, of "sample_env []" sample_ctx "[]" "([], [], [])"] this(1)
  show ?thesis by (intro exI[of _ ?d]) (simp add: sample_ctx_def)
qed

text \<open>A tool that answers with the empty text, as reading an empty file does, leaves no result in the
  transcript: the round writes nothing although the model is sent the result, and when the session
  is replayed up to there the call has disappeared.\<close>

theorem empty_tool_result_lost:
  assumes "rc_tools ctx \<noteq> None" "dr_state dr = AwaitingTool"
    "\<And>w. e_executor env nm args cid w = (TsOk, [], w)"
  shows "w_db (dr_world (run_tool_round env ctx cid nm args dr)) = w_db (dr_world dr)
    \<and> m_tool_call_id (last (dr_messages (run_tool_round env ctx cid nm args dr))) = Some cid
    \<and> (en_role e = RoleAssistant \<longrightarrow>
        (\<forall>m \<in> set (drop_orphan_tool_msgs [entry_to_message parse_specs e]). m_tool_calls m = []))"
proof (intro conjI impI)
  obtain ts where ts: "rc_tools ctx = Some ts" using assms(1) by auto
  obtain out d1 where ex: "exec_tool env ctx cid nm args dr = (out, d1)" by fastforce
  have d: "out = []" "w_db (dr_world d1) = w_db (dr_world dr)" "dr_state d1 = AwaitingTool"
    using ex assms(2,3) ts by (auto simp: exec_tool_def Let_def)
  show "w_db (dr_world (run_tool_round env ctx cid nm args dr)) = w_db (dr_world dr)"
    "m_tool_call_id (last (dr_messages (run_tool_round env ctx cid nm args dr))) = Some cid"
    using d unfolding run_tool_round_def ex by (simp_all add: Let_def persist_skip feed_result)
qed (auto simp: drop_orphan_tool_msgs_def entry_to_message_def answered_def Let_def split: if_splits)

lemma empty_tool_result_lost_witness:
  "\<exists>dr. dr_state dr = AwaitingTool
     \<and> w_db (dr_world (run_tool_round (sample_env []) sample_ctx [7] (lit ''file'') [] dr)) = w_db (dr_world dr)"
proof -
  let ?d = "\<lparr> dr_state = AwaitingTool, dr_acc = [], dr_reasoning = [], dr_messages = [], dr_fps = [], dr_rounds = 0,
     dr_truncs = 0, dr_carried = [], dr_last_input = None, dr_world = sample_world, dr_bus = [], dr_calls = 0 \<rparr>"
  have h: "rc_tools sample_ctx \<noteq> None" "dr_state ?d = AwaitingTool"
    "\<And>w. e_executor (sample_env []) (lit ''file'') [] [7] w = (TsOk, [], w)"
    by (simp_all add: sample_ctx_def sample_env_def)
  show ?thesis by (intro exI[of _ ?d] conjI h(2) conjunct1[OF empty_tool_result_lost[OF h]])
qed

end
