(* ===== verification/Session_Memory.thy ===== *)
theory Session_Memory
  imports Store_Memory Store_Transcript Store_Proactive Store_Audit Memory_Policy Prompt Str_Order
begin

text \<open>
  What a turn does to the long-term memory, \<open>crates/oc-server/src/session.rs\<close>: explicit
  "remember" commands, the memories and reminders injected before a run, and the episodes kept when
  a conversation leaves the context.  The store calls of these functions may fail one by one: a
  value of type \<open>faults\<close> says which do.  \<open>platform\<close> bundles the Unicode tables.
\<close>

record platform =
  lower_str :: "rstr \<Rightarrow> rstr"
  lower_of :: "rchar \<Rightarrow> rstr"
  alnum_of :: "rchar \<Rightarrow> bool"

datatype store_call = CallByPrefKey rstr | CallUpsertMemory rstr | CallDeleteMemory rstr
  | CallAudit rstr rstr | CallSearch | CallIntentList | CallMarkFired rstr | CallLoadTranscript
  | CallEnsureSession | CallAppendEntry | CallCompact | CallDreamList | CallCuratedList | CallPromote rstr
  | CallMerge rstr rstr | CallCronList | CallCronAdd rstr | CallCronRm rstr | CallCronFired rstr
  | CallSessionList | CallReset rstr | CallIntentAdd rstr | CallIntentRm rstr

type_synonym faults = "store_call \<Rightarrow> store_error option"

definition no_faults :: faults where
  "no_faults c = None"

definition attempt :: "store_error option \<Rightarrow> store_error + 'a \<Rightarrow> store_error + 'a" where
  "attempt f r = (case f of Some e \<Rightarrow> Inl e | None \<Rightarrow> r)"

lemma attempt_simps [simp]: "attempt None r = r" "attempt (Some e) r = Inl e"
  by (simp_all add: attempt_def)

lemma no_faults_None [simp]: "no_faults c = None"
  by (simp add: no_faults_def)

text \<open>A failed write is only logged: the caller goes on with the database as it was.\<close>

definition settle :: "db \<Rightarrow> store_error + db \<Rightarrow> db" where
  "settle d r = (case r of Inl _ \<Rightarrow> d | Inr d' \<Rightarrow> d')"

lemma settle_simps [simp]: "settle d (Inl e) = d" "settle d (Inr d') = d'"
  by (simp_all add: settle_def)

section \<open>Terms of a message\<close>

definition is_ascii_punct :: "rchar \<Rightarrow> bool" where
  "is_ascii_punct c \<longleftrightarrow> (33 \<le> c \<and> c \<le> 47) \<or> (58 \<le> c \<and> c \<le> 64) \<or> (91 \<le> c \<and> c \<le> 96) \<or> (123 \<le> c \<and> c \<le> 126)"

definition segment_terms :: "rstr \<Rightarrow> rstr list" where
  "segment_terms seg = (if length seg < 2 then [] else seg # (if 2 < length seg then windows2 seg else []))"

definition tokenize :: "rstr \<Rightarrow> rstr list" where
  "tokenize msg = remdups_adj (str_sort (concat (map segment_terms (split_by (\<lambda>c. is_ws c \<or> is_ascii_punct c) msg))))"

section \<open>Explicit memories\<close>

definition content_hash :: "rstr \<Rightarrow> rstr" where
  "content_hash s = fnv1a_hex s"

definition memory_id :: "rstr \<Rightarrow> rstr" where
  "memory_id s = lit ''mem-'' @ content_hash s"

text \<open>The plan for a preference: \<open>None\<close> returns at once, \<open>Some old\<close> names the row to delete
  afterwards.  A failed query degrades to a plain write.\<close>

definition supersede_step :: "faults \<Rightarrow> rstr \<Rightarrow> rstr \<Rightarrow> rstr \<Rightarrow> db \<Rightarrow> rstr option option" where
  "supersede_step fl key mid content d =
     (case attempt (fl (CallByPrefKey key)) (Inr (memory_by_pref_key key d)) of
        Inl _ \<Rightarrow> Some None
      | Inr rows \<Rightarrow>
          (case supersede (map (\<lambda>r. \<lparr> pref_id = mr_id r, pref_key = key, pref_value = mr_text r \<rparr>) rows)
                  \<lparr> pref_id = mid, pref_key = key, pref_value = content \<rparr> of
             Ignore \<Rightarrow> None
           | Add \<Rightarrow> Some None
           | Replace old \<Rightarrow> Some (Some old)))"

definition delete_superseded :: "faults \<Rightarrow> int \<Rightarrow> rstr option \<Rightarrow> rstr \<Rightarrow> db \<Rightarrow> db" where
  "delete_superseded fl now to_delete mid d =
     (case to_delete of None \<Rightarrow> d
      | Some old \<Rightarrow>
          if old = mid then d
          else case attempt (fl (CallDeleteMemory old)) (delete_memory old d) of
                 Inl _ \<Rightarrow> d
               | Inr (_, d') \<Rightarrow> settle d' (attempt (fl (CallAudit (lit ''supersede'') old))
                                     (write_audit now (lit ''owner'') (lit ''supersede'') (Some old) d')))"

definition origin_to_store :: "origin \<Rightarrow> store_origin" where
  "origin_to_store g = (case g of Owner \<Rightarrow> OriginOwner | AgentOrigin \<Rightarrow> OriginAgent
     | Untrusted \<Rightarrow> OriginUntrusted | System \<Rightarrow> OriginSystem)"

definition explicit_row :: "platform \<Rightarrow> rstr \<Rightarrow> rstr \<Rightarrow> new_memory" where
  "explicit_row u sid content =
     \<lparr> nm_id = memory_id content, nm_tier = TierCurated, nm_origin = origin_to_store (classify_origin UserExplicit),
       nm_text = content, nm_keywords = None, nm_importance = f64 (8 / 10), nm_content_hash = content_hash content,
       nm_pref_key = extract_pref_key (lower_str u) content, nm_source = Some sid \<rparr>"

definition remember :: "platform \<Rightarrow> faults \<Rightarrow> int \<Rightarrow> rstr \<Rightarrow> rstr \<Rightarrow> db \<Rightarrow> db" where
  "remember u fl now sid content d =
     (let mid = memory_id content in
      case (case extract_pref_key (lower_str u) content of
              None \<Rightarrow> Some None | Some key \<Rightarrow> supersede_step fl key mid content d) of
        None \<Rightarrow> d
      | Some to_delete \<Rightarrow>
          (case attempt (fl (CallUpsertMemory mid))
                  (upsert_memory (lower_of u) (alnum_of u) now (explicit_row u sid content) d) of
             Inl _ \<Rightarrow> d
           | Inr d1 \<Rightarrow>
               let d2 = delete_superseded fl now to_delete mid d1
               in settle d2 (attempt (fl (CallAudit (lit ''remember'') mid))
                               (write_audit now (lit ''owner'') (lit ''remember'') (Some mid) d2))))"

text \<open>\<open>None\<close> is the panic of the slice in \<open>detect_explicit_memory\<close>.\<close>

definition persist_explicit_memory :: "platform \<Rightarrow> faults \<Rightarrow> int \<Rightarrow> rstr \<Rightarrow> rstr \<Rightarrow> db \<Rightarrow> db option" where
  "persist_explicit_memory u fl now sid msg d =
     (case detect_explicit_memory (lower_str u) msg of
        None \<Rightarrow> None
      | Some None \<Rightarrow> Some d
      | Some (Some content) \<Rightarrow> Some (remember u fl now sid content d))"

section \<open>Memories injected before a run\<close>

definition origin_of_store :: "store_origin \<Rightarrow> origin" where
  "origin_of_store g = (case g of OriginOwner \<Rightarrow> Owner | OriginAgent \<Rightarrow> AgentOrigin
     | OriginUntrusted \<Rightarrow> Untrusted | OriginSystem \<Rightarrow> System)"

text \<open>Division of \<open>i64\<close> by a positive number rounds towards zero.\<close>

definition trunc_div :: "int \<Rightarrow> int \<Rightarrow> int" where
  "trunc_div a b = sgn a * (\<bar>a\<bar> div b)"

definition lane1_candidate :: "memory_row \<Rightarrow> mem_candidate" where
  "lane1_candidate r = \<lparr> mc_id = mr_id r, mc_tier = Curated, mc_origin = origin_of_store (origin_from_db (mr_origin r)),
     mc_text = mr_text r, mc_importance = mr_importance r,
     mc_last_used_secs = trunc_div (case mr_last_used_at r of Some t \<Rightarrow> t | None \<Rightarrow> mr_created_at r) 1000,
     mc_source = mr_source r \<rparr>"

definition lane1_bootstrap :: "platform \<Rightarrow> faults \<Rightarrow> nat \<Rightarrow> rstr \<Rightarrow> db \<Rightarrow> mem_line list" where
  "lane1_bootstrap u fl trigger_max_per_turn msg d =
     (let terms = tokenize msg in
      if terms = [] then []
      else case attempt (fl CallSearch)
                  (Inr (search_candidates (lower_of u) (alnum_of u) terms (Some TierCurated) 32 d)) of
             Inl _ \<Rightarrow> []
           | Inr rows \<Rightarrow>
               let cands = map lane1_candidate rows;
                   hits = trigger_prefilter (lower_str u) cands terms trigger_max_per_turn
               in List.map_filter (\<lambda>i. map_option (\<lambda>c. \<lparr> ml_key = mc_id c, ml_text = mc_text c \<rparr>)
                                          (find (\<lambda>c. mc_id c = i) cands)) hits)"

section \<open>Standing intents\<close>

definition reminder_heading :: rstr where
  "reminder_heading = ([24453, 21150, 25552, 37266, 65288, 29992, 25143, 27492, 21069, 20132, 20195, 65292, 29616, 22240, 35805] @ [39064, 21629, 20013, 32780, 21796, 36215, 65289, 65306])"

text \<open>The row's own limits; \<open>None\<close> when its expiry is not after its creation.\<close>

definition nag_of_row :: "intent_view \<Rightarrow> (intent_state \<times> nag_cfg) option" where
  "nag_of_row r =
     (let st = \<lparr> created_secs = iv_created_at r, last_fired_secs = iv_last_fired_at r, fired_count = iv_fired_count r \<rparr>;
          cfg = (\<lambda>e. \<lparr> cooldown_secs = iv_cooldown_secs r, nag_budget = iv_budget r, expiry_secs = e \<rparr>)
      in case iv_expiry_at r of
           None \<Rightarrow> Some (st, cfg 0)
         | Some t \<Rightarrow> if t - iv_created_at r \<le> 0 then None else Some (st, cfg (t - iv_created_at r)))"

definition reminder :: "intent_view \<Rightarrow> mem_line" where
  "reminder r = \<lparr> ml_key = lit ''intent-'' @ iv_id r, ml_text = reminder_heading @ iv_text r \<rparr>"

definition account_fire :: "faults \<Rightarrow> int \<Rightarrow> int \<Rightarrow> rstr \<Rightarrow> db \<Rightarrow> db" where
  "account_fire fl now_ms now i d =
     (let d1 = settle d (attempt (fl (CallMarkFired i)) (intent_mark_fired i now d))
      in settle d1 (attempt (fl (CallAudit (lit ''fire'') i)) (write_audit now_ms (lit ''intent'') (lit ''fire'') (Some i) d1)))"

fun intent_loop :: "faults \<Rightarrow> int \<Rightarrow> int \<Rightarrow> nat \<Rightarrow> intent_view list \<Rightarrow> rstr list \<Rightarrow> mem_line list \<Rightarrow> db \<Rightarrow> mem_line list \<times> db" where
  "intent_loop fl now_ms now limit rows [] out d = (out, d)"
| "intent_loop fl now_ms now limit rows (i # ids) out d =
     (if limit \<le> length out then (out, d)
      else case find (\<lambda>r. iv_id r = i) rows of
        None \<Rightarrow> intent_loop fl now_ms now limit rows ids out d
      | Some r \<Rightarrow>
          (case nag_of_row r of
             None \<Rightarrow> intent_loop fl now_ms now limit rows ids out d
           | Some (st, cfg) \<Rightarrow>
               if allow_fire st now cfg = AllowFire
               then intent_loop fl now_ms now limit rows ids (out @ [reminder r]) (account_fire fl now_ms now i d)
               else intent_loop fl now_ms now limit rows ids out d))"

definition intent_hits :: "platform \<Rightarrow> rstr \<Rightarrow> intent_view list \<Rightarrow> rstr list" where
  "intent_hits u msg rows = intent_prefilter (lower_str u) msg
     (map (\<lambda>r. \<lparr> si_id = iv_id r, si_keywords = iv_keywords r \<rparr>) rows)"

definition intent_scan :: "platform \<Rightarrow> faults \<Rightarrow> int \<Rightarrow> int \<Rightarrow> nat \<Rightarrow> rstr \<Rightarrow> db \<Rightarrow> mem_line list \<times> db" where
  "intent_scan u fl now_ms now max_per_turn msg d =
     (case attempt (fl CallIntentList) (Inr (intent_list d)) of
        Inl _ \<Rightarrow> ([], d)
      | Inr rows \<Rightarrow> intent_loop fl now_ms now max_per_turn rows (intent_hits u msg rows) [] d)"

section \<open>Episodes\<close>

definition conversation_of :: "entry \<Rightarrow> conversation_entry" where
  "conversation_of e = \<lparr> ce_role = (case en_role e of RoleUser \<Rightarrow> RUser | RoleAssistant \<Rightarrow> RAssistant
       | RoleTool \<Rightarrow> RTool | RoleSystem \<Rightarrow> RSystem), ce_content = en_content e \<rparr>"

definition episode_row :: "rstr \<Rightarrow> episode_candidate \<Rightarrow> new_memory" where
  "episode_row sid c = \<lparr> nm_id = memory_id (ec_content c), nm_tier = TierEpisodic, nm_origin = OriginAgent,
     nm_text = ec_content c, nm_keywords = None, nm_importance = ec_importance c,
     nm_content_hash = content_hash (ec_content c), nm_pref_key = None, nm_source = Some sid \<rparr>"

fun write_episodes :: "platform \<Rightarrow> faults \<Rightarrow> int \<Rightarrow> rstr \<Rightarrow> episode_candidate list \<Rightarrow> nat \<Rightarrow> db \<Rightarrow> nat \<times> db" where
  "write_episodes u fl now sid [] written d = (written, d)"
| "write_episodes u fl now sid (c # cs) written d =
     (case attempt (fl (CallUpsertMemory (memory_id (ec_content c))))
             (upsert_memory (lower_of u) (alnum_of u) now (episode_row sid c) d) of
        Inl _ \<Rightarrow> write_episodes u fl now sid cs written d
      | Inr d' \<Rightarrow> write_episodes u fl now sid cs (written + 1) d')"

definition flush_episodic :: "platform \<Rightarrow> faults \<Rightarrow> int \<Rightarrow> rstr \<Rightarrow> entry list \<Rightarrow> db \<Rightarrow> nat \<times> db" where
  "flush_episodic u fl now sid es d =
     write_episodes u fl now sid (extract_episode_candidates (lower_str u) (map conversation_of es)) 0 d"

definition flush_before_reset :: "platform \<Rightarrow> faults \<Rightarrow> int \<Rightarrow> rstr \<Rightarrow> int \<Rightarrow> db \<Rightarrow> db" where
  "flush_before_reset u fl now sid max_entries d =
     (case attempt (fl CallLoadTranscript) (Inr (load_transcript sid max_entries d)) of
        Inl _ \<Rightarrow> d
      | Inr es \<Rightarrow> if es = [] then d else snd (flush_episodic u fl now sid es d))"

section \<open>Rows after a write\<close>

lemma upsert_rows:
  assumes "upsert_memory lc alnum now m d = Inr d'"
  shows "memories d' = (if find_memory (nm_id m) d = None then memories d @ [fresh_memory now (next_no d) m]
     else update_where (\<lambda>r. mr_id r = nm_id m) (overwrite_memory m) (memories d))"
  using assms by (auto simp: upsert_memory_def Let_def index_memory_text_def split: option.splits if_splits)

lemma upsert_total:
  assumes "memory_inv lc alnum d"
  obtains d' where "upsert_memory lc alnum now m d = Inr d'"
  using upsert_old[OF assms] upsert_new by (cases "find_memory (nm_id m) d") blast+

lemma delete_memory_eq:
  obtains b where "delete_memory k d = Inr (b, drop_memory k d)"
  by (cases "find_memory k d") (auto simp: delete_memory_def drop_memory_def)

lemma drop_rows:
  assumes "memory_inv lc alnum d"
  shows "memories (drop_memory k d) = filter (\<lambda>r. mr_id r \<noteq> k) (memories d)"
proof (cases "find_memory k d")
  case None
  have "drop_memory k d = d" by (simp add: drop_memory_def delete_memory_def None)
  moreover have "filter (\<lambda>r. mr_id r \<noteq> k) (memories d) = memories d"
    using None by (intro filter_True) (auto simp: find_memory_None)
  ultimately show ?thesis by simp
next
  case (Some r)
  have r: "r \<in> set (memories d)" "mr_id r = k" using find_memory_Some[OF Some] by auto
  have "mr_no x \<noteq> mr_no r \<longleftrightarrow> mr_id x \<noteq> k" if "x \<in> set (memories d)" for x
    using same_no[OF assms that r(1)] same_id[OF assms that r(1)] r(2) by auto
  then show ?thesis by (auto simp: drop_memory_def delete_memory_def Some delete_row_def cong: filter_cong)
qed

lemma audit_memories [simp]:
  "memories (settle d (attempt f (write_audit now a b p d))) = memories d"
  "memory_fts (settle d (attempt f (write_audit now a b p d))) = memory_fts d"
proof -
  obtain rs where "write_audit now a b p d = Inr (d\<lparr>audits := rs\<rparr>)"
    by (simp add: write_audit_def Let_def)
  then show "memories (settle d (attempt f (write_audit now a b p d))) = memories d"
    "memory_fts (settle d (attempt f (write_audit now a b p d))) = memory_fts d"
    by (cases f; simp)+
qed

lemma audit_find [simp]: "find_memory i (settle d (attempt f (write_audit now a b p d))) = find_memory i d"
  by (simp add: find_memory_def)

lemma audit_texts [simp]:
  "memory_texts (settle d (attempt f (write_audit now a b p d))) = memory_texts d"
  by (rule ext) (simp only: memory_texts_def audit_find)

lemma audit_inv [simp]:
  "memory_inv lc alnum (settle d (attempt f (write_audit now a b p d))) = memory_inv lc alnum d"
  by (simp only: memory_inv_def audit_memories)

text \<open>What deleting the superseded row leaves: all rows, or all but that one.\<close>

definition superseded :: "rstr option \<Rightarrow> rstr \<Rightarrow> rstr \<Rightarrow> bool" where
  "superseded to_delete mid old \<longleftrightarrow> to_delete = Some old \<and> old \<noteq> mid"

lemma delete_superseded_cases:
  obtains "delete_superseded fl now td mid d = d" "fl \<noteq> no_faults \<or> (\<forall>old. \<not> superseded td mid old)"
  | old f where "superseded td mid old" "delete_superseded fl now td mid d =
       settle (drop_memory old d) (attempt f (write_audit now (lit ''owner'') (lit ''supersede'') (Some old) (drop_memory old d)))"
proof (cases "\<exists>old. superseded td mid old")
  case False
  then have "delete_superseded fl now td mid d = d"
    by (auto simp: delete_superseded_def superseded_def split: option.splits)
  with False that(1) show ?thesis by blast
next
  case True
  then obtain old where old: "superseded td mid old" by blast
  obtain b where b: "delete_memory old d = Inr (b, drop_memory old d)" by (rule delete_memory_eq)
  show ?thesis
  proof (cases "fl (CallDeleteMemory old)")
    case None
    show ?thesis
      by (rule that(2)[of old "fl (CallAudit (lit ''supersede'') old)"])
         (use old b None in \<open>simp_all add: delete_superseded_def superseded_def del: lit_Cons\<close>)
  next
    case (Some e)
    then have "delete_superseded fl now td mid d = d" "fl \<noteq> no_faults"
      using old by (auto simp: delete_superseded_def superseded_def)
    with that(1) show ?thesis by blast
  qed
qed

lemma delete_superseded_rows:
  assumes "memory_inv lc alnum d"
  shows "memories (delete_superseded fl now td mid d) = memories d
     \<or> (\<exists>old. superseded td mid old \<and> memories (delete_superseded fl now td mid d) = filter (\<lambda>r. mr_id r \<noteq> old) (memories d))"
  by (rule delete_superseded_cases[of fl now td mid d]) (simp_all only: audit_memories drop_rows[OF assms], auto)

lemma delete_superseded_texts:
  assumes "memory_inv lc alnum d"
  shows "memory_inv lc alnum (delete_superseded fl now td mid d)"
    and "superseded td mid old \<Longrightarrow>
       memory_texts (delete_superseded no_faults now td mid d) = (memory_texts d)(old := None)"
proof -
  show "memory_inv lc alnum (delete_superseded fl now td mid d)"
    by (rule delete_superseded_cases[of fl now td mid d]) (simp_all only: audit_inv texts_delete[OF assms] assms)
  assume s: "superseded td mid old"
  show "memory_texts (delete_superseded no_faults now td mid d) = (memory_texts d)(old := None)"
  proof (rule delete_superseded_cases[of no_faults now td mid d])
    assume "no_faults \<noteq> no_faults \<or> (\<forall>old. \<not> superseded td mid old)"
    with s show ?thesis by blast
  next
    fix old' f
    assume "superseded td mid old'" and d': "delete_superseded no_faults now td mid d =
       settle (drop_memory old' d) (attempt f (write_audit now (lit ''owner'') (lit ''supersede'') (Some old') (drop_memory old' d)))"
    then have "old' = old" using s by (simp add: superseded_def)
    then show ?thesis unfolding d' audit_texts using texts_delete[OF assms] by simp
  qed
qed

text \<open>A remembered text returns at once, or leaves the rows of its upsert less the superseded one.\<close>

definition plan_of :: "platform \<Rightarrow> faults \<Rightarrow> rstr \<Rightarrow> db \<Rightarrow> rstr option option" where
  "plan_of u fl content d = (case extract_pref_key (lower_str u) content of
     None \<Rightarrow> Some None | Some key \<Rightarrow> supersede_step fl key (memory_id content) content d)"

lemma remember_cases:
  obtains "remember u fl now sid content d = d" "plan_of u fl content d = None \<or> fl (CallUpsertMemory (memory_id content)) \<noteq> None
      \<or> (\<exists>e. upsert_memory (lower_of u) (alnum_of u) now (explicit_row u sid content) d = Inl e)"
  | td d1 f where "plan_of u fl content d = Some td"
      "upsert_memory (lower_of u) (alnum_of u) now (explicit_row u sid content) d = Inr d1"
      "remember u fl now sid content d = settle (delete_superseded fl now td (memory_id content) d1)
         (attempt f (write_audit now (lit ''owner'') (lit ''remember'') (Some (memory_id content))
            (delete_superseded fl now td (memory_id content) d1)))"
proof (cases "plan_of u fl content d")
  case None
  then have "remember u fl now sid content d = d" by (simp add: remember_def plan_of_def[symmetric])
  with None that(1) show ?thesis by blast
next
  case (Some td)
  show ?thesis
  proof (cases "attempt (fl (CallUpsertMemory (memory_id content)))
                  (upsert_memory (lower_of u) (alnum_of u) now (explicit_row u sid content) d)")
    case (Inl e)
    then have "remember u fl now sid content d = d" using Some by (simp add: remember_def plan_of_def[symmetric])
    with Inl that(1) show ?thesis by (cases "fl (CallUpsertMemory (memory_id content))") auto
  next
    case (Inr d1)
    then have "upsert_memory (lower_of u) (alnum_of u) now (explicit_row u sid content) d = Inr d1"
      by (cases "fl (CallUpsertMemory (memory_id content))") auto
    with Inr Some show ?thesis
      by (intro that(2)[of td d1 "fl (CallAudit (lit ''remember'') (memory_id content))"])
         (simp_all add: remember_def plan_of_def[symmetric] Let_def del: lit_Cons)
  qed
qed

section \<open>Preferences\<close>

definition topic_rows :: "rstr \<Rightarrow> db \<Rightarrow> memory_row list" where
  "topic_rows k d = filter (\<lambda>m. mr_pref_key m = Some k \<and> mr_tier m = lit ''curated'') (memories d)"

lemma set_by_pref_key [simp]: "set (memory_by_pref_key k d) = set (topic_rows k d)"
  by (simp add: memory_by_pref_key_def topic_rows_def)

lemma supersede_key:
  "(\<And>e. e \<in> set es \<Longrightarrow> pref_key e = pref_key p) \<Longrightarrow> supersede es p = (case es of [] \<Rightarrow> Add
     | e # _ \<Rightarrow> if pref_value e = pref_value p then Ignore else Replace (pref_id e))"
  by (cases es) auto

lemma supersede_step_eq:
  "supersede_step fl k mid content d = (case fl (CallByPrefKey k) of Some _ \<Rightarrow> Some None
     | None \<Rightarrow> (case memory_by_pref_key k d of [] \<Rightarrow> Some None
        | r # _ \<Rightarrow> if mr_text r = content then None else Some (Some (mr_id r))))"
  by (auto simp: supersede_step_def supersede_key split: option.splits list.splits)

lemma tier_curated [simp]: "tier_str TierCurated = lit ''curated''" "tier_str TierEpisodic = lit ''episodic''"
  by (simp_all add: tier_str_def)

lemma explicit_row_simps [simp]:
  "nm_id (explicit_row u sid c) = memory_id c" "nm_text (explicit_row u sid c) = c"
  "nm_pref_key (explicit_row u sid c) = extract_pref_key (lower_str u) c" "nm_tier (explicit_row u sid c) = TierCurated"
  by (simp_all add: explicit_row_def)

text \<open>The row of a remembered text after its upsert.\<close>

lemma explicit_upsert_row:
  assumes "upsert_memory lc alnum now (explicit_row u sid c) d = Inr d1"
    and "\<And>r. find_memory (memory_id c) d = Some r \<Longrightarrow> mr_tier r = lit ''curated''"
    and "extract_pref_key (lower_str u) c = Some k"
  shows "\<exists>r \<in> set (topic_rows k d1). mr_id r = memory_id c \<and> mr_text r = c"
proof (cases "find_memory (memory_id c) d")
  case None
  then have "fresh_memory now (next_no d) (explicit_row u sid c) \<in> set (memories d1)"
    using upsert_rows[OF assms(1)] by simp
  then show ?thesis using assms(3)
    by (intro bexI[of _ "fresh_memory now (next_no d) (explicit_row u sid c)"]) (simp_all add: topic_rows_def fresh_memory_def del: lit_Cons)
next
  case (Some r)
  then have "overwrite_memory (explicit_row u sid c) r \<in> set (memories d1)" "mr_id r = memory_id c"
    using upsert_rows[OF assms(1)] find_memory_Some[OF Some] by (auto simp: update_where_def)
  then show ?thesis using assms(2)[OF Some] assms(3)
    by (intro bexI[of _ "overwrite_memory (explicit_row u sid c) r"]) (simp_all add: topic_rows_def overwrite_memory_def del: lit_Cons)
qed

lemma upsert_holds_text:
  "upsert_memory lc alnum now (explicit_row u sid c) d = Inr d1 \<Longrightarrow> \<exists>r \<in> set (memories d1). mr_id r = memory_id c \<and> mr_text r = c"
proof -
  assume up: "upsert_memory lc alnum now (explicit_row u sid c) d = Inr d1"
  show ?thesis
  proof (cases "find_memory (memory_id c) d")
    case None
    then show ?thesis using upsert_rows[OF up]
      by (intro bexI[of _ "fresh_memory now (next_no d) (explicit_row u sid c)"]) (simp_all add: fresh_memory_def)
  next
    case (Some r)
    then show ?thesis using upsert_rows[OF up] find_memory_Some[OF Some]
      by (intro bexI[of _ "overwrite_memory (explicit_row u sid c) r"]) (auto simp: update_where_def overwrite_memory_def)
  qed
qed

lemma remember_keeps_topic:
  assumes inv: "memory_inv (lower_of u) (alnum_of u) d"
    and key: "extract_pref_key (lower_str u) c = Some k"
  shows "remember u fl now sid c d = d
    \<or> (\<exists>r \<in> set (memories (remember u fl now sid c d)). mr_id r = memory_id c \<and> mr_text r = c)
      \<and> ((\<exists>r \<in> set (topic_rows k (remember u fl now sid c d)). mr_text r = c)
         \<or> (\<exists>r. find_memory (memory_id c) d = Some r \<and> mr_tier r \<noteq> lit ''curated''))"
proof (rule remember_cases[of u fl now sid c d])
  fix td d1 f
  assume up: "upsert_memory (lower_of u) (alnum_of u) now (explicit_row u sid c) d = Inr d1"
    and r: "remember u fl now sid c d = settle (delete_superseded fl now td (memory_id c) d1)
         (attempt f (write_audit now (lit ''owner'') (lit ''remember'') (Some (memory_id c))
            (delete_superseded fl now td (memory_id c) d1)))"
  have kept: "x \<in> set (memories (remember u fl now sid c d))" if "x \<in> set (memories d1)" "mr_id x = memory_id c" for x
    using delete_superseded_rows[OF upsert_inv[OF inv up], of fl now td "memory_id c"] that
    unfolding r by (auto simp: superseded_def)
  have held: "\<exists>r \<in> set (memories (remember u fl now sid c d)). mr_id r = memory_id c \<and> mr_text r = c"
    using upsert_holds_text[OF up] kept by blast
  show ?thesis
  proof (cases "\<exists>r. find_memory (memory_id c) d = Some r \<and> mr_tier r \<noteq> lit ''curated''")
    case False
    then have tier: "\<And>r. find_memory (memory_id c) d = Some r \<Longrightarrow> mr_tier r = lit ''curated''" by blast
    from explicit_upsert_row[OF up tier key] obtain x
      where x: "x \<in> set (topic_rows k d1)" "mr_id x = memory_id c" "mr_text x = c" by blast
    have "x \<in> set (topic_rows k (remember u fl now sid c d))"
      using x(1) kept[OF _ x(2)] by (simp add: topic_rows_def del: lit_Cons)
    with x(3) held show ?thesis by blast
  qed (use held in blast)
qed simp

lemma length_filter_distinct: "distinct (map f xs) \<Longrightarrow> length xs \<le> Suc (length (filter (\<lambda>x. f x \<noteq> k) xs))"
proof (induction xs)
  case (Cons x xs)
  show ?case
  proof (cases "f x = k")
    case True
    with Cons.prems have "filter (\<lambda>y. f y \<noteq> k) xs = xs" by (intro filter_True) (metis distinct.simps(2) image_eqI list.simps(9) list.set_map)
    with True show ?thesis by simp
  qed (use Cons in simp)
qed simp

lemma remember_topic_grows:
  assumes inv: "memory_inv (lower_of u) (alnum_of u) d"
    and fresh: "find_memory (memory_id c) d = None"
    and key: "extract_pref_key (lower_str u) c = Some k"
  shows "length (topic_rows k d) \<le> length (topic_rows k (remember u fl now sid c d))"
proof (rule remember_cases[of u fl now sid c d])
  fix td d1 f
  let ?d2 = "delete_superseded fl now td (memory_id c) d1"
  assume up: "upsert_memory (lower_of u) (alnum_of u) now (explicit_row u sid c) d = Inr d1"
    and r: "remember u fl now sid c d = settle ?d2 (attempt f (write_audit now (lit ''owner'') (lit ''remember'') (Some (memory_id c)) ?d2))"
  have inv1: "memory_inv (lower_of u) (alnum_of u) d1" by (rule upsert_inv[OF inv up])
  have new: "length (topic_rows k d1) = Suc (length (topic_rows k d))"
    using upsert_rows[OF up] fresh key by (simp add: topic_rows_def fresh_memory_def del: lit_Cons)
  have same: "topic_rows k (remember u fl now sid c d) = topic_rows k ?d2"
    unfolding r topic_rows_def audit_memories ..
  have "topic_rows k ?d2 = topic_rows k d1 \<or> (\<exists>old. topic_rows k ?d2 = filter (\<lambda>r. mr_id r \<noteq> old) (topic_rows k d1))"
    using delete_superseded_rows[OF inv1, of fl now td "memory_id c"]
    by (auto simp: topic_rows_def conj_commute simp del: lit_Cons)
  moreover have "distinct (map mr_id (topic_rows k d1))"
    using inv1 by (simp add: memory_inv_def topic_rows_def distinct_map_filter)
  ultimately show ?thesis using new length_filter_distinct[of mr_id "topic_rows k d1"] same
    by (metis Suc_le_mono le_SucI order_refl)
qed simp

lemma remember_replaces:
  assumes inv: "memory_inv (lower_of u) (alnum_of u) d"
    and fresh: "find_memory (memory_id c) d = None"
    and key: "extract_pref_key (lower_str u) c = Some k"
    and rows: "memory_by_pref_key k d = r # rest" "mr_text r \<noteq> c"
  shows "memory_texts (remember u no_faults now sid c d) = (memory_texts d)(memory_id c \<mapsto> c, mr_id r := None)
     \<and> memory_inv (lower_of u) (alnum_of u) (remember u no_faults now sid c d)"
proof -
  have plan: "plan_of u no_faults c d = Some (Some (mr_id r))"
    using key rows by (simp add: plan_of_def supersede_step_eq)
  have "r \<in> set (memory_by_pref_key k d)" using rows(1) by simp
  then have "r \<in> set (memories d)" by (simp add: topic_rows_def)
  then have "mr_id r \<noteq> memory_id c" using fresh by (metis find_memory_None imageI)
  then have sup: "superseded (Some (mr_id r)) (memory_id c) (mr_id r)" by (simp add: superseded_def)
  show ?thesis
  proof (rule remember_cases[of u no_faults now sid c d])
    assume "plan_of u no_faults c d = None \<or> no_faults (CallUpsertMemory (memory_id c)) \<noteq> None
      \<or> (\<exists>e. upsert_memory (lower_of u) (alnum_of u) now (explicit_row u sid c) d = Inl e)"
    then show ?thesis using plan upsert_total[OF inv, of now "explicit_row u sid c"] by fastforce
  next
    fix td d1 f
    let ?d2 = "delete_superseded no_faults now td (memory_id c) d1"
    assume td: "plan_of u no_faults c d = Some td"
      and up: "upsert_memory (lower_of u) (alnum_of u) now (explicit_row u sid c) d = Inr d1"
      and e: "remember u no_faults now sid c d = settle ?d2 (attempt f (write_audit now (lit ''owner'') (lit ''remember'') (Some (memory_id c)) ?d2))"
    have "td = Some (mr_id r)" using td plan by simp
    then have "memory_texts ?d2 = (memory_texts d1)(mr_id r := None)" "memory_inv (lower_of u) (alnum_of u) ?d2"
      using delete_superseded_texts[OF upsert_inv[OF inv up]] sup by simp_all
    then show ?thesis unfolding e audit_texts audit_inv using texts_upsert[OF inv up] by simp
  qed
qed

section \<open>Properties: preferences\<close>

text \<open>C14. What the user asks to remember on a topic is not lost, whichever store calls fail: the database stays as
  it was, or it holds the text in the row made from it, and that row is a curated memory of the topic, except
  when the text was kept as an episode before (the row then stays an episode: \<open>preference_lost_to_episode\<close>); and while its row
  is new, the topic has no fewer rows than before.\<close>

theorem preference_survives:
  assumes "memory_inv (lower_of u) (alnum_of u) d"
    and "detect_explicit_memory (lower_str u) msg = Some (Some c)" "extract_pref_key (lower_str u) c = Some k"
    and "persist_explicit_memory u fl now sid msg d = Some d'"
  shows "(d' = d \<or> (\<exists>r \<in> set (memories d'). mr_id r = memory_id c \<and> mr_text r = c)
            \<and> ((\<exists>r \<in> set (topic_rows k d'). mr_text r = c)
               \<or> (\<exists>r. find_memory (memory_id c) d = Some r \<and> mr_tier r \<noteq> lit ''curated'')))
    \<and> (find_memory (memory_id c) d = None \<longrightarrow> length (topic_rows k d) \<le> length (topic_rows k d'))"
proof -
  have d': "d' = remember u fl now sid c d" using assms(2,4) by (simp add: persist_explicit_memory_def)
  show ?thesis unfolding d'
    using remember_keeps_topic[OF assms(1,3)] remember_topic_grows[OF assms(1) _ assms(3)] by blast
qed

definition ascii_platform :: platform where
  "ascii_platform = \<lparr> lower_str = to_ascii_lowercase, lower_of = lower_char, alnum_of = is_ascii_alnum \<rparr>"

definition emacs_row :: memory_row where
  "emacs_row = \<lparr> mr_no = 1, mr_id = [1], mr_tier = lit ''curated'', mr_origin = lit ''owner'',
     mr_text = lit ''I use emacs'', mr_keywords = None, mr_importance = Fin (4 / 5), mr_created_at = 0,
     mr_last_used_at = None, mr_use_count = 0, mr_content_hash = [], mr_pref_key = Some key_editor, mr_source = None \<rparr>"

definition emacs_db :: db where
  "emacs_db = db_empty\<lparr>memories := [emacs_row], memory_fts := [(1, encode_doc lower_char is_ascii_alnum (lit ''I use emacs''))]\<rparr>"

definition vim_text :: rstr where
  "vim_text = lit ''I use vim''"

lemma emacs_db_facts:
  "memory_inv (lower_of ascii_platform) (alnum_of ascii_platform) emacs_db"
  "find_memory (memory_id vim_text) emacs_db = None"
  "memory_by_pref_key key_editor emacs_db = [emacs_row]"
  "topic_rows key_editor emacs_db = [emacs_row]"
  by (simp_all add: memory_inv_def emacs_db_def ascii_platform_def find_memory_def emacs_row_def memory_id_def
        memory_by_pref_key_def topic_rows_def)

lemma vim_facts:
  "detect_explicit_memory (lower_str ascii_platform) (lit ''Remember I use vim'') = Some (Some vim_text)"
  "extract_pref_key (lower_str ascii_platform) vim_text = Some key_editor"
  by (simp add: ascii_platform_def; code_simp)+

lemma preference_survives_witness:
  "\<exists>d'. persist_explicit_memory ascii_platform (\<lambda>c. if c = CallDeleteMemory [1] then Some NoRow else None) 5 [7]
          (lit ''Remember I use vim'') emacs_db = Some d' \<and> 1 \<le> length (topic_rows key_editor d')"
proof -
  define fl :: faults where "fl = (\<lambda>c. if c = CallDeleteMemory [1] then Some NoRow else None)"
  obtain d' where d': "persist_explicit_memory ascii_platform fl 5 [7] (lit ''Remember I use vim'') emacs_db = Some d'"
    using vim_facts(1) by (simp add: persist_explicit_memory_def del: lit_Cons)
  from preference_survives[OF emacs_db_facts(1) vim_facts d'] emacs_db_facts d'
  show ?thesis unfolding fl_def by (auto simp del: lit_Cons)
qed

text \<open>Without faults, a new text on a topic takes the place of the topic's newest text and of
  nothing else; the table of memories keeps its invariant.\<close>

theorem preference_replaced:
  assumes "memory_inv (lower_of u) (alnum_of u) d"
    and "detect_explicit_memory (lower_str u) msg = Some (Some c)" "extract_pref_key (lower_str u) c = Some k"
    and "find_memory (memory_id c) d = None" "memory_by_pref_key k d = r # rest" "mr_text r \<noteq> c"
  shows "\<exists>d'. persist_explicit_memory u no_faults now sid msg d = Some d'
    \<and> memory_texts d' = (memory_texts d)(memory_id c \<mapsto> c, mr_id r := None)
    \<and> memory_inv (lower_of u) (alnum_of u) d'"
  using remember_replaces[OF assms(1,4,3,5,6)] assms(2) by (simp add: persist_explicit_memory_def)

lemma preference_replaced_witness:
  "\<exists>d'. persist_explicit_memory ascii_platform no_faults 5 [7] (lit ''Remember I use vim'') emacs_db = Some d'
     \<and> memory_texts d' [1] = None \<and> memory_texts d' (memory_id vim_text) = Some vim_text"
proof -
  have "mr_text emacs_row \<noteq> vim_text" "mr_id emacs_row \<noteq> memory_id vim_text" "mr_id emacs_row = [1]"
    by (simp_all add: emacs_row_def vim_text_def memory_id_def)
  with preference_replaced[OF emacs_db_facts(1) vim_facts emacs_db_facts(2,3)] show ?thesis by fastforce
qed

definition episode_db :: db where
  "episode_db = emacs_db\<lparr>memories := [emacs_row, emacs_row\<lparr>mr_no := 2, mr_id := memory_id vim_text,
       mr_tier := lit ''episodic'', mr_origin := lit ''agent'', mr_text := vim_text, mr_pref_key := None\<rparr>],
     memory_fts := [(1, encode_doc lower_char is_ascii_alnum (lit ''I use emacs'')), (2, encode_doc lower_char is_ascii_alnum vim_text)]\<rparr>"

text \<open>A changed preference can vanish: when its text was kept before as an episode, the upsert
  leaves that row an episode, and the curated row of the topic is deleted all the same.\<close>

theorem preference_lost_to_episode:
  "memory_inv lower_char is_ascii_alnum episode_db \<and> length (topic_rows key_editor episode_db) = 1
   \<and> (\<exists>d'. persist_explicit_memory ascii_platform no_faults 5 [7] (lit ''Remember I use vim'') episode_db = Some d'
        \<and> topic_rows key_editor d' = [])"
proof (intro conjI)
  have ids: "memory_id vim_text \<noteq> [1]" "vim_text \<noteq> lit ''I use emacs''" by (simp_all add: memory_id_def vim_text_def)
  show inv: "memory_inv lower_char is_ascii_alnum episode_db"
    using ids by (simp add: memory_inv_def episode_db_def emacs_row_def)
  show "length (topic_rows key_editor episode_db) = 1"
    by (simp add: topic_rows_def episode_db_def emacs_row_def)
  let ?e = "remember ascii_platform no_faults 5 [7] vim_text episode_db"
  have plan: "plan_of ascii_platform no_faults vim_text episode_db = Some (Some [1])"
    using vim_facts(2) ids
    by (simp add: plan_of_def supersede_step_eq memory_by_pref_key_def episode_db_def emacs_row_def)
  have none: "topic_rows key_editor ?e = []"
  proof (rule remember_cases[of ascii_platform no_faults 5 "[7]" vim_text episode_db])
    assume "plan_of ascii_platform no_faults vim_text episode_db = None \<or> no_faults (CallUpsertMemory (memory_id vim_text)) \<noteq> None
      \<or> (\<exists>e. upsert_memory (lower_of ascii_platform) (alnum_of ascii_platform) 5 (explicit_row ascii_platform [7] vim_text) episode_db = Inl e)"
    then show ?thesis
      using plan upsert_total[OF inv, of 5 "explicit_row ascii_platform [7] vim_text"] by (fastforce simp: ascii_platform_def)
  next
    fix td d1 f
    let ?d2 = "delete_superseded no_faults 5 td (memory_id vim_text) d1"
    assume td: "plan_of ascii_platform no_faults vim_text episode_db = Some td"
      and up: "upsert_memory (lower_of ascii_platform) (alnum_of ascii_platform) 5 (explicit_row ascii_platform [7] vim_text) episode_db = Inr d1"
      and e: "?e = settle ?d2 (attempt f (write_audit 5 (lit ''owner'') (lit ''remember'') (Some (memory_id vim_text)) ?d2))"
    have td': "td = Some [1]" using td plan by simp
    have inv1: "memory_inv (lower_of ascii_platform) (alnum_of ascii_platform) d1"
      by (rule upsert_inv[OF _ up]) (use inv in \<open>simp add: ascii_platform_def\<close>)
    have m1: "memories d1 = update_where (\<lambda>r. mr_id r = memory_id vim_text) (overwrite_memory (explicit_row ascii_platform [7] vim_text)) (memories episode_db)"
      using upsert_rows[OF up] ids by (simp add: find_memory_def episode_db_def emacs_row_def)
    have "memories ?d2 = filter (\<lambda>r. mr_id r \<noteq> [1]) (memories d1)"
      by (rule delete_superseded_cases[of no_faults 5 td "memory_id vim_text" d1])
         (use td' ids in \<open>auto simp: superseded_def drop_rows[OF inv1]\<close>)
    then show ?thesis unfolding e topic_rows_def audit_memories m1
      using ids by (simp add: update_where_def episode_db_def emacs_row_def overwrite_memory_def)
  qed
  show "\<exists>d'. persist_explicit_memory ascii_platform no_faults 5 [7] (lit ''Remember I use vim'') episode_db = Some d'
        \<and> topic_rows key_editor d' = []"
    using none vim_facts(1) by (simp add: persist_explicit_memory_def del: lit_Cons)
qed

section \<open>Reminders\<close>

lemma settle_mark_fired [simp]:
  "intents (settle d1 (attempt f (write_audit now a b p d1))) = intents d1"
proof -
  obtain rs where "write_audit now a b p d1 = Inr (d1\<lparr>audits := rs\<rparr>)"
    by (simp add: write_audit_def Let_def)
  then show ?thesis by (cases f) simp_all
qed

definition fired_row :: "int \<Rightarrow> intent_row \<Rightarrow> intent_row" where
  "fired_row now r = r\<lparr>ir_fired_count := ir_fired_count r + 1, ir_last_fired_at := Some now\<rparr>"

lemma account_fire_intents:
  "intents (account_fire fl now_ms now i d) =
     (if fl (CallMarkFired i) = None then update_where (\<lambda>r. ir_id r = i) (fired_row now) (intents d) else intents d)"
  by (cases "fl (CallMarkFired i)") (simp_all add: account_fire_def Let_def intent_mark_fired_def fired_row_def[abs_def])

lemma view_id [simp]: "iv_id (intent_view_of r) = ir_id r"
  by (simp add: intent_view_of_def)

text \<open>The decision of one hit, and the loop as a walk over the hits that are allowed.\<close>

definition row_allows :: "int \<Rightarrow> intent_view \<Rightarrow> bool" where
  "row_allows now r = (case nag_of_row r of None \<Rightarrow> False | Some (st, cfg) \<Rightarrow> allow_fire st now cfg = AllowFire)"

definition allowed_hits :: "int \<Rightarrow> intent_view list \<Rightarrow> rstr list \<Rightarrow> intent_view list" where
  "allowed_hits now rows ids =
     List.map_filter (\<lambda>i. case find (\<lambda>r. iv_id r = i) rows of Some r \<Rightarrow> if row_allows now r then Some r else None | None \<Rightarrow> None) ids"

lemma intent_loop_eq:
  "intent_loop fl now_ms now limit rows ids out d =
     (let xs = take (limit - length out) (allowed_hits now rows ids)
      in (out @ map reminder xs, fold (\<lambda>r. account_fire fl now_ms now (iv_id r)) xs d))"
proof (induction ids arbitrary: out d)
  case (Cons i ids)
  show ?case
  proof (cases "find (\<lambda>r. iv_id r = i) rows")
    case None
    then show ?thesis using Cons by (simp add: allowed_hits_def List.map_filter_simps)
  next
    case (Some r)
    then have i: "iv_id r = i" by (auto simp: find_Some_iff)
    show ?thesis
    proof (cases "row_allows now r")
      case True
      then have "allowed_hits now rows (i # ids) = r # allowed_hits now rows ids"
        using Some by (simp add: allowed_hits_def List.map_filter_simps)
      moreover have "limit - Suc (length out) = n" if "limit - length out = Suc n" for n using that by simp
      ultimately show ?thesis using True Some Cons i
        by (cases "limit - length out") (auto simp: row_allows_def Let_def split: option.splits)
    next
      case False
      then show ?thesis using Some Cons
        by (auto simp: allowed_hits_def List.map_filter_simps row_allows_def split: option.splits)
    qed
  qed
qed (simp add: allowed_hits_def List.map_filter_simps)

lemma intent_scan_eq:
  "intent_scan u fl now_ms now limit msg d =
     (let xs = (if fl CallIntentList = None then take limit (allowed_hits now (intent_list d) (intent_hits u msg (intent_list d))) else [])
      in (map reminder xs, fold (\<lambda>r. account_fire fl now_ms now (iv_id r)) xs d))"
  by (cases "fl CallIntentList") (simp_all add: intent_scan_def intent_loop_eq)

lemma find_SomeD: "find P xs = Some x \<Longrightarrow> x \<in> set xs \<and> P x"
  by (induction xs) (auto split: if_splits)

lemma allowed_hits_Cons:
  "allowed_hits now rows (i # ids) = (case find (\<lambda>r. iv_id r = i) rows of
     Some r \<Rightarrow> if row_allows now r then r # allowed_hits now rows ids else allowed_hits now rows ids
   | None \<Rightarrow> allowed_hits now rows ids)"
  by (simp add: allowed_hits_def List.map_filter_simps split: option.splits)

lemma allowed_hits_sound:
  "r \<in> set (allowed_hits now rows ids) \<Longrightarrow> r \<in> set rows \<and> row_allows now r \<and> iv_id r \<in> set ids"
  by (induction ids) (auto simp: allowed_hits_Cons allowed_hits_def[of _ _ "[]"] List.map_filter_simps
      split: option.splits if_splits dest: find_SomeD)

lemma intent_hits_sound:
  assumes "distinct (map iv_id rows)" "r \<in> set rows" "iv_id r \<in> set (intent_hits u msg rows)"
  shows "\<exists>k \<in> set (iv_keywords r). k \<noteq> [] \<and> contains (lower_str u msg) (lower_str u k)"
proof -
  obtain x where x: "x \<in> set rows" "iv_id x = iv_id r"
    "\<exists>k \<in> set (iv_keywords x). k \<noteq> [] \<and> contains (lower_str u msg) (lower_str u k)"
    using assms(3) unfolding intent_hits_def intent_prefilter_def by auto metis
  have "inj_on iv_id (set rows)" using assms(1) by (simp add: distinct_map)
  then have "x = r" using x(1,2) assms(2) by (simp add: inj_on_eq_iff)
  with x(3) show ?thesis by simp
qed

text \<open>The rows after the walk: exactly the walked ones whose accounting did not fail have fired.\<close>

lemma fires_rows:
  "distinct (map iv_id xs) \<Longrightarrow>
     intents (fold (\<lambda>r. account_fire fl now_ms now (iv_id r)) xs d)
       = update_where (\<lambda>r. ir_id r \<in> iv_id ` set xs \<and> fl (CallMarkFired (ir_id r)) = None) (fired_row now) (intents d)"
proof (induction xs arbitrary: d)
  case (Cons x xs)
  have "update_where (\<lambda>r. ir_id r \<in> iv_id ` set xs \<and> fl (CallMarkFired (ir_id r)) = None) (fired_row now)
         (if fl (CallMarkFired (iv_id x)) = None then update_where (\<lambda>r. ir_id r = iv_id x) (fired_row now) (intents d) else intents d)
      = update_where (\<lambda>r. ir_id r \<in> iv_id ` set (x # xs) \<and> fl (CallMarkFired (ir_id r)) = None) (fired_row now) (intents d)"
    using Cons.prems by (auto simp: update_where_def fired_row_def)
  then show ?case using Cons by (simp add: account_fire_intents)
qed (simp add: update_where_def)

lemma distinct_allowed:
  assumes "distinct ids"
  shows "distinct (map iv_id (allowed_hits now rows ids))"
  using assms
  by (induction ids) (auto simp: allowed_hits_Cons allowed_hits_def[of _ _ "[]"] List.map_filter_simps
      split: option.splits dest!: find_SomeD allowed_hits_sound)

lemma intent_list_set: "set (intent_list d) = intent_view_of ` set (intents d)"
  by (simp add: intent_list_def)

lemma intent_list_distinct: "distinct (map ir_id (intents d)) \<Longrightarrow> distinct (map iv_id (intent_list d))"
proof -
  have "mset (map iv_id (intent_list d)) = mset (map ir_id (intents d))"
    by (simp add: intent_list_def comp_def)
  then show "distinct (map ir_id (intents d)) \<Longrightarrow> distinct (map iv_id (intent_list d))"
    by (metis mset_eq_imp_distinct_iff)
qed

text \<open>One scan, seen from one row: its reminder is injected and the row accounts for it, unless that very call
  failed, or neither.\<close>

lemma fired_row_simps [simp]:
  "ir_id (fired_row now r) = ir_id r" "ir_budget (fired_row now r) = ir_budget r"
  "ir_cooldown_secs (fired_row now r) = ir_cooldown_secs r" "ir_expiry_at (fired_row now r) = ir_expiry_at r"
  "ir_created_at (fired_row now r) = ir_created_at r" "ir_fired_count (fired_row now r) = ir_fired_count r + 1"
  "ir_last_fired_at (fired_row now r) = Some now"
  by (simp_all add: fired_row_def)

lemma scan_step:
  assumes ids: "distinct (map ir_id (intents d))" and r: "r \<in> set (intents d)"
    and scan: "intent_scan u fl now_ms now limit msg d = (ls, d')"
  shows "distinct (map ir_id (intents d')) \<and> length ls \<le> limit
    \<and> (if lit ''intent-'' @ ir_id r \<in> ml_key ` set ls
       then row_allows now (intent_view_of r)
          \<and> (if fl (CallMarkFired (ir_id r)) = None then fired_row now r else r) \<in> set (intents d')
       else r \<in> set (intents d'))"
proof -
  let ?rows = "intent_list d"
  let ?hits = "intent_hits u msg ?rows"
  define xs where "xs = (if fl CallIntentList = None then take limit (allowed_hits now ?rows ?hits) else [])"
  have rows: "distinct (map iv_id ?rows)" by (rule intent_list_distinct[OF ids])
  have "distinct ?hits"
    using rows by (simp add: intent_hits_def intent_prefilter_def distinct_map_filter comp_def)
  then have "distinct (map iv_id (take limit (allowed_hits now ?rows ?hits)))" unfolding take_map[symmetric]
    by (intro distinct_take distinct_allowed)
  then have xs: "distinct (map iv_id xs)" by (simp add: xs_def)
  have ls: "ls = map reminder xs" and d': "intents d' = update_where (\<lambda>r. ir_id r \<in> iv_id ` set xs \<and> fl (CallMarkFired (ir_id r)) = None) (fired_row now) (intents d)"
    using scan fires_rows[OF xs, of fl now_ms now d] unfolding intent_scan_eq Let_def xs_def[symmetric] by auto
  have key: "lit ''intent-'' @ ir_id r \<in> ml_key ` set ls \<longleftrightarrow> ir_id r \<in> iv_id ` set xs"
    by (auto simp: ls reminder_def image_iff)
  have "row_allows now (intent_view_of r)" if "ir_id r \<in> iv_id ` set xs"
  proof -
    from that obtain x where x: "x \<in> set xs" "iv_id x = ir_id r" by auto
    from x(1) have x': "x \<in> set ?rows" "row_allows now x"
      using allowed_hits_sound[of x now ?rows ?hits] in_set_takeD unfolding xs_def by (fastforce split: if_splits)+
    have "inj_on iv_id (set ?rows)" using rows by (simp add: distinct_map)
    moreover have "intent_view_of r \<in> set ?rows" using r by (simp add: intent_list_set)
    ultimately have "x = intent_view_of r" using x'(1) x(2) by (metis inj_onD view_id)
    with x'(2) show ?thesis by simp
  qed
  moreover have "map ir_id (intents d') = map ir_id (intents d)"
    unfolding d' by (rule map_update_where) simp
  moreover have "length ls \<le> limit" by (simp add: ls xs_def)
  moreover have "(if ir_id r \<in> iv_id ` set xs \<and> fl (CallMarkFired (ir_id r)) = None then fired_row now r else r) \<in> set (intents d')"
    using r by (force simp: d' update_where_def)
  ultimately show ?thesis using ids key
    by (cases "fl (CallMarkFired (ir_id r)) = None"; cases "ir_id r \<in> iv_id ` set xs") (simp_all del: lit_Cons)
qed

lemma as_u32_id: "0 \<le> i \<Longrightarrow> i < 2 ^ 32 \<Longrightarrow> as_u32 i = nat i"
  by (simp add: as_u32_def)

lemma row_allowsD:
  assumes "row_allows now (intent_view_of r)" "0 \<le> ir_fired_count r" "ir_fired_count r \<le> ir_budget r" "ir_budget r < 2 ^ 32"
  shows "ir_fired_count r < ir_budget r"
    "ir_last_fired_at r = Some p \<Longrightarrow> ir_cooldown_secs r \<le> now - p"
    "ir_expiry_at r = Some e \<Longrightarrow> now \<le> e"
proof -
  let ?v = "intent_view_of r"
  obtain st cfg where nag: "nag_of_row ?v = Some (st, cfg)" and ok: "allow_fire st now cfg = AllowFire"
    using assms(1) by (auto simp: row_allows_def split: option.splits)
  have f: "fired_count st = as_u32 (ir_fired_count r)" "last_fired_secs st = ir_last_fired_at r" "created_secs st = ir_created_at r"
    "nag_budget cfg = as_u32 (ir_budget r)" "cooldown_secs cfg = ir_cooldown_secs r"
    "ir_expiry_at r = Some e \<Longrightarrow> 0 < expiry_secs cfg \<and> expiry_secs cfg = e - ir_created_at r" for e
    using nag by (auto simp: nag_of_row_def Let_def intent_view_of_def split: option.splits if_splits)
  note ok' = allow_fireD[OF ok]
  show "ir_fired_count r < ir_budget r" using ok'(1) assms(2-4) by (simp add: f as_u32_id)
  show "ir_last_fired_at r = Some p \<Longrightarrow> ir_cooldown_secs r \<le> now - p" using ok'(3) by (simp add: f)
  show "ir_expiry_at r = Some e \<Longrightarrow> now \<le> e" using ok'(2) f(3) f(6)[of e] by simp
qed

text \<open>The times at which an intent's reminder is injected over a sequence of messages, each with the store calls that fail
  for it, and whether the reminder was accounted for.\<close>

fun reminder_run :: "platform \<Rightarrow> nat \<Rightarrow> rstr \<Rightarrow> (int \<times> rstr \<times> faults) list \<Rightarrow> db \<Rightarrow> (int \<times> bool) list" where
  "reminder_run u limit i [] d = []"
| "reminder_run u limit i ((now, msg, fl) # xs) d =
     (let (ls, d') = intent_scan u fl (now * 1000) now limit msg d
      in (if lit ''intent-'' @ i \<in> ml_key ` set ls then [(now, fl (CallMarkFired i) = None)] else []) @ reminder_run u limit i xs d')"

text \<open>What the limits of an intent allow: before each reminder the accounted ones are fewer than the budget, the cooldown has passed
  since the last accounted one, and the intent has not expired.\<close>

fun within_limits :: "int \<Rightarrow> int \<Rightarrow> int option \<Rightarrow> int \<Rightarrow> int option \<Rightarrow> (int \<times> bool) list \<Rightarrow> bool" where
  "within_limits most gap expiry fired prev [] \<longleftrightarrow> True"
| "within_limits most gap expiry fired prev ((t, accounted) # ts) \<longleftrightarrow>
     fired < most \<and> (case prev of Some p \<Rightarrow> gap \<le> t - p | None \<Rightarrow> True) \<and> (case expiry of Some e \<Rightarrow> t \<le> e | None \<Rightarrow> True)
     \<and> within_limits most gap expiry (if accounted then fired + 1 else fired) (if accounted then Some t else prev) ts"

lemma within_limits_count:
  "within_limits most gap expiry fired prev ts \<Longrightarrow> fired \<le> most \<Longrightarrow> int (length (filter snd ts)) + fired \<le> most"
  by (induction most gap expiry fired prev ts rule: within_limits.induct) (auto split: if_splits)

text \<open>C19. Over any sequence of messages, scanned one after the other, a standing intent is brought up only while its accounted
  reminders are fewer than its budget, after its cooldown since the last accounted one, and not after its
  expiry; count and last time are in the store, so the limits hold across turns and restarts.  Without failing
  store calls all reminders are accounted; a reminder whose accounting fails is injected all the same and
  does not count.\<close>

theorem reminders_within_limits:
  assumes "distinct (map ir_id (intents d))" "r \<in> set (intents d)"
    and "0 \<le> ir_fired_count r" "ir_fired_count r \<le> ir_budget r" "ir_budget r < 2 ^ 32"
  shows "within_limits (ir_budget r) (ir_cooldown_secs r) (ir_expiry_at r) (ir_fired_count r) (ir_last_fired_at r)
      (reminder_run u limit (ir_id r) xs d)
    \<and> int (length (filter snd (reminder_run u limit (ir_id r) xs d))) + ir_fired_count r \<le> ir_budget r"
proof -
  have "within_limits (ir_budget r) (ir_cooldown_secs r) (ir_expiry_at r) (ir_fired_count r) (ir_last_fired_at r)
      (reminder_run u limit (ir_id r) xs d)"
    using assms
  proof (induction xs arbitrary: d r)
    case (Cons x xs)
    obtain now msg fl where x: "x = (now, msg, fl)" by (cases x) auto
    obtain ls d' where scan: "intent_scan u fl (now * 1000) now limit msg d = (ls, d')"
      by (cases "intent_scan u fl (now * 1000) now limit msg d") auto
    note step = scan_step[OF Cons.prems(1,2) scan]
    show ?case
    proof (cases "lit ''intent-'' @ ir_id r \<in> ml_key ` set ls")
      case True
      let ?ok = "fl (CallMarkFired (ir_id r)) = None"
      have run: "reminder_run u limit (ir_id r) (x # xs) d = (now, ?ok) # reminder_run u limit (ir_id r) xs d'"
        using True by (simp add: x scan del: lit_Cons)
      from step True have s: "row_allows now (intent_view_of r)" "(if ?ok then fired_row now r else r) \<in> set (intents d')"
        "distinct (map ir_id (intents d'))" by (simp_all del: lit_Cons)
      note a = row_allowsD[OF s(1) Cons.prems(3-5)]
      have "within_limits (ir_budget r) (ir_cooldown_secs r) (ir_expiry_at r) (if ?ok then ir_fired_count r + 1 else ir_fired_count r)
          (if ?ok then Some now else ir_last_fired_at r) (reminder_run u limit (ir_id r) xs d')"
        using Cons.IH[OF s(3,2)] Cons.prems(3-5) a(1) by (cases "fl (CallMarkFired (ir_id r))") simp_all
      then show ?thesis unfolding run using a by (simp split: option.splits)
    next
      case False
      then have "reminder_run u limit (ir_id r) (x # xs) d = reminder_run u limit (ir_id r) xs d'"
        by (simp add: x scan del: lit_Cons)
      moreover have "distinct (map ir_id (intents d'))" "r \<in> set (intents d')"
        using step False by (simp_all del: lit_Cons)
      ultimately show ?thesis using Cons.IH Cons.prems(3-5) by simp
    qed
  qed simp
  then show ?thesis using within_limits_count assms(4) by blast
qed

definition tea_intent :: intent_row where
  "tea_intent = \<lparr> ir_id = [1], ir_text = lit ''buy tea'', ir_keywords = Some (lit ''tea''), ir_cooldown_secs = 60,
     ir_budget = 2, ir_fired_count = 0, ir_last_fired_at = None, ir_expiry_at = Some 900, ir_created_at = 0 \<rparr>"

definition tea_faults :: faults where
  "tea_faults = (\<lambda>c. if c = CallMarkFired [1] then Some NoRow else None)"

lemma reminders_within_limits_witness:
  "reminder_run ascii_platform 3 [1] [(5, lit ''Tea?'', tea_faults), (9, lit ''tea'', no_faults), (20, lit ''tea'', no_faults)]
       (db_empty\<lparr>intents := [tea_intent]\<rparr>) = [(5, False), (9, True)]
   \<and> within_limits 2 60 (Some 900) 0 None (reminder_run ascii_platform 3 [1]
        [(5, lit ''Tea?'', tea_faults), (9, lit ''tea'', no_faults), (20, lit ''tea'', no_faults)] (db_empty\<lparr>intents := [tea_intent]\<rparr>))"
proof
  let ?xs = "[(5, lit ''Tea?'', tea_faults), (9, lit ''tea'', no_faults), (20, lit ''tea'', no_faults)]"
  show "reminder_run ascii_platform 3 [1] ?xs (db_empty\<lparr>intents := [tea_intent]\<rparr>) = [(5, False), (9, True)]"
    by code_simp
  show "within_limits 2 60 (Some 900) 0 None (reminder_run ascii_platform 3 [1] ?xs (db_empty\<lparr>intents := [tea_intent]\<rparr>))"
    using reminders_within_limits[of "db_empty\<lparr>intents := [tea_intent]\<rparr>" tea_intent ascii_platform 3 ?xs]
    by (simp add: tea_intent_def del: lit_Cons reminder_run.simps within_limits.simps)
qed

section \<open>Injected memories\<close>

text \<open>Before a run at most the configured number of memories is injected, and each of them is a
  curated memory of the store whose text shares a term with the message: episodes never reach the
  prompt by this way, whatever the store answers.\<close>

theorem lane1_only_curated:
  "length (lane1_bootstrap u fl n msg d) \<le> n
   \<and> (\<forall>l \<in> set (lane1_bootstrap u fl n msg d).
        \<exists>r \<in> set (memories d). mr_tier r = lit ''curated'' \<and> ml_key l = mr_id r \<and> ml_text l = mr_text r
          \<and> (\<exists>t \<in> set (tokenize msg). like ([37] @ t @ [37]) (mr_text r)))"
proof (cases "tokenize msg = [] \<or> fl CallSearch \<noteq> None")
  case True
  then have "lane1_bootstrap u fl n msg d = []" by (auto simp: lane1_bootstrap_def Let_def)
  then show ?thesis by simp
next
  case False
  let ?rows = "search_candidates (lower_of u) (alnum_of u) (tokenize msg) (Some TierCurated) 32 d"
  let ?cs = "map lane1_candidate ?rows"
  let ?hits = "trigger_prefilter (lower_str u) ?cs (tokenize msg) n"
  let ?line = "\<lambda>i. map_option (\<lambda>c. \<lparr> ml_key = mc_id c, ml_text = mc_text c \<rparr>) (find (\<lambda>c. mc_id c = i) ?cs)"
  have eq: "lane1_bootstrap u fl n msg d = List.map_filter ?line ?hits"
    using False by (simp add: lane1_bootstrap_def Let_def)
  have rows: "r \<in> set (memories d) \<and> mr_tier r = lit ''curated'' \<and> (\<exists>t \<in> set (tokenize msg). like ([37] @ t @ [37]) (mr_text r))"
    if "r \<in> set ?rows" for r
    using that False unfolding search_candidates_def
    by (auto simp: sql_limit_def tier_ok_def like_any_def simp del: lit_Cons split: option.splits dest: in_set_takeD)
  have "length (List.map_filter f xs) \<le> length xs" for f :: "rstr \<Rightarrow> mem_line option" and xs
    by (induction xs) (auto simp: List.map_filter_simps split: option.splits)
  moreover have "length ?hits \<le> n" by (simp add: trigger_prefilter_def Let_def)
  ultimately have "length (lane1_bootstrap u fl n msg d) \<le> n" unfolding eq by (meson le_trans)
  moreover have "\<exists>r \<in> set ?rows. ml_key l = mr_id r \<and> ml_text l = mr_text r" if "l \<in> set (List.map_filter ?line ?hits)" for l
  proof -
    from that obtain i c where c: "find (\<lambda>c. mc_id c = i) ?cs = Some c" "l = \<lparr> ml_key = mc_id c, ml_text = mc_text c \<rparr>"
      by (auto simp: set_map_filter)
    from find_SomeD[OF c(1)] c(2) show ?thesis by (auto simp: lane1_candidate_def)
  qed
  ultimately show ?thesis unfolding eq using rows by blast
qed

lemma lane1_only_curated_witness:
  "\<exists>l. lane1_bootstrap ascii_platform no_faults 3 (lit ''use emacs?'') emacs_db = [l]
     \<and> (\<exists>r \<in> set (memories emacs_db). mr_tier r = lit ''curated'' \<and> ml_text l = mr_text r)"
proof -
  have "length (lane1_bootstrap ascii_platform no_faults 3 (lit ''use emacs?'') emacs_db) = 1" by code_simp
  then obtain l where l: "lane1_bootstrap ascii_platform no_faults 3 (lit ''use emacs?'') emacs_db = [l]"
    by (auto simp: length_Suc_conv simp del: lit_Cons)
  with lane1_only_curated[of ascii_platform no_faults 3 "lit ''use emacs?''" emacs_db] show ?thesis by (auto simp del: lit_Cons)
qed

section \<open>Episodes\<close>

lemma write_episodes_texts:
  "memory_inv (lower_of u) (alnum_of u) d \<Longrightarrow>
     memory_inv (lower_of u) (alnum_of u) (snd (write_episodes u no_faults now sid cs n d))
     \<and> memory_texts (snd (write_episodes u no_faults now sid cs n d))
         = fold (\<lambda>c f. f(memory_id (ec_content c) \<mapsto> ec_content c)) cs (memory_texts d)
     \<and> fst (write_episodes u no_faults now sid cs n d) = n + length cs"
proof (induction cs arbitrary: n d)
  case (Cons c cs)
  obtain d' where up: "upsert_memory (lower_of u) (alnum_of u) now (episode_row sid c) d = Inr d'"
    by (rule upsert_total[OF Cons.prems])
  have "nm_id (episode_row sid c) = memory_id (ec_content c)" "nm_text (episode_row sid c) = ec_content c"
    by (simp_all add: episode_row_def)
  then show ?case using Cons.IH[OF upsert_inv[OF Cons.prems up]] texts_upsert[OF Cons.prems up] up by simp
qed simp

lemma fold_upd: "fold (\<lambda>c f. f(k c \<mapsto> v c)) cs f = f ++ map_of (rev (map (\<lambda>c. (k c, v c)) cs))"
  by (induction cs arbitrary: f) (simp_all add: map_add_def fun_eq_iff split: option.splits)

lemma episodes_stay_episodes:
  "memory_inv (lower_of u) (alnum_of u) d \<Longrightarrow>
     r \<in> set (memories (snd (write_episodes u fl now sid cs n d))) \<Longrightarrow> mr_tier r = lit ''curated'' \<Longrightarrow>
     \<exists>r' \<in> set (memories d). mr_id r' = mr_id r \<and> mr_tier r' = lit ''curated''"
proof (induction cs arbitrary: n d)
  case (Cons c cs)
  let ?m = "episode_row sid c"
  obtain d1 where up: "upsert_memory (lower_of u) (alnum_of u) now ?m d = Inr d1"
    by (rule upsert_total[OF Cons.prems(1)])
  have kept: "\<exists>r' \<in> set (memories d). mr_id r' = mr_id x \<and> mr_tier r' = lit ''curated''"
    if "x \<in> set (memories d1)" "mr_tier x = lit ''curated''" for x
    using that upsert_rows[OF up]
    by (auto simp: update_where_def fresh_memory_def overwrite_memory_def episode_row_def tier_str_def split: if_splits)
  show ?case
  proof (cases "fl (CallUpsertMemory (memory_id (ec_content c)))")
    case None
    then have "r \<in> set (memories (snd (write_episodes u fl now sid cs (n + 1) d1)))" using Cons.prems(2) up by simp
    from Cons.IH[OF upsert_inv[OF Cons.prems(1) up] this Cons.prems(3)] kept show ?thesis by force
  next
    case (Some e)
    then show ?thesis using Cons by simp
  qed
qed auto

text \<open>Keeping a conversation's episodes adds each candidate's text under the id made from it, keeps
  the table's invariant, and is idempotent: the same conversation flushed again changes no text.  It
  never makes a memory curated.\<close>

theorem flush_adds_episodes_once:
  assumes "memory_inv (lower_of u) (alnum_of u) d"
    and "flush_episodic u no_faults now sid es d = (n, d')"
  shows "memory_texts d' = memory_texts d ++ map_of (rev (map (\<lambda>c. (memory_id (ec_content c), ec_content c))
            (extract_episode_candidates (lower_str u) (map conversation_of es))))
    \<and> n = length (extract_episode_candidates (lower_str u) (map conversation_of es))
    \<and> memory_inv (lower_of u) (alnum_of u) d'
    \<and> memory_texts (snd (flush_episodic u no_faults later sid' es d')) = memory_texts d'
    \<and> (\<forall>r \<in> set (memories d'). mr_tier r = lit ''curated'' \<longrightarrow>
         (\<exists>r' \<in> set (memories d). mr_id r' = mr_id r \<and> mr_tier r' = lit ''curated''))"
proof -
  let ?cs = "extract_episode_candidates (lower_str u) (map conversation_of es)"
  let ?m = "map_of (rev (map (\<lambda>c. (memory_id (ec_content c), ec_content c)) ?cs))"
  have d': "d' = snd (write_episodes u no_faults now sid ?cs 0 d)" "n = fst (write_episodes u no_faults now sid ?cs 0 d)"
    using assms(2) by (simp_all add: flush_episodic_def)
  note w = write_episodes_texts[OF assms(1), of now sid ?cs 0, folded d', unfolded fold_upd]
  have "memory_texts (snd (flush_episodic u no_faults later sid' es d')) = memory_texts d' ++ ?m"
    using write_episodes_texts[of u d' later sid' ?cs 0] w by (simp add: flush_episodic_def fold_upd)
  moreover have "memory_texts d' ++ ?m = memory_texts d'" using w by (simp add: map_add_def fun_eq_iff split: option.splits)
  ultimately show ?thesis using w episodes_stay_episodes[OF assms(1)] unfolding d'(1) by simp
qed

definition sample_entry :: "store_role \<Rightarrow> rstr \<Rightarrow> entry" where
  "sample_entry g c = \<lparr> en_id = 1, en_session_id = [7], en_seq = 1, en_role = g, en_content = c, en_tokens_est = 1,
     en_tool_calls = None, en_tool_call_id = None, en_created_at = 0 \<rparr>"

lemma flush_adds_episodes_once_witness:
  "\<exists>n d'. flush_episodic ascii_platform no_faults 5 [7] [sample_entry RoleUser (lit ''where is it''), sample_entry RoleAssistant (lit ''over there'')] emacs_db = (n, d')
     \<and> n = 1 \<and> memory_inv lower_char is_ascii_alnum d'"
proof -
  let ?es = "[sample_entry RoleUser (lit ''where is it''), sample_entry RoleAssistant (lit ''over there'')]"
  obtain n d' where f: "flush_episodic ascii_platform no_faults 5 [7] ?es emacs_db = (n, d')"
    by (cases "flush_episodic ascii_platform no_faults 5 [7] ?es emacs_db") auto
  have "explicit_content to_ascii_lowercase (lit ''where is it'') = None" by code_simp
  then have "length (extract_episode_candidates (lower_str ascii_platform) (map conversation_of ?es)) = 1"
    by (simp add: extract_episode_candidates_def conversation_of_def sample_entry_def ascii_platform_def
          MIN_PAIR_CHARS_def trim_def trim_start_def trim_end_def is_ws_def)
  with flush_adds_episodes_once[OF emacs_db_facts(1) f] f show ?thesis by (auto simp: ascii_platform_def)
qed

end
