(* ===== verification/Session_Compact.thy ===== *)
theory Session_Compact
  imports Session_Memory Run_Request
begin

text \<open>
  The rolling summary of a session: \<open>crates/oc-server/src/summarize.rs\<close> (one model call, bounded in
  time, answering a text or nothing) and the compaction of \<open>session.rs\<close>.  Between the two halves of
  \<open>compact_core\<close>, loading and writing, a background compaction lets the next run write entries; the
  provider is the function \<open>ask\<close> from the request to what its stream gives within the time limit.
\<close>

section \<open>Configuration of a session\<close>

record session_cfg =
  sc_model :: rstr
  sc_system_prompt :: "rstr option"
  sc_provider_id :: rstr
  sc_endpoint :: "rstr option"
  sc_queue_cap :: nat
  sc_tools :: "tool_spec list option"
  sc_warn_secs :: nat
  sc_abort_min_secs :: nat
  sc_max_history_entries :: int
  sc_history_token_budget :: int
  sc_auto_compact :: bool
  sc_soul :: rstr
  sc_skills :: "skill list"
  sc_trigger_max_per_turn :: nat
  sc_context_window :: nat
  sc_max_output :: "nat option"
  sc_intent_max_per_turn :: nat
  sc_default_tz :: rstr

section \<open>The summary\<close>

datatype summary_answer = SumTimeout | SumOpenErr | SumStream "delta option list"

text \<open>The items of the stream up to its end; \<open>None\<close> is an error.\<close>

fun collect_summary :: "delta option list \<Rightarrow> rstr \<Rightarrow> rstr" where
  "collect_summary [] acc = acc"
| "collect_summary (None # xs) acc = acc"
| "collect_summary (Some (DText t) # xs) acc = collect_summary xs (acc @ t)"
| "collect_summary (Some (DDone r) # xs) acc = acc"
| "collect_summary (Some _ # xs) acc = collect_summary xs acc"

definition msg_role_str :: "msg_role \<Rightarrow> rstr" where
  "msg_role_str r = (case r of MSystem \<Rightarrow> lit ''system'' | MUser \<Rightarrow> lit ''user''
     | MAssistant \<Rightarrow> lit ''assistant'' | MTool \<Rightarrow> lit ''tool'')"

definition summary_request :: "rstr \<Rightarrow> message list \<Rightarrow> model_request" where
  "summary_request model msgs =
     \<lparr> rq_model = model, rq_system = Some summarization_system_prompt,
       rq_messages = [plain_msg MUser (build_summary_prompt
          (map (\<lambda>m. \<lparr> sm_role = msg_role_str (m_role m), sm_content = m_content m \<rparr>) msgs))],
       rq_tools = [], rq_max_tokens = None, rq_temperature = None \<rparr>"

definition summarize_msgs :: "(model_request \<Rightarrow> summary_answer) \<Rightarrow> rstr \<Rightarrow> message list \<Rightarrow> rstr option" where
  "summarize_msgs ask model msgs =
     (if msgs = [] then None
      else let text = trim (case ask (summary_request model msgs) of
                  SumTimeout \<Rightarrow> [] | SumOpenErr \<Rightarrow> [] | SumStream xs \<Rightarrow> collect_summary xs [])
           in if text = [] then None else Some text)"

section \<open>Compaction\<close>

datatype compact_outcome = Summarized nat | TooShort nat | CompactFailed rstr

definition fail_load :: rstr where "fail_load = [21152, 36733, 21382, 21490, 20986, 38169]"
definition fail_summary :: rstr where "fail_summary = [25688, 35201, 29983, 25104, 20026, 31354, 25110, 36229, 26102]"
definition fail_write :: rstr where "fail_write = [20889, 20837, 20986, 38169]"

definition compact_message :: "entry \<Rightarrow> message" where
  "compact_message e = plain_msg (case en_role e of RoleAssistant \<Rightarrow> MAssistant | RoleSystem \<Rightarrow> MSystem
     | RoleTool \<Rightarrow> MUser | RoleUser \<Rightarrow> MUser) (en_content e)"

record compact_job =
  cj_msgs :: "message list"
  cj_up_to :: int
  cj_older :: nat

text \<open>Load the transcript, split off the recent entries, keep the episodes of the rest.\<close>

definition compact_prepare :: "platform \<Rightarrow> faults \<Rightarrow> session_cfg \<Rightarrow> int \<Rightarrow> rstr \<Rightarrow> db \<Rightarrow> (compact_outcome + compact_job) \<times> db" where
  "compact_prepare u fl cfg now sid d =
     (let keep = keep_recent cfg_default in
      case attempt (fl CallLoadTranscript) (Inr (load_transcript sid (sc_max_history_entries cfg) d)) of
        Inl _ \<Rightarrow> (Inl (CompactFailed fail_load), d)
      | Inr es \<Rightarrow>
          if length es \<le> keep + 1 then (Inl (TooShort (length es)), d)
          else let older = take (length es - keep) es;
                   up_to = (if older = [] then 0 else en_seq (last older))
               in (Inr \<lparr> cj_msgs = map compact_message older, cj_up_to = up_to, cj_older = length older \<rparr>,
                   snd (flush_episodic u fl now sid older d)))"

text \<open>Ask for the summary and write it.\<close>

definition compact_commit :: "faults \<Rightarrow> (model_request \<Rightarrow> summary_answer) \<Rightarrow> session_cfg \<Rightarrow> int \<Rightarrow> rstr \<Rightarrow> compact_job \<Rightarrow> db \<Rightarrow> compact_outcome \<times> db" where
  "compact_commit fl ask cfg now sid j d =
     (case summarize_msgs ask (sc_model cfg) (cj_msgs j) of
        None \<Rightarrow> (CompactFailed fail_summary, d)
      | Some summary \<Rightarrow>
          (case attempt (fl CallCompact) (compact_with_summary now sid (cj_up_to j) summary d) of
             Inl _ \<Rightarrow> (CompactFailed fail_write, d)
           | Inr d' \<Rightarrow> (Summarized (cj_older j), d')))"

definition compact_core :: "platform \<Rightarrow> faults \<Rightarrow> (model_request \<Rightarrow> summary_answer) \<Rightarrow> session_cfg \<Rightarrow> int \<Rightarrow> rstr \<Rightarrow> db \<Rightarrow> compact_outcome \<times> db" where
  "compact_core u fl ask cfg now sid d =
     (case compact_prepare u fl cfg now sid d of
        (Inl r, d') \<Rightarrow> (r, d')
      | (Inr j, d') \<Rightarrow> compact_commit fl ask cfg now sid j d')"

text \<open>The notice a manual compaction sends.\<close>

definition compact_busy :: rstr where "compact_busy = [27491, 22312, 21387, 32553, 20013, 65292, 35831, 31245, 21518, 20877, 35797]"

definition compact_notice :: "compact_outcome \<Rightarrow> rstr" where
  "compact_notice r = (case r of
     Summarized n \<Rightarrow> [24050, 21387, 32553, 19978, 19979, 25991, 65306] @ show_nat n @ (lit '' '' @ [26465, 21382, 21490, 28040, 24687, 24635, 32467, 20026, 25688, 35201])
   | TooShort n \<Rightarrow> [24403, 21069, 19978, 19979, 25991, 36739, 30701, 65288] @ show_nat n @ (lit '' '' @ [26465, 65289, 65292, 26080, 38656, 21387, 32553])
   | CompactFailed step \<Rightarrow> [21387, 32553, 22833, 36133, 65306] @ step)"

text \<open>The water mark of the automatic compaction.\<close>

definition auto_compact_due :: "faults \<Rightarrow> session_cfg \<Rightarrow> rstr \<Rightarrow> db \<Rightarrow> bool" where
  "auto_compact_due fl cfg sid d =
     (case attempt (fl CallLoadTranscript) (Inr (load_transcript sid (sc_max_history_entries cfg) d)) of
        Inl _ \<Rightarrow> False
      | Inr es \<Rightarrow> trunc_div (sc_history_token_budget cfg * 4) 5 < sum_list (map (\<lambda>e. max (en_tokens_est e) 1) es))"

section \<open>Facts\<close>

text \<open>Episodes touch neither entries nor sessions.\<close>

lemma upsert_transcript:
  "upsert_memory lc alnum now m d = Inr d' \<Longrightarrow> entries d' = entries d \<and> sessions d' = sessions d \<and> last_entry_id d' = last_entry_id d"
  by (auto simp: upsert_memory_def Let_def index_memory_text_def split: option.splits if_splits)

lemma write_episodes_transcript:
  "entries (snd (write_episodes u fl now sid cs n d)) = entries d
   \<and> sessions (snd (write_episodes u fl now sid cs n d)) = sessions d
   \<and> last_entry_id (snd (write_episodes u fl now sid cs n d)) = last_entry_id d"
proof (induction cs arbitrary: n d)
  case (Cons c cs)
  show ?case
  proof (cases "attempt (fl (CallUpsertMemory (memory_id (ec_content c))))
             (upsert_memory (lower_of u) (alnum_of u) now (episode_row sid c) d)")
    case (Inl e)
    then show ?thesis using Cons by simp
  next
    case (Inr d')
    then have "upsert_memory (lower_of u) (alnum_of u) now (episode_row sid c) d = Inr d'"
      by (cases "fl (CallUpsertMemory (memory_id (ec_content c)))") auto
    with upsert_transcript[OF this] Inr Cons show ?thesis by simp
  qed
qed simp

lemma transcript_cong:
  assumes "entries d' = entries d" "sessions d' = sessions d"
  shows "session_entries sid d' = session_entries sid d" "find_session sid d' = find_session sid d"
    "max_seq sid d' = max_seq sid d" "reset_at sid d' = reset_at sid d" "load_transcript sid n d' = load_transcript sid n d"
    "visible sid d' = visible sid d" "transcript_inv d' = transcript_inv d"
proof -
  show e: "\<And>sid. session_entries sid d' = session_entries sid d" by (simp add: session_entries_def assms)
  show f: "\<And>sid. find_session sid d' = find_session sid d" by (simp add: find_session_def assms)
  show m: "\<And>sid. max_seq sid d' = max_seq sid d" by (simp add: max_seq_def e)
  show r: "\<And>sid. reset_at sid d' = reset_at sid d" by (simp add: reset_at_def f)
  show l: "\<And>n sid. load_transcript sid n d' = load_transcript sid n d" by (simp add: load_transcript_def e r)
  show "visible sid d' = visible sid d" by (simp add: visible_def l)
  show "transcript_inv d' = transcript_inv d" unfolding transcript_inv_def e f m r assms ..
qed

lemma compact_prepare_transcript:
  assumes "compact_prepare u fl cfg now sid d = (r, d')"
  shows "entries d' = entries d" "sessions d' = sessions d"
  using assms write_episodes_transcript
  by (auto simp: compact_prepare_def Let_def flush_episodic_def split: sum.splits if_splits)

lemma visible_sorted: "transcript_inv d \<Longrightarrow> sorted_wrt (\<lambda>a b. en_seq a < en_seq b) (visible sid d)"
  unfolding load_transcript_eq(2) using sorted_wrt_filter[OF seqs_ascending, of d "\<lambda>e. reset_at sid d < er_seq e" sid]
  by (simp add: sorted_wrt_map read_entry_def)

lemma visible_range:
  assumes "transcript_inv d" "e \<in> set (visible sid d)"
  shows "en_seq e \<le> max_seq sid d"
  using assms seq_range[OF assms(1)] unfolding load_transcript_eq(2)[OF assms(1)] by (auto simp: read_entry_def)

lemma filter_after_nth:
  fixes f :: "'a \<Rightarrow> int"
  assumes "sorted_wrt (\<lambda>a b. f a < f b) xs" "k < length xs"
  shows "filter (\<lambda>e. f (xs ! k) < f e) xs = drop (Suc k) xs"
proof -
  have "filter (\<lambda>e. f (xs ! k) < f e) (take (Suc k) xs) = []"
    using assms by (auto simp: filter_empty_conv in_set_conv_nth sorted_wrt_iff_nth_less less_Suc_eq) (meson less_asym)
  moreover have "filter (\<lambda>e. f (xs ! k) < f e) (drop (Suc k) xs) = drop (Suc k) xs"
    using assms by (intro filter_True) (auto simp: in_set_conv_nth sorted_wrt_iff_nth_less)
  ultimately show ?thesis by (metis append_Nil append_take_drop_id filter_append)
qed

lemma rev_sql_limit: "\<exists>m. rev (sql_limit n (rev xs)) = drop m xs"
  by (cases "n < 0") (auto simp: sql_limit_def take_rev intro: exI[of _ 0])

text \<open>The job of a compaction: the visible entries less the recent ones, up to the last of them.\<close>

lemma compact_job:
  assumes inv: "transcript_inv d" and prep: "compact_prepare u fl cfg now sid d = (Inr j, d1)"
  shows "7 < length (visible sid d)" "cj_up_to j = en_seq (visible sid d ! (length (visible sid d) - 7))"
    "\<exists>m. cj_msgs j = map compact_message (drop m (take (length (visible sid d) - 6) (visible sid d))) \<and> cj_older j = length (cj_msgs j)"
proof -
  let ?V = "visible sid d"
  obtain m where es: "load_transcript sid (sc_max_history_entries cfg) d = drop m ?V"
    using rev_sql_limit[of "sc_max_history_entries cfg" ?V] unfolding load_transcript_eq(1)[OF inv] by blast
  have keep: "keep_recent cfg_default = 6" by (simp add: cfg_default_def)
  have len: "7 < length ?V - m"
    and j: "j = (let older = take (length (drop m ?V) - 6) (drop m ?V) in
        \<lparr> cj_msgs = map compact_message older, cj_up_to = (if older = [] then 0 else en_seq (last older)), cj_older = length older \<rparr>)"
    using prep unfolding compact_prepare_def keep es
    by (auto simp: Let_def split: if_splits sum.splits simp: attempt_def split: option.splits)
  let ?old = "take (length ?V - m - 6) (drop m ?V)"
  have old: "?old = drop m (take (length ?V - 6) ?V)" using len by (simp add: drop_take add.commute)
  have "0 < length ?old" using len by (simp only: length_take length_drop)
  then have "?old \<noteq> []" by blast
  moreover have "last ?old = ?V ! (length ?V - 7)"
    using len \<open>?old \<noteq> []\<close> by (simp add: last_conv_nth)
  ultimately show "7 < length ?V" "cj_up_to j = en_seq (?V ! (length ?V - 7))"
    "\<exists>m. cj_msgs j = map compact_message (drop m (take (length ?V - 6) ?V)) \<and> cj_older j = length (cj_msgs j)"
    using len old unfolding j Let_def by auto
qed

section \<open>Properties\<close>

text \<open>C15. A compaction that reports success hides exactly the entries it summarised or that came before
  them: the six most recent ones stay, in order, followed by whatever was written while the summary
  was being made, and the summary is the last entry; in a manual compaction nothing is written
  meanwhile.  One that reports a short history or a failure leaves what is visible as it was.\<close>

theorem compaction_keeps_recent:
  assumes "transcript_inv d" "compact_prepare u fl cfg now sid d = (Inr j, d1)"
    and "transcript_inv d2" "visible sid d2 = visible sid d1 @ new"
    and "compact_commit fl' ask cfg now' sid j d2 = (r, d3)"
  shows "(case r of
      Summarized n \<Rightarrow> transcript_inv d3 \<and> n = length (cj_msgs j) \<and>
        (\<exists>x summary. summarize_msgs ask (sc_model cfg) (cj_msgs j) = Some summary
           \<and> en_content x = summary_heading @ summary \<and> en_role x = RoleSystem
           \<and> visible sid d3 = drop (length (visible sid d) - 6) (visible sid d) @ new @ [x])
    | _ \<Rightarrow> d3 = d2)"
proof (cases r)
  case (Summarized n)
  note job = compact_job[OF assms(1,2)]
  let ?V = "visible sid d"
  have V1: "visible sid d1 = ?V" by (rule transcript_cong(6)[OF compact_prepare_transcript[OF assms(2)]])
  obtain summary where su: "summarize_msgs ask (sc_model cfg) (cj_msgs j) = Some summary" "n = cj_older j"
    and w: "compact_with_summary now' sid (cj_up_to j) summary d2 = Inr d3"
    using assms(5) Summarized by (auto simp: compact_commit_def attempt_def split: option.splits sum.splits)
  let ?k = "length ?V - 7"
  have k: "?k < length (visible sid d2)" "visible sid d2 ! ?k = ?V ! ?k" "Suc ?k = length ?V - 6"
    using job(1) by (simp_all add: assms(4) V1 nth_append)
  have up: "cj_up_to j = en_seq (visible sid d2 ! ?k)" using job(2) k(2) by simp
  have "cj_up_to j \<le> max_seq sid d2"
    using visible_range[OF assms(3), of "visible sid d2 ! ?k" sid] k(1) up by simp
  note vc = visible_compact[OF assms(3) w this]
  have "filter (\<lambda>e. cj_up_to j < en_seq e) (visible sid d2) = drop (length ?V - 6) ?V @ new"
    unfolding up filter_after_nth[OF visible_sorted[OF assms(3)] k(1)] k(3)
    using job(1) by (simp add: assms(4) V1)
  with vc su job(3) show ?thesis using Summarized by auto
next
  case (TooShort n)
  then show ?thesis using assms(5) by (auto simp: compact_commit_def split: option.splits sum.splits)
next
  case (CompactFailed m)
  then show ?thesis using assms(5) by (auto simp: compact_commit_def split: option.splits sum.splits)
qed

definition talk_db :: "db option" where
  "talk_db = append_entries 5 (replicate 8 (new_entry_text [115] RoleUser [104] 1)) one_session"

definition plain_cfg :: session_cfg where
  "plain_cfg = \<lparr> sc_model = [109], sc_system_prompt = None, sc_provider_id = [112], sc_endpoint = None,
     sc_queue_cap = 2, sc_tools = None, sc_warn_secs = 30, sc_abort_min_secs = 60, sc_max_history_entries = 200,
     sc_history_token_budget = 8000, sc_auto_compact = True, sc_soul = [], sc_skills = [],
     sc_trigger_max_per_turn = 3, sc_context_window = 128000, sc_max_output = None, sc_intent_max_per_turn = 3,
     sc_default_tz = [] \<rparr>"

lemma compaction_keeps_recent_witness:
  "\<exists>d j d1 r d3. talk_db = Some d \<and> compact_prepare ascii_platform no_faults plain_cfg 5 [115] d = (Inr j, d1)
     \<and> compact_commit no_faults (\<lambda>_. SumStream [Some (DText [33])]) plain_cfg 6 [115] j d1 = (r, d3)
     \<and> (case r of Summarized n \<Rightarrow> transcript_inv d3 | _ \<Rightarrow> d3 = d1)"
proof -
  have "talk_db \<noteq> None" by code_simp
  then obtain d where d: "talk_db = Some d" by auto
  have v0: "visible [115] one_session = []"
    by (simp add: visible_def load_transcript_def session_entries_def one_session_def db_empty_def sql_limit_def)
  have "transcript_inv d \<and> (\<exists>es. list_all2 shows_entry (replicate 8 (new_entry_text [115] RoleUser [104] 1)) es \<and> visible [115] d = es)"
    using tlog.app_all_vis[OF one_session_inv d[unfolded talk_db_def append_entries_app_all], of "[115]"]
    by (simp add: v0 new_entry_text_def del: replicate.simps)
  then have a: "transcript_inv d" "length (visible [115] d) = 8"
    by (auto dest: list_all2_lengthD)
  let ?p = "compact_prepare ascii_platform no_faults plain_cfg 5 [115] d"
  have "length (load_transcript [115] 200 d) = 8"
    using a by (simp add: load_transcript_eq(1)[OF a(1), of _ 200] sql_limit_def)
  then obtain j d1 where p: "?p = (Inr j, d1)"
    by (simp add: compact_prepare_def plain_cfg_def cfg_default_def Let_def)
  obtain r d3 where c: "compact_commit no_faults (\<lambda>_. SumStream [Some (DText [33])]) plain_cfg 6 [115] j d1 = (r, d3)"
    by (cases "compact_commit no_faults (\<lambda>_. SumStream [Some (DText [33])]) plain_cfg 6 [115] j d1") auto
  have "transcript_inv d1" using a(1) transcript_cong(7)[OF compact_prepare_transcript[OF p]] by simp
  from compaction_keeps_recent[OF a(1) p this _ c, of "[]"]
  have "case r of Summarized n \<Rightarrow> transcript_inv d3 | _ \<Rightarrow> d3 = d1" by (cases r) simp_all
  with d p c show ?thesis by blast
qed

end
