(* ===== verification/Session_Actor.thy ===== *)
theory Session_Actor
  imports Session_Compact Run_Queue Run_Log Agent
begin

text \<open>
  The actor of a session, \<open>crates/oc-server/src/session.rs\<close>: the commands it takes, its serial lane,
  the outlets and logs it keeps for the turns, and the start of a run.  An outlet is named by its
  connection (and its log, which lives in \<open>at_heap\<close>, shared with the run that writes to it).  What
  the handler reads from outside is the record \<open>inputs\<close>.  A run and a background compaction act
  between the commands: the relation \<open>actor_step\<close>.
\<close>

section \<open>State and commands\<close>

datatype sink_ref = RefConn nat | RefBroadcast | RefDetached nat nat

datatype session_cmd =
    CmdSubmit rstr sink_ref
  | CmdAbort rstr bool
  | CmdCompact
  | CmdFinished rstr run_outcome
  | CmdResume rstr int
  | CmdHealthScan
  | CmdEvictIfIdle nat

record active_run =
  av_run_id :: rstr
  av_cancelled :: bool
  av_started :: nat

record actor =
  at_queue :: run_queue
  at_active :: "active_run option"
  at_sinks :: "rstr \<Rightarrow> sink_ref option"
  at_logs :: "rstr \<Rightarrow> nat option"
  at_heap :: "nat \<Rightarrow> run_log"
  at_last :: nat
  at_guard :: bool
  at_auto :: nat
  at_job :: "compact_job option"
  at_db :: db
  at_open :: bool

record inputs =
  in_uuid :: rstr
  in_now :: nat
  in_ms :: int
  in_secs :: int
  in_faults :: faults
  in_ask :: "model_request \<Rightarrow> summary_answer"
  in_idle :: "nat option"
  in_parse :: "rstr \<Rightarrow> tool_call_spec list option"

datatype actor_out =
    OutAccepted rstr
  | OutRefused
  | OutSpawned run_ctx sink_ref
  | OutNotice rstr
  | OutResumed bool
  | OutEvicted bool

definition actor_new :: "session_cfg \<Rightarrow> inputs \<Rightarrow> rstr \<Rightarrow> db \<Rightarrow> actor" where
  "actor_new cfg inp sid d =
     \<lparr> at_queue = queue_new (sc_queue_cap cfg), at_active = None, at_sinks = (\<lambda>_. None), at_logs = (\<lambda>_. None),
       at_heap = (\<lambda>_. log_new), at_last = in_now inp, at_guard = False, at_auto = 0, at_job = None,
       at_db = settle d (attempt (in_faults inp CallEnsureSession) (ensure_session (in_ms inp) sid (lit ''main'') d)),
       at_open = True \<rparr>"

section \<open>Starting a run\<close>

definition start_ctx :: "session_cfg \<Rightarrow> rstr \<Rightarrow> queued_turn \<Rightarrow> message list \<Rightarrow> mem_line list \<Rightarrow> run_ctx" where
  "start_ctx cfg sid turn history bootstrap =
     \<lparr> rc_session = sid, rc_run = qt_run_id turn, rc_user_text = qt_text turn, rc_system_prompt = sc_system_prompt cfg,
       rc_model = sc_model cfg, rc_provider_id = sc_provider_id cfg, rc_endpoint = sc_endpoint cfg, rc_tools = sc_tools cfg,
       rc_history = history, rc_soul = sc_soul cfg, rc_skills = sc_skills cfg, rc_bootstrap = bootstrap,
       rc_compact = cfg_default\<lparr>budget := sc_history_token_budget cfg\<rparr>, rc_context_window = sc_context_window cfg,
       rc_max_output = sc_max_output cfg, rc_default_tz = sc_default_tz cfg \<rparr>"

definition append_user :: "inputs \<Rightarrow> rstr \<Rightarrow> rstr \<Rightarrow> db \<Rightarrow> db" where
  "append_user inp sid text d =
     (case attempt (in_faults inp CallAppendEntry)
             (append_entry (in_ms inp) (new_entry_text sid RoleUser text (estimate_tokens text)) d) of
        Inl _ \<Rightarrow> d | Inr (_, d') \<Rightarrow> d')"

text \<open>The user message is written only now, then the turn's memory work is done; \<open>None\<close> is a panic.\<close>

definition begin_run :: "platform \<Rightarrow> session_cfg \<Rightarrow> rstr \<Rightarrow> inputs \<Rightarrow> queued_turn \<Rightarrow> actor \<Rightarrow> (actor_out \<times> actor) option" where
  "begin_run u cfg sid inp turn a =
     (let fl = in_faults inp; text = qt_text turn
      in case persist_explicit_memory u fl (in_ms inp) sid text (append_user inp sid text (at_db a)) of
           None \<Rightarrow> None
         | Some d \<Rightarrow>
             let history = (if fl CallLoadTranscript \<noteq> None then []
                   else load_history (in_parse inp) (sc_max_history_entries cfg) (sc_history_token_budget cfg) sid d);
                 boot = lane1_bootstrap u fl (sc_trigger_max_per_turn cfg) text d;
                 (reminders, d') = intent_scan u fl (in_ms inp) (in_secs inp) (sc_intent_max_per_turn cfg) text d;
                 sink = (case at_sinks a (qt_run_id turn) of Some s \<Rightarrow> s | None \<Rightarrow> RefBroadcast)
             in Some (OutSpawned (start_ctx cfg sid turn history (boot @ reminders)) sink,
                      a\<lparr> at_db := d', at_sinks := (at_sinks a)(qt_run_id turn := None),
                         at_active := Some \<lparr> av_run_id = qt_run_id turn, av_cancelled = False, av_started = in_now inp \<rparr> \<rparr>))"

section \<open>The handler\<close>

definition handle_submit :: "platform \<Rightarrow> session_cfg \<Rightarrow> rstr \<Rightarrow> inputs \<Rightarrow> rstr \<Rightarrow> sink_ref \<Rightarrow> actor \<Rightarrow> (actor_out list \<times> actor) option" where
  "handle_submit u cfg sid inp text sink a =
     (let rid = in_uuid inp;
          turn = \<lparr> qt_run_id = rid, qt_text = text \<rparr>;
          a1 = a\<lparr> at_last := in_now inp, at_sinks := (at_sinks a)(rid \<mapsto> sink),
                  at_logs := (case sink of RefDetached _ l \<Rightarrow> (at_logs a)(rid \<mapsto> l) | _ \<Rightarrow> at_logs a) \<rparr>
      in case submit turn (at_queue a1) of
           (Started t, q) \<Rightarrow> map_option (\<lambda>(out, a2). ([OutAccepted rid, out], a2))
                               (begin_run u cfg sid inp t (a1\<lparr>at_queue := q\<rparr>))
         | (Queued, q) \<Rightarrow> Some ([OutAccepted rid], a1\<lparr>at_queue := q\<rparr>)
         | (Rejected, q) \<Rightarrow> Some ([OutRefused], a1\<lparr> at_queue := q, at_sinks := (at_sinks a1)(rid := None),
                                at_logs := (at_logs a1)(rid := None) \<rparr>))"

definition cancel_active :: "actor \<Rightarrow> actor" where
  "cancel_active a = a\<lparr>at_active := map_option (\<lambda>r. r\<lparr>av_cancelled := True\<rparr>) (at_active a)\<rparr>"

definition handle_abort :: "rstr \<Rightarrow> bool \<Rightarrow> actor \<Rightarrow> actor" where
  "handle_abort rid hard a =
     (let a1 = (if hard then a\<lparr>at_queue := snd (drain_pending (at_queue a))\<rparr> else a)
      in case at_active a1 of
           Some r \<Rightarrow> if av_run_id r = rid \<or> rid = [] then cancel_active a1 else a1
         | None \<Rightarrow> a1)"

definition compact_session :: "platform \<Rightarrow> session_cfg \<Rightarrow> rstr \<Rightarrow> inputs \<Rightarrow> actor \<Rightarrow> actor_out list \<times> actor" where
  "compact_session u cfg sid inp a =
     (if at_guard a then ([OutNotice compact_busy], a)
      else case compact_core u (in_faults inp) (in_ask inp) cfg (in_ms inp) sid (at_db a) of
             (r, d) \<Rightarrow> ([OutNotice (compact_notice r)], a\<lparr>at_db := d\<rparr>))"

definition handle_finished :: "platform \<Rightarrow> session_cfg \<Rightarrow> rstr \<Rightarrow> inputs \<Rightarrow> rstr \<Rightarrow> run_outcome \<Rightarrow> actor \<Rightarrow> (actor_out list \<times> actor) option" where
  "handle_finished u cfg sid inp rid outcome a =
     (let a1 = a\<lparr>at_last := in_now inp\<rparr> in
      if map_option av_run_id (at_active a1) \<noteq> Some rid then Some ([], a1)
      else let a2 = a1\<lparr> at_active := None, at_sinks := (at_sinks a1)(rid := None), at_logs := (at_logs a1)(rid := None) \<rparr>;
               auto = (\<lambda>x. x\<lparr>at_auto := at_auto x + (if outcome = Completed \<and> sc_auto_compact cfg then 1 else 0)\<rparr>)
           in case complete_active (at_queue a2) of
                (None, q) \<Rightarrow> Some ([], auto (a2\<lparr>at_queue := q\<rparr>))
              | (Some nxt, q) \<Rightarrow> map_option (\<lambda>(out, a3). ([out], auto a3))
                                   (begin_run u cfg sid inp nxt (a2\<lparr>at_queue := q\<rparr>)))"

definition handle_resume :: "rstr \<Rightarrow> int \<Rightarrow> actor \<Rightarrow> actor_out list \<times> actor" where
  "handle_resume rid since a = (case at_logs a rid of
     Some l \<Rightarrow> ([OutResumed True], a\<lparr>at_heap := (at_heap a)(l := log_subscribe_from since False (at_heap a l))\<rparr>)
   | None \<Rightarrow> ([OutResumed False], a))"

definition handle_health :: "session_cfg \<Rightarrow> inputs \<Rightarrow> actor \<Rightarrow> actor" where
  "handle_health cfg inp a = (case at_active a of
     None \<Rightarrow> a
   | Some r \<Rightarrow>
       let idle = (case in_idle inp of Some i \<Rightarrow> i | None \<Rightarrow> in_now inp - av_started r)
       in case diagnose idle (sc_warn_secs cfg) (sc_abort_min_secs cfg) of
            Stuck \<Rightarrow> cancel_active a
          | LongRunning \<Rightarrow> a
          | Healthy \<Rightarrow> a)"

definition handle_evict :: "inputs \<Rightarrow> nat \<Rightarrow> actor \<Rightarrow> actor_out list \<times> actor" where
  "handle_evict inp idle_after a =
     (if at_active a \<noteq> None \<or> 0 < pending_len (at_queue a) \<or> in_now inp - at_last a < idle_after
      then ([OutEvicted False], a)
      else ([OutEvicted True], a\<lparr>at_open := False\<rparr>))"

definition handle :: "platform \<Rightarrow> session_cfg \<Rightarrow> rstr \<Rightarrow> inputs \<Rightarrow> session_cmd \<Rightarrow> actor \<Rightarrow> (actor_out list \<times> actor) option" where
  "handle u cfg sid inp cmd a = (case cmd of
     CmdSubmit text sink \<Rightarrow> handle_submit u cfg sid inp text sink a
   | CmdAbort rid hard \<Rightarrow> Some ([], handle_abort rid hard a)
   | CmdCompact \<Rightarrow> Some (compact_session u cfg sid inp (a\<lparr>at_last := in_now inp\<rparr>))
   | CmdFinished rid outcome \<Rightarrow> handle_finished u cfg sid inp rid outcome a
   | CmdResume rid since \<Rightarrow> Some (handle_resume rid since a)
   | CmdHealthScan \<Rightarrow> Some ([], handle_health cfg inp a)
   | CmdEvictIfIdle t \<Rightarrow> Some (handle_evict inp t a))"

text \<open>The background compaction: its check and first half, and its second half.\<close>

definition auto_begin :: "platform \<Rightarrow> session_cfg \<Rightarrow> rstr \<Rightarrow> inputs \<Rightarrow> actor \<Rightarrow> actor" where
  "auto_begin u cfg sid inp a =
     (let a1 = a\<lparr>at_auto := at_auto a - 1\<rparr> in
      if \<not> auto_compact_due (in_faults inp) cfg sid (at_db a) \<or> at_guard a then a1
      else case compact_prepare u (in_faults inp) cfg (in_ms inp) sid (at_db a) of
             (Inl _, d) \<Rightarrow> a1\<lparr>at_db := d\<rparr>
           | (Inr j, d) \<Rightarrow> a1\<lparr>at_db := d, at_guard := True, at_job := Some j\<rparr>)"

definition auto_commit :: "session_cfg \<Rightarrow> rstr \<Rightarrow> inputs \<Rightarrow> actor \<Rightarrow> actor" where
  "auto_commit cfg sid inp a = (case at_job a of
     None \<Rightarrow> a
   | Some j \<Rightarrow> a\<lparr> at_db := snd (compact_commit (in_faults inp) (in_ask inp) cfg (in_ms inp) sid j (at_db a)),
                  at_guard := False, at_job := None \<rparr>)"

text \<open>Forwarding a replay to the peer: up to the end of the run, or until the peer is gone.\<close>

fun forward_run_log :: "event list \<Rightarrow> conn \<Rightarrow> conn" where
  "forward_run_log [] c = c"
| "forward_run_log (ev # evs) c = (case conn_send ev c of
     (False, c') \<Rightarrow> c'
   | (True, c') \<Rightarrow> if is_terminal_event ev then c' else forward_run_log evs c')"

section \<open>Reachable states\<close>

text \<open>The history kept beside a reachable state: the turns accepted, spawned and drained, each with its
  outlet, and the runs that ended.\<close>

type_synonym outlet = "queued_turn \<times> sink_ref"

record ghost =
  gh_accepted :: "outlet list"
  gh_spawned :: "outlet list"
  gh_drained :: "outlet list"
  gh_finished :: "rstr list"

definition ghost0 :: ghost where
  "ghost0 = \<lparr> gh_accepted = [], gh_spawned = [], gh_drained = [], gh_finished = [] \<rparr>"

definition outlet_id :: "outlet \<Rightarrow> rstr" where
  "outlet_id x = qt_run_id (fst x)"

definition waiting :: "actor \<Rightarrow> outlet list" where
  "waiting a = map (\<lambda>t. (t, the (at_sinks a (qt_run_id t)))) (pending (at_queue a))"

fun spawned_of :: "actor_out \<Rightarrow> outlet list" where
  "spawned_of (OutSpawned ctx s) = [(\<lparr> qt_run_id = rc_run ctx, qt_text = rc_user_text ctx \<rparr>, s)]"
| "spawned_of _ = []"

definition accepted_now :: "inputs \<Rightarrow> session_cmd \<Rightarrow> actor_out list \<Rightarrow> outlet list" where
  "accepted_now inp cmd outs = (case cmd of
     CmdSubmit text s \<Rightarrow> if OutAccepted (in_uuid inp) \<in> set outs then [(\<lparr> qt_run_id = in_uuid inp, qt_text = text \<rparr>, s)] else []
   | _ \<Rightarrow> [])"

definition drained_now :: "session_cmd \<Rightarrow> actor \<Rightarrow> outlet list" where
  "drained_now cmd a = (case cmd of CmdAbort _ hard \<Rightarrow> if hard then waiting a else [] | _ \<Rightarrow> [])"

definition finished_now :: "session_cmd \<Rightarrow> actor \<Rightarrow> rstr list" where
  "finished_now cmd a = (case cmd of
     CmdFinished rid _ \<Rightarrow> if map_option av_run_id (at_active a) = Some rid then [rid] else [] | _ \<Rightarrow> [])"

definition record_cmd :: "inputs \<Rightarrow> session_cmd \<Rightarrow> actor_out list \<Rightarrow> actor \<Rightarrow> ghost \<Rightarrow> ghost" where
  "record_cmd inp cmd outs a g =
     \<lparr> gh_accepted = gh_accepted g @ accepted_now inp cmd outs,
       gh_spawned = gh_spawned g @ concat (map spawned_of outs),
       gh_drained = gh_drained g @ drained_now cmd a,
       gh_finished = gh_finished g @ finished_now cmd a \<rparr>"

text \<open>Identifiers and logs are made anew for each turn.\<close>

definition fresh_cmd :: "inputs \<Rightarrow> session_cmd \<Rightarrow> ghost \<Rightarrow> bool" where
  "fresh_cmd inp cmd g = (case cmd of
     CmdSubmit text s \<Rightarrow> in_uuid inp \<notin> set (map outlet_id (gh_accepted g))
       \<and> (case s of RefDetached _ l \<Rightarrow> (\<forall>x \<in> set (gh_accepted g). \<forall>c. snd x \<noteq> RefDetached c l) | _ \<Rightarrow> True)
   | _ \<Rightarrow> True)"

inductive actor_step :: "platform \<Rightarrow> session_cfg \<Rightarrow> rstr \<Rightarrow> actor \<Rightarrow> ghost \<Rightarrow> actor \<Rightarrow> ghost \<Rightarrow> bool" for u cfg sid where
  step_cmd: "at_open a \<Longrightarrow> fresh_cmd inp cmd g \<Longrightarrow> handle u cfg sid inp cmd a = Some (outs, a')
     \<Longrightarrow> actor_step u cfg sid a g a' (record_cmd inp cmd outs a g)"
| step_run: "\<forall>l. h l \<noteq> at_heap a l \<longrightarrow> (\<exists>r. at_active a = Some r \<and> at_logs a (av_run_id r) = Some l)
     \<Longrightarrow> actor_step u cfg sid a g (a\<lparr>at_db := d, at_heap := h\<rparr>) g"
| step_auto_begin: "0 < at_auto a \<Longrightarrow> actor_step u cfg sid a g (auto_begin u cfg sid inp a) g"
| step_auto_commit: "actor_step u cfg sid a g (auto_commit cfg sid inp a) g"

inductive actor_reach :: "platform \<Rightarrow> session_cfg \<Rightarrow> rstr \<Rightarrow> actor \<Rightarrow> ghost \<Rightarrow> bool" for u cfg sid where
  reach_new: "actor_reach u cfg sid (actor_new cfg inp sid d) ghost0"
| reach_step: "actor_reach u cfg sid a g \<Longrightarrow> actor_step u cfg sid a g a' g' \<Longrightarrow> actor_reach u cfg sid a' g'"

inductive_cases actor_stepE: "actor_step u cfg sid a g a' g'"

section \<open>Invariant\<close>

text \<open>The silence of a log: nothing was pushed, so its subscribers have got nothing.\<close>

definition silent :: "run_log \<Rightarrow> bool" where
  "silent l \<longleftrightarrow> rl_buf l = [] \<and> (\<forall>s \<in> set (rl_subs l). sub_got s = [])"

definition held :: "actor \<Rightarrow> outlet \<Rightarrow> bool" where
  "held a x \<longleftrightarrow> at_sinks a (outlet_id x) = Some (snd x)
     \<and> (\<forall>c l. snd x = RefDetached c l \<longrightarrow> at_logs a (outlet_id x) = Some l \<and> silent (at_heap a l))"

definition lane_ok :: "actor \<Rightarrow> bool" where
  "lane_ok a \<longleftrightarrow> queue_inv (at_queue a) \<and> map_option av_run_id (at_active a) = active (at_queue a)
     \<and> (at_guard a \<longleftrightarrow> at_job a \<noteq> None)"

definition logs_ok :: "actor \<Rightarrow> ghost \<Rightarrow> bool" where
  "logs_ok a g \<longleftrightarrow> (\<forall>rid l. at_logs a rid = Some l \<longrightarrow> (\<exists>t c. (t, RefDetached c l) \<in> set (gh_accepted g) \<and> qt_run_id t = rid))
     \<and> (\<forall>x \<in> set (gh_accepted g). \<forall>y \<in> set (gh_accepted g). \<forall>c c' l. snd x = RefDetached c l \<longrightarrow> snd y = RefDetached c' l \<longrightarrow> x = y)"

definition running :: "actor \<Rightarrow> rstr list" where
  "running a = (case map_option av_run_id (at_active a) of Some i \<Rightarrow> [i] | None \<Rightarrow> [])"

definition history_ok :: "actor \<Rightarrow> ghost \<Rightarrow> bool" where
  "history_ok a g \<longleftrightarrow> distinct (map outlet_id (gh_accepted g))
     \<and> set (gh_drained g) \<subseteq> set (gh_accepted g)
     \<and> filter (\<lambda>x. x \<notin> set (gh_drained g)) (gh_accepted g) = gh_spawned g @ waiting a
     \<and> map outlet_id (gh_spawned g) = gh_finished g @ running a
     \<and> (\<forall>x \<in> set (gh_drained g) \<union> set (waiting a). held a x)"

definition actor_inv :: "actor \<Rightarrow> ghost \<Rightarrow> bool" where
  "actor_inv a g \<longleftrightarrow> lane_ok a \<and> logs_ok a g \<and> history_ok a g \<and> (\<forall>l. (\<forall>x \<in> set (gh_accepted g). \<forall>c. snd x \<noteq> RefDetached c l) \<longrightarrow> silent (at_heap a l))"

lemma begin_run_frame:
  assumes "begin_run u cfg sid inp turn a = Some (out, a')"
  obtains ctx d where "out = OutSpawned ctx (case at_sinks a (qt_run_id turn) of Some s \<Rightarrow> s | None \<Rightarrow> RefBroadcast)"
    "rc_run ctx = qt_run_id turn" "rc_user_text ctx = qt_text turn"
    "a' = a\<lparr> at_db := d, at_sinks := (at_sinks a)(qt_run_id turn := None),
             at_active := Some \<lparr> av_run_id = qt_run_id turn, av_cancelled = False, av_started = in_now inp \<rparr> \<rparr>"
  using assms by (auto simp: begin_run_def Let_def start_ctx_def split: option.splits prod.splits)

text \<open>What the invariant reads of the state.\<close>

lemma actor_inv_cong:
  assumes "at_queue a' = at_queue a" "map_option av_run_id (at_active a') = map_option av_run_id (at_active a)"
    "at_sinks a' = at_sinks a" "at_logs a' = at_logs a" "at_heap a' = at_heap a" "(at_guard a' \<longleftrightarrow> at_job a' \<noteq> None)"
    "actor_inv a g"
  shows "actor_inv a' g"
proof -
  have "waiting a' = waiting a" "running a' = running a" "held a' = held a" "logs_ok a' g = logs_ok a g"
    by (simp_all add: waiting_def running_def held_def[abs_def] logs_ok_def assms)
  then show ?thesis using assms by (simp add: actor_inv_def history_ok_def lane_ok_def)
qed

lemma outlets_distinct:
  assumes "history_ok a g"
  shows "distinct (map outlet_id (gh_spawned g @ waiting a))"
    "x \<in> set (gh_drained g) \<Longrightarrow> y \<in> set (gh_spawned g @ waiting a) \<Longrightarrow> outlet_id x \<noteq> outlet_id y"
    "set (gh_spawned g) \<subseteq> set (gh_accepted g)" "set (waiting a) \<subseteq> set (gh_accepted g)"
proof -
  have eq: "gh_spawned g @ waiting a = filter (\<lambda>x. x \<notin> set (gh_drained g)) (gh_accepted g)"
    and d: "distinct (map outlet_id (gh_accepted g))" and sub: "set (gh_drained g) \<subseteq> set (gh_accepted g)"
    using assms by (simp_all add: history_ok_def)
  show "distinct (map outlet_id (gh_spawned g @ waiting a))" unfolding eq using d by (rule distinct_map_filter)
  have "set (gh_spawned g @ waiting a) \<subseteq> set (gh_accepted g)" unfolding eq by auto
  then show "set (gh_spawned g) \<subseteq> set (gh_accepted g)" "set (waiting a) \<subseteq> set (gh_accepted g)" by auto
  assume xy: "x \<in> set (gh_drained g)" "y \<in> set (gh_spawned g @ waiting a)"
  have inj: "inj_on outlet_id (set (gh_accepted g))" using d by (simp add: distinct_map)
  show "outlet_id x \<noteq> outlet_id y"
  proof
    assume "outlet_id x = outlet_id y"
    then have "x = y" using inj xy sub by (intro inj_onD[OF inj]) (auto simp: eq)
    then show False using xy unfolding eq by simp
  qed
qed

text \<open>The outlets held are not the running one.\<close>

lemma held_not_running:
  assumes "history_ok a g" "x \<in> set (gh_drained g) \<union> set (waiting a)" "i \<in> set (running a)"
  shows "outlet_id x \<noteq> i"
proof -
  have "i \<in> outlet_id ` set (gh_spawned g)"
    using assms(1,3) unfolding history_ok_def by (metis Un_iff image_set set_append)
  then obtain y where y: "y \<in> set (gh_spawned g)" "outlet_id y = i" by auto
  from outlets_distinct(1)[OF assms(1)] y(1)
  have "x \<in> set (waiting a) \<Longrightarrow> outlet_id x \<noteq> outlet_id y" by (auto simp: disjoint_iff image_iff)
  with outlets_distinct(2)[OF assms(1), of x y] y assms(2) show ?thesis by auto
qed

lemma silent_subscribe: "silent l \<Longrightarrow> silent (log_subscribe_from since r l)"
  by (auto simp: silent_def log_subscribe_from_def replay_of_def)

lemma silent_new [simp]: "silent log_new"
  by (simp add: silent_def log_new_def)

subsection \<open>Submitting\<close>

lemma submit_inv:
  assumes inv: "actor_inv a g" and fresh: "fresh_cmd inp (CmdSubmit text s) g"
    and h: "handle_submit u cfg sid inp text s a = Some (outs, a')"
  shows "actor_inv a' (record_cmd inp (CmdSubmit text s) outs a g)"
proof -
  let ?rid = "in_uuid inp" and ?t = "\<lparr> qt_run_id = in_uuid inp, qt_text = text \<rparr>"
  let ?x = "(?t, s)"
  define a1 where "a1 = a\<lparr> at_last := in_now inp, at_sinks := (at_sinks a)(?rid \<mapsto> s),
                  at_logs := (case s of RefDetached _ l \<Rightarrow> (at_logs a)(?rid \<mapsto> l) | _ \<Rightarrow> at_logs a) \<rparr>"
  have lane: "lane_ok a" and logs: "logs_ok a g" and hist: "history_ok a g"
    and rest: "\<And>l. (\<forall>x \<in> set (gh_accepted g). \<forall>c. snd x \<noteq> RefDetached c l) \<Longrightarrow> silent (at_heap a l)"
    using inv by (auto simp: actor_inv_def)
  have new: "y \<in> set (gh_accepted g) \<Longrightarrow> outlet_id y \<noteq> ?rid" for y
    using fresh by (force simp: fresh_cmd_def)
  have newimg: "?rid \<notin> outlet_id ` set (gh_accepted g)" using fresh by (simp add: fresh_cmd_def)
  have newlog: "s = RefDetached c l \<Longrightarrow> y \<in> set (gh_accepted g) \<Longrightarrow> snd y \<noteq> RefDetached c' l" for c c' l y
    using fresh by (auto simp: fresh_cmd_def)
  have xid [simp]: "outlet_id ?x = ?rid" by (simp add: outlet_id_def)
  have notin: "?x \<notin> set (gh_accepted g)" using new by fastforce
  have drained: "y \<in> set (gh_drained g) \<Longrightarrow> y \<in> set (gh_accepted g)" for y
    using hist by (auto simp: history_ok_def)
  have held1: "held a1 y" if "held a y" "outlet_id y \<noteq> ?rid" for y
    using that by (auto simp: held_def a1_def split: sink_ref.splits)
  have heldx: "held a1 ?x" using newlog rest by (auto simp: held_def a1_def outlet_id_def)
  have logs1: "logs_ok a1 (g\<lparr>gh_accepted := gh_accepted g @ [?x]\<rparr>)"
    using logs newlog by (fastforce simp: logs_ok_def a1_def split: sink_ref.splits if_splits)
  have heldD: "held a y" "outlet_id y \<noteq> ?rid" if "y \<in> set (gh_drained g) \<union> set (waiting a)" for y
  proof -
    show "held a y" using that hist unfolding history_ok_def by blast
    have "y \<in> set (gh_accepted g)" using that drained outlets_distinct(4)[OF hist] by blast
    then show "outlet_id y \<noteq> ?rid" by (rule new)
  qed
  have pend: "qt_run_id t \<noteq> ?rid" if "t \<in> set (pending (at_queue a))" for t
  proof -
    have "(t, the (at_sinks a (qt_run_id t))) \<in> set (waiting a)" using that by (auto simp: waiting_def)
    then show ?thesis using new outlets_distinct(4)[OF hist] by (fastforce simp: outlet_id_def)
  qed
  have wait1: "waiting a1 = waiting a" using pend by (auto simp: waiting_def a1_def)
  consider (st) "active (at_queue a) = None" | (rej) "active (at_queue a) \<noteq> None" "qcap (at_queue a) \<le> length (pending (at_queue a))"
    | (que) "active (at_queue a) \<noteq> None" "\<not> qcap (at_queue a) \<le> length (pending (at_queue a))" by blast
  then show ?thesis
  proof cases
    case st
    have q: "pending (at_queue a) = []" "at_active a = None" using lane st by (auto simp: lane_ok_def queue_inv_def)
    let ?a2 = "a1\<lparr>at_queue := (at_queue a)\<lparr>active := Some ?rid\<rparr>\<rparr>"
    obtain out where begun: "begin_run u cfg sid inp ?t ?a2 = Some (out, a')" and outs: "outs = [OutAccepted ?rid, out]"
      using h st by (auto simp: handle_submit_def submit_def Let_def a1_def)
    obtain ctx d where out: "out = OutSpawned ctx s" "rc_run ctx = ?rid" "rc_user_text ctx = text"
      and a': "a' = ?a2\<lparr> at_db := d, at_sinks := (at_sinks a1)(?rid := None),
             at_active := Some \<lparr> av_run_id = ?rid, av_cancelled = False, av_started = in_now inp \<rparr> \<rparr>"
      by (rule begin_run_frame[OF begun]) (auto simp: a1_def)
    have heldY: "held a' y" if "held a1 y" "outlet_id y \<noteq> ?rid" for y
      using that by (auto simp: held_def a')
    have w: "waiting a' = []" "waiting a = []" using q by (simp_all add: waiting_def a' a1_def)
    have "lane_ok a'" using lane q by (auto simp: lane_ok_def a' a1_def queue_inv_def)
    moreover have "logs_ok a' (g\<lparr>gh_accepted := gh_accepted g @ [?x]\<rparr>)"
      using logs1 by (simp add: logs_ok_def a')
    moreover have "held a' y" if "y \<in> set (gh_drained g)" for y
      using that heldY[OF held1[OF heldD] heldD(2)] by blast
    then have "history_ok a' (g\<lparr>gh_accepted := gh_accepted g @ [?x], gh_spawned := gh_spawned g @ [?x]\<rparr>)"
      using hist newimg notin drained w q by (auto simp: history_ok_def running_def a')
    moreover have "record_cmd inp (CmdSubmit text s) outs a g
        = g\<lparr>gh_accepted := gh_accepted g @ [?x], gh_spawned := gh_spawned g @ [?x]\<rparr>"
      by (simp add: record_cmd_def accepted_now_def drained_now_def finished_now_def outs out)
    ultimately show ?thesis using rest by (auto simp: actor_inv_def logs_ok_def a' a1_def)
  next
    case rej
    have a': "a' = a1\<lparr>at_sinks := (at_sinks a1)(?rid := None), at_logs := (at_logs a1)(?rid := None)\<rparr>" and outs: "outs = [OutRefused]"
      using h rej by (auto simp: handle_submit_def submit_def Let_def a1_def)
    have heldY: "held a' y" if "held a y" "outlet_id y \<noteq> ?rid" for y
      using that held1[OF that] by (auto simp: held_def a')
    have w: "waiting a' = waiting a" using pend by (auto simp: waiting_def a' a1_def)
    have acc: "record_cmd inp (CmdSubmit text s) outs a g = g"
      by (simp add: record_cmd_def accepted_now_def drained_now_def finished_now_def outs)
    have "lane_ok a'" using lane by (auto simp: lane_ok_def a' a1_def)
    moreover have "logs_ok a' g"
      using logs by (auto simp: logs_ok_def a' a1_def split: sink_ref.splits if_splits)
    moreover have "held a' y" if "y \<in> set (gh_drained g) \<union> set (waiting a)" for y
      using heldY heldD that by blast
    then have "history_ok a' g" using hist w by (auto simp: history_ok_def running_def a' a1_def)
    ultimately show ?thesis using rest unfolding acc by (auto simp: actor_inv_def a' a1_def)
  next
    case que
    have a': "a' = a1\<lparr>at_queue := (at_queue a)\<lparr>pending := pending (at_queue a) @ [?t]\<rparr>\<rparr>" and outs: "outs = [OutAccepted ?rid]"
      using h que by (auto simp: handle_submit_def submit_def Let_def a1_def)
    have w: "waiting a' = waiting a @ [?x]" using wait1 by (simp add: waiting_def a' a1_def)
    have acc: "record_cmd inp (CmdSubmit text s) outs a g = g\<lparr>gh_accepted := gh_accepted g @ [?x]\<rparr>"
      by (simp add: record_cmd_def accepted_now_def drained_now_def finished_now_def outs)
    have "lane_ok a'" using lane que by (auto simp: lane_ok_def a' a1_def queue_inv_def)
    moreover have "logs_ok a' (g\<lparr>gh_accepted := gh_accepted g @ [?x]\<rparr>)"
      using logs1 by (simp add: logs_ok_def a')
    moreover have hq: "held a' = held a1" by (simp add: held_def[abs_def] a')
    have "held a' y" if "y \<in> set (gh_drained g) \<union> set (waiting a) \<union> {?x}" for y
      using that held1 heldx heldD unfolding hq by blast
    then have "history_ok a' (g\<lparr>gh_accepted := gh_accepted g @ [?x]\<rparr>)"
      using hist w newimg notin drained by (auto simp: history_ok_def running_def a' a1_def)
    ultimately show ?thesis using rest unfolding acc by (auto simp: actor_inv_def a' a1_def)
  qed
qed

subsection \<open>Aborting\<close>

lemma cancel_active_simps [simp]:
  "at_queue (cancel_active a) = at_queue a" "map_option av_run_id (at_active (cancel_active a)) = map_option av_run_id (at_active a)"
  "at_sinks (cancel_active a) = at_sinks a" "at_logs (cancel_active a) = at_logs a" "at_heap (cancel_active a) = at_heap a"
  "at_guard (cancel_active a) = at_guard a" "at_job (cancel_active a) = at_job a"
  by (simp_all add: cancel_active_def option.map_comp comp_def)

lemma drain_inv:
  assumes inv: "actor_inv a g"
  shows "actor_inv (a\<lparr>at_queue := snd (drain_pending (at_queue a))\<rparr>) (g\<lparr>gh_drained := gh_drained g @ waiting a\<rparr>)"
proof -
  let ?a = "a\<lparr>at_queue := snd (drain_pending (at_queue a))\<rparr>" and ?g = "g\<lparr>gh_drained := gh_drained g @ waiting a\<rparr>"
  have hist: "history_ok a g" using inv by (simp add: actor_inv_def)
  then have eq: "filter (\<lambda>x. x \<notin> set (gh_drained g)) (gh_accepted g) = gh_spawned g @ waiting a"
    by (simp add: history_ok_def)
  have "filter (\<lambda>x. x \<notin> set (gh_drained g @ waiting a)) (gh_accepted g)
      = filter (\<lambda>x. x \<notin> set (waiting a)) (gh_spawned g @ waiting a)"
    unfolding eq[symmetric] by (simp add: conj_commute)
  also have "\<dots> = gh_spawned g"
  proof -
    have "set (gh_spawned g) \<inter> set (waiting a) = {}"
      using outlets_distinct(1)[OF hist] by (simp add: disjoint_iff) blast
    then have "filter (\<lambda>x. x \<notin> set (waiting a)) (gh_spawned g) = gh_spawned g"
      by (intro filter_True) blast
    then show ?thesis by simp
  qed
  finally have f: "filter (\<lambda>x. x \<notin> set (gh_drained ?g)) (gh_accepted ?g) = gh_spawned ?g @ waiting ?a"
    by (simp add: waiting_def drain_pending_def)
  have same: "held ?a = held a" "running ?a = running a" "waiting ?a = []"
    by (simp_all add: held_def[abs_def] running_def waiting_def drain_pending_def)
  have "history_ok ?a ?g"
    using hist f outlets_distinct(4)[OF hist] unfolding history_ok_def same by auto
  moreover have "lane_ok ?a" using inv by (auto simp: actor_inv_def lane_ok_def queue_inv_def drain_pending_def)
  moreover have "logs_ok ?a ?g" using inv by (simp add: actor_inv_def logs_ok_def)
  ultimately show ?thesis using inv by (simp add: actor_inv_def)
qed

lemma abort_inv:
  assumes "actor_inv a g"
  shows "actor_inv (handle_abort rid hard a) (g\<lparr>gh_drained := gh_drained g @ (if hard then waiting a else [])\<rparr>)"
proof -
  define a1 where "a1 = (if hard then a\<lparr>at_queue := snd (drain_pending (at_queue a))\<rparr> else a)"
  have i: "actor_inv a1 (g\<lparr>gh_drained := gh_drained g @ (if hard then waiting a else [])\<rparr>)"
    using drain_inv[OF assms] assms by (simp add: a1_def)
  then have j: "actor_inv (cancel_active a1) (g\<lparr>gh_drained := gh_drained g @ (if hard then waiting a else [])\<rparr>)"
    by (rule actor_inv_cong[rotated -1]) (use i in \<open>simp_all add: actor_inv_def lane_ok_def\<close>)
  have "handle_abort rid hard a = a1 \<or> handle_abort rid hard a = cancel_active a1"
    by (auto simp: handle_abort_def a1_def[symmetric] Let_def split: option.splits)
  then show ?thesis using i j by auto
qed

subsection \<open>Finishing\<close>

lemma finished_inv:
  assumes inv: "actor_inv a g" and run: "map_option av_run_id (at_active a) = Some rid"
    and h: "handle_finished u cfg sid inp rid outcome a = Some (outs, a')"
  shows "actor_inv a' (g\<lparr>gh_spawned := gh_spawned g @ concat (map spawned_of outs), gh_finished := gh_finished g @ [rid]\<rparr>)"
proof -
  have lane: "lane_ok a" and logs: "logs_ok a g" and hist: "history_ok a g"
    and rest: "\<And>l. (\<forall>x \<in> set (gh_accepted g). \<forall>c. snd x \<noteq> RefDetached c l) \<Longrightarrow> silent (at_heap a l)"
    using inv by (auto simp: actor_inv_def)
  define a2 where "a2 = a\<lparr> at_last := in_now inp, at_active := None, at_sinks := (at_sinks a)(rid := None), at_logs := (at_logs a)(rid := None) \<rparr>"
  obtain r where r: "at_active a = Some r" "av_run_id r = rid" using run by auto
  have running: "running a = [rid]" using r by (simp add: running_def)
  have away: "outlet_id x \<noteq> rid" if "x \<in> set (gh_drained g) \<union> set (waiting a)" for x
    using held_not_running[OF hist that] running by simp
  have heldD: "held a x" if "x \<in> set (gh_drained g) \<union> set (waiting a)" for x
    using that hist unfolding history_ok_def by blast
  have held2: "held a2 x" if "x \<in> set (gh_drained g) \<union> set (waiting a)" for x
    using heldD[OF that] away[OF that] by (auto simp: held_def a2_def)
  have logs2: "logs_ok a2 g" using logs by (auto simp: logs_ok_def a2_def split: if_splits)
  have spawned: "map outlet_id (gh_spawned g) = gh_finished g @ [rid]" using hist running by (simp add: history_ok_def)
  show ?thesis
  proof (cases "pending (at_queue a)")
    case Nil
    have a': "\<exists>n. a' = a2\<lparr>at_queue := (at_queue a)\<lparr>active := None\<rparr>, at_auto := n\<rparr>" and outs: "outs = []"
      using h r Nil by (auto simp: handle_finished_def Let_def complete_active_def a2_def)
    then obtain n where a': "a' = a2\<lparr>at_queue := (at_queue a)\<lparr>active := None\<rparr>, at_auto := n\<rparr>" by blast
    have w: "waiting a' = []" "waiting a = []" using Nil by (simp_all add: waiting_def a')
    have h': "held a' = held a2" by (simp add: held_def[abs_def] a')
    have "lane_ok a'" using lane Nil by (auto simp: lane_ok_def a' a2_def queue_inv_def)
    moreover have "logs_ok a' g" using logs2 by (simp add: logs_ok_def a')
    moreover have "history_ok a' (g\<lparr>gh_finished := gh_finished g @ [rid]\<rparr>)"
      using hist held2 spawned w unfolding history_ok_def h' by (simp add: running_def a' a2_def)
    ultimately show ?thesis using rest by (simp add: outs actor_inv_def logs_ok_def) (simp add: a' a2_def)
  next
    case (Cons t ts)
    let ?a3 = "a2\<lparr>at_queue := (at_queue a)\<lparr>active := Some (qt_run_id t), pending := ts\<rparr>\<rparr>"
    let ?s = "the (at_sinks a (qt_run_id t))"
    have w: "waiting a = (t, ?s) # map (\<lambda>t. (t, the (at_sinks a (qt_run_id t)))) ts" using Cons by (simp add: waiting_def)
    then have "(t, ?s) \<in> set (gh_drained g) \<union> set (waiting a)" by simp
    note ht = held2[OF this] away[OF this]
    define a3 where "a3 = ?a3"
    have "handle_finished u cfg sid inp rid outcome a = map_option (\<lambda>(out, x). ([out],
        x\<lparr>at_auto := at_auto x + (if outcome = Completed \<and> sc_auto_compact cfg then 1 else 0)\<rparr>)) (begin_run u cfg sid inp t a3)"
      using r Cons by (simp add: handle_finished_def Let_def complete_active_def a2_def a3_def)
    then obtain out a4 where begun': "begin_run u cfg sid inp t a3 = Some (out, a4)"
      and a4': "a' = a4\<lparr>at_auto := at_auto a4 + (if outcome = Completed \<and> sc_auto_compact cfg then 1 else 0)\<rparr>" and outs: "outs = [out]"
      using h by (cases "begin_run u cfg sid inp t a3") auto
    obtain n where a4: "a' = a4\<lparr>at_auto := n\<rparr>" using a4' by blast
    note begun = begun'[unfolded a3_def]
    have sink: "at_sinks ?a3 (qt_run_id t) = Some ?s" using ht(1) by (simp add: held_def outlet_id_def)
    obtain ctx d where out': "out = OutSpawned ctx (case at_sinks ?a3 (qt_run_id t) of Some s \<Rightarrow> s | None \<Rightarrow> RefBroadcast)"
        "rc_run ctx = qt_run_id t" "rc_user_text ctx = qt_text t"
      and a4'': "a4 = ?a3\<lparr> at_db := d, at_sinks := (at_sinks ?a3)(qt_run_id t := None),
             at_active := Some \<lparr> av_run_id = qt_run_id t, av_cancelled = False, av_started = in_now inp \<rparr> \<rparr>"
      by (rule begin_run_frame[OF begun])
    have out: "out = OutSpawned ctx ?s" "rc_run ctx = qt_run_id t" "rc_user_text ctx = qt_text t"
      using out' unfolding sink by simp_all
    have a4': "a4 = ?a3\<lparr> at_db := d, at_sinks := (at_sinks a2)(qt_run_id t := None),
             at_active := Some \<lparr> av_run_id = qt_run_id t, av_cancelled = False, av_started = in_now inp \<rparr> \<rparr>"
      using a4'' by simp
    have sp: "concat (map spawned_of outs) = [(t, ?s)]" by (simp add: outs out)
    have d: "distinct (map outlet_id (waiting a))" using outlets_distinct(1)[OF hist] by simp
    have other: "qt_run_id x \<noteq> qt_run_id t" if "x \<in> set ts" for x
      using d that unfolding w by (auto simp: outlet_id_def image_iff)
    have rid: "qt_run_id x \<noteq> rid" if "x \<in> set ts" for x
      using away[of "(x, the (at_sinks a (qt_run_id x)))"] that w by (auto simp: outlet_id_def)
    have w': "waiting a = (t, ?s) # waiting a'"
      unfolding w using other rid by (auto simp: waiting_def a4 a4' a2_def)
    have away': "outlet_id x \<noteq> qt_run_id t" if "x \<in> set (gh_drained g) \<union> set (waiting a')" for x
      using that d outlets_distinct(2)[OF hist, of x "(t, ?s)"] unfolding w' by (auto simp: outlet_id_def image_iff)
    have held': "held a' x" if "x \<in> set (gh_drained g) \<union> set (waiting a')" for x
      using held2[of x] away'[OF that] that w' by (auto simp: held_def a4 a4')
    have "lane_ok a'" using lane Cons by (auto simp: lane_ok_def a4 a4' a2_def queue_inv_def)
    moreover have "logs_ok a' g" using logs2 by (simp add: logs_ok_def a4 a4')
    moreover have "history_ok a' (g\<lparr>gh_spawned := gh_spawned g @ [(t, ?s)], gh_finished := gh_finished g @ [rid]\<rparr>)"
      using hist held' spawned w' unfolding history_ok_def by (simp add: running_def a4 a4' outlet_id_def)
    ultimately show ?thesis using rest unfolding sp by (simp add: actor_inv_def logs_ok_def) (simp add: a4 a4' a2_def)
  qed
qed

subsection \<open>Logs\<close>

text \<open>A change of logs that keeps the silent ones silent.\<close>

lemma heap_inv:
  assumes "actor_inv a g"
    and "\<And>l. silent (at_heap a l) \<Longrightarrow> (\<forall>r. at_active a = Some r \<longrightarrow> at_logs a (av_run_id r) \<noteq> Some l) \<Longrightarrow> silent (h l)"
  shows "actor_inv (a\<lparr>at_db := d, at_heap := h\<rparr>) g"
proof -
  let ?a = "a\<lparr>at_db := d, at_heap := h\<rparr>"
  have lane: "lane_ok a" and logs: "logs_ok a g" and hist: "history_ok a g"
    and rest: "\<And>l. (\<forall>x \<in> set (gh_accepted g). \<forall>c. snd x \<noteq> RefDetached c l) \<Longrightarrow> silent (at_heap a l)"
    using assms(1) by (auto simp: actor_inv_def)
  have owner: "\<exists>t c. (t, RefDetached c l) \<in> set (gh_accepted g) \<and> qt_run_id t = av_run_id r"
    if "at_active a = Some r" "at_logs a (av_run_id r) = Some l" for r l
    using logs that(2) unfolding logs_ok_def by blast
  have "held ?a x" if x: "x \<in> set (gh_drained g) \<union> set (waiting a)" for x
  proof -
    have h: "held a x" using hist x unfolding history_ok_def by blast
    have acc: "x \<in> set (gh_accepted g)" using x hist outlets_distinct(4)[OF hist] unfolding history_ok_def by blast
    have "silent (h l)" if l: "snd x = RefDetached c l" for c l
    proof (rule assms(2))
      show "silent (at_heap a l)" using h l by (simp add: held_def)
      show "\<forall>r. at_active a = Some r \<longrightarrow> at_logs a (av_run_id r) \<noteq> Some l"
      proof (intro allI impI notI)
        fix r assume r: "at_active a = Some r" "at_logs a (av_run_id r) = Some l"
        obtain t c' where t: "(t, RefDetached c' l) \<in> set (gh_accepted g)" "qt_run_id t = av_run_id r"
          using owner[OF r] by blast
        then have "x = (t, RefDetached c' l)" using logs acc l unfolding logs_ok_def by (metis snd_conv)
        then have "outlet_id x = av_run_id r" using t(2) by (simp add: outlet_id_def)
        moreover have "av_run_id r \<in> set (running a)" using r(1) by (simp add: running_def)
        ultimately show False using held_not_running[OF hist x] by blast
      qed
    qed
    then show ?thesis using h by (auto simp: held_def)
  qed
  moreover have "waiting ?a = waiting a" "running ?a = running a" by (simp_all add: waiting_def running_def)
  ultimately have "history_ok ?a g" using hist by (simp add: history_ok_def)
  moreover have "silent (h l)" if "\<forall>x \<in> set (gh_accepted g). \<forall>c. snd x \<noteq> RefDetached c l" for l
    using assms(2)[OF rest[OF that]] owner that by fastforce
  ultimately show ?thesis using lane logs by (simp add: actor_inv_def lane_ok_def logs_ok_def)
qed

lemma resume_inv:
  assumes "actor_inv a g"
  shows "actor_inv (snd (handle_resume rid since a)) g"
proof (cases "at_logs a rid")
  case (Some l)
  let ?h = "(at_heap a)(l := log_subscribe_from since False (at_heap a l))"
  have "actor_inv (a\<lparr>at_db := at_db a, at_heap := ?h\<rparr>) g"
    by (rule heap_inv[OF assms]) (auto intro: silent_subscribe)
  then show ?thesis using Some by (simp add: handle_resume_def)
qed (use assms in \<open>simp add: handle_resume_def\<close>)

subsection \<open>Every step\<close>

lemma inv_other:
  assumes "actor_inv a g" "at_queue a' = at_queue a" "map_option av_run_id (at_active a') = map_option av_run_id (at_active a)"
    "at_sinks a' = at_sinks a" "at_logs a' = at_logs a" "at_heap a' = at_heap a" "at_guard a' = at_guard a" "at_job a' = at_job a"
  shows "actor_inv a' g"
  by (rule actor_inv_cong[OF assms(2-6) _ assms(1)]) (use assms in \<open>simp add: actor_inv_def lane_ok_def\<close>)

lemma record_simps:
  "record_cmd inp (CmdAbort rid hard) [] a g = g\<lparr>gh_drained := gh_drained g @ (if hard then waiting a else [])\<rparr>"
  "concat (map spawned_of outs) = [] \<Longrightarrow> record_cmd inp CmdCompact outs a g = g"
  "concat (map spawned_of outs) = [] \<Longrightarrow> record_cmd inp (CmdResume rid since) outs a g = g"
  "record_cmd inp CmdHealthScan [] a g = g"
  "concat (map spawned_of outs) = [] \<Longrightarrow> record_cmd inp (CmdEvictIfIdle t) outs a g = g"
  by (simp_all add: record_cmd_def accepted_now_def drained_now_def finished_now_def)

lemma cmd_inv:
  assumes inv: "actor_inv a g" and fresh: "fresh_cmd inp cmd g" and h: "handle u cfg sid inp cmd a = Some (outs, a')"
  shows "actor_inv a' (record_cmd inp cmd outs a g)"
proof (cases cmd)
  case (CmdSubmit msg s)
  then show ?thesis using submit_inv[OF inv] fresh h by (simp add: handle_def)
next
  case (CmdAbort rid hard)
  then have "outs = []" "a' = handle_abort rid hard a" using h by (auto simp: handle_def)
  then show ?thesis using abort_inv[OF inv] CmdAbort by (simp add: record_simps)
next
  case CmdCompact
  then have "concat (map spawned_of outs) = []" and i: "actor_inv a' g"
    using h by (auto simp: handle_def compact_session_def split: if_splits prod.splits intro!: inv_other[OF inv])
  from record_simps(2)[OF this(1)] i show ?thesis by (simp only: CmdCompact)
next
  case (CmdFinished rid outcome)
  show ?thesis
  proof (cases "map_option av_run_id (at_active a) = Some rid")
    case True
    then have "record_cmd inp cmd outs a g
        = g\<lparr>gh_spawned := gh_spawned g @ concat (map spawned_of outs), gh_finished := gh_finished g @ [rid]\<rparr>"
      by (simp only: CmdFinished) (auto simp: record_cmd_def accepted_now_def drained_now_def finished_now_def)
    then show ?thesis using finished_inv[OF inv True] h CmdFinished by (simp add: handle_def)
  next
    case False
    then have "outs = []" "a' = a\<lparr>at_last := in_now inp\<rparr>"
      using h CmdFinished by (auto simp: handle_def handle_finished_def Let_def)
    moreover have "record_cmd inp cmd [] a g = g"
      using False by (simp only: CmdFinished) (auto simp: record_cmd_def accepted_now_def drained_now_def finished_now_def)
    ultimately show ?thesis using inv_other[OF inv, of a'] by simp
  qed
next
  case (CmdResume rid since)
  then have "concat (map spawned_of outs) = []" "a' = snd (handle_resume rid since a)"
    using h by (auto simp: handle_def handle_resume_def split: option.splits)
  then show ?thesis using resume_inv[OF inv] record_simps(3) by (simp only: CmdResume)
next
  case CmdHealthScan
  then have "outs = []" "a' = a \<or> a' = cancel_active a"
    using h by (auto simp: handle_def handle_health_def Let_def split: option.splits run_health.splits)
  then show ?thesis using inv_other[OF inv, of a'] inv CmdHealthScan by (auto simp: record_simps)
next
  case (CmdEvictIfIdle t)
  then have "concat (map spawned_of outs) = []" and i: "actor_inv a' g"
    using h inv by (auto simp: handle_def handle_evict_def split: if_splits intro!: inv_other[OF inv])
  from record_simps(5)[OF this(1)] i show ?thesis by (simp only: CmdEvictIfIdle)
qed

lemma auto_inv:
  assumes "actor_inv a g"
  shows "actor_inv (auto_begin u cfg sid inp a) g" "actor_inv (auto_commit cfg sid inp a) g"
proof -
  have lane: "at_guard a \<longleftrightarrow> at_job a \<noteq> None" using assms by (simp add: actor_inv_def lane_ok_def)
  show "actor_inv (auto_begin u cfg sid inp a) g"
    by (rule actor_inv_cong[OF _ _ _ _ _ _ assms])
       (use lane in \<open>auto simp: auto_begin_def Let_def split: sum.splits prod.splits\<close>)
  show "actor_inv (auto_commit cfg sid inp a) g"
    by (rule actor_inv_cong[OF _ _ _ _ _ _ assms])
       (use lane in \<open>auto simp: auto_commit_def split: option.splits\<close>)
qed

lemma actor_step_inv: "actor_step u cfg sid a g a' g' \<Longrightarrow> actor_inv a g \<Longrightarrow> actor_inv a' g'"
proof (induction rule: actor_step.induct)
  case (step_run h a g d)
  then show ?case by (intro heap_inv) (auto, metis)
qed (auto intro: cmd_inv auto_inv)

lemma actor_reach_inv: "actor_reach u cfg sid a g \<Longrightarrow> actor_inv a g"
proof (induction rule: actor_reach.induct)
  case (reach_new inp d)
  show ?case
    by (auto simp: actor_inv_def lane_ok_def logs_ok_def history_ok_def actor_new_def ghost0_def running_def waiting_def)
       (simp_all add: queue_new_def)
qed (auto intro: actor_step_inv)

section \<open>Properties\<close>

text \<open>C4. In every reachable state of a session, whatever mixture of submissions, aborts, ends of runs,
  resumptions, scans and background compactions led to it: the accepted turns that no hard abort
  removed are, in order, the ones started followed by the ones waiting, each started with its own
  text and outlet (never the fallback outlet); runs start one at a time, the next only after the
  previous one ended; the queue stays within its capacity, and the compaction guard is held exactly
  while one summary is under way.\<close>

theorem turns_start_in_order:
  assumes "actor_reach u cfg sid a g"
  shows "filter (\<lambda>x. x \<notin> set (gh_drained g)) (gh_accepted g) = gh_spawned g @ waiting a
    \<and> distinct (map outlet_id (gh_accepted g))
    \<and> map outlet_id (gh_spawned g) = gh_finished g @ (case at_active a of Some r \<Rightarrow> [av_run_id r] | None \<Rightarrow> [])
    \<and> (at_active a = None \<longrightarrow> waiting a = []) \<and> length (waiting a) \<le> qcap (at_queue a)
    \<and> (at_guard a \<longleftrightarrow> at_job a \<noteq> None)"
  using actor_reach_inv[OF assms]
  by (auto simp: actor_inv_def history_ok_def lane_ok_def queue_inv_def running_def waiting_def split: option.splits)

text \<open>A scenario: a run is active, a detached turn waits, and a hard abort drains it.\<close>

definition sample_inputs :: "rstr \<Rightarrow> inputs" where
  "sample_inputs i = \<lparr> in_uuid = i, in_now = 0, in_ms = 0, in_secs = 0, in_faults = no_faults,
     in_ask = (\<lambda>_. SumTimeout), in_idle = None, in_parse = (\<lambda>_. None) \<rparr>"

lemma sample_inputs_simps [simp]: "in_uuid (sample_inputs i) = i" "in_now (sample_inputs i) = 0"
  by (simp_all add: sample_inputs_def)

definition sample_actor :: actor where
  "sample_actor = actor_new plain_cfg (sample_inputs []) [115] db_empty"

lemma sample_reach0: "actor_reach ascii_platform plain_cfg [115] sample_actor ghost0"
  unfolding sample_actor_def by (rule reach_new)

lemma begin_run_total:
  assumes "detect_explicit_memory (lower_str u) (qt_text turn) = Some None"
  obtains out a' where "begin_run u cfg sid inp turn a = Some (out, a')"
proof -
  have "begin_run u cfg sid inp turn a \<noteq> None"
    using assms by (simp add: begin_run_def Let_def persist_explicit_memory_def split: prod.splits)
  then show ?thesis using that by (cases "begin_run u cfg sid inp turn a") auto
qed

lemma sample_reach:
  obtains a g x where "actor_reach ascii_platform plain_cfg [115] a g" "x \<in> set (gh_drained g)" "snd x = RefDetached 1 7"
proof -
  let ?t = "\<lparr> qt_run_id = [1], qt_text = [] \<rparr>" and ?i = "sample_inputs [1]" and ?j = "sample_inputs [2]"
  define a0 where "a0 = sample_actor\<lparr> at_sinks := [[1] \<mapsto> RefConn 0], at_queue := (at_queue sample_actor)\<lparr>active := Some [1]\<rparr> \<rparr>"
  have none: "detect_explicit_memory (lower_str ascii_platform) (qt_text ?t) = Some None"
    by (simp add: ascii_platform_def) code_simp
  obtain out a1 where b: "begin_run ascii_platform plain_cfg [115] ?i ?t a0 = Some (out, a1)"
    by (rule begin_run_total[OF none])
  have h1: "handle ascii_platform plain_cfg [115] ?i (CmdSubmit [] (RefConn 0)) sample_actor = Some ([OutAccepted [1], out], a1)"
    using b by (simp add: handle_def handle_submit_def Let_def submit_def a0_def sample_actor_def actor_new_def queue_new_def)
  obtain d where a1: "a1 = a0\<lparr> at_db := d, at_sinks := Map.empty,
       at_active := Some \<lparr> av_run_id = [1], av_cancelled = False, av_started = 0 \<rparr> \<rparr>"
    by (rule begin_run_frame[OF b]) (auto simp: a0_def)
  define g1 where "g1 = record_cmd ?i (CmdSubmit [] (RefConn 0)) [OutAccepted [1], out] sample_actor ghost0"
  have r1: "actor_reach ascii_platform plain_cfg [115] a1 g1"
    unfolding g1_def
    by (rule reach_step[OF sample_reach0 step_cmd[OF _ _ h1]])
       (simp_all add: sample_actor_def actor_new_def fresh_cmd_def ghost0_def)
  have acc: "gh_accepted g1 = [(?t, RefConn 0)]"
    by (simp add: g1_def record_cmd_def accepted_now_def ghost0_def)
  define a2 where "a2 = a1\<lparr> at_last := 0, at_sinks := [[2] \<mapsto> RefDetached 1 7], at_logs := [[2] \<mapsto> 7],
      at_queue := (at_queue a1)\<lparr>pending := [\<lparr> qt_run_id = [2], qt_text = [] \<rparr>]\<rparr> \<rparr>"
  have h2: "handle ascii_platform plain_cfg [115] ?j (CmdSubmit [] (RefDetached 1 7)) a1 = Some ([OutAccepted [2]], a2)"
    by (simp add: handle_def handle_submit_def Let_def submit_def a2_def a1 a0_def sample_actor_def actor_new_def queue_new_def plain_cfg_def)
  define g2 where "g2 = record_cmd ?j (CmdSubmit [] (RefDetached 1 7)) [OutAccepted [2]] a1 g1"
  have r2: "actor_reach ascii_platform plain_cfg [115] a2 g2"
    unfolding g2_def
    by (rule reach_step[OF r1 step_cmd[OF _ _ h2]])
       (simp_all add: a1 a0_def sample_actor_def actor_new_def fresh_cmd_def acc outlet_id_def)
  have h3: "handle ascii_platform plain_cfg [115] ?j (CmdAbort [] True) a2 = Some ([], handle_abort [] True a2)"
    by (simp add: handle_def)
  have r3: "actor_reach ascii_platform plain_cfg [115] (handle_abort [] True a2) (record_cmd ?j (CmdAbort [] True) [] a2 g2)"
    by (rule reach_step[OF r2 step_cmd[OF _ _ h3]])
       (simp_all add: a2_def a1 a0_def sample_actor_def actor_new_def fresh_cmd_def)
  have "(\<lparr> qt_run_id = [2], qt_text = [] \<rparr>, RefDetached 1 7) \<in> set (gh_drained (record_cmd ?j (CmdAbort [] True) [] a2 g2))"
    by (simp add: record_cmd_def drained_now_def waiting_def a2_def)
  with r3 that show ?thesis by (metis snd_conv)
qed

lemma turns_start_in_order_witness:
  "\<exists>a g. actor_reach ascii_platform plain_cfg [115] a g \<and> gh_drained g \<noteq> [] \<and> distinct (map outlet_id (gh_accepted g))"
proof -
  obtain a g x where r: "actor_reach ascii_platform plain_cfg [115] a g" "x \<in> set (gh_drained g)" by (rule sample_reach)
  with turns_start_in_order[OF r(1)] show ?thesis by fastforce
qed

text \<open>C40. A turn that a hard abort drains from the queue was accepted, so its client waits for it; it is
  never started, its outlet stays in the table for good, and for a detached turn a resumption keeps
  answering that it is attached while its log never receives an event.\<close>

theorem drained_turn_stranded:
  assumes "actor_reach u cfg sid a g" "x \<in> set (gh_drained g)"
  shows "x \<in> set (gh_accepted g) \<and> x \<notin> set (gh_spawned g) \<and> at_sinks a (outlet_id x) = Some (snd x)
    \<and> (\<forall>c l. snd x = RefDetached c l \<longrightarrow>
         (\<exists>a'. handle u cfg sid inp (CmdResume (outlet_id x) since) a = Some ([OutResumed True], a')
            \<and> rl_buf (at_heap a' l) = [] \<and> (\<forall>s \<in> set (rl_subs (at_heap a' l)). sub_got s = [])))"
proof -
  have hist: "history_ok a g" using actor_reach_inv[OF assms(1)] by (simp add: actor_inv_def)
  then have h: "held a x" "x \<in> set (gh_accepted g)" using assms(2) by (auto simp: history_ok_def)
  have "x \<notin> set (gh_spawned g)" using outlets_distinct(2)[OF hist assms(2), of x] by auto
  moreover have "\<exists>a'. handle u cfg sid inp (CmdResume (outlet_id x) since) a = Some ([OutResumed True], a')
      \<and> silent (at_heap a' l)" if "snd x = RefDetached c l" for c l
    using h(1) that by (auto simp: held_def handle_def handle_resume_def silent_subscribe)
  ultimately show ?thesis using h by (auto simp: held_def silent_def)
qed

lemma drained_turn_stranded_witness:
  "\<exists>a g x a'. actor_reach ascii_platform plain_cfg [115] a g \<and> x \<in> set (gh_accepted g) \<and> x \<notin> set (gh_spawned g)
     \<and> handle ascii_platform plain_cfg [115] (sample_inputs []) (CmdResume (outlet_id x) 0) a = Some ([OutResumed True], a')"
proof -
  obtain a g x where r: "actor_reach ascii_platform plain_cfg [115] a g" "x \<in> set (gh_drained g)" "snd x = RefDetached 1 7"
    by (rule sample_reach)
  from drained_turn_stranded[OF r(1,2), of "sample_inputs []" 0] r show ?thesis by blast
qed

text \<open>Only an idle session gives itself up, and nothing is lost by it: no run is active and none
  waits, every accepted turn not drained has been started and has ended, the database is untouched,
  and the session has been quiet for the time asked.\<close>

theorem eviction_loses_nothing:
  assumes "actor_reach u cfg sid a g" "handle u cfg sid inp (CmdEvictIfIdle t) a = Some ([OutEvicted True], a')"
  shows "at_active a = None \<and> filter (\<lambda>x. x \<notin> set (gh_drained g)) (gh_accepted g) = gh_spawned g
    \<and> map outlet_id (gh_spawned g) = gh_finished g \<and> at_db a' = at_db a \<and> \<not> at_open a' \<and> t \<le> in_now inp - at_last a"
proof -
  have e: "at_active a = None" "pending (at_queue a) = []" "t \<le> in_now inp - at_last a" "a' = a\<lparr>at_open := False\<rparr>"
    using assms(2) by (auto simp: handle_def handle_evict_def pending_len_def split: if_splits)
  have "history_ok a g" using actor_reach_inv[OF assms(1)] by (simp add: actor_inv_def)
  then show ?thesis using e by (simp add: history_ok_def running_def waiting_def)
qed

lemma eviction_loses_nothing_witness:
  "\<exists>a'. handle ascii_platform plain_cfg [115] (sample_inputs []) (CmdEvictIfIdle 0) sample_actor = Some ([OutEvicted True], a')
     \<and> at_db a' = at_db sample_actor"
proof -
  have "handle ascii_platform plain_cfg [115] (sample_inputs []) (CmdEvictIfIdle 0) sample_actor
      = Some ([OutEvicted True], sample_actor\<lparr>at_open := False\<rparr>)"
    by (simp add: handle_def handle_evict_def sample_actor_def actor_new_def queue_new_def pending_len_def)
  from eviction_loses_nothing[OF sample_reach0 this] this show ?thesis by blast
qed

end
