(* ===== verification/Dreaming.thy ===== *)
theory Dreaming
  imports Session_Compact
begin

text \<open>
  The nightly consolidation: the two gates and the prompts of \<open>crates/oc-core/src/dreaming.rs\<close> and the
  scan of \<open>crates/oc-server/src/dreaming.rs\<close>, which promotes or merges the episodes that pass and
  rewrites the file MEMORY.md under optimistic concurrency.  Parameters: \<open>from_json\<close> reads the
  decisions out of a JSON text, \<open>ask\<close> is the model, and \<open>edit\<close> is what another process does to the
  file between the two reads.
\<close>

section \<open>The gates\<close>

record dream_candidate =
  dc_id :: rstr
  dc_tier :: tier
  dc_origin :: origin
  dc_importance :: flt
  dc_use_count :: nat
  dc_age_secs :: int

record dream_cfg =
  min_importance :: flt
  min_use_count :: nat
  min_age_secs :: int
  max_age_secs :: int
  max_consolidations :: nat

definition dream_default :: dream_cfg where
  "dream_default = \<lparr> min_importance = Fin (1 / 2), min_use_count = 2, min_age_secs = 3 * 86400,
     max_age_secs = 180 * 86400, max_consolidations = 8 \<rparr>"

datatype gate_reject = NotEpisodic | UntrustedOrigin | LowImportance | LowUseCount | TooRecent | TooOld

definition gate_check :: "dream_candidate \<Rightarrow> dream_cfg \<Rightarrow> gate_reject + unit" where
  "gate_check c cfg =
     (if dc_tier c \<noteq> Episodic then Inl NotEpisodic
      else if dc_origin c = Untrusted \<or> dc_origin c = System then Inl UntrustedOrigin
      else if flt_lt (dc_importance c) (min_importance cfg) then Inl LowImportance
      else if dc_use_count c < min_use_count cfg then Inl LowUseCount
      else if dc_age_secs c < min_age_secs cfg then Inl TooRecent
      else if 0 < max_age_secs cfg \<and> max_age_secs cfg < dc_age_secs c then Inl TooOld
      else Inr ())"

record consolidation =
  co_id :: rstr
  co_priority :: flt

definition dreaming_gate :: "dream_candidate list \<Rightarrow> dream_cfg \<Rightarrow> consolidation list" where
  "dreaming_gate cands cfg =
     take (max_consolidations cfg) (sort_by (\<lambda>a b. flt_lt (co_priority a) (co_priority b))
       (map (\<lambda>c. \<lparr> co_id = dc_id c, co_priority = flt_mul f64 (dc_importance c) (f64 (of_nat (dc_use_count c))) \<rparr>)
         (filter (\<lambda>c. gate_check c cfg = Inr ()) cands)))"

section \<open>Prompts and decisions\<close>

definition CONSOLIDATION_SYSTEM_PROMPT :: rstr where
  "CONSOLIDATION_SYSTEM_PROMPT = 
  [20320, 22312, 25972, 29702, 19968, 20221, 38271, 26399, 35760, 24518, 28165, 21333, 65288] @
  lit ''MEMORY.md'' @
  [65289, 12290, 25226, 36755, 20837, 30340, 38646, 25955, 35760, 24518, 26465, 30446, 37325, 20889, 25104] @
  [19968, 20221, 24178, 20928, 30340] @ lit '' Markdown '' @
  [28165, 21333, 12290, 10, 10, 35268, 21017, 65306, 10] @ lit ''1. '' @
  [21482, 20351, 29992, 36755, 20837, 20013, 24050, 26377, 30340, 20107, 23454, 12290] @
  lit ''**'' @ [32477, 23545, 19981, 35201] @ lit ''**'' @
  [25512, 26029, 12289, 25193, 20889, 25110, 32534, 36896, 20219, 20309, 26410, 20986, 29616, 30340, 20449] @
  [24687, 12290, 10] @ lit ''2. '' @
  [21512, 24182, 37325, 22797, 25110, 39640, 24230, 30456, 20284, 30340, 26465, 30446, 65307, 21516, 19968] @
  [20027, 39064, 26377, 30683, 30462, 26102, 20445, 30041] @ lit ''**'' @
  [26356, 20855, 20307] @ lit ''/'' @ [26356, 36817, 26399] @ lit ''**'' @
  [30340, 34920, 36848, 12290, 10] @ lit ''3. '' @
  [25353, 20027, 39064, 20998, 32452, 65292, 27599, 32452, 19968, 20010] @ lit '' '' @ [96] @
  lit ''## '' @ [23567, 26631, 39064, 96, 65292, 32452, 20869, 29992] @ lit '' '' @ [96] @
  lit ''- '' @ [96] @ lit '' '' @ [21015, 20986, 26465, 30446, 12290, 10] @ lit ''4. '' @
  [27599, 26465, 23613, 37327, 30701, 65292, 19968, 34892, 19968, 20214, 20107, 12290, 19981, 35201, 21152] @
  [21069, 35328, 12289, 32467, 35821, 12289, 35299, 37322, 25110, 20803, 35780, 35770, 12290, 10] @
  lit ''5. '' @ [30452, 25509, 36755, 20986] @ lit '' Markdown '' @
  [27491, 25991, 65292, 19981, 35201, 21253, 22312, 20195, 30721, 22359, 37324, 12290]"

definition CONSOLIDATE_JSON_SYSTEM_PROMPT :: rstr where
  "CONSOLIDATE_JSON_SYSTEM_PROMPT = 
  [20320, 22312, 25972, 21512, 19968, 25209, 26032, 30340, 38271, 26399, 35760, 24518, 20505, 36873, 65288] @
  lit ''episodic'' @ [65289, 21040, 26082, 26377, 30340, 38271, 26399, 35760, 24518, 65288] @
  lit ''curated'' @
  [65289, 37324, 12290, 10, 10, 23545, 27599, 19968, 26465, 26032, 20505, 36873, 65292, 21028, 26029] @
  [23427, 19982, 26082, 26377] @ lit '' curated '' @
  [30340, 20851, 31995, 65292, 24182, 36755, 20986, 19968, 20010] @ lit '' JSON '' @
  [25968, 32452, 12290, 21160, 20316, 21482, 26377, 22235, 31181, 65306, 10] @
  lit ''- create'' @
  [65306, 26082, 26377, 35760, 24518, 37324, 27809, 26377, 30456, 21516, 25277, 35937, 65292, 26032, 24314] @
  [19968, 26465, 12290] @ lit ''target_id '' @ [20026] @ lit '' null'' @ [12290, 10] @
  lit ''- corroborate'' @
  [65306, 21516, 19968, 20107, 23454, 20877, 27425, 20986, 29616, 65292, 21360, 35777, 24182, 24378, 21270] @
  [26087, 26465, 30446, 12290] @ lit ''target_id '' @
  [25351, 21521, 26087, 26465, 30446, 12290, 10] @ lit ''- refine'' @
  [65306, 26032, 26448, 26009, 34917, 20805, 20102, 36793, 30028, 12289, 27493, 39588, 12289, 21069, 25552] @
  [25110, 36866, 29992, 33539, 22260, 12290] @ lit ''target_id '' @
  [25351, 21521, 26087, 26465, 30446, 12290, 10] @ lit ''- correct'' @
  [65306, 26032, 26448, 26009, 20462, 27491, 20102, 26087, 26465, 30446, 30340, 38169, 35823, 12289, 36951] @
  [28431, 25110, 20914, 31361, 12290] @ lit ''target_id '' @
  [25351, 21521, 26087, 26465, 30446, 12290, 10, 10, 35268, 21017, 65306, 10] @ lit ''1. '' @
  [21482, 20351, 29992, 36755, 20837, 37324, 24050, 26377, 30340, 20107, 23454, 65292] @
  lit ''**'' @ [32477, 23545, 19981, 35201] @ lit ''**'' @
  [25512, 26029, 12289, 25193, 20889, 25110, 32534, 36896, 20219, 20309, 26410, 20986, 29616, 30340, 20449] @
  [24687, 12290, 10] @ lit ''2. merged_text '' @
  [26159, 21512, 24182, 21518, 30340, 26368, 32456, 27491, 25991, 65288, 23545] @
  lit '' create'' @
  [65292, 31561, 20110, 20505, 36873, 21407, 25991, 65307, 23545, 20854, 23427, 21160, 20316, 65292, 26159] @
  [10] @ lit ''   '' @
  [20505, 36873, 19982, 26087, 26465, 30446, 21512, 24182, 12289, 21435, 37325, 12289, 20462, 27491, 21518] @
  [30340, 34920, 36848, 65289, 12290, 10] @ lit ''3. '' @
  [27599, 26465, 20505, 36873, 24517, 39035, 20135, 29983, 19968, 26465, 20915, 31574, 65307, 25214, 19981] @
  [21040, 23545, 24212, 26087, 26465, 30446, 26102, 29992] @ lit '' create'' @ [12290, 10] @
  lit ''4. '' @ [21482, 36755, 20986] @ lit '' JSON'' @
  [65292, 19981, 35201, 20219, 20309, 35299, 37322, 12289, 21069, 35328, 25110] @
  lit '' Markdown '' @
  [20195, 30721, 22359, 12290, 10, 10, 36755, 20986, 26684, 24335, 65306, 10] @ lit ''{'' @
  [34] @ lit ''actions'' @ [34] @ lit '':[{'' @ [34] @ lit ''source_id'' @ [34] @ lit '':'' @
  [34] @ lit ''...'' @ [34] @ lit '','' @ [34] @ lit ''action'' @ [34] @ lit '':'' @ [34] @
  lit ''create|corroborate|refine|correct'' @ [34] @ lit '','' @ [34] @ lit ''target_id'' @
  [34] @ lit '':'' @ [34] @ lit ''...'' @ [34] @ lit ''|'' @ [34] @ lit ''target_id'' @ [34] @
  lit '':null,'' @ [34] @ lit ''merged_text'' @ [34] @ lit '':'' @ [34] @ lit ''...'' @ [34] @
  lit ''}]}''"

definition build_consolidation_prompt :: "rstr \<Rightarrow> rstr list \<Rightarrow> rstr" where
  "build_consolidation_prompt existing items =
     (if trim existing \<noteq> [] then (lit ''## '' @ [24403, 21069] @ lit '' MEMORY.md '' @ [20869, 23481, 10, 10]) @ trim existing @ [10, 10] else [])
     @ (lit ''## '' @ [26412, 36718, 26032, 24041, 22266, 30340, 35760, 24518, 26465, 30446, 10, 10])
     @ concat (map (\<lambda>it. if trim it \<noteq> [] then lit ''- '' @ trim it @ [10] else []) items)
     @ ([10, 35831, 25226, 20197, 19978, 20869, 23481, 37325, 20889, 25104, 19968, 20221, 21512, 24182, 21435] @ [37325, 21518, 30340, 23436, 25972, 28165, 21333, 12290])"

datatype consolidate_action = ActCreate | ActCorroborate | ActRefine | ActCorrect

definition action_str :: "consolidate_action \<Rightarrow> rstr" where
  "action_str a = (case a of ActCreate \<Rightarrow> lit ''create'' | ActCorroborate \<Rightarrow> lit ''corroborate''
     | ActRefine \<Rightarrow> lit ''refine'' | ActCorrect \<Rightarrow> lit ''correct'')"

record consolidate_item =
  ci_source_id :: rstr
  ci_action :: consolidate_action
  ci_target_id :: "rstr option"
  ci_merged_text :: rstr

definition listed :: "rstr \<times> rstr \<Rightarrow> rstr" where
  "listed p = lit ''- ['' @ fst p @ lit ''] '' @ trim (snd p) @ [10]"

definition build_consolidate_decision_prompt :: "(rstr \<times> rstr) list \<Rightarrow> (rstr \<times> rstr) list \<Rightarrow> rstr" where
  "build_consolidate_decision_prompt existing_curated items =
     (if existing_curated \<noteq> [] then (lit ''## '' @ [26082, 26377, 38271, 26399, 35760, 24518, 65288] @ lit ''curated'' @ [65289, 10, 10]) @ concat (map listed existing_curated) @ [10] else [])
     @ (lit ''## '' @ [26412, 36718, 26032, 24041, 22266, 20505, 36873, 65288] @ lit ''episodic'' @ [65289, 10, 10]) @ concat (map listed items)
     @ ([10, 35831, 25353, 31995, 32479, 35201, 27714, 36755, 20986] @ lit '' JSON'' @ [12290])"

definition strip_suffix :: "rstr \<Rightarrow> rstr \<Rightarrow> rstr option" where
  "strip_suffix s p = (if ends_with s p then Some (take (length s - length p) s) else None)"

definition fence :: rstr where "fence = [96, 96, 96]"

text \<open>The text inside a code fence, when there is one at both ends.\<close>

definition unfence :: "rstr \<Rightarrow> rstr" where
  "unfence s = (case strip_prefix s fence of
     None \<Rightarrow> s
   | Some t \<Rightarrow>
       (case strip_suffix (trim (case strip_prefix t (lit ''json'') of Some t' \<Rightarrow> t' | None \<Rightarrow> t)) fence of
          Some b \<Rightarrow> b | None \<Rightarrow> s))"

text \<open>From the first opening brace to the last closing one.\<close>

definition brace_span :: "rstr \<Rightarrow> rstr option" where
  "brace_span s =
     (let before = length (takeWhile (\<lambda>c. c \<noteq> 123) s); after = length (takeWhile (\<lambda>c. c \<noteq> 125) (rev s))
      in if before = length s \<or> after = length s then None
         else let close = length s - after - 1
              in if close \<le> before then None else Some (take (close + 1 - before) (drop before s)))"

definition parse_consolidations :: "(rstr \<Rightarrow> consolidate_item list option) \<Rightarrow> rstr \<Rightarrow> consolidate_item list option" where
  "parse_consolidations from_json raw =
     (case brace_span (unfence (trim raw)) of None \<Rightarrow> None | Some obj \<Rightarrow> from_json obj)"

datatype write_plan = Overwrite | AppendOnly

definition decide_write :: "rstr \<Rightarrow> rstr \<Rightarrow> write_plan" where
  "decide_write hash_before hash_now = (if hash_before = hash_now then Overwrite else AppendOnly)"

section \<open>The scan\<close>

definition SCAN_LIMIT :: int where "SCAN_LIMIT = 64"

definition tier_of_store :: "store_tier \<Rightarrow> tier" where
  "tier_of_store t = (case t of TierCurated \<Rightarrow> Curated | TierEpisodic \<Rightarrow> Episodic
     | TierProspective \<Rightarrow> Prospective | TierReview \<Rightarrow> Review)"

definition dream_candidate_of :: "int \<Rightarrow> memory_row \<Rightarrow> dream_candidate" where
  "dream_candidate_of now r = \<lparr> dc_id = mr_id r, dc_tier = tier_of_store (tier_from_db (mr_tier r)),
     dc_origin = origin_of_store (origin_from_db (mr_origin r)), dc_importance = mr_importance r,
     dc_use_count = as_u32 (max (mr_use_count r) 0), dc_age_secs = max (now - trunc_div (mr_created_at r) 1000) 0 \<rparr>"

text \<open>The text of a model answer; the end marker does not stop the loop here.\<close>

fun collect_text :: "delta option list \<Rightarrow> rstr \<Rightarrow> rstr" where
  "collect_text [] acc = acc"
| "collect_text (None # xs) acc = acc"
| "collect_text (Some (DText t) # xs) acc = collect_text xs (acc @ t)"
| "collect_text (Some _ # xs) acc = collect_text xs acc"

definition run_model_with_system :: "(model_request \<Rightarrow> summary_answer) \<Rightarrow> rstr \<Rightarrow> rstr \<Rightarrow> rstr \<Rightarrow> rstr option" where
  "run_model_with_system ask model system prompt =
     (let req = \<lparr> rq_model = model, rq_system = Some system, rq_messages = [plain_msg MUser prompt], rq_tools = [],
                  rq_max_tokens = None, rq_temperature = None \<rparr>;
          out = trim (case ask req of SumTimeout \<Rightarrow> [] | SumOpenErr \<Rightarrow> [] | SumStream xs \<Rightarrow> collect_text xs [])
      in if out = [] then None else Some out)"

record consolidate_ctx =
  cx_ask :: "model_request \<Rightarrow> summary_answer"
  cx_model :: rstr
  cx_from_json :: "rstr \<Rightarrow> consolidate_item list option"

definition all_create :: "(rstr \<times> rstr) list \<Rightarrow> consolidate_item list" where
  "all_create passed = map (\<lambda>(i, t). \<lparr> ci_source_id = i, ci_action = ActCreate, ci_target_id = None, ci_merged_text = t \<rparr>) passed"

definition decisions :: "consolidate_ctx option \<Rightarrow> (rstr \<times> rstr) list \<Rightarrow> (rstr \<times> rstr) list \<Rightarrow> consolidate_item list" where
  "decisions ctx curated passed = (case ctx of
     None \<Rightarrow> all_create passed
   | Some c \<Rightarrow>
       (case Option.bind (run_model_with_system (cx_ask c) (cx_model c) CONSOLIDATE_JSON_SYSTEM_PROMPT
                (build_consolidate_decision_prompt curated passed)) (parse_consolidations (cx_from_json c)) of
          Some items \<Rightarrow> items | None \<Rightarrow> all_create passed))"

text \<open>One decision: a merge into a listed memory, or a promotion.\<close>

definition apply_item :: "platform \<Rightarrow> faults \<Rightarrow> (rstr \<times> rstr) list \<Rightarrow> consolidate_item \<Rightarrow> db \<Rightarrow> store_error + db" where
  "apply_item u fl curated it d =
     (let promote = attempt (fl (CallPromote (ci_source_id it))) (promote_memory (ci_source_id it) d)
      in if ci_action it = ActCreate then promote
         else case ci_target_id it of
           Some t \<Rightarrow> if t \<in> fst ` set curated
             then attempt (fl (CallMerge (ci_source_id it) t))
                    (merge_memory (lower_of u) (alnum_of u) (ci_source_id it) t (ci_merged_text it) (content_hash (ci_merged_text it)) d)
             else promote
         | None \<Rightarrow> promote)"

fun consolidate_loop :: "platform \<Rightarrow> faults \<Rightarrow> int \<Rightarrow> (rstr \<times> rstr) list \<Rightarrow> (rstr \<times> rstr) list \<Rightarrow> consolidate_item list \<Rightarrow> rstr list \<Rightarrow> db \<Rightarrow> rstr list \<times> db" where
  "consolidate_loop u fl now passed curated [] merged d = (merged, d)"
| "consolidate_loop u fl now passed curated (it # items) merged d =
     (if ci_source_id it \<notin> fst ` set passed then consolidate_loop u fl now passed curated items merged d
      else case apply_item u fl curated it d of
        Inl _ \<Rightarrow> consolidate_loop u fl now passed curated items merged d
      | Inr d1 \<Rightarrow>
          let action = lit ''consolidate:'' @ action_str (ci_action it);
              d2 = settle d1 (attempt (fl (CallAudit action (ci_source_id it)))
                     (write_audit now (lit ''dreaming'') action (Some (ci_source_id it)) d1))
          in consolidate_loop u fl now passed curated items (merged @ [ci_merged_text it]) d2)"

text \<open>The candidates of a scan that pass, with their texts, in the order of priority.\<close>

definition passed_items :: "int \<Rightarrow> dream_cfg \<Rightarrow> memory_row list \<Rightarrow> (rstr \<times> rstr) list" where
  "passed_items now cfg rows =
     List.map_filter (\<lambda>c. map_option (\<lambda>r. (mr_id r, mr_text r)) (find (\<lambda>r. mr_id r = co_id c) rows))
       (dreaming_gate (map (dream_candidate_of now) rows) cfg)"

definition scan_with :: "platform \<Rightarrow> faults \<Rightarrow> int \<Rightarrow> int \<Rightarrow> dream_cfg \<Rightarrow> consolidate_ctx option \<Rightarrow> db \<Rightarrow> rstr list \<times> db" where
  "scan_with u fl now_ms now cfg ctx d =
     (case attempt (fl CallDreamList) (Inr (dream_candidates SCAN_LIMIT d)) of
        Inl _ \<Rightarrow> ([], d)
      | Inr rows \<Rightarrow>
          if rows = [] \<or> dreaming_gate (map (dream_candidate_of now) rows) cfg = [] then ([], d)
          else let passed = passed_items now cfg rows;
                   curated = (case attempt (fl CallCuratedList) (Inr (curated_list d)) of Inl _ \<Rightarrow> [] | Inr c \<Rightarrow> c)
               in consolidate_loop u fl now_ms passed curated (decisions ctx curated passed) [] d)"

section \<open>MEMORY.md\<close>

definition ensure_trailing_newline :: "rstr \<Rightarrow> rstr" where
  "ensure_trailing_newline s = (if ends_with s [10] then s else s @ [10])"

definition append_marker :: rstr where
  "append_marker = ([10] @ lit ''<!-- dreaming '' @ [36861, 21152, 65288, 26816, 27979, 21040, 24182, 21457, 20462, 25913, 65292, 26410, 35206, 30422, 21407] @ [25991, 65289] @ lit '' -->'' @ [10])"

definition append_section :: "rstr option \<Rightarrow> rstr \<Rightarrow> rstr" where
  "append_section file body = (case file of Some t \<Rightarrow> t | None \<Rightarrow> []) @ append_marker @ trim body @ [10]"

definition read_or_empty :: "rstr option \<Rightarrow> rstr" where
  "read_or_empty file = (case file of Some t \<Rightarrow> t | None \<Rightarrow> [])"

text \<open>\<open>edit\<close> is what happens to the file while the model writes; \<open>io_ok\<close> whether the write succeeds.\<close>

definition rewrite_memory_md :: "faults \<Rightarrow> int \<Rightarrow> consolidate_ctx \<Rightarrow> (rstr option \<Rightarrow> rstr option) \<Rightarrow> bool \<Rightarrow> rstr list \<Rightarrow> rstr option \<times> db \<Rightarrow> rstr option \<times> db" where
  "rewrite_memory_md fl now ctx edit io_ok items w = (case w of (file, d) \<Rightarrow>
     if items = [] then (file, d)
     else let before = read_or_empty file
          in case run_model_with_system (cx_ask ctx) (cx_model ctx) CONSOLIDATION_SYSTEM_PROMPT
                    (build_consolidation_prompt before items) of
               None \<Rightarrow> (edit file, d)
             | Some new_body \<Rightarrow>
                 let file1 = edit file;
                     plan = decide_write (content_hash before) (content_hash (read_or_empty file1));
                     file2 = (case plan of Overwrite \<Rightarrow> Some (ensure_trailing_newline new_body)
                                | AppendOnly \<Rightarrow> Some (append_section file1 new_body));
                     action = (case plan of Overwrite \<Rightarrow> lit ''rewrite_memory_md'' | AppendOnly \<Rightarrow> lit ''append_memory_md'')
                 in if io_ok then (file2, settle d (attempt (fl (CallAudit action [])) (write_audit now (lit ''dreaming'') action None d)))
                    else (file1, d))"

definition dream_round :: "platform \<Rightarrow> faults \<Rightarrow> int \<Rightarrow> int \<Rightarrow> dream_cfg \<Rightarrow> consolidate_ctx option \<Rightarrow> (rstr option \<Rightarrow> rstr option) \<Rightarrow> bool \<Rightarrow> rstr option \<times> db \<Rightarrow> nat \<times> rstr option \<times> db" where
  "dream_round u fl now_ms now cfg ctx edit io_ok w =
     (case scan_with u fl now_ms now cfg ctx (snd w) of
        (merged, d) \<Rightarrow> (length merged, case ctx of
            Some c \<Rightarrow> if merged \<noteq> [] then rewrite_memory_md fl now_ms c edit io_ok merged (fst w, d) else (fst w, d)
          | None \<Rightarrow> (fst w, d)))"

section \<open>What a scan may touch\<close>

text \<open>Two databases between which only rows with an id of \<open>P\<close> may go or change their tier, only rows with
  an id of \<open>C\<close> may change their text, and no row appears, gains trust or is used.\<close>

definition row_frame :: "rstr set \<Rightarrow> rstr set \<Rightarrow> memory_row \<Rightarrow> memory_row \<Rightarrow> bool" where
  "row_frame P C a b \<longleftrightarrow> mr_no b = mr_no a \<and> mr_id b = mr_id a \<and> mr_origin b = mr_origin a \<and> mr_use_count b = mr_use_count a
     \<and> (mr_id a \<in> P \<or> mr_tier b = mr_tier a \<and> (mr_id a \<in> C \<or> b = a))"

definition spared :: "rstr set \<Rightarrow> rstr set \<Rightarrow> db \<Rightarrow> db \<Rightarrow> bool" where
  "spared P C d d' \<longleftrightarrow>
     (\<forall>m \<in> set (memories d). mr_id m \<notin> P \<longrightarrow> (\<exists>m' \<in> set (memories d'). row_frame P C m m'))
   \<and> (\<forall>m' \<in> set (memories d'). \<exists>m \<in> set (memories d). row_frame P C m m')"

lemma row_frame_refl [simp, intro]: "row_frame P C m m"
  by (simp add: row_frame_def)

lemma row_frame_trans: "row_frame P C a b \<Longrightarrow> row_frame P C b c \<Longrightarrow> row_frame P C a c"
  by (auto simp: row_frame_def)

lemma row_frame_id: "row_frame P C a b \<Longrightarrow> mr_id b = mr_id a"
  by (simp add: row_frame_def)

lemma spared_refl: "spared P C d d"
  unfolding spared_def using row_frame_refl by blast

lemma spared_trans:
  assumes "spared P C d e" "spared P C e f"
  shows "spared P C d f"
proof -
  have "\<exists>m' \<in> set (memories f). row_frame P C m m'" if m: "m \<in> set (memories d)" "mr_id m \<notin> P" for m
  proof -
    obtain m1 where m1: "m1 \<in> set (memories e)" "row_frame P C m m1" using assms(1) m unfolding spared_def by blast
    then obtain m2 where "m2 \<in> set (memories f)" "row_frame P C m1 m2"
      using assms(2) m(2) row_frame_id[OF m1(2)] unfolding spared_def by metis
    with m1 show ?thesis using row_frame_trans by blast
  qed
  moreover have "\<exists>m \<in> set (memories d). row_frame P C m m'" if m: "m' \<in> set (memories f)" for m'
    using assms m row_frame_trans unfolding spared_def by meson
  ultimately show ?thesis unfolding spared_def by blast
qed

lemma spared_rows: "memories e' = memories e \<Longrightarrow> spared P C d e \<Longrightarrow> spared P C d e'"
  by (simp add: spared_def)

lemma spared_step:
  assumes "memories d' = map f (filter keep (memories d))"
    and "\<And>m. m \<in> set (memories d) \<Longrightarrow> row_frame P C m (f m)"
    and "\<And>m. m \<in> set (memories d) \<Longrightarrow> mr_id m \<notin> P \<Longrightarrow> keep m"
  shows "spared P C d d'"
  unfolding spared_def assms(1) using assms(2,3) by force

lemma spared_promote:
  assumes "memory_inv lc alnum d" "mid \<in> P" "promote_memory mid d = Inr d'"
  shows "memory_inv lc alnum d' \<and> spared P C d d'"
proof -
  let ?f = "\<lambda>r. r\<lparr>mr_tier := lit ''curated'', mr_importance := importance_floor (mr_importance r)\<rparr>"
  have d': "d' = d\<lparr>memories := update_where (\<lambda>r. mr_id r = mid \<and> mr_tier r = lit ''episodic'') ?f (memories d)\<rparr>"
    using assms(3) by (simp add: promote_memory_def)
  have "memory_inv lc alnum d'" unfolding d' by (rule keep_inv[OF assms(1)]) simp_all
  moreover have "spared P C d d'"
    by (rule spared_step[of _ "\<lambda>r. if mr_id r = mid \<and> mr_tier r = lit ''episodic'' then ?f r else r" "\<lambda>_. True"])
       (use assms(2) in \<open>simp_all add: d' update_where_def row_frame_def del: lit_Cons\<close>)
  ultimately show ?thesis ..
qed

lemma spared_merge:
  assumes "memory_inv lc alnum d" "sid \<in> P" "tid \<in> C" "merge_memory lc alnum sid tid text h d = Inr d'"
  shows "memory_inv lc alnum d' \<and> spared P C d d'"
proof (cases "find_memory tid d")
  case (Some t)
  let ?f = "\<lambda>r. r\<lparr>mr_text := text, mr_importance := importance_floor (mr_importance r), mr_content_hash := h\<rparr>"
  define d2 where "d2 = index_memory_text lc alnum (mr_no t) text (d\<lparr>memories := update_where (\<lambda>r. mr_no r = mr_no t) ?f (memories d)\<rparr>)"
  have t: "t \<in> set (memories d)" "mr_id t = tid" using find_memory_Some[OF Some] by auto
  have inv: "memory_inv lc alnum d2" unfolding d2_def by (rule reindex_inv[OF assms(1) t(1)]) simp_all
  have one: "mr_id m = tid" if "m \<in> set (memories d)" "mr_no m = mr_no t" for m
    using same_no[OF assms(1) that(1) t(1) that(2)] t(2) by simp
  have s2: "spared P C d d2"
    by (rule spared_step[of _ "\<lambda>r. if mr_no r = mr_no t then ?f r else r" "\<lambda>_. True"])
       (use one assms(3) in \<open>simp_all add: d2_def index_memory_text_def update_where_def row_frame_def\<close>)
  have "d' = d2 \<or> (\<exists>s. find_memory sid d2 = Some s \<and> d' = delete_row (mr_no s) d2)"
    using assms(4) Some by (auto simp: merge_memory_def Let_def d2_def split: if_splits option.splits)
  then show ?thesis
  proof
    assume "\<exists>s. find_memory sid d2 = Some s \<and> d' = delete_row (mr_no s) d2"
    then obtain s where s: "find_memory sid d2 = Some s" "d' = delete_row (mr_no s) d2" by blast
    have ss: "s \<in> set (memories d2)" "mr_id s = sid" using find_memory_Some[OF s(1)] by auto
    have "spared P C d2 d'"
      by (rule spared_step[of _ "\<lambda>r. r" "\<lambda>r. mr_no r \<noteq> mr_no s"])
         (use same_no[OF inv _ ss(1)] ss(2) assms(2) in \<open>auto simp: s(2) delete_row_def\<close>)
    with s2 delete_row_inv[OF inv] s(2) show ?thesis using spared_trans by blast
  qed (use s2 inv in simp)
qed (use assms in \<open>auto simp: merge_memory_def intro: spared_refl\<close>)

lemma apply_item_cases:
  assumes "apply_item u fl curated it d = Inr d'"
  obtains (promoted) "promote_memory (ci_source_id it) d = Inr d'"
  | (merged) t where "t \<in> fst ` set curated" "merge_memory (lower_of u) (alnum_of u) (ci_source_id it) t (ci_merged_text it)
       (content_hash (ci_merged_text it)) d = Inr d'"
proof -
  have att: "attempt f r = Inr d' \<Longrightarrow> r = Inr d'" for f and r :: "store_error + db" by (cases f) simp_all
  let ?merge = "\<lambda>t. attempt (fl (CallMerge (ci_source_id it) t)) (merge_memory (lower_of u) (alnum_of u) (ci_source_id it) t
     (ci_merged_text it) (content_hash (ci_merged_text it)) d)"
  have "attempt (fl (CallPromote (ci_source_id it))) (promote_memory (ci_source_id it) d) = Inr d'
      \<or> (\<exists>t \<in> fst ` set curated. ?merge t = Inr d')"
    using assms unfolding apply_item_def Let_def by (simp split: if_splits option.splits) blast
  then show ?thesis using att promoted merged by blast
qed

lemma consolidate_spared:
  "memory_inv (lower_of u) (alnum_of u) d \<Longrightarrow>
     consolidate_loop u fl now passed curated items merged d = (ms, d') \<Longrightarrow>
     memory_inv (lower_of u) (alnum_of u) d' \<and> spared (fst ` set passed) (fst ` set curated) d d'"
proof (induction items arbitrary: merged d)
  case (Cons it items)
  let ?P = "fst ` set passed" and ?C = "fst ` set curated"
  show ?case
  proof (cases "ci_source_id it \<in> ?P")
    case False
    then show ?thesis using Cons by simp
  next
    case True
    show ?thesis
    proof (cases "apply_item u fl curated it d")
      case (Inl e)
      then show ?thesis using True Cons by simp
    next
      case (Inr d1)
      have s1: "memory_inv (lower_of u) (alnum_of u) d1 \<and> spared ?P ?C d d1"
        using apply_item_cases[OF Inr] spared_promote[OF Cons.prems(1) True] spared_merge[OF Cons.prems(1) True] by metis
      obtain d2 where d2: "consolidate_loop u fl now passed curated items (merged @ [ci_merged_text it]) d2 = (ms, d')"
          "memories d2 = memories d1" "memory_fts d2 = memory_fts d1"
        using Cons.prems(2) True Inr by (simp add: Let_def del: lit_Cons)
      have "memory_inv (lower_of u) (alnum_of u) d2" using s1 d2 by (simp add: memory_inv_def)
      from Cons.IH[OF this d2(1)] s1 d2(2) show ?thesis by (meson spared_rows spared_trans)
    qed
  qed
qed (simp add: spared_refl)

lemma sql_limit_set: "x \<in> set (sql_limit n xs) \<Longrightarrow> x \<in> set xs"
  by (auto simp: sql_limit_def dest: in_set_takeD split: if_splits)

lemma distinct_map_sql_limit: "distinct (map f xs) \<Longrightarrow> distinct (map f (sql_limit n xs))"
  by (simp add: sql_limit_def take_map[symmetric])

lemma distinct_map_sort_by: "distinct (map f xs) \<Longrightarrow> distinct (map f (sort_by gt xs))"
  by (metis mset_map mset_sort_by mset_eq_imp_distinct_iff)

lemma dream_candidates_set:
  "r \<in> set (dream_candidates n d) \<Longrightarrow> r \<in> set (memories d) \<and> mr_tier r = lit ''episodic''"
  unfolding dream_candidates_def by (drule sql_limit_set) (simp del: lit_Cons)

lemma dreaming_gate_passed:
  assumes "c \<in> set (dreaming_gate cands cfg)"
  shows "\<exists>x \<in> set cands. dc_id x = co_id c \<and> gate_check x cfg = Inr ()"
  using in_set_takeD[OF assms[unfolded dreaming_gate_def]] by auto

lemma in_map_filter: "y \<in> set (List.map_filter f xs) \<longleftrightarrow> (\<exists>x \<in> set xs. f x = Some y)"
  by (force simp: List.map_filter_def)

lemma passed_items_gate:
  assumes "distinct (map mr_id rows)" "i \<in> fst ` set (passed_items now cfg rows)"
  shows "\<exists>r \<in> set rows. mr_id r = i \<and> gate_check (dream_candidate_of now r) cfg = Inr ()"
proof -
  obtain p where p: "p \<in> set (passed_items now cfg rows)" "fst p = i" using assms(2) by blast
  then obtain c where c: "c \<in> set (dreaming_gate (map (dream_candidate_of now) rows) cfg)"
      "map_option (\<lambda>r. (mr_id r, mr_text r)) (find (\<lambda>r. mr_id r = co_id c) rows) = Some p"
    unfolding passed_items_def by (auto simp: in_map_filter)
  then obtain r0 where r0: "find (\<lambda>r. mr_id r = co_id c) rows = Some r0" "p = (mr_id r0, mr_text r0)" by blast
  have "co_id c = i" using p(2) find_SomeD[OF r0(1)] r0(2) by simp
  from dreaming_gate_passed[OF c(1)] obtain r where "r \<in> set rows" "dc_id (dream_candidate_of now r) = i"
    "gate_check (dream_candidate_of now r) cfg = Inr ()" using \<open>co_id c = i\<close> by auto
  then show ?thesis by (intro bexI[of _ r]) (simp_all add: dream_candidate_of_def)
qed

lemma gate_episodic: "gate_check c cfg = Inr () \<Longrightarrow> dc_tier c = Episodic \<and> dc_origin c \<noteq> Untrusted \<and> dc_origin c \<noteq> System"
  by (auto simp: gate_check_def split: if_splits)

lemma tier_from_curated: "tier_from_db (lit ''curated'') = TierCurated"
  by code_simp

lemma gate_not_curated: "gate_check (dream_candidate_of now m) cfg = Inr () \<Longrightarrow> mr_tier m \<noteq> lit ''curated''"
  by (drule gate_episodic) (auto simp: dream_candidate_of_def tier_from_curated tier_of_store_def simp del: lit_Cons)

lemma scan_spared:
  assumes inv: "memory_inv (lower_of u) (alnum_of u) d" and scan: "scan_with u fl now_ms now cfg ctx d = (ms, d')"
  obtains P C where "memory_inv (lower_of u) (alnum_of u) d'" "spared P C d d'"
    "\<And>m. m \<in> set (memories d) \<Longrightarrow> mr_id m \<in> P \<Longrightarrow> gate_check (dream_candidate_of now m) cfg = Inr ()"
    "\<And>m. m \<in> set (memories d) \<Longrightarrow> mr_id m \<in> C \<Longrightarrow> mr_tier m = lit ''curated''"
proof (cases "(ms, d') = ([], d)")
  case True
  then show ?thesis using inv spared_refl by (intro that[of "{}" "{}"]) auto
next
  case False
  define rows where "rows = dream_candidates SCAN_LIMIT d"
  define curated where "curated = (case attempt (fl CallCuratedList) (Inr (curated_list d)) of Inl _ \<Rightarrow> [] | Inr c \<Rightarrow> c)"
  have "consolidate_loop u fl now_ms (passed_items now cfg rows) curated
      (decisions ctx curated (passed_items now cfg rows)) [] d = (ms, d')"
  proof (cases "fl CallDreamList")
    case None
    then show ?thesis using scan False unfolding scan_with_def curated_def rows_def by (simp add: Let_def split: if_splits)
  next
    case (Some e)
    then show ?thesis using scan False unfolding scan_with_def by simp
  qed
  from consolidate_spared[OF inv this]
  have loop: "memory_inv (lower_of u) (alnum_of u) d'"
    "spared (fst ` set (passed_items now cfg rows)) (fst ` set curated) d d'" by auto
  have dist: "distinct (map mr_id rows)"
    using inv distinct_map_sql_limit[OF distinct_map_sort_by[OF distinct_map_filter]]
    unfolding rows_def dream_candidates_def memory_inv_def by blast
  show ?thesis
  proof (rule that[OF loop])
    fix m assume m: "m \<in> set (memories d)"
    { assume "mr_id m \<in> fst ` set (passed_items now cfg rows)"
      from passed_items_gate[OF dist this] obtain r where r: "r \<in> set rows" "mr_id r = mr_id m"
        "gate_check (dream_candidate_of now r) cfg = Inr ()" by blast
      have "r = m" by (rule same_id[OF inv _ m r(2)]) (use dream_candidates_set r(1) in \<open>simp add: rows_def\<close>)
      with r(3) show "gate_check (dream_candidate_of now m) cfg = Inr ()" by simp }
    { assume "mr_id m \<in> fst ` set curated"
      then obtain r where r: "r \<in> set (memories d)" "mr_tier r = lit ''curated''" "mr_id r = mr_id m"
        unfolding curated_def by (cases "fl CallCuratedList") (auto simp: curated_list_def simp del: lit_Cons)
      from same_id[OF inv r(1) m r(3)] r(2) show "mr_tier m = lit ''curated''" by simp }
  qed
qed

text \<open>C27. Whatever the model answers and whichever store calls fail, a nightly scan changes the tier of, or
  deletes, only episodes that pass both gates (none of untrusted or system origin), changes the text
  of curated memories only, makes no memory appear, and leaves every origin and use count as it was;
  every curated memory of the result was curated before or passed the gates.\<close>

theorem dream_spares_the_rest:
  assumes "memory_inv (lower_of u) (alnum_of u) d" "scan_with u fl now_ms now cfg ctx d = (ms, d')"
  shows "memory_inv (lower_of u) (alnum_of u) d'
    \<and> (\<forall>m \<in> set (memories d). gate_check (dream_candidate_of now m) cfg \<noteq> Inr () \<longrightarrow>
         (\<exists>m' \<in> set (memories d'). mr_id m' = mr_id m \<and> mr_tier m' = mr_tier m \<and> mr_origin m' = mr_origin m
            \<and> (mr_tier m \<noteq> lit ''curated'' \<longrightarrow> m' = m)))
    \<and> (\<forall>m' \<in> set (memories d'). \<exists>m \<in> set (memories d). mr_id m = mr_id m' \<and> mr_origin m = mr_origin m'
         \<and> mr_use_count m = mr_use_count m'
         \<and> (mr_tier m' = mr_tier m \<or> gate_check (dream_candidate_of now m) cfg = Inr ()))"
proof -
  obtain P C where inv': "memory_inv (lower_of u) (alnum_of u) d'" and sp: "spared P C d d'"
    and P: "\<And>m. m \<in> set (memories d) \<Longrightarrow> mr_id m \<in> P \<Longrightarrow> gate_check (dream_candidate_of now m) cfg = Inr ()"
    and C: "\<And>m. m \<in> set (memories d) \<Longrightarrow> mr_id m \<in> C \<Longrightarrow> mr_tier m = lit ''curated''"
    by (rule scan_spared[OF assms]) (rule that; assumption)
  have 1: "\<exists>m' \<in> set (memories d'). mr_id m' = mr_id m \<and> mr_tier m' = mr_tier m \<and> mr_origin m' = mr_origin m
            \<and> (mr_tier m \<noteq> lit ''curated'' \<longrightarrow> m' = m)"
    if m: "m \<in> set (memories d)" "gate_check (dream_candidate_of now m) cfg \<noteq> Inr ()" for m
  proof -
    have "mr_id m \<notin> P" using P m by blast
    then obtain m' where "m' \<in> set (memories d')" "row_frame P C m m'" using sp m(1) unfolding spared_def by blast
    then show ?thesis using C[OF m(1)] \<open>mr_id m \<notin> P\<close> unfolding row_frame_def
      by (intro bexI[of _ m']) (auto simp del: lit_Cons)
  qed
  have 2: "\<exists>m \<in> set (memories d). mr_id m = mr_id m' \<and> mr_origin m = mr_origin m' \<and> mr_use_count m = mr_use_count m'
         \<and> (mr_tier m' = mr_tier m \<or> gate_check (dream_candidate_of now m) cfg = Inr ())"
    if "m' \<in> set (memories d')" for m'
  proof -
    from sp have "\<forall>m' \<in> set (memories d'). \<exists>m \<in> set (memories d). row_frame P C m m'" by (simp add: spared_def)
    with that obtain m where m: "m \<in> set (memories d)" "row_frame P C m m'" by blast
    then show ?thesis using P[OF m(1)] by (intro bexI[of _ m]) (auto simp: row_frame_def)
  qed
  from inv' 1 2 show ?thesis by blast
qed

definition web_row :: memory_row where
  "web_row = emacs_row\<lparr>mr_no := 2, mr_id := [2], mr_tier := lit ''episodic'', mr_origin := lit ''untrusted'', mr_use_count := 9\<rparr>"

definition web_db :: db where
  "web_db = db_empty\<lparr>memories := [emacs_row, web_row],
     memory_fts := [(1, encode_doc lower_char is_ascii_alnum (lit ''I use emacs'')), (2, encode_doc lower_char is_ascii_alnum (lit ''I use emacs''))]\<rparr>"

definition hostile_ctx :: consolidate_ctx where
  "hostile_ctx = \<lparr> cx_ask = \<lambda>_. SumStream [Some (DText (lit ''{promote it}''))], cx_model = [],
     cx_from_json = \<lambda>_. Some [\<lparr> ci_source_id = [2], ci_action = ActCreate, ci_target_id = None, ci_merged_text = [] \<rparr>] \<rparr>"

lemma dream_spares_the_rest_witness:
  "\<exists>ms d'. scan_with ascii_platform no_faults 0 (30 * 86400) dream_default (Some hostile_ctx) web_db = (ms, d') \<and> web_row \<in> set (memories d')"
proof -
  obtain ms d' where s: "scan_with ascii_platform no_faults 0 (30 * 86400) dream_default (Some hostile_ctx) web_db = (ms, d')"
    by fastforce
  have inv: "memory_inv (lower_of ascii_platform) (alnum_of ascii_platform) web_db"
    by (simp add: memory_inv_def web_db_def ascii_platform_def emacs_row_def web_row_def)
  have "origin_from_db (lit ''untrusted'') = OriginUntrusted" by code_simp
  then have "dc_origin (dream_candidate_of (30 * 86400) web_row) = Untrusted"
    by (simp add: dream_candidate_of_def web_row_def origin_of_store_def del: lit_Cons)
  then have "gate_check (dream_candidate_of (30 * 86400) web_row) dream_default \<noteq> Inr ()" using gate_episodic by blast
  moreover have "web_row \<in> set (memories web_db)" "mr_tier web_row \<noteq> lit ''curated''"
    by (simp_all add: web_db_def, simp add: web_row_def)
  ultimately have "web_row \<in> set (memories d')" using dream_spares_the_rest[OF inv s] by (metis (no_types, lifting))
  with s show ?thesis by blast
qed

section \<open>What a scan ever consolidates\<close>

text \<open>The histories of the memory table: explicit memories, flushed episodes, nightly scans, and any
  write to another table, from the empty store.\<close>

inductive memory_history :: "platform \<Rightarrow> db \<Rightarrow> bool" where
  empty: "memory_history u db_empty"
| remembered: "memory_history u d \<Longrightarrow> persist_explicit_memory u fl now sid msg d = Some d' \<Longrightarrow> memory_history u d'"
| flushed: "memory_history u d \<Longrightarrow> memory_history u (snd (flush_episodic u fl now sid es d))"
| dreamt: "memory_history u d \<Longrightarrow> memory_history u (snd (scan_with u fl now_ms now cfg ctx d))"
| elsewhere: "memory_history u d \<Longrightarrow> memories d' = memories d \<Longrightarrow> memory_fts d' = memory_fts d \<Longrightarrow> memory_history u d'"

definition unused :: "platform \<Rightarrow> db \<Rightarrow> bool" where
  "unused u d \<longleftrightarrow> memory_inv (lower_of u) (alnum_of u) d \<and> (\<forall>m \<in> set (memories d). mr_use_count m = 0)"

lemma unused_rows: "memories d' = memories d \<Longrightarrow> memory_fts d' = memory_fts d \<Longrightarrow> unused u d \<Longrightarrow> unused u d'"
  by (simp add: unused_def memory_inv_def)

lemma unused_upsert:
  assumes "unused u d" "upsert_memory (lower_of u) (alnum_of u) now m d = Inr d'"
  shows "unused u d'"
proof -
  have "mr_use_count r = 0" if "r \<in> set (memories d')" for r
    using that assms(1) unfolding upsert_rows[OF assms(2)] unused_def
    by (auto simp: update_where_def fresh_memory_def overwrite_memory_def split: if_splits)
  with upsert_inv[OF _ assms(2)] assms(1) show ?thesis by (auto simp: unused_def)
qed

lemma unused_superseded: "unused u d \<Longrightarrow> unused u (delete_superseded fl now td mid d)"
  using delete_superseded_rows[of "lower_of u" "alnum_of u" d fl now td mid]
    delete_superseded_texts(1)[of "lower_of u" "alnum_of u" d fl now td mid]
  by (auto simp: unused_def)

lemma unused_remember: "unused u d \<Longrightarrow> unused u (remember u fl now sid content d)"
proof (rule remember_cases[of u fl now sid content d])
  fix td d1 f
  assume d: "unused u d" and up: "upsert_memory (lower_of u) (alnum_of u) now (explicit_row u sid content) d = Inr d1"
    and r: "remember u fl now sid content d = settle (delete_superseded fl now td (memory_id content) d1)
         (attempt f (write_audit now (lit ''owner'') (lit ''remember'') (Some (memory_id content))
            (delete_superseded fl now td (memory_id content) d1)))"
  show ?thesis unfolding r by (rule unused_rows[OF audit_memories unused_superseded[OF unused_upsert[OF d up]]])
qed simp

lemma unused_episodes: "unused u d \<Longrightarrow> unused u (snd (write_episodes u fl now sid cs n d))"
proof (induction cs arbitrary: n d)
  case (Cons c cs)
  show ?case
  proof (cases "attempt (fl (CallUpsertMemory (memory_id (ec_content c))))
             (upsert_memory (lower_of u) (alnum_of u) now (episode_row sid c) d)")
    case (Inr d')
    then have "upsert_memory (lower_of u) (alnum_of u) now (episode_row sid c) d = Inr d'"
      by (cases "fl (CallUpsertMemory (memory_id (ec_content c)))") simp_all
    with Inr Cons.IH[OF unused_upsert[OF Cons.prems this]] show ?thesis by simp
  qed (use Cons in simp)
qed simp

lemma unused_scan: "unused u d \<Longrightarrow> unused u (snd (scan_with u fl now_ms now cfg ctx d))"
proof -
  assume d: "unused u d"
  obtain ms d' where s: "scan_with u fl now_ms now cfg ctx d = (ms, d')" by fastforce
  obtain P C where inv: "memory_inv (lower_of u) (alnum_of u) d'" and sp: "spared P C d d'"
    by (rule scan_spared[OF _ s]) (use d in \<open>auto simp: unused_def\<close>)
  have "mr_use_count m' = 0" if "m' \<in> set (memories d')" for m'
  proof -
    have "\<forall>m' \<in> set (memories d'). \<exists>m \<in> set (memories d). row_frame P C m m'" using sp by (simp add: spared_def)
    with that obtain m where "m \<in> set (memories d)" "row_frame P C m m'" by blast
    with d show ?thesis by (simp add: row_frame_def unused_def)
  qed
  with inv s show ?thesis by (simp add: unused_def)
qed

lemma history_unused: "memory_history u d \<Longrightarrow> unused u d"
proof (induction rule: memory_history.induct)
  case (empty u)
  show ?case using empty_memory_inv by (simp add: unused_def db_empty_def)
next
  case (remembered u d fl now sid msg d')
  then show ?case using unused_remember by (auto simp: persist_explicit_memory_def split: option.splits)
next
  case (flushed u d fl now sid es)
  then show ?case using unused_episodes by (simp add: flush_episodic_def)
next
  case (dreamt u d fl now_ms now cfg ctx)
  then show ?case using unused_scan by blast
next
  case (elsewhere u d d')
  then show ?case using unused_rows by blast
qed

lemma unused_gate: "mr_use_count r = 0 \<Longrightarrow> gate_check (dream_candidate_of now r) dream_default \<noteq> Inr ()"
  by (simp add: gate_check_def dream_default_def dream_candidate_of_def as_u32_def)

text \<open>C36. As long as only the program writes the memory table, a scan with the default limits consolidates
  nothing, whatever is remembered and however old it gets: no operation of the program counts a use,
  and the gate asks for two.\<close>

theorem dreaming_never_consolidates:
  assumes "memory_history u d"
  shows "scan_with u fl now_ms now dream_default ctx d = ([], d)"
proof -
  have none: "dreaming_gate (map (dream_candidate_of now) rows) dream_default = []" if "set rows \<subseteq> set (memories d)" for rows
  proof -
    have "filter (\<lambda>c. gate_check c dream_default = Inr ()) (map (dream_candidate_of now) rows) = []"
      using history_unused[OF assms] unused_gate that by (auto simp: filter_empty_conv unused_def)
    then show ?thesis by (simp add: dreaming_gate_def)
  qed
  have "set (dream_candidates SCAN_LIMIT d) \<subseteq> set (memories d)" using dream_candidates_set by blast
  from none[OF this] show ?thesis by (cases "fl CallDreamList") (simp_all add: scan_with_def)
qed

lemma dreaming_never_consolidates_witness:
  "scan_with ascii_platform no_faults 0 (30 * 86400) dream_default None
     (snd (flush_episodic ascii_platform no_faults 5 [7] [sample_entry RoleUser (lit ''where is it''), sample_entry RoleAssistant (lit ''over there'')] db_empty))
   = ([], snd (flush_episodic ascii_platform no_faults 5 [7] [sample_entry RoleUser (lit ''where is it''), sample_entry RoleAssistant (lit ''over there'')] db_empty))"
  by (rule dreaming_never_consolidates[OF memory_history.flushed[OF memory_history.empty]])

section \<open>The file\<close>

text \<open>When the file changed while the model was writing, and the hashes tell, the round keeps every
  character of it and adds its section behind; when the file did not change it holds the new text,
  ended by a newline; and when the model or the write fails the file is as the other writer left it.\<close>

theorem memory_file_keeps_edits:
  assumes "items \<noteq> []" "rewrite_memory_md fl now ctx edit io_ok items (file, d) = (file', d')"
  shows "(content_hash (read_or_empty (edit file)) \<noteq> content_hash (read_or_empty file) \<longrightarrow>
            file' = edit file \<or> (\<exists>body. file' = Some (read_or_empty (edit file) @ append_marker @ trim body @ [10])))
    \<and> (edit file = file \<longrightarrow> file' = file \<or> (\<exists>body. body \<noteq> [] \<and> file' = Some (ensure_trailing_newline body)))
    \<and> (\<not> io_ok \<longrightarrow> file' = edit file \<and> d' = d)
    \<and> memories d' = memories d"
proof (cases "run_model_with_system (cx_ask ctx) (cx_model ctx) CONSOLIDATION_SYSTEM_PROMPT
                    (build_consolidation_prompt (read_or_empty file) items)")
  case None
  then show ?thesis using assms by (auto simp: rewrite_memory_md_def Let_def)
next
  case (Some body)
  have "body \<noteq> []" using Some by (auto simp: run_model_with_system_def Let_def split: if_splits)
  then show ?thesis
    using assms Some by (auto simp: rewrite_memory_md_def Let_def decide_write_def append_section_def read_or_empty_def
        simp del: lit_Cons split: if_splits write_plan.splits)
qed

definition edited :: "rstr option \<Rightarrow> rstr option" where
  "edited _ = Some (lit ''# mine'')"

lemma memory_file_keeps_edits_witness:
  "\<exists>file' d'. rewrite_memory_md no_faults 0 hostile_ctx edited True [lit ''x''] (None, db_empty) = (file', d')
     \<and> (file' = Some (lit ''# mine'') \<or> (\<exists>body. file' = Some (lit ''# mine'' @ append_marker @ trim body @ [10])))"
proof -
  obtain file' d' where r: "rewrite_memory_md no_faults 0 hostile_ctx edited True [lit ''x''] (None, db_empty) = (file', d')"
    by fastforce
  have "content_hash (read_or_empty (edited None)) \<noteq> content_hash (read_or_empty None)" by code_simp
  with memory_file_keeps_edits[OF _ r] r show ?thesis by (auto simp: edited_def read_or_empty_def simp del: lit_Cons)
qed

end
