(* ===== verification/Proactive.thy ===== *)
theory Proactive
  imports Session_Compact Cron
begin

text \<open>
  The scheduler of \<open>crates/oc-server/src/proactive.rs\<close>: the scan of the heartbeat, the firing of a task,
  and the tool calls that add, list and remove tasks.  Parameters of a context: the model (\<open>px_ask\<close>),
  the time zones (\<open>px_env\<close>) and the texts of the errors of the store (\<open>px_err\<close>).  The last section puts
  the heartbeat and the precise timers side by side: \<open>cron_step\<close> interleaves them at their awaits.
\<close>

section \<open>Firing\<close>

record 'z proactive_ctx =
  px_ask :: "model_request \<Rightarrow> summary_answer"
  px_model :: rstr
  px_soul :: rstr
  px_default_tz :: rstr
  px_env :: "'z tz_env"
  px_err :: "store_error \<Rightarrow> rstr"

definition MAX_DELAY_SECS :: int where "MAX_DELAY_SECS = 30 * 86400"
definition PRECISE_TIMER_HORIZON_SECS :: int where "PRECISE_TIMER_HORIZON_SECS = 3600"

definition main_session :: rstr where "main_session = lit ''main''"

definition isolated_system :: rstr where
  "isolated_system = ([20320, 26159] @ lit '' oc '' @ [30340, 23450, 26102, 20219, 21153, 25191, 34892, 22120, 65292, 31616, 27905, 22320, 23436, 25104, 34987] @ [35201, 27714, 30340, 25552, 37266] @ lit ''/'' @ [24635, 32467, 12290])"

definition run_isolated_turn :: "'z proactive_ctx \<Rightarrow> rstr \<Rightarrow> rstr" where
  "run_isolated_turn ctx prompt =
     (case px_ask ctx \<lparr> rq_model = px_model ctx,
             rq_system = Some (if trim (px_soul ctx) = [] then isolated_system else px_soul ctx),
             rq_messages = [plain_msg MUser prompt], rq_tools = [], rq_max_tokens = None, rq_temperature = None \<rparr> of
        SumTimeout \<Rightarrow> [] | SumOpenErr \<Rightarrow> [] | SumStream xs \<Rightarrow> collect_summary xs [])"

definition fallback_text :: "rstr \<Rightarrow> rstr" where
  "fallback_text prompt = [23450, 26102, 20219, 21153, 24050, 35302, 21457, 65306] @ prompt"

definition cron_event :: "'z proactive_ctx \<Rightarrow> cron_view \<Rightarrow> event" where
  "cron_event ctx c =
     (let text = run_isolated_turn ctx (cv_prompt c)
      in EvProactive main_session PkReminder (if trim text = [] then fallback_text (cv_prompt c) else text) (PsCron (cv_id c)))"

text \<open>A one-shot task is claimed by deleting it, before anything runs; \<open>None\<close> is a lost claim.\<close>

definition claim :: "faults \<Rightarrow> cron_view \<Rightarrow> db \<Rightarrow> db option" where
  "claim fl c d =
     (if is_once (cv_expr c)
      then (case attempt (fl (CallCronRm (cv_id c))) (cron_rm (cv_id c) d) of
              Inl _ \<Rightarrow> None | Inr (removed, d') \<Rightarrow> if removed then Some d' else None)
      else Some d)"

text \<open>After the event: a recurring task gets its next time, then the audit entry.  The outer \<open>None\<close> of
  \<open>next_fire\<close> does not occur (\<open>Cron.cron_returns\<close>).\<close>

definition next_at_of :: "'z proactive_ctx \<Rightarrow> cron_view \<Rightarrow> int \<Rightarrow> int option" where
  "next_at_of ctx c now = (case next_fire (px_env ctx) (cv_expr c) now (cv_tz c) of Some (Inr t) \<Rightarrow> t | _ \<Rightarrow> None)"

definition finish_cron :: "faults \<Rightarrow> int \<Rightarrow> 'z proactive_ctx \<Rightarrow> cron_view \<Rightarrow> int \<Rightarrow> db \<Rightarrow> db" where
  "finish_cron fl now_ms ctx c now d =
     (let d1 = (if is_once (cv_expr c) then d
                else settle d (attempt (fl (CallCronFired (cv_id c))) (cron_mark_fired (cv_id c) now (next_at_of ctx c now) d)))
      in settle d1 (attempt (fl (CallAudit (lit ''fire'') (cv_id c)))
                      (write_audit now_ms (lit ''cron'') (lit ''fire'') (Some (cv_id c)) d1)))"

definition fire_cron :: "faults \<Rightarrow> int \<Rightarrow> 'z proactive_ctx \<Rightarrow> cron_view \<Rightarrow> int \<Rightarrow> db \<Rightarrow> event list \<times> db" where
  "fire_cron fl now_ms ctx c now d =
     (case claim fl c d of None \<Rightarrow> ([], d)
      | Some d1 \<Rightarrow> ([cron_event ctx c], finish_cron fl now_ms ctx c now d1))"

section \<open>The scan\<close>

definition due_ids :: "int \<Rightarrow> cron_view list \<Rightarrow> rstr list" where
  "due_ids now rows = eval_due (map (\<lambda>c. (cv_id c, cv_next_at c)) (filter cv_enabled rows)) now"

fun fire_loop :: "faults \<Rightarrow> int \<Rightarrow> 'z proactive_ctx \<Rightarrow> int \<Rightarrow> cron_view list \<Rightarrow> rstr list \<Rightarrow> db \<Rightarrow> event list \<times> db" where
  "fire_loop fl now_ms ctx now rows [] d = ([], d)"
| "fire_loop fl now_ms ctx now rows (i # ids) d =
     (case find (\<lambda>c. cv_id c = i) rows of
        None \<Rightarrow> fire_loop fl now_ms ctx now rows ids d
      | Some c \<Rightarrow> (case fire_cron fl now_ms ctx c now d of
          (es, d1) \<Rightarrow> (case fire_loop fl now_ms ctx now rows ids d1 of (es', d2) \<Rightarrow> (es @ es', d2))))"

text \<open>The events pushed; their number is the number of tasks fired.\<close>

definition cron_scan :: "faults \<Rightarrow> int \<Rightarrow> 'z proactive_ctx \<Rightarrow> int \<Rightarrow> db \<Rightarrow> event list \<times> db" where
  "cron_scan fl now_ms ctx now d =
     (case attempt (fl CallCronList) (Inr (cron_list d)) of
        Inl _ \<Rightarrow> ([], d)
      | Inr rows \<Rightarrow> fire_loop fl now_ms ctx now rows (due_ids now rows) d)"

section \<open>The tool calls\<close>

datatype cron_op = OpAdd rstr rstr "rstr option" | OpDelay int rstr | OpList | OpRm rstr

definition audit_op :: "faults \<Rightarrow> int \<Rightarrow> rstr \<Rightarrow> rstr \<Rightarrow> db \<Rightarrow> db" where
  "audit_op fl now_ms action i d = settle d (attempt (fl (CallAudit action i)) (write_audit now_ms (lit ''agent'') action (Some i) d))"

definition fmt_local :: "'z tz_env \<Rightarrow> int \<Rightarrow> rstr \<Rightarrow> rstr" where
  "fmt_local env ts tz = (case fmt_in_tz env ts tz of Some s \<Rightarrow> s | None \<Rightarrow> lit ''unix '' @ show_int ts)"

definition fmt_remaining :: "int \<Rightarrow> rstr" where
  "fmt_remaining delta =
     (if delta < 0 then [24050, 36807, 26399, 65292, 24453, 19979, 27425, 25195, 25551, 35302, 21457]
      else if delta \<le> 90 then show_int delta @ (lit '' '' @ [31186, 21518])
      else if delta \<le> 5400 then ([32422] @ lit '' '') @ show_int ((delta + 30) div 60) @ (lit '' '' @ [20998, 38047, 21518])
      else ([32422] @ lit '' '') @ show_int ((delta + 1800) div 3600) @ (lit '' '' @ [23567, 26102, 21518]))"

definition never_fires :: "rstr \<Rightarrow> rstr" where
  "never_fires expr = ([34920, 36798, 24335] @ lit '' '' @ [96]) @ expr @ ([96] @ lit '' '' @ [22312, 26410, 26469, 19968, 24180, 20869, 27809, 26377, 21305, 37197, 26102, 21051])"

definition added_text :: "'z tz_env \<Rightarrow> rstr \<Rightarrow> rstr \<Rightarrow> rstr \<Rightarrow> int \<Rightarrow> rstr" where
  "added_text env i expr tz t = ([24050, 21019, 24314, 37325, 22797, 25552, 37266, 65288] @ lit ''id='') @ i @ [65289, 65306, 96] @ expr @ ([96] @ lit '' ['') @ tz @ (lit '']'' @ [65292, 19979, 27425, 35302, 21457] @ lit '' '') @ fmt_local env t tz"

definition chosen_tz :: "'z proactive_ctx \<Rightarrow> rstr option \<Rightarrow> rstr" where
  "chosen_tz ctx tz = (case opt_filter (\<lambda>t. t \<noteq> []) (map_option trim tz) of Some t \<Rightarrow> t | None \<Rightarrow> px_default_tz ctx)"

text \<open>\<open>nid\<close> is the new identifier (a version 7 UUID).  The result is the answer or the refusal.\<close>

definition add_task :: "faults \<Rightarrow> int \<Rightarrow> 'z proactive_ctx \<Rightarrow> int \<Rightarrow> rstr \<Rightarrow> rstr \<Rightarrow> rstr \<Rightarrow> rstr option \<Rightarrow> db \<Rightarrow> (rstr + rstr) \<times> db" where
  "add_task fl now_ms ctx now nid expr prompt tz d =
     (let zone = chosen_tz ctx tz in
      case next_fire (px_env ctx) expr now zone of
        None \<Rightarrow> (Inl [], d)
      | Some (Inl e) \<Rightarrow> (Inl (cron_error_text e), d)
      | Some (Inr None) \<Rightarrow> (Inl (never_fires expr), d)
      | Some (Inr (Some t)) \<Rightarrow>
          (case attempt (fl (CallCronAdd nid)) (cron_add \<lparr> nc_id = nid, nc_expr = expr, nc_prompt = prompt, nc_tz = zone, nc_next_at = Some t \<rparr> d) of
             Inl e \<Rightarrow> (Inl (([20889, 20837] @ lit '' cron '' @ [22833, 36133] @ lit '': '') @ px_err ctx e), d)
           | Inr d1 \<Rightarrow> (Inr (added_text (px_env ctx) nid expr zone t), audit_op fl now_ms (lit ''cron_add'') nid d1)))"

definition delay_text :: "'z tz_env \<Rightarrow> rstr \<Rightarrow> int \<Rightarrow> int \<Rightarrow> rstr \<Rightarrow> rstr" where
  "delay_text env i secs t tz = ([24050, 35774, 32622, 19968, 27425, 24615, 25552, 37266, 65288] @ lit ''id='') @ i @ [65289, 65306] @ show_int secs @ (lit '' '' @ [31186, 21518, 65292, 21363] @ lit '' '') @ fmt_local env t tz"

text \<open>The second component: whether a precise timer is set.\<close>

definition delay_task :: "faults \<Rightarrow> int \<Rightarrow> 'z proactive_ctx \<Rightarrow> int \<Rightarrow> rstr \<Rightarrow> int \<Rightarrow> rstr \<Rightarrow> db \<Rightarrow> (rstr + rstr) \<times> bool \<times> db" where
  "delay_task fl now_ms ctx now nid secs prompt d =
     (if secs \<le> 0 then (Inl [24310, 26102, 24517, 39035, 20026, 27491, 25972, 25968, 31186], False, d)
      else if MAX_DELAY_SECS < secs
      then (Inl (([24310, 26102, 19978, 38480] @ lit '' '') @ show_int (MAX_DELAY_SECS div 86400) @ (lit '' '' @ [22825, 65307, 26356, 20037, 30340, 35831, 29992, 37325, 22797, 34920, 36798, 24335, 65288] @ lit ''op=add'' @ [65289])), False, d)
      else let fire_at = now + secs in
           case attempt (fl (CallCronAdd nid)) (cron_add \<lparr> nc_id = nid, nc_expr = ONCE_EXPR, nc_prompt = prompt,
                   nc_tz = px_default_tz ctx, nc_next_at = Some fire_at \<rparr> d) of
             Inl e \<Rightarrow> (Inl (([20889, 20837, 24310, 26102, 20219, 21153, 22833, 36133] @ lit '': '') @ px_err ctx e), False, d)
           | Inr d1 \<Rightarrow> (Inr (delay_text (px_env ctx) nid secs fire_at (px_default_tz ctx)),
                         secs \<le> PRECISE_TIMER_HORIZON_SECS, audit_op fl now_ms (lit ''cron_delay'') nid d1))"

text \<open>What a precise timer does when it wakes.\<close>

definition timer_wakes :: "faults \<Rightarrow> int \<Rightarrow> 'z proactive_ctx \<Rightarrow> int \<Rightarrow> rstr \<Rightarrow> db \<Rightarrow> event list \<times> db" where
  "timer_wakes fl now_ms ctx now i d =
     (case attempt (fl CallCronList) (Inr (cron_list d)) of
        Inl _ \<Rightarrow> ([], d)
      | Inr rows \<Rightarrow> (case find (\<lambda>c. cv_id c = i) rows of
          None \<Rightarrow> ([], d)
        | Some c \<Rightarrow> if cv_enabled c then fire_cron fl now_ms ctx c now d else ([], d)))"

definition task_line :: "'z tz_env \<Rightarrow> int \<Rightarrow> cron_view \<Rightarrow> rstr" where
  "task_line env now c =
     (let kind = (if is_once (cv_expr c) then [19968, 27425, 24615] else ([37325, 22797] @ lit '' '' @ [96]) @ cv_expr c @ lit ''`'');
          nxt = (case cv_next_at c of Some t \<Rightarrow> fmt_local env t (cv_tz c) @ [65288] @ fmt_remaining (t - now) @ [65289] | None \<Rightarrow> [24050, 20572, 27490])
      in lit ''- id='' @ cv_id c @ lit '' | '' @ kind @ lit '' ['' @ cv_tz c @ (lit ''] | '' @ [19979, 27425, 65306]) @ nxt @ (lit '' | '' @ [12300]) @ cv_prompt c @ [12301]
         @ (if cv_enabled c then [] else (lit '' ['' @ [24050, 20572, 29992] @ lit '']'')) @ [10])"

definition render_tasks :: "faults \<Rightarrow> 'z proactive_ctx \<Rightarrow> int \<Rightarrow> db \<Rightarrow> rstr + rstr" where
  "render_tasks fl ctx now d =
     (case attempt (fl CallCronList) (Inr (cron_list d)) of
        Inl e \<Rightarrow> Inl (([35835, 21462] @ lit '' cron '' @ [22833, 36133] @ lit '': '') @ px_err ctx e)
      | Inr rows \<Rightarrow> if rows = [] then Inr [24403, 21069, 27809, 26377, 23450, 26102, 20219, 21153, 12290]
          else Inr ([24403, 21069, 23450, 26102, 20219, 21153, 65306, 10] @ concat (map (task_line (px_env ctx) now) rows)))"

definition remove_task :: "faults \<Rightarrow> int \<Rightarrow> 'z proactive_ctx \<Rightarrow> rstr \<Rightarrow> db \<Rightarrow> (rstr + rstr) \<times> db" where
  "remove_task fl now_ms ctx i d =
     (case attempt (fl (CallCronRm i)) (cron_rm i d) of
        Inl e \<Rightarrow> (Inl (([21024, 38500] @ lit '' cron '' @ [22833, 36133] @ lit '': '') @ px_err ctx e), d)
      | Inr (removed, d1) \<Rightarrow>
          if removed then (Inr (([24050, 21024, 38500, 23450, 26102, 20219, 21153] @ lit '' id='') @ i @ [12290]), audit_op fl now_ms (lit ''cron_rm'') i d1)
          else (Inr (([27809, 26377] @ lit '' id='') @ i @ (lit '' '' @ [30340, 23450, 26102, 20219, 21153, 65288, 21487, 33021, 24050, 35302, 21457, 24182, 33258, 21160, 28165] @ [29702, 65289, 12290])), d1))"

definition handle_cron_op :: "faults \<Rightarrow> int \<Rightarrow> 'z proactive_ctx \<Rightarrow> int \<Rightarrow> rstr \<Rightarrow> cron_op \<Rightarrow> db \<Rightarrow> (rstr + rstr) \<times> bool \<times> db" where
  "handle_cron_op fl now_ms ctx now nid op d = (case op of
     OpAdd expr prompt tz \<Rightarrow> (case add_task fl now_ms ctx now nid expr prompt tz d of (r, d') \<Rightarrow> (r, False, d'))
   | OpDelay secs prompt \<Rightarrow> delay_task fl now_ms ctx now nid secs prompt d
   | OpList \<Rightarrow> (render_tasks fl ctx now d, False, d)
   | OpRm i \<Rightarrow> (case remove_task fl now_ms ctx i d of (r, d') \<Rightarrow> (r, False, d')))"

section \<open>What a scan does to the table\<close>

lemma audit_crons [simp]: "crons (settle d (attempt f (write_audit now a b p d))) = crons d"
proof -
  obtain rs where "write_audit now a b p d = Inr (d\<lparr>audits := rs\<rparr>)" by (simp add: write_audit_def Let_def)
  then show ?thesis by (cases f) simp_all
qed

lemmas audit_crons_now [simp] = audit_crons[of _ None, simplified]

lemma next_at_later: "next_at_of ctx c now = Some t \<Longrightarrow> now < t"
  unfolding next_at_of_def next_fire_def bind_res_def Let_def
  by (auto dest!: next_match_Some split: option.splits sum.splits if_splits)

definition marked :: "'z proactive_ctx \<Rightarrow> int \<Rightarrow> cron_row \<Rightarrow> cron_row" where
  "marked ctx now r = r\<lparr>cr_last_fired_at := Some now, cr_next_at := next_at_of ctx (cron_view_of r) now\<rparr>"

text \<open>The table after the tasks of \<open>ids\<close> fired.\<close>

definition fired_rows :: "'z proactive_ctx \<Rightarrow> int \<Rightarrow> rstr set \<Rightarrow> cron_row list \<Rightarrow> cron_row list" where
  "fired_rows ctx now ids rs = map (\<lambda>r. if cr_id r \<in> ids then marked ctx now r else r)
     (filter (\<lambda>r. \<not> (cr_id r \<in> ids \<and> is_once (cr_expr r))) rs)"

lemma marked_simps [simp]: "cr_id (marked ctx now r) = cr_id r" "cr_expr (marked ctx now r) = cr_expr r"
  by (simp_all add: marked_def)

lemma fired_rows_Nil [simp]: "fired_rows ctx now {} rs = rs"
  by (simp add: fired_rows_def)

lemma fired_rows_insert:
  "i \<notin> ids \<Longrightarrow> fired_rows ctx now ids (fired_rows ctx now {i} rs) = fired_rows ctx now (insert i ids) rs"
  by (induction rs) (auto simp: fired_rows_def)

lemma fired_rows_ids: "cr_id ` set (fired_rows ctx now ids rs) \<subseteq> cr_id ` set rs"
  by (auto simp: fired_rows_def)

lemma fired_rows_distinct: "distinct (map cr_id rs) \<Longrightarrow> distinct (map cr_id (fired_rows ctx now ids rs))"
proof -
  have "map cr_id (fired_rows ctx now ids rs) = map cr_id (filter (\<lambda>r. \<not> (cr_id r \<in> ids \<and> is_once (cr_expr r))) rs)"
    by (simp add: fired_rows_def)
  then show "distinct (map cr_id rs) \<Longrightarrow> ?thesis" by (simp add: distinct_map_filter)
qed

lemma view_of_simps [simp]:
  "cv_id (cron_view_of r) = cr_id r" "cv_expr (cron_view_of r) = cr_expr r" "cv_next_at (cron_view_of r) = cr_next_at r"
  "cv_enabled (cron_view_of r) = (cr_enabled r \<noteq> 0)"
  by (simp_all add: cron_view_of_def)

lemma fire_cron_rows:
  assumes "distinct (map cr_id (crons d))" "r \<in> set (crons d)"
  shows "fst (fire_cron no_faults now_ms ctx (cron_view_of r) now d) = [cron_event ctx (cron_view_of r)]"
    and "crons (snd (fire_cron no_faults now_ms ctx (cron_view_of r) now d)) = fired_rows ctx now {cr_id r} (crons d)"
proof -
  have only: "x \<in> set (crons d) \<Longrightarrow> cr_id x = cr_id r \<Longrightarrow> x = r" for x
    using assms by (auto simp: distinct_map dest: inj_onD)
  have "\<exists>d1. claim no_faults (cron_view_of r) d = Some d1 \<and> crons d1 = (if is_once (cr_expr r) then filter (\<lambda>x. cr_id x \<noteq> cr_id r) (crons d) else crons d)"
    using assms(2) by (auto simp: claim_def cron_rm_def)
  then obtain d1 where d1: "claim no_faults (cron_view_of r) d = Some d1"
    "crons d1 = (if is_once (cr_expr r) then filter (\<lambda>x. cr_id x \<noteq> cr_id r) (crons d) else crons d)" by blast
  show "fst (fire_cron no_faults now_ms ctx (cron_view_of r) now d) = [cron_event ctx (cron_view_of r)]"
    using d1 by (simp add: fire_cron_def)
  show "crons (snd (fire_cron no_faults now_ms ctx (cron_view_of r) now d)) = fired_rows ctx now {cr_id r} (crons d)"
  proof (cases "is_once (cr_expr r)")
    case True
    have "filter (\<lambda>x. \<not> (cr_id x = cr_id r \<and> is_once (cr_expr x))) (crons d) = filter (\<lambda>x. cr_id x \<noteq> cr_id r) (crons d)"
      using only True by (intro filter_cong) auto
    then show ?thesis using d1 True
      by (auto simp: fire_cron_def finish_cron_def Let_def fired_rows_def simp del: lit_Cons intro!: map_idI[symmetric])
  next
    case False
    have "filter (\<lambda>x. \<not> (cr_id x = cr_id r \<and> is_once (cr_expr x))) (crons d) = crons d"
      using only False by (intro filter_True) auto
    moreover have "map (\<lambda>x. if cr_id x = cr_id r then x\<lparr>cr_last_fired_at := Some now, cr_next_at := next_at_of ctx (cron_view_of r) now\<rparr> else x) (crons d)
        = map (\<lambda>x. if cr_id x = cr_id r then marked ctx now x else x) (crons d)"
      using only by (intro map_cong) (auto simp: marked_def)
    ultimately show ?thesis using d1 False
      by (simp add: fire_cron_def finish_cron_def Let_def fired_rows_def cron_mark_fired_def update_where_def del: lit_Cons)
  qed
qed

lemma fire_loop_rows:
  assumes "distinct (map cr_id (crons d))" "distinct ids"
    and "\<And>i. i \<in> set ids \<Longrightarrow> \<exists>r \<in> set (crons d). cr_id r = i \<and> find (\<lambda>c. cv_id c = i) rows = Some (cron_view_of r)"
  shows "fst (fire_loop no_faults now_ms ctx now rows ids d) = map (\<lambda>i. cron_event ctx (the (find (\<lambda>c. cv_id c = i) rows))) ids
    \<and> crons (snd (fire_loop no_faults now_ms ctx now rows ids d)) = fired_rows ctx now (set ids) (crons d)"
  using assms
proof (induction ids arbitrary: d)
  case (Cons i ids)
  obtain r where r: "r \<in> set (crons d)" "cr_id r = i" "find (\<lambda>c. cv_id c = i) rows = Some (cron_view_of r)"
    using Cons.prems(3)[of i] by auto
  obtain es d1 where f: "fire_cron no_faults now_ms ctx (cron_view_of r) now d = (es, d1)" by fastforce
  have es: "es = [cron_event ctx (cron_view_of r)]" and d1: "crons d1 = fired_rows ctx now {i} (crons d)"
    using fire_cron_rows[OF Cons.prems(1) r(1), of now_ms ctx now] f r(2) by auto
  have "\<exists>x \<in> set (crons d1). cr_id x = j \<and> find (\<lambda>c. cv_id c = j) rows = Some (cron_view_of x)" if j: "j \<in> set ids" for j
  proof -
    obtain x where x: "x \<in> set (crons d)" "cr_id x = j" "find (\<lambda>c. cv_id c = j) rows = Some (cron_view_of x)"
      using Cons.prems(3)[of j] j by auto
    have "j \<noteq> i" using Cons.prems(2) j by auto
    then have "x \<in> set (crons d1)" using x(1,2) unfolding d1 fired_rows_def by force
    with x show ?thesis by blast
  qed
  note IH = Cons.IH[OF _ _ this]
  have "fst (fire_loop no_faults now_ms ctx now rows ids d1) = map (\<lambda>i. cron_event ctx (the (find (\<lambda>c. cv_id c = i) rows))) ids
    \<and> crons (snd (fire_loop no_faults now_ms ctx now rows ids d1)) = fired_rows ctx now (set ids) (crons d1)"
    by (rule IH) (use Cons.prems(1,2) fired_rows_distinct d1 in auto)
  moreover have "fired_rows ctx now (set ids) (fired_rows ctx now {i} (crons d)) = fired_rows ctx now (set (i # ids)) (crons d)"
    using Cons.prems(2) by (simp add: fired_rows_insert)
  moreover have "fire_loop no_faults now_ms ctx now rows (i # ids) d
      = (es @ fst (fire_loop no_faults now_ms ctx now rows ids d1), snd (fire_loop no_faults now_ms ctx now rows ids d1))"
    by (simp only: fire_loop.simps r(3) option.case f prod.case split_beta fst_conv snd_conv)
  ultimately show ?case by (simp only: es d1 r(3) fst_conv snd_conv list.map option.sel append_Cons append_Nil simp_thms)
qed simp

lemma due_ids_iff: "i \<in> set (due_ids now rows) \<longleftrightarrow> (\<exists>c \<in> set rows. cv_id c = i \<and> cv_enabled c \<and> (\<exists>t. cv_next_at c = Some t \<and> t \<le> now))"
  by (force simp: due_ids_def eval_due_def List.map_filter_def split: option.splits if_splits)

lemma due_ids_distinct: "distinct (map cv_id rows) \<Longrightarrow> distinct (due_ids now rows)"
proof (induction rows)
  case (Cons c rows)
  have "cv_id c \<notin> set (due_ids now rows)" using Cons.prems by (simp add: due_ids_iff) (metis image_eqI)
  with Cons show ?case by (auto simp: due_ids_def eval_due_def List.map_filter_def split: option.splits)
qed (simp add: due_ids_def eval_due_def List.map_filter_def)

lemma set_cron_list: "set (cron_list d) = cron_view_of ` set (crons d)"
  by (simp add: cron_list_def)

lemma cron_list_distinct: "distinct (map cr_id (crons d)) \<Longrightarrow> distinct (map cv_id (cron_list d))"
proof -
  assume a: "distinct (map cr_id (crons d))"
  have "map cv_id (cron_list d) = map cr_id (sort_by (\<lambda>a b. cr_id b < cr_id a) (crons d))"
    by (simp add: cron_list_def)
  moreover have "distinct (map cr_id (sort_by (\<lambda>a b. cr_id b < cr_id a) (crons d)))"
    using a by (metis mset_map mset_sort_by mset_eq_imp_distinct_iff)
  ultimately show ?thesis by simp
qed

lemma find_view:
  assumes "distinct (map cr_id (crons d))" "r \<in> set (crons d)"
  shows "find (\<lambda>c. cv_id c = cr_id r) (cron_list d) = Some (cron_view_of r)"
proof -
  have "find (\<lambda>c. cv_id c = cr_id r) (cron_list d) \<noteq> None"
    using assms(2) by (auto simp: find_None_iff set_cron_list)
  then obtain c where c: "find (\<lambda>c. cv_id c = cr_id r) (cron_list d) = Some c" by blast
  then obtain x where "x \<in> set (crons d)" "c = cron_view_of x" "cr_id x = cr_id r"
    using find_SomeD[OF c] by (auto simp: set_cron_list)
  moreover have "x = r" using calculation assms by (auto simp: distinct_map dest: inj_onD)
  ultimately show ?thesis using c by simp
qed

lemma scan_rows:
  assumes dist: "distinct (map cr_id (crons d))" and scan: "cron_scan no_faults now_ms ctx now d = (es, d')"
  shows "es = map (\<lambda>i. cron_event ctx (the (find (\<lambda>c. cv_id c = i) (cron_list d)))) (due_ids now (cron_list d))
    \<and> crons d' = fired_rows ctx now (set (due_ids now (cron_list d))) (crons d)"
proof -
  have "\<exists>r \<in> set (crons d). cr_id r = i \<and> find (\<lambda>c. cv_id c = i) (cron_list d) = Some (cron_view_of r)"
    if i: "i \<in> set (due_ids now (cron_list d))" for i
  proof -
    obtain r where "r \<in> set (crons d)" "cr_id r = i" using i by (auto simp: due_ids_iff set_cron_list)
    with find_view[OF dist] show ?thesis by blast
  qed
  then have loop: "fst (fire_loop no_faults now_ms ctx now (cron_list d) (due_ids now (cron_list d)) d)
        = map (\<lambda>i. cron_event ctx (the (find (\<lambda>c. cv_id c = i) (cron_list d)))) (due_ids now (cron_list d))
    \<and> crons (snd (fire_loop no_faults now_ms ctx now (cron_list d) (due_ids now (cron_list d)) d))
        = fired_rows ctx now (set (due_ids now (cron_list d))) (crons d)"
    by (rule fire_loop_rows[OF dist due_ids_distinct[OF cron_list_distinct[OF dist]]])
  have "fire_loop no_faults now_ms ctx now (cron_list d) (due_ids now (cron_list d)) d = (es, d')"
    using scan by (simp add: cron_scan_def)
  with loop show ?thesis by (simp only: fst_conv snd_conv simp_thms)
qed

fun event_task :: "event \<Rightarrow> rstr option" where
  "event_task (EvProactive s k t (PsCron i)) = Some i"
| "event_task _ = None"


definition quiet_ctx :: "unit proactive_ctx" where
  "quiet_ctx = \<lparr> px_ask = \<lambda>_. SumTimeout, px_model = [], px_soul = [], px_default_tz = UTC, px_env = still_env, px_err = \<lambda>_. [] \<rparr>"

definition tea_task :: cron_row where
  "tea_task = \<lparr> cr_id = [1], cr_expr = ONCE_EXPR, cr_prompt = lit ''tea'', cr_tz = UTC, cr_next_at = Some 90, cr_last_fired_at = None, cr_enabled = 1 \<rparr>"

definition tea_db :: db where
  "tea_db = db_empty\<lparr>crons := [tea_task, tea_task\<lparr>cr_id := [2], cr_next_at := Some 500\<rparr>]\<rparr>"


section \<open>The tool calls, specified\<close>

definition new_task :: "rstr \<Rightarrow> rstr \<Rightarrow> rstr \<Rightarrow> rstr \<Rightarrow> int \<Rightarrow> cron_row" where
  "new_task i expr prompt tz t = \<lparr> cr_id = i, cr_expr = expr, cr_prompt = prompt, cr_tz = tz, cr_next_at = Some t,
     cr_last_fired_at = None, cr_enabled = 1 \<rparr>"

lemma audit_op_crons [simp]: "crons (audit_op fl now_ms a i d) = crons d"
  by (simp add: audit_op_def)

lemma cron_add_rows:
  "attempt f (cron_add \<lparr> nc_id = i, nc_expr = e, nc_prompt = p, nc_tz = z, nc_next_at = Some t \<rparr> d) = Inr d1 \<Longrightarrow>
     crons d1 = crons d @ [new_task i e p z t] \<and> i \<notin> cr_id ` set (crons d)"
  by (cases f) (auto simp: cron_add_def new_task_def split: if_splits)

lemma add_task_result:
  "add_task fl now_ms ctx now nid expr prompt tz d = (r, d') \<Longrightarrow>
     (\<forall>e. r = Inl e \<longrightarrow> d' = d) \<and> (\<forall>ok. r = Inr ok \<longrightarrow> nid \<notin> cr_id ` set (crons d) \<and>
        (\<exists>t. next_fire (px_env ctx) expr now (chosen_tz ctx tz) = Some (Inr (Some t))
           \<and> crons d' = crons d @ [new_task nid expr prompt (chosen_tz ctx tz) t]))"
  by (auto simp: add_task_def Let_def dest: cron_add_rows simp del: lit_Cons split: option.splits sum.splits)

lemma delay_task_result:
  "delay_task fl now_ms ctx now nid secs prompt d = (r, tm, d') \<Longrightarrow>
     (\<forall>e. r = Inl e \<longrightarrow> d' = d \<and> \<not> tm) \<and> (\<forall>ok. r = Inr ok \<longrightarrow> 0 < secs \<and> secs \<le> MAX_DELAY_SECS
        \<and> tm = (secs \<le> PRECISE_TIMER_HORIZON_SECS) \<and> nid \<notin> cr_id ` set (crons d)
        \<and> crons d' = crons d @ [new_task nid ONCE_EXPR prompt (px_default_tz ctx) (now + secs)])"
  by (auto simp: delay_task_def Let_def dest: cron_add_rows simp del: lit_Cons split: sum.splits if_splits)

lemma remove_task_result:
  "remove_task fl now_ms ctx i d = (r, d') \<Longrightarrow>
     (\<forall>e. r = Inl e \<longrightarrow> d' = d) \<and> (\<forall>ok. r = Inr ok \<longrightarrow> crons d' = filter (\<lambda>r. cr_id r \<noteq> i) (crons d))"
  by (cases "fl (CallCronRm i)") (auto simp: remove_task_def cron_rm_def simp del: lit_Cons split: if_splits)

text \<open>A refused tool call changes nothing and sets no timer.  An accepted expression is stored with its
  first matching minute; an accepted delay is between a second and thirty days, is stored as a
  one-shot task due exactly then, and gets a precise timer when it is an hour or less; a removal
  leaves no task under the identifier and every other task.\<close>

theorem cron_ops_spec:
  assumes "handle_cron_op fl now_ms ctx now nid op d = (r, tm, d')"
  shows "(\<forall>e. r = Inl e \<longrightarrow> crons d' = crons d \<and> \<not> tm)
    \<and> (\<forall>ok. r = Inr ok \<longrightarrow> (case op of
         OpAdd expr prompt tz \<Rightarrow> \<not> tm \<and> nid \<notin> cr_id ` set (crons d)
           \<and> (\<exists>t. now < t \<and> next_fire (px_env ctx) expr now (chosen_tz ctx tz) = Some (Inr (Some t))
                \<and> crons d' = crons d @ [new_task nid expr prompt (chosen_tz ctx tz) t])
       | OpDelay secs prompt \<Rightarrow> 0 < secs \<and> secs \<le> 30 * 86400 \<and> tm = (secs \<le> 3600) \<and> nid \<notin> cr_id ` set (crons d)
           \<and> crons d' = crons d @ [new_task nid ONCE_EXPR prompt (px_default_tz ctx) (now + secs)]
       | OpList \<Rightarrow> d' = d
       | OpRm i \<Rightarrow> crons d' = filter (\<lambda>r. cr_id r \<noteq> i) (crons d)))"
proof (cases op)
  case (OpAdd expr prompt tz)
  obtain r1 d1 where a: "add_task fl now_ms ctx now nid expr prompt tz d = (r1, d1)" by fastforce
  then have eq: "r = r1" "tm = False" "d' = d1" using assms OpAdd by (simp_all add: handle_cron_op_def)
  have later: "next_fire (px_env ctx) expr now (chosen_tz ctx tz) = Some (Inr (Some t)) \<Longrightarrow> now < t" for t
    using next_at_later[of ctx "\<lparr> cv_id = [], cv_expr = expr, cv_prompt = [], cv_tz = chosen_tz ctx tz, cv_next_at = None,
        cv_last_fired_at = None, cv_enabled = True \<rparr>" now t] by (simp add: next_at_of_def)
  show ?thesis using add_task_result[OF a] later unfolding eq OpAdd cron_op.case by blast
next
  case (OpDelay secs prompt)
  then have "delay_task fl now_ms ctx now nid secs prompt d = (r, tm, d')" using assms by (simp add: handle_cron_op_def)
  from delay_task_result[OF this] show ?thesis
    unfolding OpDelay MAX_DELAY_SECS_def PRECISE_TIMER_HORIZON_SECS_def cron_op.case by blast
next
  case OpList
  then show ?thesis using assms by (auto simp: handle_cron_op_def)
next
  case (OpRm i)
  obtain r1 d1 where a: "remove_task fl now_ms ctx i d = (r1, d1)" by fastforce
  then have eq: "r = r1" "tm = False" "d' = d1" using assms OpRm by (simp_all add: handle_cron_op_def)
  show ?thesis using remove_task_result[OF a] unfolding eq OpRm cron_op.case by blast
qed

lemma cron_ops_spec_witness:
  "\<exists>r tm d'. handle_cron_op no_faults 0 quiet_ctx 100 [9] (OpDelay 10 (lit ''tea'')) db_empty = (r, tm, d')
     \<and> tm \<and> crons d' = [new_task [9] ONCE_EXPR (lit ''tea'') UTC 110]"
proof -
  obtain r tm d' where h: "handle_cron_op no_faults 0 quiet_ctx 100 [9] (OpDelay 10 (lit ''tea'')) db_empty = (r, tm, d')"
    using prod_cases3 by blast
  have "\<exists>ok. r = Inr ok"
    using h by (auto simp: handle_cron_op_def delay_task_def MAX_DELAY_SECS_def Let_def cron_add_def db_empty_def
        simp del: lit_Cons)
  then show ?thesis using cron_ops_spec[OF h] h by (auto simp: quiet_ctx_def db_empty_def simp del: lit_Cons)
qed

section \<open>Timers and heartbeat side by side\<close>

text \<open>Rows read by someone and not yet claimed, tasks claimed and running, the tasks reminded of, and the
  expression each identifier was created with.  Every step is what one of the tasks does between two
  awaits; \<open>died\<close> is the end of the process, after which the heartbeat starts again.\<close>

record cron_world =
  cw_db :: db
  cw_read :: "cron_view list"
  cw_running :: "cron_view list"
  cw_fired :: "rstr list"
  cw_expr :: "rstr \<Rightarrow> rstr option"

inductive cron_step :: "'z proactive_ctx \<Rightarrow> cron_world \<Rightarrow> cron_world \<Rightarrow> bool"
  for ctx :: "'z proactive_ctx" where
  heartbeat: "rows = filter (\<lambda>c. cv_id c \<in> set (due_ids now (cron_list (cw_db w)))) (cron_list (cw_db w)) \<Longrightarrow>
     cron_step ctx w (w\<lparr>cw_read := cw_read w @ rows\<rparr>)"
| timer: "c \<in> set (cron_list (cw_db w)) \<Longrightarrow> cv_enabled c \<Longrightarrow> cron_step ctx w (w\<lparr>cw_read := c # cw_read w\<rparr>)"
| claimed: "c \<in> set (cw_read w) \<Longrightarrow> claim fl c (cw_db w) = Some d \<Longrightarrow>
     cron_step ctx w (w\<lparr>cw_db := d, cw_read := remove1 c (cw_read w), cw_running := c # cw_running w\<rparr>)"
| lost: "c \<in> set (cw_read w) \<Longrightarrow> claim fl c (cw_db w) = None \<Longrightarrow> cron_step ctx w (w\<lparr>cw_read := remove1 c (cw_read w)\<rparr>)"
| fired: "c \<in> set (cw_running w) \<Longrightarrow>
     cron_step ctx w (w\<lparr>cw_db := finish_cron fl now_ms ctx c now (cw_db w), cw_running := remove1 c (cw_running w),
                     cw_fired := cw_fired w @ [cv_id c]\<rparr>)"
| added: "handle_cron_op fl now_ms ctx now nid op (cw_db w) = (r, tm, d) \<Longrightarrow> cw_expr w nid = None \<Longrightarrow>
     cron_step ctx w (w\<lparr>cw_db := d, cw_expr := (cw_expr w)(nid := map_of (map (\<lambda>r. (cr_id r, cr_expr r)) (crons d)) nid)\<rparr>)"
| died: "cron_step ctx w (w\<lparr>cw_read := [], cw_running := []\<rparr>)"

definition cron_start :: cron_world where
  "cron_start = \<lparr> cw_db = db_empty, cw_read = [], cw_running = [], cw_fired = [], cw_expr = Map.empty \<rparr>"

inductive cron_reach :: "'z proactive_ctx \<Rightarrow> cron_world \<Rightarrow> bool"
  for ctx :: "'z proactive_ctx" where
  start: "cron_reach ctx cron_start"
| step: "cron_reach ctx w \<Longrightarrow> cron_step ctx w w' \<Longrightarrow> cron_reach ctx w'"

definition views_ok :: "cron_world \<Rightarrow> bool" where
  "views_ok w \<longleftrightarrow> distinct (map cr_id (crons (cw_db w)))
     \<and> (\<forall>r \<in> set (crons (cw_db w)). cw_expr w (cr_id r) = Some (cr_expr r))
     \<and> (\<forall>c \<in> set (cw_read w) \<union> set (cw_running w). cw_expr w (cv_id c) = Some (cv_expr c))
     \<and> (\<forall>i \<in> set (cw_fired w). cw_expr w i \<noteq> None)"

definition spent :: "cron_world \<Rightarrow> rstr \<Rightarrow> nat" where
  "spent w i = count_list (cw_fired w) i + count_list (map cv_id (cw_running w)) i"

definition once_ok :: "cron_world \<Rightarrow> bool" where
  "once_ok w \<longleftrightarrow> (\<forall>i e. cw_expr w i = Some e \<longrightarrow> is_once e \<longrightarrow>
     spent w i \<le> (if i \<in> cr_id ` set (crons (cw_db w)) then 0 else 1))"

lemma cron_start_ok: "views_ok cron_start \<and> once_ok cron_start"
  by (simp add: views_ok_def once_ok_def cron_start_def db_empty_def)

lemma count_remove1: "c \<in> set cs \<Longrightarrow> count_list (map cv_id cs) i = count_list (map cv_id (remove1 c cs)) i + (if cv_id c = i then 1 else 0)"
  by (induction cs) auto

lemma count_fresh: "i \<notin> set xs \<Longrightarrow> count_list xs i = 0"
  by (simp add: count_list_0_iff)

lemma claim_crons:
  assumes "claim fl c d = Some d1"
  shows "crons d1 = (if is_once (cv_expr c) then filter (\<lambda>r. cr_id r \<noteq> cv_id c) (crons d) else crons d)"
    and "is_once (cv_expr c) \<Longrightarrow> cv_id c \<in> cr_id ` set (crons d)"
proof -
  have "\<not> is_once (cv_expr c) \<and> d1 = d \<or> is_once (cv_expr c) \<and> (\<exists>r \<in> set (crons d). cr_id r = cv_id c)
      \<and> crons d1 = filter (\<lambda>r. cr_id r \<noteq> cv_id c) (crons d)"
    using assms by (cases "fl (CallCronRm (cv_id c))") (auto simp: claim_def cron_rm_def split: if_splits)
  then show "crons d1 = (if is_once (cv_expr c) then filter (\<lambda>r. cr_id r \<noteq> cv_id c) (crons d) else crons d)"
    and "is_once (cv_expr c) \<Longrightarrow> cv_id c \<in> cr_id ` set (crons d)" by (auto intro: rev_image_eqI)
qed

lemma finish_crons:
  "\<exists>p f. crons (finish_cron fl now_ms ctx c now d) = update_where p f (crons d) \<and> (\<forall>r. cr_id (f r) = cr_id r \<and> cr_expr (f r) = cr_expr r)"
proof (cases "is_once (cv_expr c) \<or> fl (CallCronFired (cv_id c)) \<noteq> None")
  case True
  then have "crons (finish_cron fl now_ms ctx c now d) = update_where (\<lambda>_. False) (\<lambda>r. r) (crons d)"
    by (auto simp: finish_cron_def Let_def update_where_def simp del: lit_Cons)
  then show ?thesis by blast
next
  case False
  then have "crons (finish_cron fl now_ms ctx c now d) = update_where (\<lambda>r. cr_id r = cv_id c)
     (\<lambda>r. r\<lparr>cr_last_fired_at := Some now, cr_next_at := next_at_of ctx c now\<rparr>) (crons d)"
    by (simp add: finish_cron_def Let_def cron_mark_fired_def del: lit_Cons)
  then show ?thesis by force
qed

lemma update_where_keys:
  assumes "\<And>r. cr_id (f r) = cr_id r" "\<And>r. cr_expr (f r) = cr_expr r"
  shows "map (\<lambda>r. (cr_id r, cr_expr r)) (update_where p f rs) = map (\<lambda>r. (cr_id r, cr_expr r)) rs"
  by (rule map_update_where) (simp add: assms)

lemma keys_transfer:
  assumes "map (\<lambda>r. (cr_id r, cr_expr r)) rs' = map (\<lambda>r. (cr_id r, cr_expr r)) rs"
  shows "map cr_id rs' = map cr_id rs" "cr_id ` set rs' = cr_id ` set rs"
    "(\<forall>r \<in> set rs'. E (cr_id r) = Some (cr_expr r)) \<longleftrightarrow> (\<forall>r \<in> set rs. E (cr_id r) = Some (cr_expr r))"
proof -
  have "map fst (map (\<lambda>r. (cr_id r, cr_expr r)) rs') = map fst (map (\<lambda>r. (cr_id r, cr_expr r)) rs)" by (simp only: assms)
  then show m: "map cr_id rs' = map cr_id rs" by (simp add: comp_def)
  then show "cr_id ` set rs' = cr_id ` set rs" by (metis set_map)
  have "(\<lambda>r. (cr_id r, cr_expr r)) ` set rs' = (\<lambda>r. (cr_id r, cr_expr r)) ` set rs" by (metis assms set_map)
  then have "(\<forall>q \<in> (\<lambda>r. (cr_id r, cr_expr r)) ` set rs'. E (fst q) = Some (snd q))
      \<longleftrightarrow> (\<forall>q \<in> (\<lambda>r. (cr_id r, cr_expr r)) ` set rs. E (fst q) = Some (snd q))" by simp
  then show "(\<forall>r \<in> set rs'. E (cr_id r) = Some (cr_expr r)) \<longleftrightarrow> (\<forall>r \<in> set rs. E (cr_id r) = Some (cr_expr r))" by simp
qed

lemma op_crons:
  assumes "handle_cron_op fl now_ms ctx now nid op d = (r, tm, d')"
  shows "(\<exists>p. crons d' = filter p (crons d)) \<or> nid \<notin> cr_id ` set (crons d) \<and> (\<exists>e p z t. crons d' = crons d @ [new_task nid e p z t])"
proof (cases op)
  case (OpAdd expr prompt tz)
  obtain r1 d1 where a: "add_task fl now_ms ctx now nid expr prompt tz d = (r1, d1)" by fastforce
  then have eq: "d' = d1" using assms OpAdd by (simp add: handle_cron_op_def)
  have "crons d = filter (\<lambda>_. True) (crons d)" by simp
  then show ?thesis using add_task_result[OF a] unfolding eq by (cases r1) metis+
next
  case (OpDelay secs prompt)
  then have "delay_task fl now_ms ctx now nid secs prompt d = (r, tm, d')" using assms by (simp add: handle_cron_op_def)
  moreover have filter_all: "crons d = filter (\<lambda>_. True) (crons d)" by simp
  ultimately show ?thesis using delay_task_result[of fl now_ms ctx now nid secs prompt d r tm d'] by (cases r) metis+
next
  case OpList
  then show ?thesis using assms by (auto simp: handle_cron_op_def intro: exI[of _ "\<lambda>_. True"])
next
  case (OpRm i)
  obtain r1 d1 where a: "remove_task fl now_ms ctx i d = (r1, d1)" by fastforce
  then have eq: "d' = d1" using assms OpRm by (simp add: handle_cron_op_def)
  show ?thesis using remove_task_result[OF a] unfolding eq by (cases r1) (auto intro: exI[of _ "\<lambda>_. True"])
qed

lemma once_ok_mono:
  assumes "\<And>i. spent w' i \<le> spent w i" "cw_expr w' = cw_expr w" "crons (cw_db w') = crons (cw_db w)" "once_ok w"
  shows "once_ok w'"
  unfolding once_ok_def
proof (intro allI impI)
  fix i e
  assume "cw_expr w' i = Some e" "is_once e"
  then have "spent w i \<le> (if i \<in> cr_id ` set (crons (cw_db w)) then 0 else 1)"
    using assms(2,4) unfolding once_ok_def by metis
  then show "spent w' i \<le> (if i \<in> cr_id ` set (crons (cw_db w')) then 0 else 1)"
    unfolding assms(3) by (rule order_trans[OF assms(1)])
qed

lemma cron_step_ok:
  assumes "cron_step ctx w w'" "views_ok w \<and> once_ok w"
  shows "views_ok w' \<and> once_ok w'"
  using assms
proof (induction rule: cron_step.induct)
  case (heartbeat rows w)
  then show ?case by (auto simp: views_ok_def once_ok_def spent_def set_cron_list)
next
  case (timer c w)
  then show ?case by (auto simp: views_ok_def once_ok_def spent_def set_cron_list)
next
  case (claimed c w fl d)
  note cr = claim_crons[OF claimed(2)]
  have e: "cw_expr w (cv_id c) = Some (cv_expr c)" using claimed(1,3) by (simp add: views_ok_def)
  have v: "views_ok (w\<lparr>cw_db := d, cw_read := remove1 c (cw_read w), cw_running := c # cw_running w\<rparr>)"
  proof -
    have "distinct (map cr_id (crons d))" "set (crons d) \<subseteq> set (crons (cw_db w))"
      using claimed(3) unfolding views_ok_def cr(1) by (auto simp: distinct_map_filter)
    then show ?thesis using claimed(1,3) e set_remove1_subset[of c "cw_read w"] unfolding views_ok_def by auto
  qed
  have "once_ok (w\<lparr>cw_db := d, cw_read := remove1 c (cw_read w), cw_running := c # cw_running w\<rparr>)"
    unfolding once_ok_def
  proof (intro allI impI)
    fix i ex
    assume "cw_expr (w\<lparr>cw_db := d, cw_read := remove1 c (cw_read w), cw_running := c # cw_running w\<rparr>) i = Some ex"
      and once: "is_once ex"
    then have i: "cw_expr w i = Some ex" by simp
    with once claimed(3) have le: "spent w i \<le> (if i \<in> cr_id ` set (crons (cw_db w)) then 0 else 1)" by (simp add: once_ok_def)
    show "spent (w\<lparr>cw_db := d, cw_read := remove1 c (cw_read w), cw_running := c # cw_running w\<rparr>) i
        \<le> (if i \<in> cr_id ` set (crons (cw_db (w\<lparr>cw_db := d, cw_read := remove1 c (cw_read w), cw_running := c # cw_running w\<rparr>))) then 0 else 1)"
    proof (cases "cv_id c = i")
      case True
      then have "is_once (cv_expr c)" using e i once by simp
      with cr True have "crons d = filter (\<lambda>r. cr_id r \<noteq> i) (crons (cw_db w))" "i \<in> cr_id ` set (crons (cw_db w))" by auto
      with le True show ?thesis by (auto simp: spent_def)
    next
      case False
      then have "i \<in> cr_id ` set (crons d) \<longleftrightarrow> i \<in> cr_id ` set (crons (cw_db w))" unfolding cr(1) by auto
      with le False show ?thesis by (simp add: spent_def)
    qed
  qed
  with v show ?case ..
next
  case (lost c w fl)
  then show ?case using set_remove1_subset[of c "cw_read w"] by (auto simp: views_ok_def once_ok_def spent_def)
next
  case (fired c w fl now_ms now)
  obtain p f where f: "crons (finish_cron fl now_ms ctx c now (cw_db w)) = update_where p f (crons (cw_db w))"
    "\<forall>r. cr_id (f r) = cr_id r \<and> cr_expr (f r) = cr_expr r" using finish_crons by blast
  have keys: "map (\<lambda>r. (cr_id r, cr_expr r)) (crons (finish_cron fl now_ms ctx c now (cw_db w)))
      = map (\<lambda>r. (cr_id r, cr_expr r)) (crons (cw_db w))"
    unfolding f(1) by (rule update_where_keys) (simp_all add: f(2))
  let ?w = "w\<lparr>cw_db := finish_cron fl now_ms ctx c now (cw_db w), cw_running := remove1 c (cw_running w), cw_fired := cw_fired w @ [cv_id c]\<rparr>"
  have sp: "spent ?w i = spent w i" for i using count_remove1[OF fired(1), of i] by (simp add: spent_def)
  have "once_ok ?w" using fired(2) keys_transfer(2)[OF keys] unfolding once_ok_def sp by simp
  moreover have "views_ok ?w"
    using fired set_remove1_subset[of c "cw_running w"] keys_transfer[OF keys] unfolding views_ok_def by auto
  ultimately show ?case by blast
next
  case (added fl now_ms now nid op w r tm d)
  let ?E = "(cw_expr w)(nid := map_of (map (\<lambda>r. (cr_id r, cr_expr r)) (crons d)) nid)"
  have old: "\<And>r. r \<in> set (crons (cw_db w)) \<Longrightarrow> cr_id r \<noteq> nid" "\<And>c. c \<in> set (cw_read w) \<union> set (cw_running w) \<Longrightarrow> cv_id c \<noteq> nid"
    "nid \<notin> set (cw_fired w)" using added(2,3) by (auto simp: views_ok_def)
  have sp: "spent w nid = 0" using old unfolding spent_def by (metis (no_types, lifting) UnI2 add_is_0 count_list_0_iff imageE set_map)
  from op_crons[OF added(1)] show ?case
  proof
    assume "\<exists>p. crons d = filter p (crons (cw_db w))"
    then obtain p where p: "crons d = filter p (crons (cw_db w))" by blast
    have "map_of (map (\<lambda>r. (cr_id r, cr_expr r)) (crons d)) nid = None"
    proof -
      have "nid \<notin> cr_id ` set (crons (cw_db w))" using old(1) by (metis imageE)
      then show ?thesis unfolding p by (auto simp: map_of_eq_None_iff)
    qed
    then have "?E = cw_expr w" using added(2) by (simp add: fun_upd_idem)
    moreover have "views_ok (w\<lparr>cw_db := d\<rparr>)" using added(3) unfolding views_ok_def by (simp add: p distinct_map_filter)
    moreover have "once_ok (w\<lparr>cw_db := d\<rparr>)" unfolding once_ok_def
    proof (intro allI impI)
      fix i e
      assume "cw_expr (w\<lparr>cw_db := d\<rparr>) i = Some e" "is_once e"
      then have "spent w i \<le> (if i \<in> cr_id ` set (crons (cw_db w)) then 0 else 1)" using added(3) by (simp add: once_ok_def)
      moreover have "i \<in> cr_id ` set (crons d) \<Longrightarrow> i \<in> cr_id ` set (crons (cw_db w))" unfolding p by auto
      ultimately show "spent (w\<lparr>cw_db := d\<rparr>) i \<le> (if i \<in> cr_id ` set (crons (cw_db (w\<lparr>cw_db := d\<rparr>))) then 0 else 1)"
        by (auto simp: spent_def split: if_splits)
    qed
    ultimately show ?thesis by simp
  next
    assume "nid \<notin> cr_id ` set (crons (cw_db w)) \<and> (\<exists>e p z t. crons d = crons (cw_db w) @ [new_task nid e p z t])"
    then obtain e p z t where d: "crons d = crons (cw_db w) @ [new_task nid e p z t]" and fresh: "nid \<notin> cr_id ` set (crons (cw_db w))" by blast
    let ?w = "w\<lparr>cw_db := d, cw_expr := ?E\<rparr>"
    have E: "?E = (cw_expr w)(nid := Some e)" 
    proof -
      have "map_of (map (\<lambda>r. (cr_id r, cr_expr r)) (crons (cw_db w))) nid = None"
        using fresh by (simp add: map_of_eq_None_iff image_image)
      then show ?thesis by (simp add: d new_task_def map_add_def)
    qed
    have "views_ok ?w" using added(3) fresh old unfolding views_ok_def E by (simp add: d new_task_def)
    moreover have "once_ok ?w" unfolding once_ok_def
    proof (intro allI impI)
      fix i x
      assume x: "cw_expr ?w i = Some x" "is_once x"
      show "spent ?w i \<le> (if i \<in> cr_id ` set (crons (cw_db ?w)) then 0 else 1)"
      proof (cases "i = nid")
        case False
        then have "cw_expr w i = Some x" using x(1) unfolding E by simp
        then have "spent w i \<le> (if i \<in> cr_id ` set (crons (cw_db w)) then 0 else 1)" using added(3) x(2) by (simp add: once_ok_def)
        then show ?thesis using False by (simp add: d new_task_def spent_def)
      qed (use sp in \<open>simp add: spent_def\<close>)
    qed
    ultimately show ?thesis by blast
  qed
next
  case (died w)
  let ?w = "w\<lparr>cw_read := [], cw_running := []\<rparr>"
  have "spent ?w i \<le> spent w i" for i by (simp add: spent_def)
  then have "once_ok ?w" using died by (intro once_ok_mono[of ?w w]) auto
  moreover have "views_ok ?w" using died by (simp add: views_ok_def)
  ultimately show ?case by blast
qed

lemma cron_reach_ok: "cron_reach ctx w \<Longrightarrow> views_ok w \<and> once_ok w"
  by (induction rule: cron_reach.induct) (use cron_start_ok cron_step_ok in blast)+

text \<open>C9. Whatever order the heartbeat, the precise timers, the tool calls and restarts of the process come
  in, a one-shot task reminds at most once, and while it is still in the table it has not reminded.\<close>

theorem once_fires_at_most_once:
  assumes "cron_reach ctx w" "cw_expr w i = Some e" "is_once e"
  shows "count_list (cw_fired w) i \<le> 1 \<and> (i \<in> cr_id ` set (crons (cw_db w)) \<longrightarrow> i \<notin> set (cw_fired w))"
proof -
  have "spent w i \<le> (if i \<in> cr_id ` set (crons (cw_db w)) then 0 else 1)"
    using cron_reach_ok[OF assms(1)] assms(2,3) by (simp add: once_ok_def)
  then show ?thesis by (auto simp: spent_def count_list_0_iff split: if_splits)
qed

lemma once_fires_at_most_once_witness:
  "\<exists>w. cron_reach quiet_ctx w \<and> cw_fired w = [[9]] \<and> count_list (cw_fired w) [9] \<le> 1"
proof -
  define row where "row = new_task [9] ONCE_EXPR (lit ''tea'') UTC 110"
  obtain r tm d where h: "handle_cron_op no_faults 0 quiet_ctx 100 [9] (OpDelay 10 (lit ''tea'')) db_empty = (r, tm, d)"
    using prod_cases3 by blast
  then have d: "crons d = [row]"
    by (auto simp: handle_cron_op_def delay_task_def MAX_DELAY_SECS_def Let_def cron_add_def db_empty_def row_def
        new_task_def quiet_ctx_def simp del: lit_Cons)
  let ?c = "cron_view_of row"
  have once: "is_once ONCE_EXPR" by code_simp
  define w1 where "w1 = cron_start\<lparr>cw_db := d, cw_expr := [[9] \<mapsto> ONCE_EXPR]\<rparr>"
  have r1: "cron_reach quiet_ctx w1"
  proof -
    have "cron_step quiet_ctx cron_start (cron_start\<lparr>cw_db := d, cw_expr := (cw_expr cron_start)([9] := map_of (map (\<lambda>r. (cr_id r, cr_expr r)) (crons d)) [9])\<rparr>)"
      by (rule cron_step.added) (use h in \<open>simp_all add: cron_start_def\<close>)
    then show ?thesis using cron_reach.step[OF cron_reach.start]
      by (simp add: w1_def d row_def new_task_def cron_start_def)
  qed
  define w2 where "w2 = w1\<lparr>cw_read := [?c, ?c]\<rparr>"
  have r2: "cron_reach quiet_ctx w2"
  proof -
    have t: "cron_step quiet_ctx w (w\<lparr>cw_read := ?c # cw_read w\<rparr>)" if "cw_db w = d" for w
      by (rule cron_step.timer) (use that d in \<open>simp_all add: cron_list_def row_def new_task_def cron_view_of_def\<close>)
    have "cron_reach quiet_ctx (w1\<lparr>cw_read := [?c]\<rparr>)"
      using cron_reach.step[OF r1 t] by (simp add: w1_def cron_start_def)
    from cron_reach.step[OF this t] show ?thesis by (simp add: w1_def w2_def)
  qed
  obtain d' where cl: "claim no_faults ?c d = Some d'"
    using once by (auto simp: claim_def cron_rm_def d row_def new_task_def cron_view_of_def simp del: lit_Cons)
  define w3 where "w3 = w2\<lparr>cw_db := d', cw_read := [?c], cw_running := [?c]\<rparr>"
  have r3: "cron_reach quiet_ctx w3"
  proof -
    have "cron_step quiet_ctx w2 (w2\<lparr>cw_db := d', cw_read := remove1 ?c (cw_read w2), cw_running := ?c # cw_running w2\<rparr>)"
      by (rule cron_step.claimed[where fl = no_faults]) (use cl in \<open>simp_all add: w2_def w1_def\<close>)
    from cron_reach.step[OF r2 this] show ?thesis by (simp add: w3_def w2_def w1_def cron_start_def)
  qed
  obtain w4 where r4: "cron_reach quiet_ctx w4" "cw_fired w4 = [[9]]" "cw_expr w4 = [[9] \<mapsto> ONCE_EXPR]"
  proof -
    let ?w = "w3\<lparr>cw_db := finish_cron no_faults 0 quiet_ctx ?c 0 (cw_db w3), cw_running := remove1 ?c (cw_running w3), cw_fired := cw_fired w3 @ [cv_id ?c]\<rparr>"
    have s: "cron_step quiet_ctx w3 ?w" by (rule cron_step.fired) (simp add: w3_def)
    show ?thesis by (rule that[OF cron_reach.step[OF r3 s]])
      (simp_all add: w3_def w2_def w1_def cron_start_def row_def new_task_def)
  qed
  then show ?thesis using once_fires_at_most_once[OF r4(1) _ once, of "[9]"] by auto
qed

end
