(* ===== verification/Lane.thy ===== *)
theory Lane
  imports Session_Actor
begin

text \<open>
  The runtime diagnosis of a session, \<open>crates/oc-server/src/diag.rs\<close>, and a session with it: \<open>lane\<close> is
  the actor of \<open>Session_Actor\<close> beside its cell of the diagnosis table, \<open>lane_handle\<close> one command
  with the updates the handler makes to the cell.  The diagnosis is what \<open>status\<close>, \<open>/stop\<close> and the
  stuck-run scan read.  Parameters: \<open>err\<close> and \<open>dbg\<close>, the texts of a store error and of an outcome.
\<close>

section \<open>The cell\<close>

datatype run_phase = PhaseStarting | PhaseAwaitingModel | PhaseStreaming | PhaseToolExec | PhaseCompacting

record run_live =
  rl_run_id :: rstr
  rl_phase :: run_phase
  rl_started_at :: int
  rl_last_delta_at :: "int option"
  rl_tool_rounds :: nat
  rl_acc_chars :: nat

record diag_state =
  dg_queue_depth :: nat
  dg_active :: "run_live option"
  dg_busy_since :: "int option"
  dg_total_runs :: nat
  dg_last_finish :: "rstr option"
  dg_last_error :: "rstr option"

definition diag_new :: diag_state where
  "diag_new = \<lparr> dg_queue_depth = 0, dg_active = None, dg_busy_since = None, dg_total_runs = 0, dg_last_finish = None, dg_last_error = None \<rparr>"

definition set_queue_depth :: "nat \<Rightarrow> diag_state \<Rightarrow> diag_state" where
  "set_queue_depth n g = g\<lparr>dg_queue_depth := n\<rparr>"

definition run_live_new :: "rstr \<Rightarrow> run_phase \<Rightarrow> int \<Rightarrow> run_live" where
  "run_live_new rid ph at_ms = \<lparr> rl_run_id = rid, rl_phase = ph, rl_started_at = at_ms, rl_last_delta_at = None, rl_tool_rounds = 0, rl_acc_chars = 0 \<rparr>"

definition run_start :: "int \<Rightarrow> rstr \<Rightarrow> diag_state \<Rightarrow> diag_state" where
  "run_start now rid g = g\<lparr> dg_total_runs := dg_total_runs g + 1, dg_busy_since := Some now,
     dg_active := Some (run_live_new rid PhaseStarting now) \<rparr>"

definition on_active :: "(run_live \<Rightarrow> run_live) \<Rightarrow> diag_state \<Rightarrow> diag_state" where
  "on_active f g = g\<lparr>dg_active := map_option f (dg_active g)\<rparr>"

definition set_phase :: "run_phase \<Rightarrow> diag_state \<Rightarrow> diag_state" where
  "set_phase ph = on_active (\<lambda>r. r\<lparr>rl_phase := ph\<rparr>)"

definition delta_seen :: "int \<Rightarrow> nat \<Rightarrow> diag_state \<Rightarrow> diag_state" where
  "delta_seen now chars = on_active (\<lambda>r. r\<lparr> rl_phase := PhaseStreaming, rl_last_delta_at := Some now, rl_acc_chars := chars \<rparr>)"

definition progress :: "int \<Rightarrow> diag_state \<Rightarrow> diag_state" where
  "progress now = on_active (\<lambda>r. r\<lparr>rl_last_delta_at := Some now\<rparr>)"

definition set_tool_rounds :: "nat \<Rightarrow> diag_state \<Rightarrow> diag_state" where
  "set_tool_rounds n = on_active (\<lambda>r. r\<lparr>rl_tool_rounds := n\<rparr>)"

definition run_tool_rounds :: "diag_state \<Rightarrow> nat option" where
  "run_tool_rounds g = map_option rl_tool_rounds (dg_active g)"

definition idle_secs :: "int \<Rightarrow> diag_state \<Rightarrow> nat option" where
  "idle_secs now g = map_option (\<lambda>t. nat (max (sat_i64 (now - t)) 0) div 1000) (Option.bind (dg_active g) rl_last_delta_at)"

definition run_done :: "rstr \<Rightarrow> diag_state \<Rightarrow> diag_state" where
  "run_done reason g = g\<lparr> dg_active := None, dg_busy_since := None, dg_last_finish := Some reason \<rparr>"

definition compact_start :: "int \<Rightarrow> diag_state \<Rightarrow> diag_state" where
  "compact_start now g = g\<lparr> dg_busy_since := Some now, dg_active := Some (run_live_new (lit ''compact'') PhaseCompacting now) \<rparr>"

definition compact_done :: "diag_state \<Rightarrow> diag_state" where
  "compact_done g = g\<lparr> dg_active := None, dg_busy_since := None \<rparr>"

definition set_error :: "rstr \<Rightarrow> diag_state \<Rightarrow> diag_state" where
  "set_error msg g = g\<lparr>dg_last_error := Some msg\<rparr>"

section \<open>A command with its updates\<close>

definition queue_full_text :: rstr where "queue_full_text = [38431, 21015, 24050, 28385, 65292, 25298, 32477, 26032, 36718]"

definition diag_begin :: "(store_error \<Rightarrow> rstr) \<Rightarrow> inputs \<Rightarrow> rstr \<Rightarrow> queued_turn \<Rightarrow> db \<Rightarrow> diag_state \<Rightarrow> diag_state" where
  "diag_begin err inp sid turn d g =
     (let g1 = run_start (in_ms inp) (qt_run_id turn) g in
      case attempt (in_faults inp CallAppendEntry)
             (append_entry (in_ms inp) (new_entry_text sid RoleUser (qt_text turn) (estimate_tokens (qt_text turn))) d) of
        Inl e \<Rightarrow> set_error (([33853, 24211, 29992, 25143, 28040, 24687, 22833, 36133] @ lit '': '') @ err e) g1
      | Inr _ \<Rightarrow> g1)"

definition diag_finished :: "(store_error \<Rightarrow> rstr) \<Rightarrow> (run_outcome \<Rightarrow> rstr) \<Rightarrow> inputs \<Rightarrow> rstr \<Rightarrow> rstr \<Rightarrow> run_outcome \<Rightarrow> actor \<Rightarrow> diag_state \<Rightarrow> diag_state" where
  "diag_finished err dbg inp sid rid outcome a g =
     (if map_option av_run_id (at_active a) \<noteq> Some rid then g
      else let g1 = (if outcome = Completed then g else set_error (lit ''run '' @ rid @ (lit '' '' @ [32456, 24577] @ lit '': '') @ dbg outcome) g);
               g2 = run_done (dbg outcome) g1
           in case complete_active (at_queue a) of
                (None, q) \<Rightarrow> g2
              | (Some nxt, q) \<Rightarrow> diag_begin err inp sid nxt (at_db a) (set_queue_depth (pending_len q) g2))"

definition diag_after :: "(store_error \<Rightarrow> rstr) \<Rightarrow> (run_outcome \<Rightarrow> rstr) \<Rightarrow> inputs \<Rightarrow> rstr \<Rightarrow> session_cmd \<Rightarrow> actor \<Rightarrow> diag_state \<Rightarrow> diag_state" where
  "diag_after err dbg inp sid cmd a g = (case cmd of
     CmdSubmit text sink \<Rightarrow>
       (case submit \<lparr> qt_run_id = in_uuid inp, qt_text = text \<rparr> (at_queue a) of
          (Started t, q) \<Rightarrow> diag_begin err inp sid t (at_db a) g
        | (Queued, q) \<Rightarrow> set_queue_depth (pending_len q) g
        | (Rejected, q) \<Rightarrow> set_error queue_full_text g)
   | CmdCompact \<Rightarrow> compact_done (compact_start (in_ms inp) g)
   | CmdFinished rid outcome \<Rightarrow> diag_finished err dbg inp sid rid outcome a g
   | _ \<Rightarrow> g)"

type_synonym lane = "actor \<times> diag_state"

definition lane_handle :: "(store_error \<Rightarrow> rstr) \<Rightarrow> (run_outcome \<Rightarrow> rstr) \<Rightarrow> platform \<Rightarrow> session_cfg \<Rightarrow> rstr \<Rightarrow> inputs \<Rightarrow> session_cmd \<Rightarrow> lane \<Rightarrow> (actor_out list \<times> lane) option" where
  "lane_handle err dbg u cfg sid inp cmd l = (case l of (a, g) \<Rightarrow>
     map_option (\<lambda>(outs, a'). (outs, a', diag_after err dbg inp sid cmd a g))
       (handle u cfg sid (inp\<lparr>in_idle := idle_secs (in_ms inp) g\<rparr>) cmd a))"

text \<open>What a run does to the cell between the commands.\<close>

datatype run_note = NotePhase run_phase | NoteDelta int nat | NoteProgress int | NoteRounds nat | NoteError rstr

definition apply_note :: "run_note \<Rightarrow> diag_state \<Rightarrow> diag_state" where
  "apply_note n g = (case n of NotePhase ph \<Rightarrow> set_phase ph g | NoteDelta now c \<Rightarrow> delta_seen now c g
     | NoteProgress now \<Rightarrow> progress now g | NoteRounds k \<Rightarrow> set_tool_rounds k g | NoteError m \<Rightarrow> set_error m g)"

section \<open>What the cell says\<close>

definition tracks :: "actor \<Rightarrow> diag_state \<Rightarrow> bool" where
  "tracks a g \<longleftrightarrow> map_option rl_run_id (dg_active g) = map_option av_run_id (at_active a)
     \<and> (dg_busy_since g \<noteq> None \<longleftrightarrow> at_active a \<noteq> None)"

lemma on_active_simps [simp]:
  "dg_active (on_active f g) = map_option f (dg_active g)" "dg_busy_since (on_active f g) = dg_busy_since g"
  by (simp_all add: on_active_def)

lemma note_active: "map_option rl_run_id (dg_active (apply_note n g)) = map_option rl_run_id (dg_active g)"
  "dg_busy_since (apply_note n g) = dg_busy_since g"
  by (cases n; simp add: apply_note_def set_phase_def delta_seen_def progress_def set_tool_rounds_def set_error_def
      option.map_comp comp_def)+

lemma diag_begin_active [simp]:
  "map_option rl_run_id (dg_active (diag_begin err inp sid t d g)) = Some (qt_run_id t)"
  "dg_busy_since (diag_begin err inp sid t d g) \<noteq> None"
  by (auto simp: diag_begin_def Let_def run_start_def set_error_def run_live_new_def split: sum.splits)

inductive lane_reach :: "(store_error \<Rightarrow> rstr) \<Rightarrow> (run_outcome \<Rightarrow> rstr) \<Rightarrow> platform \<Rightarrow> session_cfg \<Rightarrow> rstr \<Rightarrow> actor \<Rightarrow> ghost \<Rightarrow> diag_state \<Rightarrow> bool"
  for err dbg u cfg sid where
  lane_new: "lane_reach err dbg u cfg sid (actor_new cfg inp sid d) ghost0 diag_new"
| lane_cmd: "lane_reach err dbg u cfg sid a h g \<Longrightarrow> at_open a \<Longrightarrow> fresh_cmd inp cmd h \<Longrightarrow> (cmd = CmdCompact \<longrightarrow> at_active a = None)
     \<Longrightarrow> lane_handle err dbg u cfg sid inp cmd (a, g) = Some (outs, a', g')
     \<Longrightarrow> lane_reach err dbg u cfg sid a' (record_cmd inp cmd outs a h) g'"
| lane_note: "lane_reach err dbg u cfg sid a h g \<Longrightarrow> lane_reach err dbg u cfg sid a h (apply_note n g)"
| lane_db: "lane_reach err dbg u cfg sid a h g \<Longrightarrow> lane_reach err dbg u cfg sid (a\<lparr>at_db := d\<rparr>) h g"
| lane_auto_begin: "lane_reach err dbg u cfg sid a h g \<Longrightarrow> 0 < at_auto a \<Longrightarrow> lane_reach err dbg u cfg sid (auto_begin u cfg sid inp a) h g"
| lane_auto_commit: "lane_reach err dbg u cfg sid a h g \<Longrightarrow> lane_reach err dbg u cfg sid (auto_commit cfg sid inp a) h g"

lemma lane_actor: "lane_reach err dbg u cfg sid a h g \<Longrightarrow> actor_reach u cfg sid a h"
proof (induction rule: lane_reach.induct)
  case (lane_cmd a h g inp cmd outs a' g')
  let ?i = "inp\<lparr>in_idle := idle_secs (in_ms inp) g\<rparr>"
  have "handle u cfg sid ?i cmd a = Some (outs, a')" using lane_cmd(5) by (auto simp: lane_handle_def)
  moreover have "fresh_cmd ?i cmd h" using lane_cmd(3) by (cases cmd) (simp_all add: fresh_cmd_def)
  moreover have "record_cmd ?i cmd outs a h = record_cmd inp cmd outs a h"
    by (cases cmd) (simp_all add: record_cmd_def accepted_now_def)
  ultimately show ?case using step_cmd[OF lane_cmd(2), of ?i cmd h u cfg sid outs a'] lane_cmd(6) reach_step by fastforce
next
  case (lane_db a h g d)
  have "actor_step u cfg sid a h (a\<lparr>at_db := d, at_heap := at_heap a\<rparr>) h" by (rule step_run) simp
  then show ?case using reach_step[OF lane_db(2)] by simp
next
  case (lane_auto_begin a h g inp)
  then show ?case by (intro reach_step[OF _ step_auto_begin])
next
  case (lane_auto_commit a h g inp)
  then show ?case by (intro reach_step[OF _ step_auto_commit])
qed (simp_all add: reach_new)

lemma diag_after_tracks:
  assumes lane: "lane_ok a" and tr: "tracks a g" and h: "handle u cfg sid inp' cmd a = Some (outs, a')"
    and ids: "in_uuid inp' = in_uuid inp" and quiet: "cmd = CmdCompact \<longrightarrow> at_active a = None"
  shows "tracks a' (diag_after err dbg inp sid cmd a g)"
proof (cases cmd)
  case (CmdSubmit msg s)
  let ?t = "\<lparr> qt_run_id = in_uuid inp, qt_text = msg \<rparr>"
  have hs: "handle_submit u cfg sid inp' msg s a = Some (outs, a')" using h CmdSubmit by (simp add: handle_def)
  show ?thesis
  proof (cases "submit ?t (at_queue a)")
    case (Pair r q)
    show ?thesis
    proof (cases r)
      case (Started t)
      then have "t = ?t" using Pair by (auto simp: submit_def split: if_splits)
      then have "\<exists>out b. begin_run u cfg sid inp' ?t b = Some (out, a')"
        using hs Pair Started ids by (auto simp: handle_submit_def Let_def)
      then have "map_option av_run_id (at_active a') = Some (in_uuid inp)"
        by (auto elim!: begin_run_frame)
      then show ?thesis using Pair Started CmdSubmit \<open>t = ?t\<close> by (auto simp: tracks_def diag_after_def)
    next
      case Queued
      then have "at_active a' = at_active a" using hs Pair ids by (auto simp: handle_submit_def Let_def)
      then show ?thesis using Pair Queued CmdSubmit tr by (simp add: tracks_def diag_after_def set_queue_depth_def)
    next
      case Rejected
      then have "at_active a' = at_active a" using hs Pair ids by (auto simp: handle_submit_def Let_def)
      then show ?thesis using Pair Rejected CmdSubmit tr by (simp add: tracks_def diag_after_def set_error_def)
    qed
  qed
next
  case (CmdFinished rid outcome)
  have hf: "handle_finished u cfg sid inp' rid outcome a = Some (outs, a')" using h CmdFinished by (simp add: handle_def)
  show ?thesis
  proof (cases "map_option av_run_id (at_active a) = Some rid")
    case False
    then have "at_active a' = at_active a" using hf by (auto simp: handle_finished_def Let_def)
    then show ?thesis using False CmdFinished tr by (simp add: tracks_def diag_after_def diag_finished_def)
  next
    case True
    obtain n q where c: "complete_active (at_queue a) = (n, q)" by fastforce
    show ?thesis
    proof (cases n)
      case None
      then have "at_active a' = None" using hf True c by (auto simp: handle_finished_def Let_def)
      then show ?thesis using None c CmdFinished True
        by (simp add: tracks_def diag_after_def diag_finished_def Let_def run_done_def)
    next
      case (Some t)
      have "\<exists>out b a3. begin_run u cfg sid inp' t b = Some (out, a3) \<and> at_active a' = at_active a3"
        using hf True c Some by (auto simp: handle_finished_def Let_def) blast
      then have "map_option av_run_id (at_active a') = Some (qt_run_id t)" by (auto elim!: begin_run_frame)
      then show ?thesis using Some c CmdFinished True
        by (auto simp: tracks_def diag_after_def diag_finished_def Let_def)
    qed
  qed
next
  case CmdCompact
  then have "at_active a' = None" using h quiet by (auto simp: handle_def compact_session_def split: if_splits prod.splits)
  then show ?thesis using CmdCompact by (simp add: tracks_def diag_after_def compact_done_def)
next
  case (CmdAbort rid hard)
  then have "map_option av_run_id (at_active a') = map_option av_run_id (at_active a) \<and> (at_active a' = None \<longleftrightarrow> at_active a = None)"
    using h by (auto simp: handle_def handle_abort_def Let_def cancel_active_def split: option.splits if_splits)
  then show ?thesis using CmdAbort tr by (simp add: tracks_def diag_after_def)
next
  case (CmdResume rid since)
  then have "at_active a' = at_active a" using h by (auto simp: handle_def handle_resume_def split: option.splits)
  then show ?thesis using CmdResume tr by (simp add: tracks_def diag_after_def)
next
  case CmdHealthScan
  then have "map_option av_run_id (at_active a') = map_option av_run_id (at_active a) \<and> (at_active a' = None \<longleftrightarrow> at_active a = None)"
    using h by (auto simp: handle_def handle_health_def Let_def cancel_active_def split: option.splits run_health.splits)
  then show ?thesis using CmdHealthScan tr by (simp add: tracks_def diag_after_def)
next
  case (CmdEvictIfIdle n)
  then have "at_active a' = at_active a" using h by (auto simp: handle_def handle_evict_def split: if_splits)
  then show ?thesis using CmdEvictIfIdle tr by (simp add: tracks_def diag_after_def)
qed

lemma auto_active [simp]: "at_active (auto_begin u cfg sid inp a) = at_active a" "at_active (auto_commit cfg sid inp a) = at_active a"
  by (auto simp: auto_begin_def auto_commit_def Let_def split: option.splits prod.splits sum.splits)

text \<open>As long as no compaction is asked for while a run is active, the diagnosis names exactly the run
  of the lane: whatever the commands, their order, the notes the runs make and the background
  compactions.\<close>

theorem diagnosis_tracks_lane:
  assumes "lane_reach err dbg u cfg sid a h g"
  shows "map_option rl_run_id (dg_active g) = map_option av_run_id (at_active a)
    \<and> (dg_busy_since g \<noteq> None \<longleftrightarrow> at_active a \<noteq> None)"
proof -
  have "tracks a g" using assms
  proof (induction rule: lane_reach.induct)
    case (lane_new inp d)
    then show ?case by (simp add: tracks_def actor_new_def diag_new_def)
  next
    case (lane_cmd a h g inp cmd outs a' g')
    have "lane_ok a" using actor_reach_inv[OF lane_actor[OF lane_cmd(1)]] by (simp add: actor_inv_def)
    moreover have "handle u cfg sid (inp\<lparr>in_idle := idle_secs (in_ms inp) g\<rparr>) cmd a = Some (outs, a')"
      "g' = diag_after err dbg inp sid cmd a g" using lane_cmd(5) by (auto simp: lane_handle_def)
    ultimately show ?case using diag_after_tracks lane_cmd(4,6) by simp
  next
    case (lane_note a h g n)
    then show ?case by (simp add: tracks_def note_active)
  qed (simp_all add: tracks_def)
  then show ?thesis by (simp add: tracks_def)
qed

lemma diagnosis_tracks_lane_witness:
  "\<exists>a h. lane_reach (\<lambda>_. []) (\<lambda>_. []) ascii_platform plain_cfg [115] a h (apply_note (NoteRounds 1) diag_new)
     \<and> at_active a = None"
proof -
  have r: "lane_reach (\<lambda>_. []) (\<lambda>_. []) ascii_platform plain_cfg [115] sample_actor ghost0 (apply_note (NoteRounds 1) diag_new)"
    unfolding sample_actor_def by (intro lane_note lane_new)
  from diagnosis_tracks_lane[OF r] r show ?thesis
    by (auto simp: apply_note_def set_tool_rounds_def on_active_def diag_new_def)
qed

section \<open>A compaction during a run\<close>

lemma notes_inactive: "dg_active g = None \<Longrightarrow> dg_active (fold apply_note ns g) = None"
proof (induction ns arbitrary: g)
  case (Cons n ns)
  have "dg_active (apply_note n g) = None" using note_active(1)[of n g] Cons.prems by simp
  with Cons.IH show ?case by simp
qed simp

lemma compact_keeps_run:
  assumes "handle u cfg sid inp CmdCompact a = Some (outs, a')"
  shows "at_active a' = at_active a"
  using assms by (auto simp: handle_def compact_session_def split: if_splits prod.splits)

text \<open>C30. A compaction asked for while a run is active goes through at once, and from then on the diagnosis
  has lost the run: the run is still active, but until it ends the diagnosis shows none, whatever
  progress the run reports, and the stuck-run scan no longer sees that progress: it takes the age of
  the run for its silence, so a run that was started long enough ago is cancelled while it works.\<close>

theorem compact_during_run_hides_it:
  assumes "at_active a = Some r" "lane_handle err dbg u cfg sid inp CmdCompact (a, g) = Some (outs, a', g')"
  shows "at_active a' = Some r \<and> dg_active (fold apply_note ns g') = None
    \<and> (\<forall>later outs2 a2 g2. lane_handle err dbg u cfg sid later CmdHealthScan (a', fold apply_note ns g') = Some (outs2, a2, g2)
         \<longrightarrow> diagnose (in_now later - av_started r) (sc_warn_secs cfg) (sc_abort_min_secs cfg) = Stuck
         \<longrightarrow> at_active a2 = Some (r\<lparr>av_cancelled := True\<rparr>))"
proof -
  have h: "handle u cfg sid (inp\<lparr>in_idle := idle_secs (in_ms inp) g\<rparr>) CmdCompact a = Some (outs, a')"
    and g': "g' = diag_after err dbg inp sid CmdCompact a g" using assms(2) by (auto simp: lane_handle_def)
  have a': "at_active a' = Some r" using compact_keeps_run[OF h] assms(1) by simp
  have none: "dg_active (fold apply_note ns g') = None"
    by (rule notes_inactive) (simp add: g' diag_after_def compact_done_def)
  have "at_active a2 = Some (r\<lparr>av_cancelled := True\<rparr>)"
    if "lane_handle err dbg u cfg sid later CmdHealthScan (a', fold apply_note ns g') = Some (outs2, a2, g2)"
      "diagnose (in_now later - av_started r) (sc_warn_secs cfg) (sc_abort_min_secs cfg) = Stuck" for later outs2 a2 g2
    using that a' none by (auto simp: lane_handle_def handle_def handle_health_def idle_secs_def cancel_active_def)
  with a' none show ?thesis by blast
qed

definition busy_actor :: actor where
  "busy_actor = sample_actor\<lparr> at_active := Some \<lparr> av_run_id = [1], av_cancelled = False, av_started = 0 \<rparr>,
     at_queue := (at_queue sample_actor)\<lparr>active := Some [1]\<rparr> \<rparr>"

lemma lane_answers:
  assumes "cmd = CmdCompact \<or> cmd = CmdHealthScan"
  obtains outs a' g' where "lane_handle err dbg u cfg sid inp cmd (a, g) = Some (outs, a', g')"
proof -
  have "lane_handle err dbg u cfg sid inp cmd (a, g) \<noteq> None"
    using assms by (auto simp: lane_handle_def handle_def)
  then obtain x where "lane_handle err dbg u cfg sid inp cmd (a, g) = Some x" by blast
  then show ?thesis using that by (cases x) auto
qed

lemma compact_during_run_hides_it_witness:
  "\<exists>outs a' g' outs2 a2 g2. lane_handle (\<lambda>_. []) (\<lambda>_. []) ascii_platform plain_cfg [115] (sample_inputs []) CmdCompact
        (busy_actor, delta_seen 0 5 (run_start 0 [1] diag_new)) = Some (outs, a', g')
     \<and> dg_active (apply_note (NoteProgress 9999000) g') = None
     \<and> lane_handle (\<lambda>_. []) (\<lambda>_. []) ascii_platform plain_cfg [115] ((sample_inputs [])\<lparr>in_now := 10000, in_ms := 10000000\<rparr>)
         CmdHealthScan (a', apply_note (NoteProgress 9999000) g') = Some (outs2, a2, g2)
     \<and> at_active a2 = Some \<lparr> av_run_id = [1], av_cancelled = True, av_started = 0 \<rparr>"
proof -
  let ?g = "delta_seen 0 5 (run_start 0 [1] diag_new)" and ?l = "(sample_inputs [])\<lparr>in_now := 10000, in_ms := 10000000\<rparr>"
  obtain outs a' g' where c: "lane_handle (\<lambda>_. []) (\<lambda>_. []) ascii_platform plain_cfg [115] (sample_inputs []) CmdCompact
      (busy_actor, ?g) = Some (outs, a', g')"
    by (rule lane_answers[OF disjI1[OF refl]])
  obtain outs2 a2 g2 where s: "lane_handle (\<lambda>_. []) (\<lambda>_. []) ascii_platform plain_cfg [115] ?l CmdHealthScan
      (a', fold apply_note [NoteProgress 9999000] g') = Some (outs2, a2, g2)"
    by (rule lane_answers[OF disjI2[OF refl]])
  have a: "at_active busy_actor = Some \<lparr> av_run_id = [1], av_cancelled = False, av_started = 0 \<rparr>" by (simp add: busy_actor_def)
  note t = compact_during_run_hides_it[OF a c, of "[NoteProgress 9999000]"]
  have "diagnose (in_now ?l - av_started \<lparr> av_run_id = [1], av_cancelled = False, av_started = 0 \<rparr>)
      (sc_warn_secs plain_cfg) (sc_abort_min_secs plain_cfg) = Stuck"
    by (simp add: plain_cfg_def diagnose_def sat_mul_u64_def u64_max_def)
  with t s have "at_active a2 = Some \<lparr> av_run_id = [1], av_cancelled = True, av_started = 0 \<rparr>" by fastforce
  with c s t show ?thesis by auto
qed

end
