(* ===== verification/Registry.thy ===== *)
theory Registry
  imports Lane Proactive "HOL-Library.AList"
begin

text \<open>
  The shared state of the server: the registry of sessions (\<open>crates/oc-server/src/registry.rs\<close>), the
  ledger of background tasks (\<open>ledger.rs\<close>), and the caches and pending answers of \<open>state.rs\<close>, with
  their collection.  A concurrent map is an association list; no operation depends on its order.  The
  database is one for all sessions: \<open>deliver\<close> lends it to the actor for a command.  A command whose
  handler panics has the result \<open>None\<close>.
\<close>

section \<open>The state\<close>

record task_entry =
  te_kind :: rstr
  te_detail :: rstr
  te_state :: task_state
  te_cancelled :: bool

record 'o server =
  sv_lanes :: "(rstr \<times> actor) list"
  sv_diag :: "(rstr \<times> diag_state) list"
  sv_db :: db
  sv_idem :: "(rstr \<times> 'o \<times> nat) list"
  sv_approvals :: "rstr list"
  sv_allowed :: "(rstr \<times> bool) list"
  sv_inputs :: "rstr list"
  sv_replied :: "(rstr \<times> rstr option) list"
  sv_tasks :: "(rstr \<times> task_entry) list"
  sv_usage :: "(rstr \<times> nat) list"
  sv_events :: "event list"

record 'z server_env =
  se_platform :: platform
  se_cfg :: session_cfg
  se_err :: "store_error \<Rightarrow> rstr"
  se_dbg :: "run_outcome \<Rightarrow> rstr"
  se_tz :: "'z tz_env"
  se_powf :: "flt \<Rightarrow> flt \<Rightarrow> flt"
  se_provider :: rstr
  se_model :: rstr
  se_endpoint :: "rstr option"
  se_context_window :: nat
  se_cooldown :: int
  se_budget :: nat
  se_expiry_days :: nat
  se_subscribers :: nat
  se_uptime :: nat
  se_writer_alive :: bool

section \<open>The registry\<close>

definition main_id :: rstr where "main_id = lit ''main''"

definition lane_open :: "rstr \<Rightarrow> 'o server \<Rightarrow> bool" where
  "lane_open sid sv = (case map_of (sv_lanes sv) sid of Some a \<Rightarrow> at_open a | None \<Rightarrow> False)"

definition spawn_actor :: "'z server_env \<Rightarrow> inputs \<Rightarrow> rstr \<Rightarrow> 'o server \<Rightarrow> 'o server" where
  "spawn_actor env inp sid sv =
     (let a = actor_new (se_cfg env) inp sid (sv_db sv) in
      sv\<lparr> sv_lanes := AList.update sid a (sv_lanes sv), sv_db := at_db a,
          sv_diag := (if map_of (sv_diag sv) sid = None then AList.update sid diag_new (sv_diag sv) else sv_diag sv) \<rparr>)"

definition get_or_spawn :: "'z server_env \<Rightarrow> inputs \<Rightarrow> rstr \<Rightarrow> 'o server \<Rightarrow> 'o server" where
  "get_or_spawn env inp sid sv = (if lane_open sid sv then sv else spawn_actor env inp sid sv)"

definition cell_of :: "rstr \<Rightarrow> 'o server \<Rightarrow> diag_state" where
  "cell_of sid sv = (case map_of (sv_diag sv) sid of Some g \<Rightarrow> g | None \<Rightarrow> diag_new)"

text \<open>A cell that is not there is not written.\<close>

definition put_cell :: "rstr \<Rightarrow> diag_state \<Rightarrow> 'o server \<Rightarrow> (rstr \<times> diag_state) list" where
  "put_cell sid g sv = (if map_of (sv_diag sv) sid = None then sv_diag sv else AList.update sid g (sv_diag sv))"

text \<open>A command sent to a session; nobody receives it when the actor has stopped.\<close>

definition deliver :: "'z server_env \<Rightarrow> inputs \<Rightarrow> session_cmd \<Rightarrow> rstr \<Rightarrow> 'o server \<Rightarrow> (actor_out list \<times> 'o server) option" where
  "deliver env inp cmd sid sv =
     (case map_of (sv_lanes sv) sid of
        None \<Rightarrow> Some ([], sv)
      | Some a \<Rightarrow> if \<not> at_open a then Some ([], sv)
          else map_option (\<lambda>(outs, a', g'). (outs, sv\<lparr> sv_lanes := AList.update sid a' (sv_lanes sv), sv_db := at_db a', sv_diag := put_cell sid g' sv \<rparr>))
                 (lane_handle (se_err env) (se_dbg env) (se_platform env) (se_cfg env) sid inp cmd (a\<lparr>at_db := sv_db sv\<rparr>, cell_of sid sv)))"

fun broadcast_cmd :: "'z server_env \<Rightarrow> inputs \<Rightarrow> session_cmd \<Rightarrow> rstr list \<Rightarrow> 'o server \<Rightarrow> 'o server option" where
  "broadcast_cmd env inp cmd [] sv = Some sv"
| "broadcast_cmd env inp cmd (sid # ids) sv =
     (case deliver env inp cmd sid sv of None \<Rightarrow> None | Some (_, sv') \<Rightarrow> broadcast_cmd env inp cmd ids sv')"

definition abort_all :: "'z server_env \<Rightarrow> inputs \<Rightarrow> rstr \<Rightarrow> bool \<Rightarrow> 'o server \<Rightarrow> 'o server option" where
  "abort_all env inp rid hard sv = broadcast_cmd env inp (CmdAbort rid hard) (map fst (sv_lanes sv)) sv"

definition health_scan_all :: "'z server_env \<Rightarrow> inputs \<Rightarrow> 'o server \<Rightarrow> 'o server option" where
  "health_scan_all env inp sv = broadcast_cmd env inp CmdHealthScan (map fst (sv_lanes sv)) sv"

text \<open>One candidate of the eviction; the entry goes only when the actor has closed.\<close>

definition evict_one :: "'z server_env \<Rightarrow> inputs \<Rightarrow> nat \<Rightarrow> rstr \<Rightarrow> rstr list \<times> 'o server \<Rightarrow> rstr list \<times> 'o server" where
  "evict_one env inp idle_after sid p = (case p of (evicted, sv) \<Rightarrow>
     (case deliver env inp (CmdEvictIfIdle idle_after) sid sv of
        Some (outs, sv1) \<Rightarrow>
          if outs = [OutEvicted True] \<and> \<not> lane_open sid sv1
          then (evicted @ [sid], sv1\<lparr> sv_lanes := AList.delete sid (sv_lanes sv1), sv_diag := AList.delete sid (sv_diag sv1) \<rparr>)
          else (evicted, sv1)
      | None \<Rightarrow> (evicted, sv)))"

definition evict_idle :: "'z server_env \<Rightarrow> inputs \<Rightarrow> nat \<Rightarrow> 'o server \<Rightarrow> rstr list \<times> 'o server" where
  "evict_idle env inp idle_after sv =
     fold (evict_one env inp idle_after) (filter (\<lambda>i. i \<noteq> main_id) (map fst (sv_lanes sv))) ([], sv)"

section \<open>Caches and answers\<close>

definition IDEM_TTL :: nat where "IDEM_TTL = 3600"
definition SESSION_IDLE_TIMEOUT :: nat where "SESSION_IDLE_TIMEOUT = 24 * 3600"

definition idem_get :: "nat \<Rightarrow> rstr \<Rightarrow> 'o server \<Rightarrow> 'o option \<times> 'o server" where
  "idem_get now k sv = (case map_of (sv_idem sv) k of
     None \<Rightarrow> (None, sv)
   | Some (ok, t) \<Rightarrow> if now - t < IDEM_TTL then (Some ok, sv) else (None, sv\<lparr>sv_idem := AList.delete k (sv_idem sv)\<rparr>))"

definition idem_put :: "nat \<Rightarrow> rstr \<Rightarrow> 'o \<Rightarrow> 'o server \<Rightarrow> 'o server" where
  "idem_put now k ok sv = sv\<lparr>sv_idem := AList.update k (ok, now) (sv_idem sv)\<rparr>"

definition resolve_approval :: "rstr \<Rightarrow> bool \<Rightarrow> 'o server \<Rightarrow> 'o server" where
  "resolve_approval i allow sv = (if i \<in> set (sv_approvals sv)
     then sv\<lparr> sv_approvals := removeAll i (sv_approvals sv), sv_allowed := (i, allow) # sv_allowed sv \<rparr> else sv)"

definition resolve_input :: "rstr \<Rightarrow> rstr option \<Rightarrow> 'o server \<Rightarrow> 'o server" where
  "resolve_input i reply sv = (if i \<in> set (sv_inputs sv)
     then sv\<lparr> sv_inputs := removeAll i (sv_inputs sv), sv_replied := (i, reply) # sv_replied sv \<rparr> else sv)"

definition set_last_input_tokens :: "rstr \<Rightarrow> nat \<Rightarrow> 'o server \<Rightarrow> 'o server" where
  "set_last_input_tokens sid n sv = sv\<lparr>sv_usage := AList.update sid n (sv_usage sv)\<rparr>"

definition last_input_tokens :: "rstr \<Rightarrow> 'o server \<Rightarrow> nat option" where
  "last_input_tokens sid sv = map_of (sv_usage sv) sid"

definition gc_tick_with :: "'z server_env \<Rightarrow> inputs \<Rightarrow> nat \<Rightarrow> nat \<Rightarrow> 'o server \<Rightarrow> (nat \<times> nat) \<times> 'o server" where
  "gc_tick_with env inp ttl idle_after sv =
     (let kept = filter (\<lambda>(k, ok, t). in_now inp - t < ttl) (sv_idem sv) in
      case evict_idle env inp idle_after (sv\<lparr>sv_idem := kept\<rparr>) of
        (evicted, sv1) \<Rightarrow> ((length (sv_idem sv) - length kept, length evicted),
                           sv1\<lparr>sv_usage := fold AList.delete evicted (sv_usage sv1)\<rparr>))"

definition gc_tick :: "'z server_env \<Rightarrow> inputs \<Rightarrow> 'o server \<Rightarrow> (nat \<times> nat) \<times> 'o server" where
  "gc_tick env inp sv = gc_tick_with env inp IDEM_TTL SESSION_IDLE_TIMEOUT sv"

section \<open>The ledger\<close>

definition emit_task :: "rstr \<Rightarrow> task_state \<Rightarrow> rstr option \<Rightarrow> 'o server \<Rightarrow> 'o server" where
  "emit_task i st detail sv = sv\<lparr>sv_events := sv_events sv @ [EvTask main_id i st detail]\<rparr>"

definition register_task :: "rstr \<Rightarrow> rstr \<Rightarrow> 'o server \<Rightarrow> 'o server" where
  "register_task i command sv = emit_task i TaskRunning (Some command)
     (sv\<lparr>sv_tasks := AList.update i \<lparr> te_kind = lit ''exec_bg'', te_detail = command, te_state = TaskRunning, te_cancelled = False \<rparr> (sv_tasks sv)\<rparr>)"

definition set_task_state :: "rstr \<Rightarrow> task_state \<Rightarrow> rstr option \<Rightarrow> 'o server \<Rightarrow> 'o server" where
  "set_task_state i st detail sv = emit_task i st detail
     (sv\<lparr>sv_tasks := (case map_of (sv_tasks sv) i of Some e \<Rightarrow> AList.update i (e\<lparr>te_state := st\<rparr>) (sv_tasks sv) | None \<Rightarrow> sv_tasks sv)\<rparr>)"

text \<open>What the watcher of a process sees: a line, the end of the output, the cancellation.  The answer
  is the state it records with its detail.\<close>

datatype watch_in = WatchLine rstr | WatchEof | WatchCancel

fun watch_task :: "watch_in list \<Rightarrow> int \<Rightarrow> rstr \<Rightarrow> (task_state \<times> rstr option) option" where
  "watch_task [] code last_line = None"
| "watch_task (WatchCancel # xs) code last_line = Some (TaskCancelled, None)"
| "watch_task (WatchLine l # xs) code last_line = watch_task xs code l"
| "watch_task (WatchEof # xs) code last_line =
     Some (if code = 0 then TaskDone else TaskFailed, Some (([36864, 20986, 30721] @ lit '' '') @ show_int code @ ([65307, 26411, 34892] @ lit '': '') @ last_line))"

record task_view =
  tv_id :: rstr
  tv_kind :: rstr
  tv_state :: task_state
  tv_detail :: "rstr option"

definition task_list :: "'o server \<Rightarrow> task_view list" where
  "task_list sv = map (\<lambda>(i, e). \<lparr> tv_id = i, tv_kind = te_kind e, tv_state = te_state e, tv_detail = Some (te_detail e) \<rparr>) (sv_tasks sv)"

definition unfinished_count :: "'o server \<Rightarrow> nat" where
  "unfinished_count sv = length (filter (\<lambda>(i, e). te_state e = TaskQueued \<or> te_state e = TaskRunning) (sv_tasks sv))"

definition cancel_task :: "rstr \<Rightarrow> 'o server \<Rightarrow> bool \<times> 'o server" where
  "cancel_task i sv = (case map_of (sv_tasks sv) i of
     Some e \<Rightarrow> (True, sv\<lparr>sv_tasks := AList.update i (e\<lparr>te_cancelled := True\<rparr>) (sv_tasks sv)\<rparr>)
   | None \<Rightarrow> (False, sv))"

section \<open>Aborting\<close>

lemma abort_frame [simp]:
  "at_db (handle_abort rid hard a) = at_db a" "at_open (handle_abort rid hard a) = at_open a"
  by (simp_all add: handle_abort_def cancel_active_def Let_def split: option.splits)

definition lent :: "'o server \<Rightarrow> actor \<Rightarrow> actor" where
  "lent sv a = a\<lparr>at_db := sv_db sv\<rparr>"

lemma lent_simps [simp]: "at_open (lent sv a) = at_open a" "at_active (lent sv a) = at_active a" "at_queue (lent sv a) = at_queue a"
  "at_db (lent sv a) = sv_db sv" "at_last (lent sv a) = at_last a"
  by (simp_all add: lent_def)

text \<open>Delivering a command that cannot panic, to a session that is there and open.\<close>

lemma deliver_open:
  assumes "map_of (sv_lanes sv) sid = Some a" "at_open a"
    "handle (se_platform env) (se_cfg env) sid (inp\<lparr>in_idle := idle_secs (in_ms inp) (cell_of sid sv)\<rparr>) cmd (lent sv a) = Some (outs, a')"
  shows "\<exists>cells. deliver env inp cmd sid sv = Some (outs, sv\<lparr> sv_lanes := AList.update sid a' (sv_lanes sv), sv_db := at_db a', sv_diag := cells \<rparr>)"
  using assms by (auto simp: deliver_def lane_handle_def lent_def)

lemma deliver_closed:
  "\<not> lane_open sid sv \<Longrightarrow> deliver env inp cmd sid sv = Some ([], sv)"
  by (auto simp: deliver_def lane_open_def split: option.splits)

lemma deliver_abort:
  "\<exists>sv'. deliver env inp (CmdAbort rid hard) sid sv = Some ([], sv') \<and> sv_db sv' = sv_db sv
     \<and> map_of (sv_lanes sv') = (case map_of (sv_lanes sv) sid of
          Some a \<Rightarrow> if at_open a then (map_of (sv_lanes sv))(sid \<mapsto> handle_abort rid hard (lent sv a)) else map_of (sv_lanes sv)
        | None \<Rightarrow> map_of (sv_lanes sv))"
proof (cases "lane_open sid sv")
  case False
  then show ?thesis by (auto simp: deliver_closed lane_open_def split: option.splits)
next
  case True
  then obtain a where a: "map_of (sv_lanes sv) sid = Some a" "at_open a" by (auto simp: lane_open_def split: option.splits)
  obtain cells where "deliver env inp (CmdAbort rid hard) sid sv
      = Some ([], sv\<lparr> sv_lanes := AList.update sid (handle_abort rid hard (lent sv a)) (sv_lanes sv),
                       sv_db := at_db (handle_abort rid hard (lent sv a)), sv_diag := cells \<rparr>)"
    using deliver_open[OF a, of env inp "CmdAbort rid hard"] by (force simp: handle_def)
  then show ?thesis using a by (auto simp: AList.update_conv')
qed

lemma broadcast_abort:
  "distinct ids \<Longrightarrow> \<exists>sv'. broadcast_cmd env inp (CmdAbort rid hard) ids sv = Some sv' \<and> sv_db sv' = sv_db sv
     \<and> (\<forall>sid. map_of (sv_lanes sv') sid = (case map_of (sv_lanes sv) sid of
          Some a \<Rightarrow> Some (if sid \<in> set ids \<and> at_open a then handle_abort rid hard (lent sv a) else a) | None \<Rightarrow> None))"
proof (induction ids arbitrary: sv)
  case Nil
  then show ?case by (auto split: option.splits)
next
  case (Cons i ids)
  obtain sv1 where sv1: "deliver env inp (CmdAbort rid hard) i sv = Some ([], sv1)" "sv_db sv1 = sv_db sv"
    "map_of (sv_lanes sv1) = (case map_of (sv_lanes sv) i of
          Some a \<Rightarrow> if at_open a then (map_of (sv_lanes sv))(i \<mapsto> handle_abort rid hard (lent sv a)) else map_of (sv_lanes sv)
        | None \<Rightarrow> map_of (sv_lanes sv))" using deliver_abort by blast
  have "distinct ids" "i \<notin> set ids" using Cons.prems by auto
  from Cons.IH[OF this(1), of sv1] obtain sv' where sv': "broadcast_cmd env inp (CmdAbort rid hard) ids sv1 = Some sv'"
    "sv_db sv' = sv_db sv1" "\<And>sid. map_of (sv_lanes sv') sid = (case map_of (sv_lanes sv1) sid of
          Some a \<Rightarrow> Some (if sid \<in> set ids \<and> at_open a then handle_abort rid hard (lent sv1 a) else a) | None \<Rightarrow> None)" by blast
  have "map_of (sv_lanes sv') sid = (case map_of (sv_lanes sv) sid of
          Some a \<Rightarrow> Some (if sid \<in> set (i # ids) \<and> at_open a then handle_abort rid hard (lent sv a) else a) | None \<Rightarrow> None)" for sid
    unfolding sv'(3) sv1(3) using \<open>i \<notin> set ids\<close> sv1(2) by (cases "sid = i") (auto simp: lent_def split: option.splits)
  then show ?case using sv1 sv' by simp
qed

text \<open>A hard abort empties the queue of every open session, whatever run it names; a soft one touches no
  session but those running the named run.  Active runs other than the named one go on either way,
  and no session is lost.\<close>

lemma abort_all_lane:
  assumes "distinct (map fst (sv_lanes sv))" "map_of (sv_lanes sv) sid = Some a" "at_open a"
  shows "\<exists>sv' a'. abort_all env inp rid hard sv = Some sv' \<and> map_of (sv_lanes sv') sid = Some a' \<and> at_open a' \<and> sv_db sv' = sv_db sv
    \<and> pending (at_queue a') = (if hard then [] else pending (at_queue a))
    \<and> (at_active a' = (if rid = [] \<or> map_option av_run_id (at_active a) = Some rid
                       then map_option (\<lambda>r. r\<lparr>av_cancelled := True\<rparr>) (at_active a) else at_active a))"
proof -
  obtain sv' where sv': "abort_all env inp rid hard sv = Some sv'" "sv_db sv' = sv_db sv"
    "map_of (sv_lanes sv') sid = Some (handle_abort rid hard (lent sv a))"
  proof -
    have "sid \<in> set (map fst (sv_lanes sv))" using assms(2) by (force dest: map_of_SomeD)
    then show ?thesis using broadcast_abort[OF assms(1), of env inp rid hard sv] assms(2,3) that
      by (auto simp: abort_all_def split: option.splits)
  qed
  have "pending (at_queue (handle_abort rid hard (lent sv a))) = (if hard then [] else pending (at_queue a))"
    by (simp add: handle_abort_def cancel_active_def drain_pending_def Let_def split: option.splits)
  moreover have "at_active (handle_abort rid hard (lent sv a)) = (if rid = [] \<or> map_option av_run_id (at_active a) = Some rid
                       then map_option (\<lambda>r. r\<lparr>av_cancelled := True\<rparr>) (at_active a) else at_active a)"
    by (auto simp: handle_abort_def cancel_active_def Let_def split: option.splits)
  ultimately show ?thesis using sv' assms(3) by auto
qed

section \<open>Eviction\<close>

text \<open>The answers of a probe.\<close>

lemma deliver_evict:
  assumes "map_of (sv_lanes sv) sid = Some a" "at_open a"
  shows "\<exists>cells. deliver env inp (CmdEvictIfIdle t) sid sv =
     (if at_active a \<noteq> None \<or> pending (at_queue a) \<noteq> [] \<or> in_now inp - at_last a < t
      then Some ([OutEvicted False], sv\<lparr> sv_lanes := AList.update sid (lent sv a) (sv_lanes sv), sv_diag := cells \<rparr>)
      else Some ([OutEvicted True], sv\<lparr> sv_lanes := AList.update sid ((lent sv a)\<lparr>at_open := False\<rparr>) (sv_lanes sv), sv_diag := cells \<rparr>))"
proof -
  have h: "handle (se_platform env) (se_cfg env) sid (inp\<lparr>in_idle := i\<rparr>) (CmdEvictIfIdle t) (lent sv a) =
     Some (if at_active a \<noteq> None \<or> pending (at_queue a) \<noteq> [] \<or> in_now inp - at_last a < t
           then ([OutEvicted False], lent sv a) else ([OutEvicted True], (lent sv a)\<lparr>at_open := False\<rparr>))" for i
    by (simp add: handle_def handle_evict_def pending_len_def)
  show ?thesis
  proof (cases "at_active a \<noteq> None \<or> pending (at_queue a) \<noteq> [] \<or> in_now inp - at_last a < t")
    case True
    then show ?thesis using deliver_open[OF assms, of env inp "CmdEvictIfIdle t" "[OutEvicted False]" "lent sv a"] h by simp
  next
    case False
    then show ?thesis
      using deliver_open[OF assms, of env inp "CmdEvictIfIdle t" "[OutEvicted True]" "(lent sv a)\<lparr>at_open := False\<rparr>"] h by simp
  qed
qed

definition evictable :: "inputs \<Rightarrow> nat \<Rightarrow> actor \<Rightarrow> bool" where
  "evictable inp t a \<longleftrightarrow> at_open a \<and> at_active a = None \<and> pending (at_queue a) = [] \<and> t \<le> in_now inp - at_last a"

lemma evict_one_spec:
  "\<exists>ev' sv'. evict_one env inp t sid (ev, sv) = (ev', sv') \<and> sv_db sv' = sv_db sv
     \<and> (case map_of (sv_lanes sv) sid of
          Some a \<Rightarrow> if evictable inp t a then ev' = ev @ [sid] \<and> map_of (sv_lanes sv') = (map_of (sv_lanes sv))(sid := None)
                    else ev' = ev \<and> (\<exists>d. map_of (sv_lanes sv') = (map_of (sv_lanes sv))(sid \<mapsto> a\<lparr>at_db := d\<rparr>))
        | None \<Rightarrow> ev' = ev \<and> map_of (sv_lanes sv') = map_of (sv_lanes sv))"
proof (cases "map_of (sv_lanes sv) sid")
  case None
  then have "evict_one env inp t sid (ev, sv) = (ev, sv)" by (simp add: evict_one_def deliver_def)
  then show ?thesis using None by simp
next
  case (Some a)
  show ?thesis
  proof (cases "at_open a")
    case False
    then have "evict_one env inp t sid (ev, sv) = (ev, sv)" using Some by (simp add: evict_one_def deliver_def)
    moreover have "\<exists>d. map_of (sv_lanes sv) = (map_of (sv_lanes sv))(sid \<mapsto> a\<lparr>at_db := d\<rparr>)"
      by (rule exI[of _ "at_db a"]) (simp add: Some fun_upd_idem)
    ultimately show ?thesis using Some False by (auto simp: evictable_def simp del: fun_upd_apply)
  next
    case True
    note d = deliver_evict[OF Some True, of env inp t]
    show ?thesis
    proof (cases "evictable inp t a")
      case e: True
      then obtain cells where "deliver env inp (CmdEvictIfIdle t) sid sv
          = Some ([OutEvicted True], sv\<lparr> sv_lanes := AList.update sid ((lent sv a)\<lparr>at_open := False\<rparr>) (sv_lanes sv), sv_diag := cells \<rparr>)"
        using d by (auto simp: evictable_def)
      then have "evict_one env inp t sid (ev, sv) = (ev @ [sid], sv\<lparr> sv_lanes := AList.delete sid (AList.update sid ((lent sv a)\<lparr>at_open := False\<rparr>) (sv_lanes sv)),
          sv_diag := AList.delete sid cells \<rparr>)"
        by (simp add: evict_one_def lane_open_def AList.update_conv')
      then show ?thesis using Some e by (simp add: AList.delete_conv' AList.update_conv')
    next
      case e: False
      then obtain cells where "deliver env inp (CmdEvictIfIdle t) sid sv
          = Some ([OutEvicted False], sv\<lparr> sv_lanes := AList.update sid (lent sv a) (sv_lanes sv), sv_diag := cells \<rparr>)"
        using d True by (auto simp: evictable_def not_le)
      then have "evict_one env inp t sid (ev, sv) = (ev, sv\<lparr> sv_lanes := AList.update sid (lent sv a) (sv_lanes sv), sv_diag := cells \<rparr>)"
        by (simp add: evict_one_def)
      then show ?thesis using Some e by (auto simp: AList.update_conv' lent_def)
    qed
  qed
qed

lemma evict_fold:
  "distinct ids \<Longrightarrow> \<exists>out sv'. fold (evict_one env inp t) ids (ev, sv) = (ev @ out, sv') \<and> sv_db sv' = sv_db sv
     \<and> (\<forall>sid. sid \<in> set out \<longleftrightarrow> sid \<in> set ids \<and> (\<exists>a. map_of (sv_lanes sv) sid = Some a \<and> evictable inp t a))
     \<and> (\<forall>sid \<in> set out. map_of (sv_lanes sv') sid = None)
     \<and> (\<forall>sid. sid \<notin> set out \<longrightarrow> (case map_of (sv_lanes sv) sid of
           Some a \<Rightarrow> \<exists>d. map_of (sv_lanes sv') sid = Some (a\<lparr>at_db := d\<rparr>) | None \<Rightarrow> map_of (sv_lanes sv') sid = None))"
proof (induction ids arbitrary: ev sv)
  case Nil
  have "\<exists>d. a = a\<lparr>at_db := d\<rparr>" for a :: actor by (rule exI[of _ "at_db a"]) simp
  then show ?case by (auto split: option.splits)
next
  case (Cons i ids)
  obtain ev1 sv1 where one: "evict_one env inp t i (ev, sv) = (ev1, sv1)" "sv_db sv1 = sv_db sv"
    "case map_of (sv_lanes sv) i of
          Some a \<Rightarrow> if evictable inp t a then ev1 = ev @ [i] \<and> map_of (sv_lanes sv1) = (map_of (sv_lanes sv))(i := None)
                    else ev1 = ev \<and> (\<exists>d. map_of (sv_lanes sv1) = (map_of (sv_lanes sv))(i \<mapsto> a\<lparr>at_db := d\<rparr>))
        | None \<Rightarrow> ev1 = ev \<and> map_of (sv_lanes sv1) = map_of (sv_lanes sv)"
    using evict_one_spec[of env inp t i ev sv] by blast
  have d: "distinct ids" "i \<notin> set ids" using Cons.prems by auto
  from Cons.IH[OF d(1), of ev1 sv1] obtain out sv' where IH: "fold (evict_one env inp t) ids (ev1, sv1) = (ev1 @ out, sv')"
    "sv_db sv' = sv_db sv1" "\<And>sid. sid \<in> set out \<longleftrightarrow> sid \<in> set ids \<and> (\<exists>a. map_of (sv_lanes sv1) sid = Some a \<and> evictable inp t a)"
    "\<And>sid. sid \<in> set out \<Longrightarrow> map_of (sv_lanes sv') sid = None"
    "\<And>sid. sid \<notin> set out \<Longrightarrow> (case map_of (sv_lanes sv1) sid of
           Some a \<Rightarrow> \<exists>d. map_of (sv_lanes sv') sid = Some (a\<lparr>at_db := d\<rparr>) | None \<Rightarrow> map_of (sv_lanes sv') sid = None)" by blast
  have other: "sid \<noteq> i \<Longrightarrow> map_of (sv_lanes sv1) sid = map_of (sv_lanes sv) sid" for sid
    using one(3) by (auto split: option.splits if_splits)
  have iout: "i \<notin> set out" using IH(3) d(2) by blast
  show ?case
  proof (cases "\<exists>a. map_of (sv_lanes sv) i = Some a \<and> evictable inp t a")
    case True
    then have e: "ev1 = ev @ [i]" "map_of (sv_lanes sv1) i = None" using one(3) by auto
    show ?thesis
    proof (intro exI conjI)
      show "fold (evict_one env inp t) (i # ids) (ev, sv) = (ev @ (i # out), sv')" using one(1) IH(1) e(1) by simp
      show "sv_db sv' = sv_db sv" using IH(2) one(2) by simp
      show "\<forall>sid. sid \<in> set (i # out) \<longleftrightarrow> sid \<in> set (i # ids) \<and> (\<exists>a. map_of (sv_lanes sv) sid = Some a \<and> evictable inp t a)"
        using IH(3) other True by (metis list.set_intros(1) set_ConsD list.set_intros(2))
      show "\<forall>sid \<in> set (i # out). map_of (sv_lanes sv') sid = None"
        using IH(4) IH(5)[OF iout] e(2) by simp
      show "\<forall>sid. sid \<notin> set (i # out) \<longrightarrow> (case map_of (sv_lanes sv) sid of
           Some a \<Rightarrow> \<exists>d. map_of (sv_lanes sv') sid = Some (a\<lparr>at_db := d\<rparr>) | None \<Rightarrow> map_of (sv_lanes sv') sid = None)"
        using IH(5) other by (metis list.set_intros(1,2))
    qed
  next
    case False
    then have e: "ev1 = ev" using one(3) by (auto split: option.splits if_splits)
    have here: "case map_of (sv_lanes sv) i of
           Some a \<Rightarrow> \<exists>d. map_of (sv_lanes sv') i = Some (a\<lparr>at_db := d\<rparr>) | None \<Rightarrow> map_of (sv_lanes sv') i = None"
      using IH(5)[OF iout] one(3) False by (auto split: option.splits if_splits) blast
    show ?thesis
    proof (intro exI conjI)
      show "fold (evict_one env inp t) (i # ids) (ev, sv) = (ev @ out, sv')" using one(1) IH(1) e by simp
      show "sv_db sv' = sv_db sv" using IH(2) one(2) by simp
      show "\<forall>sid. sid \<in> set out \<longleftrightarrow> sid \<in> set (i # ids) \<and> (\<exists>a. map_of (sv_lanes sv) sid = Some a \<and> evictable inp t a)"
        using IH(3) other False d(2) by (metis set_ConsD list.set_intros(2))
      show "\<forall>sid \<in> set out. map_of (sv_lanes sv') sid = None" using IH(4) by blast
      show "\<forall>sid. sid \<notin> set out \<longrightarrow> (case map_of (sv_lanes sv) sid of
           Some a \<Rightarrow> \<exists>d. map_of (sv_lanes sv') sid = Some (a\<lparr>at_db := d\<rparr>) | None \<Rightarrow> map_of (sv_lanes sv') sid = None)"
        using IH(5) other here by metis
    qed
  qed
qed

text \<open>Ensuring a session changes no transcript.\<close>

lemma find_append: "find P (xs @ ys) = (case find P xs of None \<Rightarrow> find P ys | Some x \<Rightarrow> Some x)"
  by (induction xs) auto

lemma ensure_transcript:
  "ensure_session now sid k d = Inr d' \<Longrightarrow> load_transcript i n d' = load_transcript i n d"
  by (auto simp: ensure_session_def load_transcript_def session_entries_def reset_at_def find_session_def
      find_append split: if_splits option.splits)

lemma spawn_transcript:
  "load_transcript i n (sv_db (get_or_spawn env inp sid sv)) = load_transcript i n (sv_db sv)"
proof (cases "lane_open sid sv")
  case False
  let ?r = "attempt (in_faults inp CallEnsureSession) (ensure_session (in_ms inp) sid (lit ''main'') (sv_db sv))"
  have db: "sv_db (get_or_spawn env inp sid sv) = settle (sv_db sv) ?r"
    using False by (simp add: get_or_spawn_def spawn_actor_def actor_new_def Let_def del: lit_Cons)
  show ?thesis
  proof (cases ?r)
    case (Inr d')
    then have "ensure_session (in_ms inp) sid (lit ''main'') (sv_db sv) = Inr d'"
      by (cases "in_faults inp CallEnsureSession") simp_all
    with Inr db ensure_transcript show ?thesis by (simp del: lit_Cons)
  qed (simp add: db del: lit_Cons)
qed (simp add: get_or_spawn_def)

lemma get_or_spawn_open: "lane_open sid (get_or_spawn env inp sid sv)"
  by (auto simp: get_or_spawn_def lane_open_def spawn_actor_def Let_def actor_new_def AList.update_conv')

text \<open>C28. Collecting idle sessions takes exactly the open sessions other than the main one that are idle for
  the time asked, with no run active and no turn waiting; all other sessions and the database stay as
  they are, and a session asked for again is open at once and finds its transcript unchanged.\<close>

theorem eviction_takes_idle_only:
  assumes "distinct (map fst (sv_lanes sv))" "evict_idle env inp t sv = (ev, sv')"
  shows "(\<forall>sid. sid \<in> set ev \<longleftrightarrow> sid \<noteq> main_id \<and> (\<exists>a. map_of (sv_lanes sv) sid = Some a \<and> evictable inp t a))
    \<and> sv_db sv' = sv_db sv
    \<and> (\<forall>sid \<in> set ev. map_of (sv_lanes sv') sid = None)
    \<and> (\<forall>sid a. sid \<notin> set ev \<longrightarrow> map_of (sv_lanes sv) sid = Some a \<longrightarrow> (\<exists>d. map_of (sv_lanes sv') sid = Some (a\<lparr>at_db := d\<rparr>)))
    \<and> lane_open i (get_or_spawn env again i sv')
    \<and> load_transcript i n (sv_db (get_or_spawn env again i sv')) = load_transcript i n (sv_db sv)"
proof -
  let ?ids = "filter (\<lambda>i. i \<noteq> main_id) (map fst (sv_lanes sv))"
  have "distinct ?ids" using assms(1) by simp
  from evict_fold[OF this, of env inp t "[]" sv] assms(2) obtain
    e: "sv_db sv' = sv_db sv" "\<And>sid. sid \<in> set ev \<longleftrightarrow> sid \<in> set ?ids \<and> (\<exists>a. map_of (sv_lanes sv) sid = Some a \<and> evictable inp t a)"
    "\<And>sid. sid \<in> set ev \<Longrightarrow> map_of (sv_lanes sv') sid = None"
    "\<And>sid. sid \<notin> set ev \<Longrightarrow> (case map_of (sv_lanes sv) sid of
           Some a \<Rightarrow> \<exists>d. map_of (sv_lanes sv') sid = Some (a\<lparr>at_db := d\<rparr>) | None \<Rightarrow> map_of (sv_lanes sv') sid = None)"
    unfolding evict_idle_def by fastforce
  have "sid \<in> set ?ids \<longleftrightarrow> sid \<noteq> main_id \<and> map_of (sv_lanes sv) sid \<noteq> None" for sid
    by (auto simp: map_of_eq_None_iff)
  then have 1: "sid \<in> set ev \<longleftrightarrow> sid \<noteq> main_id \<and> (\<exists>a. map_of (sv_lanes sv) sid = Some a \<and> evictable inp t a)" for sid
    unfolding e(2) by auto
  have 2: "\<exists>d. map_of (sv_lanes sv') sid = Some (a\<lparr>at_db := d\<rparr>)" if "sid \<notin> set ev" "map_of (sv_lanes sv) sid = Some a" for sid a
    using e(4)[OF that(1)] that(2) by simp
  have 3: "load_transcript i n (sv_db (get_or_spawn env again i sv')) = load_transcript i n (sv_db sv)"
    by (simp only: spawn_transcript e(1))
  show ?thesis
    by (intro conjI allI ballI impI 1 2 e(1,3) 3 get_or_spawn_open)
qed

definition sample_env :: "unit server_env" where
  "sample_env = \<lparr> se_platform = ascii_platform, se_cfg = plain_cfg, se_err = \<lambda>_. [], se_dbg = \<lambda>_. [], se_tz = still_env,
     se_powf = \<lambda>a b. a, se_provider = [112], se_model = [109], se_endpoint = None, se_context_window = 1000, se_cooldown = 60,
     se_budget = 3, se_expiry_days = 90, se_subscribers = 1, se_uptime = 0, se_writer_alive = True \<rparr>"

definition two_lanes :: "unit server" where
  "two_lanes = \<lparr> sv_lanes = [(main_id, sample_actor), ([115], busy_actor\<lparr>at_queue := (at_queue busy_actor)\<lparr>pending := [\<lparr> qt_run_id = [2], qt_text = [] \<rparr>]\<rparr>\<rparr>),
       ([116], sample_actor)], sv_diag = [], sv_db = db_empty, sv_idem = [], sv_approvals = [], sv_allowed = [], sv_inputs = [],
     sv_replied = [], sv_tasks = [], sv_usage = [], sv_events = [] \<rparr>"

lemma two_lanes_facts:
  "distinct (map fst (sv_lanes two_lanes))" "map_of (sv_lanes two_lanes) [115] = Some (busy_actor\<lparr>at_queue := (at_queue busy_actor)\<lparr>pending := [\<lparr> qt_run_id = [2], qt_text = [] \<rparr>]\<rparr>\<rparr>)"
  "map_of (sv_lanes two_lanes) [116] = Some sample_actor" "at_open busy_actor"
  by (simp_all add: two_lanes_def main_id_def busy_actor_def sample_actor_def actor_new_def)

lemma eviction_takes_idle_only_witness:
  "\<exists>ev sv'. evict_idle sample_env (sample_inputs []) 0 two_lanes = (ev, sv') \<and> [116] \<in> set ev \<and> [115] \<notin> set ev"
proof -
  obtain ev sv' where e: "evict_idle sample_env (sample_inputs []) 0 two_lanes = (ev, sv')" by fastforce
  have m: "[116] \<noteq> main_id" by (simp add: main_id_def)
  have ok: "evictable (sample_inputs []) 0 sample_actor"
    by (simp add: evictable_def sample_actor_def actor_new_def queue_new_def)
  have no: "\<not> evictable (sample_inputs []) 0 (busy_actor\<lparr>at_queue := (at_queue busy_actor)\<lparr>pending := [\<lparr> qt_run_id = [2], qt_text = [] \<rparr>]\<rparr>\<rparr>)"
    by (simp add: evictable_def)
  from eviction_takes_idle_only[OF two_lanes_facts(1) e] have
    "\<And>sid. sid \<in> set ev \<longleftrightarrow> sid \<noteq> main_id \<and> (\<exists>a. map_of (sv_lanes two_lanes) sid = Some a \<and> evictable (sample_inputs []) 0 a)" by blast
  then have "[116] \<in> set ev" "[115] \<notin> set ev" using m ok no two_lanes_facts(2,3) by auto
  with e show ?thesis by blast
qed

end
