(* ===== verification/Dispatch.thy ===== *)
theory Dispatch
  imports Registry Dreaming
begin

text \<open>
  The requests of a client: \<open>crates/oc-server/src/dispatch.rs\<close> with the protocol types of
  \<open>crates/oc-proto\<close> it uses, and the slash commands of \<open>crates/oc-server/src/command.rs\<close>.  A request is
  handled as one step over the server's state; \<open>None\<close> is a panic of a session's actor.  Parameters:
  \<open>in_uuid\<close> for new identifiers, \<open>in_parse\<close> for the JSON of tool calls.
\<close>

section \<open>The protocol\<close>

definition PROTO_VERSION :: nat where "PROTO_VERSION = 4"

datatype client_kind = Interactive | Detached

datatype error_kind = ProtoVersionMismatch | BadRequest | Unsupported | Internal | AbortedKind | TimeoutKind

record proto_error =
  pe_kind :: error_kind
  pe_message :: rstr

datatype req_method =
    MConnect nat
  | MChatSend "rstr option" rstr
  | MChatAbort rstr bool
  | MChatHistory "rstr option" "nat option"
  | MSessionReset "rstr option"
  | MCompact "rstr option"
  | MSessionsList
  | MCronAdd rstr rstr rstr
  | MCronList
  | MCronRm rstr
  | MIntentAdd rstr "rstr list" "int option" "nat option" "nat option"
  | MIntentList
  | MIntentRm rstr
  | MTasksList
  | MTasksCancel rstr
  | MMemorySearch rstr "nat option"
  | MApprovalReply rstr bool
  | MUserReply rstr "rstr option"
  | MStatus
  | MHealth
  | MDiagnostics
  | MCommand "rstr option" rstr
  | MChatResume rstr rstr int

record req =
  rq_method :: req_method
  rq_key :: "rstr option"

record features =
  fe_ws_remote :: bool
  fe_memory_vec :: bool
  fe_sandbox :: bool
  fe_proto_version :: nat

record snapshot =
  sn_active_run :: "rstr option"
  sn_queued_turns :: nat
  sn_background_tasks :: nat
  sn_session :: rstr
  sn_context_window :: nat
  sn_last_input_tokens :: "nat option"
  sn_model :: rstr
  sn_provider :: rstr
  sn_endpoint :: "rstr option"

record hist_entry =
  hs_seq :: int
  hs_role :: store_role
  hs_content :: rstr
  hs_tool_calls :: "tool_call_spec list option"
  hs_tool_call_id :: "rstr option"
  hs_created_at :: int

record mem_hit =
  mh_id :: rstr
  mh_tier :: rstr
  mh_text :: rstr
  mh_score :: flt
  mh_source :: "rstr option"

record command_result =
  cm_text :: rstr
  cm_switch :: "rstr option"
  cm_clear :: "rstr option"

record diagnostics =
  ds_uptime :: nat
  ds_sessions :: "(rstr \<times> diag_state) list"
  ds_writer_alive :: bool
  ds_subscribers :: nat
  ds_idem :: nat
  ds_sampled_at :: int
  ds_proto_version :: nat

datatype method_ok =
    OkHello features snapshot
  | OkChatSend rstr
  | OkEmpty
  | OkHistory "hist_entry list"
  | OkCronAdd rstr
  | OkCronList "cron_view list"
  | OkIntentAdd rstr
  | OkIntentList "intent_view list"
  | OkTasks "task_view list"
  | OkMemorySearch "mem_hit list"
  | OkSessions "session_row list"
  | OkStatus snapshot
  | OkHealth bool nat
  | OkDiagnostics diagnostics
  | OkCommand command_result
  | OkChatResume rstr

type_synonym sv = "method_ok server"

section \<open>Reading\<close>

definition or_main :: "rstr option \<Rightarrow> rstr" where
  "or_main s = (case s of Some i \<Rightarrow> i | None \<Rightarrow> main_id)"

definition as_u32n :: "nat \<Rightarrow> nat" where "as_u32n n = n mod 2 ^ 32"

definition snapshot_of :: "'z server_env \<Rightarrow> rstr \<Rightarrow> sv \<Rightarrow> snapshot" where
  "snapshot_of env sid s =
     (let d = map_of (sv_diag s) sid in
      \<lparr> sn_active_run = Option.bind d (\<lambda>g. map_option rl_run_id (dg_active g)),
        sn_queued_turns = as_u32n (case d of Some g \<Rightarrow> dg_queue_depth g | None \<Rightarrow> 0),
        sn_background_tasks = as_u32n (unfinished_count s), sn_session = sid,
        sn_context_window = se_context_window env, sn_last_input_tokens = last_input_tokens sid s,
        sn_model = se_model env, sn_provider = se_provider env, sn_endpoint = se_endpoint env \<rparr>)"

definition hist_of :: "(rstr \<Rightarrow> tool_call_spec list option) \<Rightarrow> entry \<Rightarrow> hist_entry" where
  "hist_of parse_calls e = \<lparr> hs_seq = en_seq e, hs_role = en_role e, hs_content = en_content e,
     hs_tool_calls = Option.bind (en_tool_calls e) parse_calls, hs_tool_call_id = en_tool_call_id e, hs_created_at = en_created_at e \<rparr>"

definition search_candidate :: "memory_row \<Rightarrow> mem_candidate" where
  "search_candidate r = \<lparr> mc_id = mr_id r, mc_tier = tier_of_store (tier_from_db (mr_tier r)),
     mc_origin = origin_of_store (origin_from_db (mr_origin r)), mc_text = mr_text r, mc_importance = mr_importance r,
     mc_last_used_secs = trunc_div (case mr_last_used_at r of Some t \<Rightarrow> t | None \<Rightarrow> mr_created_at r) 1000,
     mc_source = mr_source r \<rparr>"

definition tier_name :: "tier \<Rightarrow> rstr" where
  "tier_name t = (case t of Curated \<Rightarrow> lit ''curated'' | Episodic \<Rightarrow> lit ''episodic''
     | Prospective \<Rightarrow> lit ''prospective'' | Review \<Rightarrow> lit ''review'')"

text \<open>The memories found, best first: those with a positive score.\<close>

definition positive_hits :: "'z server_env \<Rightarrow> int \<Rightarrow> rstr \<Rightarrow> memory_row list \<Rightarrow> ranked list" where
  "positive_hits env now query rows = filter (\<lambda>r. flt_lt (Fin 0) (rk_score r))
     (rank (lower_str (se_platform env)) (se_powf env) (map search_candidate rows) (tokenize query) now rank_default)"

definition search_rows :: "'z server_env \<Rightarrow> inputs \<Rightarrow> rstr \<Rightarrow> db \<Rightarrow> store_error + memory_row list" where
  "search_rows env inp query d = attempt (in_faults inp CallSearch)
     (Inr (search_candidates (lower_of (se_platform env)) (alnum_of (se_platform env)) (tokenize query) None 64 d))"

text \<open>\<open>as f32\<close> of a double.\<close>

fun to_f32 :: "flt \<Rightarrow> flt" where
  "to_f32 (Fin q) = f32 q" | "to_f32 NaN = NaN" | "to_f32 (Inf s) = Inf s"


definition or_internal :: "'z server_env \<Rightarrow> rstr \<Rightarrow> store_error + 'a \<Rightarrow> proto_error + 'a" where
  "or_internal env msg r = (case r of Inl e \<Rightarrow> Inl \<lparr> pe_kind = Internal, pe_message = msg @ se_err env e \<rparr> | Inr x \<Rightarrow> Inr x)"

definition bad_request :: "rstr \<Rightarrow> proto_error" where
  "bad_request msg = \<lparr> pe_kind = BadRequest, pe_message = msg \<rparr>"

text \<open>The result of a write: the database is the new one, or the old one with the error.\<close>

definition write_db :: "'z server_env \<Rightarrow> rstr \<Rightarrow> store_error + db \<Rightarrow> method_ok \<Rightarrow> sv \<Rightarrow> (proto_error + method_ok) \<times> sv" where
  "write_db env msg r ok s = (case or_internal env msg r of
     Inl e \<Rightarrow> (Inl e, s) | Inr d \<Rightarrow> (Inr ok, s\<lparr>sv_db := d\<rparr>))"

section \<open>Requests\<close>

definition handle_connect :: "'z server_env \<Rightarrow> nat \<Rightarrow> sv \<Rightarrow> proto_error + method_ok" where
  "handle_connect env v s =
     (if v \<noteq> PROTO_VERSION
      then Inl \<lparr> pe_kind = ProtoVersionMismatch, pe_message = ([21327, 35758, 29256, 26412, 19981, 21305, 37197, 65306] @ lit ''client='') @ show_nat v @ lit '', server='' @ show_nat PROTO_VERSION \<rparr>
      else Inr (OkHello \<lparr> fe_ws_remote = False, fe_memory_vec = False, fe_sandbox = False, fe_proto_version = PROTO_VERSION \<rparr>
                        (snapshot_of env main_id s)))"

text \<open>The connection of a request: its number, its kind, the log a detached run gets, and what the
  other tasks of the server do between the lookup of a session and the submission to it.\<close>

record conn_ctx =
  cx_conn :: nat
  cx_kind :: client_kind
  cx_log :: nat
  cx_gap :: "sv \<Rightarrow> sv"

definition sink_of :: "conn_ctx \<Rightarrow> sink_ref" where
  "sink_of cx = (case cx_kind cx of Detached \<Rightarrow> RefDetached (cx_conn cx) (cx_log cx) | Interactive \<Rightarrow> RefConn (cx_conn cx))"

fun accepted_id :: "actor_out list \<Rightarrow> rstr option" where
  "accepted_id (OutAccepted rid # outs) = Some rid"
| "accepted_id _ = None"

definition busy_text :: rstr where
  "busy_text = [20250, 35805, 32321, 24537, 65306, 38431, 21015, 24050, 28385, 65292, 35831, 31245, 21518, 37325, 35797]"

definition handle_chat_send :: "'z server_env \<Rightarrow> inputs \<Rightarrow> conn_ctx \<Rightarrow> rstr option \<Rightarrow> rstr \<Rightarrow> sv \<Rightarrow> ((proto_error + method_ok) \<times> sv) option" where
  "handle_chat_send env inp cx session msg s =
     (let sid = or_main session;
          cmd = CmdSubmit msg (sink_of cx);
          answer = (\<lambda>outs. case accepted_id outs of
                      Some rid \<Rightarrow> Inr (OkChatSend rid)
                    | None \<Rightarrow> Inl \<lparr> pe_kind = Internal, pe_message = busy_text \<rparr>)
      in case deliver env inp cmd sid (cx_gap cx (get_or_spawn env inp sid s)) of
           None \<Rightarrow> None
         | Some (outs, s1) \<Rightarrow>
             if accepted_id outs = None \<and> \<not> lane_open sid s1
             then map_option (\<lambda>(outs2, s2). (answer outs2, s2)) (deliver env inp cmd sid (get_or_spawn env inp sid s1))
             else Some (answer outs, s1))"

definition no_run_text :: rstr where
  "no_run_text = (lit ''run '' @ [19981, 23384, 22312, 25110, 24050, 32467, 26463])"

definition handle_chat_resume :: "'z server_env \<Rightarrow> inputs \<Rightarrow> rstr \<Rightarrow> rstr \<Rightarrow> int \<Rightarrow> sv \<Rightarrow> ((proto_error + method_ok) \<times> sv) option" where
  "handle_chat_resume env inp sid rid since s =
     map_option (\<lambda>(outs, s1). (if outs = [OutResumed True] then Inr (OkChatResume sid)
                                else Inl \<lparr> pe_kind = Internal, pe_message = no_run_text \<rparr>, s1))
       (deliver env inp (CmdResume rid since) sid (get_or_spawn env inp sid s))"

definition handle_chat_abort :: "'z server_env \<Rightarrow> inputs \<Rightarrow> rstr \<Rightarrow> bool \<Rightarrow> sv \<Rightarrow> ((proto_error + method_ok) \<times> sv) option" where
  "handle_chat_abort env inp rid hard s = map_option (\<lambda>s1. (Inr OkEmpty, s1)) (abort_all env inp rid hard s)"

text \<open>The last chance of the conversation to enter the memory comes before the reset.\<close>

definition reset_request :: "'z server_env \<Rightarrow> inputs \<Rightarrow> rstr \<Rightarrow> sv \<Rightarrow> (proto_error + unit) \<times> sv" where
  "reset_request env inp sid s =
     (let d = flush_before_reset (se_platform env) (in_faults inp) (in_ms inp) sid (sc_max_history_entries (se_cfg env)) (sv_db s)
      in case or_internal env ([37325, 32622, 20250, 35805, 22833, 36133] @ lit '': '') (attempt (in_faults inp (CallReset sid)) (reset_session sid d)) of
           Inl e \<Rightarrow> (Inl e, s\<lparr>sv_db := d\<rparr>)
         | Inr d' \<Rightarrow> (Inr (), s\<lparr>sv_db := d'\<rparr>))"

definition compact_request :: "'z server_env \<Rightarrow> inputs \<Rightarrow> rstr \<Rightarrow> sv \<Rightarrow> sv option" where
  "compact_request env inp sid s = map_option snd (deliver env inp CmdCompact sid (get_or_spawn env inp sid s))"

definition handle_sessions_list :: "'z server_env \<Rightarrow> inputs \<Rightarrow> sv \<Rightarrow> proto_error + method_ok" where
  "handle_sessions_list env inp s = map_sum id OkSessions
     (or_internal env ([21015, 20986, 20250, 35805, 22833, 36133] @ lit '': '') (attempt (in_faults inp CallSessionList) (Inr (session_list (sv_db s)))))"

text \<open>The main session first, the others by identifier.\<close>

definition snapshot_sessions :: "sv \<Rightarrow> (rstr \<times> diag_state) list" where
  "snapshot_sessions s = filter (\<lambda>p. fst p = main_id) (sv_diag s) @ sort_on fst (filter (\<lambda>p. fst p \<noteq> main_id) (sv_diag s))"

definition handle_diagnostics :: "'z server_env \<Rightarrow> inputs \<Rightarrow> sv \<Rightarrow> method_ok" where
  "handle_diagnostics env inp s = OkDiagnostics \<lparr> ds_uptime = se_uptime env, ds_sessions = snapshot_sessions s,
     ds_writer_alive = se_writer_alive env, ds_subscribers = se_subscribers env, ds_idem = length (sv_idem s),
     ds_sampled_at = in_ms inp, ds_proto_version = PROTO_VERSION \<rparr>"

definition handle_history :: "'z server_env \<Rightarrow> inputs \<Rightarrow> rstr option \<Rightarrow> nat option \<Rightarrow> sv \<Rightarrow> proto_error + method_ok" where
  "handle_history env inp session limit s =
     map_sum id (\<lambda>es. OkHistory (map (hist_of (in_parse inp)) es))
       (or_internal env ([21152, 36733, 21382, 21490, 22833, 36133] @ lit '': '') (attempt (in_faults inp CallLoadTranscript)
          (Inr (load_transcript (or_main session) (int (case limit of Some n \<Rightarrow> n | None \<Rightarrow> 200)) (sv_db s)))))"

definition handle_cron_add :: "'z server_env \<Rightarrow> inputs \<Rightarrow> rstr \<Rightarrow> rstr \<Rightarrow> rstr \<Rightarrow> sv \<Rightarrow> ((proto_error + method_ok) \<times> sv) option" where
  "handle_cron_add env inp expr prompt tz s =
     (case next_fire (se_tz env) expr (in_secs inp) tz of
        None \<Rightarrow> None
      | Some (Inl e) \<Rightarrow> Some (Inl (bad_request ((lit ''cron '' @ [34920, 36798, 24335, 38750, 27861] @ lit '': '') @ cron_error_text e)), s)
      | Some (Inr next_at) \<Rightarrow>
          let i = lit ''cron-'' @ in_uuid inp in
          Some (write_db env ([26032, 22686] @ lit '' cron '' @ [22833, 36133] @ lit '': '')
                  (attempt (in_faults inp (CallCronAdd i))
                     (cron_add \<lparr> nc_id = i, nc_expr = expr, nc_prompt = prompt, nc_tz = tz, nc_next_at = next_at \<rparr> (sv_db s)))
                  (OkCronAdd i) s))"

definition handle_cron_list :: "'z server_env \<Rightarrow> inputs \<Rightarrow> sv \<Rightarrow> proto_error + method_ok" where
  "handle_cron_list env inp s = map_sum id OkCronList
     (or_internal env ([21015, 20986] @ lit '' cron '' @ [22833, 36133] @ lit '': '') (attempt (in_faults inp CallCronList) (Inr (cron_list (sv_db s)))))"

definition handle_cron_rm :: "'z server_env \<Rightarrow> inputs \<Rightarrow> rstr \<Rightarrow> sv \<Rightarrow> (proto_error + method_ok) \<times> sv" where
  "handle_cron_rm env inp i s = write_db env ([21024, 38500] @ lit '' cron '' @ [22833, 36133] @ lit '': '')
     (map_sum id snd (attempt (in_faults inp (CallCronRm i)) (cron_rm i (sv_db s)))) OkEmpty s"

definition handle_intent_add :: "'z server_env \<Rightarrow> inputs \<Rightarrow> rstr \<Rightarrow> rstr list \<Rightarrow> int option \<Rightarrow> nat option \<Rightarrow> nat option \<Rightarrow> sv \<Rightarrow> (proto_error + method_ok) \<times> sv" where
  "handle_intent_add env inp raw keywords cooldown bud expiry s =
     (let msg = trim raw; kws = filter (\<lambda>k. k \<noteq> []) (map trim keywords) in
      if msg = [] then (Inl (bad_request (lit ''intent text '' @ [19981, 33021, 20026, 31354])), s)
      else if kws = [] then (Inl (bad_request ([33267, 23569, 38656, 19968, 20010, 38750, 31354] @ lit '' keyword'' @ [65288, 35805, 39064, 35302, 21457, 38752, 20851, 38190, 35789, 21629, 20013, 65289])), s)
      else let days = (case expiry of Some d \<Rightarrow> d | None \<Rightarrow> se_expiry_days env);
               i = lit ''intent-'' @ in_uuid inp
           in write_db env ([26032, 22686] @ lit '' standing intent '' @ [22833, 36133] @ lit '': '')
                (attempt (in_faults inp (CallIntentAdd i))
                   (intent_add (in_ms inp)
                      \<lparr> ni_id = i, ni_text = msg, ni_keywords = kws,
                        ni_cooldown_secs = (case cooldown of Some c \<Rightarrow> c | None \<Rightarrow> se_cooldown env),
                        ni_budget = (case bud of Some b \<Rightarrow> b | None \<Rightarrow> se_budget env),
                        ni_expiry_at = (if days = 0 then None else Some (in_secs inp + int days * 86400)) \<rparr> (sv_db s)))
                (OkIntentAdd i) s)"

definition handle_intent_list :: "'z server_env \<Rightarrow> inputs \<Rightarrow> sv \<Rightarrow> proto_error + method_ok" where
  "handle_intent_list env inp s = map_sum id OkIntentList
     (or_internal env ([21015, 20986] @ lit '' standing intent '' @ [22833, 36133] @ lit '': '') (attempt (in_faults inp CallIntentList) (Inr (intent_list (sv_db s)))))"

definition handle_intent_rm :: "'z server_env \<Rightarrow> inputs \<Rightarrow> rstr \<Rightarrow> sv \<Rightarrow> (proto_error + method_ok) \<times> sv" where
  "handle_intent_rm env inp i s = write_db env ([21024, 38500] @ lit '' standing intent '' @ [22833, 36133] @ lit '': '')
     (map_sum id snd (attempt (in_faults inp (CallIntentRm i)) (intent_rm i (sv_db s)))) OkEmpty s"

definition handle_memory_search :: "'z server_env \<Rightarrow> inputs \<Rightarrow> rstr \<Rightarrow> nat option \<Rightarrow> sv \<Rightarrow> proto_error + method_ok" where
  "handle_memory_search env inp query limit s =
     map_sum id (\<lambda>rows. OkMemorySearch
         (List.map_filter (\<lambda>r. map_option (\<lambda>c. \<lparr> mh_id = rk_id r, mh_tier = tier_name (mc_tier c), mh_text = mc_text c,
                                               mh_score = to_f32 (rk_score r), mh_source = mc_source c \<rparr>)
                          (find (\<lambda>c. mc_id c = rk_id r) (map search_candidate rows)))
            (take (case limit of Some n \<Rightarrow> n | None \<Rightarrow> 10) (positive_hits env (in_secs inp) query rows))))
       (or_internal env ([35760, 24518, 26816, 32034, 22833, 36133] @ lit '': '') (search_rows env inp query (sv_db s)))"

section \<open>Commands\<close>

text \<open>A table: each cell but the last that is not empty is padded to its column, and two blanks follow.\<close>

definition col_width :: "rstr list list \<Rightarrow> nat \<Rightarrow> nat" where
  "col_width rows i = fold max (map length (List.map_filter (\<lambda>r. get r i) rows)) 0"

definition last_filled :: "rstr list \<Rightarrow> nat" where
  "last_filled row = length (dropWhile (\<lambda>c. c = []) (rev row)) - 1"

definition align_row :: "(nat \<Rightarrow> nat) \<Rightarrow> rstr list \<Rightarrow> rstr" where
  "align_row w row =
     (let l = last_filled row in
      concat (map (\<lambda>(i, c). c @ (if i \<noteq> l then replicate (w i - length c + 2) 32 else [])) (enumerate 0 (take (l + 1) row))) @ [10])"

definition align_rows :: "rstr list list \<Rightarrow> rstr" where
  "align_rows rows = trim_end (concat (map (align_row (col_width rows)) rows))"

definition bracket :: "rstr \<Rightarrow> rstr" where "bracket s = lit ''['' @ s @ lit '']''"
definition quoted :: "rstr \<Rightarrow> rstr" where "quoted s = [171] @ s @ [187]"

definition sessions_text :: "'z server_env \<Rightarrow> inputs \<Rightarrow> rstr \<Rightarrow> sv \<Rightarrow> proto_error + rstr" where
  "sessions_text env inp current s =
     map_sum id (\<lambda>rows. if rows = [] then [65288, 26080, 20250, 35805, 65289]
         else align_rows (map (\<lambda>r. [sr_id r, bracket (sr_kind r), if sr_id r = current then [8592, 24403, 21069] else []]) rows))
       (or_internal env ([21015, 20986, 20250, 35805, 22833, 36133] @ lit '': '') (attempt (in_faults inp CallSessionList) (Inr (session_list (sv_db s)))))"

text \<open>\<open>{:.0}\<close> of a double: rounded half to even.\<close>

fun show_flt0 :: "flt \<Rightarrow> rstr" where
  "show_flt0 (Fin q) = show_int (round_even q)" | "show_flt0 NaN = lit ''NaN''"
| "show_flt0 (Inf neg) = (if neg then lit ''-inf'' else lit ''inf'')"

definition status_text :: "'z server_env \<Rightarrow> rstr \<Rightarrow> sv \<Rightarrow> rstr" where
  "status_text env sid s =
     (let n = snapshot_of env sid s;
          ctx = (case sn_last_input_tokens n of
                   Some used \<Rightarrow>
                     let pct = (if 0 < sn_context_window n
                                then flt_mul f64 (flt_div f64 (Fin (of_nat used)) (Fin (of_nat (sn_context_window n)))) (Fin 100) else Fin 0)
                     in show_nat used @ lit ''/'' @ show_nat (sn_context_window n) @ lit '' ('' @ show_flt0 pct @ lit ''%)''
                 | None \<Rightarrow> lit ''-/'' @ show_nat (sn_context_window n))
      in ([20250, 35805] @ lit '':'') @ sn_session n @ (lit ''  '' @ [27963, 36291] @ lit ''run:'') @ (case sn_active_run n of Some r \<Rightarrow> r | None \<Rightarrow> lit ''-'')
         @ (lit ''  '' @ [25490, 38431] @ lit '':'') @ show_nat (sn_queued_turns n) @ (lit ''  '' @ [21518, 21488, 20219, 21153] @ lit '':'') @ show_nat (sn_background_tasks n) @ (lit ''  '' @ [19978, 19979, 25991] @ lit '':'') @ ctx
         @ (if sn_model n \<noteq> [] then ([10, 27169, 22411] @ lit '':'') @ sn_model n @ lit ''  provider:'' @ sn_provider n else []))"

definition model_text :: "'z server_env \<Rightarrow> rstr" where
  "model_text env =
     (if se_model env = [] then [65288, 26410, 37197, 32622, 27169, 22411, 65289]
      else ([27169, 22411] @ lit '':'') @ se_model env @ lit ''  provider:'' @ se_provider env
           @ (case se_endpoint env of Some e \<Rightarrow> (lit ''  '' @ [31471, 28857] @ lit '':'') @ e | None \<Rightarrow> []))"

definition task_state_text :: "task_state \<Rightarrow> rstr" where
  "task_state_text st = (case st of TaskQueued \<Rightarrow> [25490, 38431] | TaskRunning \<Rightarrow> [36816, 34892] | TaskDone \<Rightarrow> [23436, 25104]
     | TaskFailed \<Rightarrow> [22833, 36133] | TaskCancelled \<Rightarrow> [24050, 21462, 28040])"

definition tasks_text :: "sv \<Rightarrow> rstr" where
  "tasks_text s = (if task_list s = [] then [65288, 26080, 21518, 21488, 20219, 21153, 65289]
     else align_rows (map (\<lambda>t. [tv_id t, bracket (task_state_text (tv_state t)), case tv_detail t of Some x \<Rightarrow> x | None \<Rightarrow> []]) (task_list s)))"

definition cron_text :: "'z server_env \<Rightarrow> inputs \<Rightarrow> sv \<Rightarrow> proto_error + rstr" where
  "cron_text env inp s =
     map_sum id (\<lambda>rows. if rows = [] then [65288, 26080, 23450, 26102, 20219, 21153, 65289]
         else align_rows (map (\<lambda>c.
           [cv_id c, bracket (if cv_enabled c then [21551, 29992] else [20572, 29992]),
            if is_once (cv_expr c) then [19968, 27425, 24615] else cv_expr c,
            ([19979, 27425] @ lit '':'') @ (case cv_next_at c of
               Some t \<Rightarrow> (case fmt_in_tz (se_tz env) t (cv_tz c) of
                   Some x \<Rightarrow> x @ lit '' ['' @ cv_tz c @ lit '']'' | None \<Rightarrow> lit ''unix '' @ show_int t)
             | None \<Rightarrow> lit ''-''),
            quoted (cv_prompt c)]) rows))
       (or_internal env ([21015, 20986] @ lit '' cron '' @ [22833, 36133] @ lit '': '') (attempt (in_faults inp CallCronList) (Inr (cron_list (sv_db s)))))"

definition intent_text :: "'z server_env \<Rightarrow> inputs \<Rightarrow> sv \<Rightarrow> proto_error + rstr" where
  "intent_text env inp s =
     map_sum id (\<lambda>rows. if rows = [] then [65288, 26080, 35805, 39064, 24453, 21150, 65289]
         else align_rows (map (\<lambda>i.
           [iv_id i, ([35302, 21457, 35789] @ lit '':['') @ join [32] (iv_keywords i) @ lit '']'',
            ([24050, 25552, 37266] @ lit '':'') @ show_nat (iv_fired_count i) @ lit ''/'' @ show_nat (iv_budget i),
            ([19978, 27425] @ lit '':'') @ (case iv_last_fired_at i of Some t \<Rightarrow> show_int t | None \<Rightarrow> [20174, 26410]),
            quoted (iv_text i)]) rows))
       (or_internal env ([21015, 20986] @ lit '' standing intent '' @ [22833, 36133] @ lit '': '') (attempt (in_faults inp CallIntentList) (Inr (intent_list (sv_db s)))))"

definition memory_text :: "'z server_env \<Rightarrow> inputs \<Rightarrow> rstr \<Rightarrow> sv \<Rightarrow> proto_error + rstr" where
  "memory_text env inp query s =
     map_sum id (\<lambda>rows.
         let hits = List.map_filter (\<lambda>r. find (\<lambda>c. mc_id c = rk_id r) (map search_candidate rows))
                      (take 10 (positive_hits env (in_secs inp) query rows))
         in if hits = [] then [65288, 26080, 21305, 37197, 35760, 24518, 65289]
            else align_rows (map (\<lambda>c. [lit ''('' @ tier_name (mc_tier c) @ lit '')'', join [32] (split_whitespace (mc_text c))]) hits))
       (or_internal env ([35760, 24518, 26816, 32034, 22833, 36133] @ lit '': '') (search_rows env inp query (sv_db s)))"

definition HELP_ROWS :: "(rstr \<times> rstr) list" where
  "HELP_ROWS =
    [(lit ''/help'', [26174, 31034, 26412, 35828, 26126]),
     (lit ''/new'', [24320, 19968, 20010, 26032, 20250, 35805, 65288, 26087, 20250, 35805, 20445, 30041, 65289]),
     (lit ''/session <id>'', ([20999, 25442, 21040, 25351, 23450, 20250, 35805, 65288, 19981, 23384, 22312, 21017, 39318, 27425, 21457] @ [36865, 26102, 21019, 24314, 65289])),
     (lit ''/sessions'', [21015, 20986, 25152, 26377, 20250, 35805]),
     (lit ''/clear'', ([28165, 31354, 24403, 21069, 20250, 35805, 19978, 19979, 25991, 65288, 21382, 21490, 20445, 30041, 22312] @ [24211, 20013, 65292, 19981, 20877, 36827, 25552, 31034, 35789, 65289])),
     (lit ''/compact'', ([21387, 32553, 24403, 21069, 19978, 19979, 25991, 65288, 25688, 35201, 26087, 21382, 21490, 65292, 20445] @ [30041, 35821, 20041, 65289])),
     (lit ''/stop'', [20013, 27490, 24403, 21069, 36827, 34892, 20013, 30340, 22238, 21512]),
     (lit ''/status'', ([36816, 34892, 29366, 24577, 65306, 27963, 36291] @ lit '' run / '' @ [25490, 38431] @ lit '' / '' @ [19978, 19979, 25991, 29992, 37327] @ lit '' / '' @ [27169, 22411])),
     (lit ''/model'', ([24403, 21069, 29983, 25928, 30340, 27169, 22411, 19982] @ lit '' provider / '' @ [31471, 28857])),
     (lit ''/tasks'', [21015, 20986, 21518, 21488, 20219, 21153]),
     (lit ''/cron list'', [21015, 20986, 23450, 26102, 20219, 21153]),
     (lit ''/intent list'', [21015, 20986, 35805, 39064, 24453, 21150]),
     (lit ''/memory search <q>'', [25353, 20851, 38190, 35789, 26816, 32034, 35760, 24518]),
     (lit ''/whoami'', ([26174, 31034, 24403, 21069, 20250, 35805] @ lit '' id'' @ [65288, 21035, 21517] @ lit '' /id'' @ [65289]))]"

definition help_text :: rstr where
  "help_text = (let width = fold max (map (length \<circ> fst) HELP_ROWS) 0 in
     join [10] (map (\<lambda>(usage, desc). usage @ replicate (width - length usage) 32 @ lit ''  '' @ desc) HELP_ROWS))"

definition new_session_id :: "inputs \<Rightarrow> rstr" where
  "new_session_id inp = lit ''s'' @ show_int (in_secs inp)"

definition says :: "rstr \<Rightarrow> command_result" where
  "says t = \<lparr> cm_text = t, cm_switch = None, cm_clear = None \<rparr>"

text \<open>The name of a command and its argument: the text up to the first blank, in lower case, and the rest.\<close>

definition split_command :: "rstr \<Rightarrow> rstr \<times> rstr" where
  "split_command t = (to_ascii_lowercase (takeWhile (\<lambda>c. \<not> is_ws c) t), trim (dropWhile (\<lambda>c. \<not> is_ws c) t))"

definition stop_command :: "'z server_env \<Rightarrow> inputs \<Rightarrow> rstr \<Rightarrow> sv \<Rightarrow> ((proto_error + command_result) \<times> sv) option" where
  "stop_command env inp sid s =
     (case Option.bind (map_of (sv_diag s) sid) (\<lambda>g. map_option rl_run_id (dg_active g)) of
        Some rid \<Rightarrow> map_option (\<lambda>s1. (Inr (says (([24050, 35831, 27714, 20572, 27490] @ lit '' run'' @ [12300]) @ rid @ [12301])), s1)) (abort_all env inp rid True s)
      | None \<Rightarrow> Some (Inr (says [24403, 21069, 27809, 26377, 36827, 34892, 20013, 30340, 22238, 21512, 21487, 20572, 27490]), s))"

definition list_command :: "rstr \<Rightarrow> rstr \<Rightarrow> proto_error + rstr \<Rightarrow> proto_error + command_result" where
  "list_command arg usage r = (if trim arg \<noteq> lit ''list'' then Inl (bad_request usage) else map_sum id says r)"

definition memory_command :: "'z server_env \<Rightarrow> inputs \<Rightarrow> rstr \<Rightarrow> sv \<Rightarrow> proto_error + command_result" where
  "memory_command env inp arg s =
     (case strip_prefix (lit ''search'') arg of
        None \<Rightarrow> Inl (bad_request ([29992, 27861, 65306] @ lit ''/memory search <'' @ [20851, 38190, 35789] @ lit ''>''))
      | Some rest \<Rightarrow> if trim rest = [] then Inl (bad_request ([29992, 27861, 65306] @ lit ''/memory search <'' @ [20851, 38190, 35789] @ lit ''>''))
                     else map_sum id says (memory_text env inp (trim rest) s))"

definition handle_command :: "'z server_env \<Rightarrow> inputs \<Rightarrow> rstr option \<Rightarrow> rstr \<Rightarrow> sv \<Rightarrow> ((proto_error + command_result) \<times> sv) option" where
  "handle_command env inp session raw s =
     (let t = trim raw; sid = or_main session; name = fst (split_command t); arg = snd (split_command t) in
      if name = lit ''/help'' then Some (Inr (says help_text), s)
      else if name = lit ''/new'' then Some (Inr \<lparr> cm_text = [24050, 20999, 21040, 26032, 20250, 35805, 12300] @ new_session_id inp @ ([12301, 65288, 26087, 20250, 35805, 20445, 30041, 65292, 21487, 29992] @ lit '' /session <id> '' @ [20999, 22238, 65289]),
                                             cm_switch = Some (new_session_id inp), cm_clear = Some sid \<rparr>, s)
      else if name = lit ''/session'' then
        Some (if arg = [] then Inl (bad_request ([29992, 27861, 65306] @ lit ''/session <id>'' @ [65288, 19981, 24102, 21442, 25968, 35270, 20026, 25171, 38169, 65292, 19981, 38745, 40664, 21534, 25481] @ [65289]))
              else Inr \<lparr> cm_text = [24050, 20999, 25442, 21040, 20250, 35805, 12300] @ arg @ ([12301, 65288, 26032] @ lit '' id '' @ [23558, 22312, 39318, 27425, 21457, 36865, 26102, 21019, 24314, 65289]), cm_switch = Some arg, cm_clear = None \<rparr>, s)
      else if name = lit ''/clear'' \<or> name = lit ''/reset'' then
        Some (case reset_request env inp sid s of (r, s1) \<Rightarrow>
          (map_sum id (\<lambda>_. \<lparr> cm_text = ([24050, 28165, 31354, 24403, 21069, 20250, 35805, 19978, 19979, 25991, 65288, 21382, 21490, 20445, 30041] @ [22312, 24211, 20013, 65292, 19981, 20877, 36827, 20837, 25552, 31034, 35789, 65289]), cm_switch = None, cm_clear = Some sid \<rparr>) r, s1))
      else if name = lit ''/compact'' then
        map_option (\<lambda>s1. (Inr (says ([24050, 35831, 27714, 21387, 32553, 19978, 19979, 25991, 65288, 25688, 35201, 23558, 22312, 21518, 21488] @ [29983, 25104, 65289])), s1)) (compact_request env inp sid s)
      else if name = lit ''/stop'' then stop_command env inp sid s
      else if name = lit ''/sessions'' then Some (map_sum id says (sessions_text env inp sid s), s)
      else if name = lit ''/status'' then Some (Inr (says (status_text env sid s)), s)
      else if name = lit ''/model'' then Some (Inr (says (model_text env)), s)
      else if name = lit ''/tasks'' then Some (Inr (says (tasks_text s)), s)
      else if name = lit ''/cron'' then Some (list_command arg ([29992, 27861, 65306] @ lit ''/cron list'' @ [65288, 26412, 21518, 31471, 21482, 35835, 23637, 31034, 23450, 26102, 20219, 21153, 65289]) (cron_text env inp s), s)
      else if name = lit ''/intent'' then Some (list_command arg ([29992, 27861, 65306] @ lit ''/intent list'' @ [65288, 26412, 21518, 31471, 21482, 35835, 23637, 31034, 35805, 39064, 24453, 21150, 65289]) (intent_text env inp s), s)
      else if name = lit ''/memory'' then Some (memory_command env inp arg s, s)
      else if name = lit ''/whoami'' \<or> name = lit ''/id'' then Some (Inr (says ([24403, 21069, 20250, 35805, 65306] @ sid)), s)
      else Some (Inl (bad_request ([26410, 30693, 25351, 20196, 12300] @ t @ ([12301, 12290, 21487, 29992, 25351, 20196, 35265] @ lit '' /help'' @ [65288, 19981, 20250, 24403, 25104, 32842, 22825, 21457, 20986, 21435, 65289]))), s))"

section \<open>A request\<close>

definition run_method :: "'z server_env \<Rightarrow> inputs \<Rightarrow> conn_ctx \<Rightarrow> req_method \<Rightarrow> sv \<Rightarrow> ((proto_error + method_ok) \<times> sv) option" where
  "run_method env inp cx m s = (case m of
     MConnect v \<Rightarrow> Some (handle_connect env v s, s)
   | MChatSend session msg \<Rightarrow> handle_chat_send env inp cx session msg s
   | MChatResume sid rid since \<Rightarrow> handle_chat_resume env inp sid rid since s
   | MChatAbort rid hard \<Rightarrow> handle_chat_abort env inp rid hard s
   | MApprovalReply i allow \<Rightarrow> Some (Inr OkEmpty, resolve_approval i allow s)
   | MUserReply i reply \<Rightarrow> Some (Inr OkEmpty, resolve_input i reply s)
   | MSessionReset session \<Rightarrow> Some (case reset_request env inp (or_main session) s of (r, s1) \<Rightarrow> (map_sum id (\<lambda>_. OkEmpty) r, s1))
   | MCompact session \<Rightarrow> map_option (\<lambda>s1. (Inr OkEmpty, s1)) (compact_request env inp (or_main session) s)
   | MCommand session msg \<Rightarrow> map_option (\<lambda>(r, s1). (map_sum id OkCommand r, s1)) (handle_command env inp session msg s)
   | MSessionsList \<Rightarrow> Some (handle_sessions_list env inp s, s)
   | MDiagnostics \<Rightarrow> Some (Inr (handle_diagnostics env inp s), s)
   | MStatus \<Rightarrow> Some (Inr (OkStatus (snapshot_of env main_id s)), s)
   | MHealth \<Rightarrow> Some (Inr (OkHealth True TARGET_VERSION), s)
   | MChatHistory session limit \<Rightarrow> Some (handle_history env inp session limit s, s)
   | MTasksList \<Rightarrow> Some (Inr (OkTasks (task_list s)), s)
   | MTasksCancel i \<Rightarrow> Some (Inr OkEmpty, snd (cancel_task i s))
   | MCronAdd expr prompt tz \<Rightarrow> handle_cron_add env inp expr prompt tz s
   | MCronList \<Rightarrow> Some (handle_cron_list env inp s, s)
   | MCronRm i \<Rightarrow> Some (handle_cron_rm env inp i s)
   | MIntentAdd raw kws cooldown bud expiry \<Rightarrow> Some (handle_intent_add env inp raw kws cooldown bud expiry s)
   | MIntentList \<Rightarrow> Some (handle_intent_list env inp s, s)
   | MIntentRm i \<Rightarrow> Some (handle_intent_rm env inp i s)
   | MMemorySearch query limit \<Rightarrow> Some (handle_memory_search env inp query limit s, s))"

text \<open>The result of a request with a key is kept, errors are not.\<close>

definition handle_req :: "'z server_env \<Rightarrow> inputs \<Rightarrow> conn_ctx \<Rightarrow> req \<Rightarrow> sv \<Rightarrow> ((proto_error + method_ok) \<times> sv) option" where
  "handle_req env inp cx r s =
     (let (hit, s0) = (case rq_key r of Some k \<Rightarrow> idem_get (in_now inp) k s | None \<Rightarrow> (None, s)) in
      case hit of
        Some ok \<Rightarrow> Some (Inr ok, s0)
      | None \<Rightarrow> map_option (\<lambda>(answer, s1).
            case answer of
              Inl e \<Rightarrow> (Inl e, s1)
            | Inr ok \<Rightarrow> (Inr ok, (case rq_key r of Some k \<Rightarrow> idem_put (in_now inp) k ok s1 | None \<Rightarrow> s1)))
          (run_method env inp cx (rq_method r) s0))"

end
