(* ===== verification/Service.thy ===== *)
theory Service
  imports Dispatch
begin

text \<open>
  What a client may rely on, over \<open>Dispatch.handle_req\<close>: the answer of a repeated request, the type of
  an answer, what the answer to a message means, what \<open>/stop\<close> does, and what a standing intent that was
  accepted looks like when it is read back.
\<close>

section \<open>The cache of answers\<close>

lemma deliver_idem: "deliver env inp cmd sid s = Some (outs, s') \<Longrightarrow> sv_idem s' = sv_idem s"
  by (auto simp: deliver_def split: option.splits if_splits)

lemma broadcast_idem: "broadcast_cmd env inp cmd ids s = Some s' \<Longrightarrow> sv_idem s' = sv_idem s"
proof (induction ids arbitrary: s)
  case (Cons i ids)
  then show ?case by (auto split: option.splits dest: deliver_idem)
qed simp

lemma get_or_spawn_idem [simp]: "sv_idem (get_or_spawn env inp sid s) = sv_idem s"
  by (simp add: get_or_spawn_def spawn_actor_def Let_def)

lemma evict_one_idem: "sv_idem (snd (evict_one env inp t sid p)) = sv_idem (snd p)"
  by (auto simp: evict_one_def split: option.splits prod.splits dest: deliver_idem)

lemma evict_idle_idem [simp]: "sv_idem (snd (evict_idle env inp t s)) = sv_idem s"
proof -
  have "sv_idem (snd (fold (evict_one env inp t) ids p)) = sv_idem (snd p)" for ids p
    by (induction ids arbitrary: p) (simp_all add: evict_one_idem)
  from this[of _ "([], s)"] show ?thesis by (simp only: evict_idle_def snd_conv)
qed

lemma write_db_idem [simp]: "sv_idem (snd (write_db env msg r ok s)) = sv_idem s"
  by (simp add: write_db_def or_internal_def split: sum.splits)

lemma reset_request_idem [simp]: "sv_idem (snd (reset_request env inp sid s)) = sv_idem s"
  by (simp add: reset_request_def Let_def or_internal_def split: sum.splits)

lemma compact_request_idem: "compact_request env inp sid s = Some s' \<Longrightarrow> sv_idem s' = sv_idem s"
  by (auto simp: compact_request_def dest: deliver_idem)

lemma abort_all_idem: "abort_all env inp rid hard s = Some s' \<Longrightarrow> sv_idem s' = sv_idem s"
  by (auto simp: abort_all_def dest: broadcast_idem)

lemma intent_add_idem [simp]: "sv_idem (snd (handle_intent_add env inp raw kws c b e s)) = sv_idem s"
  by (simp add: handle_intent_add_def Let_def)

text \<open>What happens in the gap of a submission leaves the entry of a key alone.\<close>

definition keeps_key :: "rstr \<Rightarrow> conn_ctx \<Rightarrow> bool" where
  "keeps_key k cx \<longleftrightarrow> (\<forall>s. map_of (sv_idem (cx_gap cx s)) k = map_of (sv_idem s) k)"

lemma chat_send_idem:
  assumes "handle_chat_send env inp cx session msg s = Some (ans, s')" "keeps_key k cx"
  shows "map_of (sv_idem s') k = map_of (sv_idem s) k"
  using assms by (auto simp: handle_chat_send_def Let_def keeps_key_def split: option.splits if_splits dest!: deliver_idem)

lemma command_idem:
  assumes "handle_command env inp session raw s = Some (ans, s')"
  shows "sv_idem s' = sv_idem s"
proof -
  have stop: "stop_command env inp sid s = Some (a, s') \<Longrightarrow> ?thesis" for sid a
    by (auto simp: stop_command_def split: option.splits dest: abort_all_idem)
  have reset: "reset_request env inp sid s = (r, s') \<Longrightarrow> ?thesis" for sid r
    by (metis reset_request_idem snd_conv)
  show ?thesis using assms
    by (auto simp: handle_command_def Let_def split: if_splits prod.splits dest: compact_request_idem intro: stop reset simp del: lit_Cons)
qed

lemma run_method_idem:
  assumes "run_method env inp cx m s = Some (ans, s')" "keeps_key k cx"
  shows "map_of (sv_idem s') k = map_of (sv_idem s) k"
proof -
  have w: "(a, s') = write_db env msg r ok s \<Longrightarrow> sv_idem s' = sv_idem s" for a msg r ok
    by (metis write_db_idem snd_conv)
  have i: "(a, s') = handle_intent_add env inp raw kws c b e s \<Longrightarrow> sv_idem s' = sv_idem s" for a raw kws c b e
    by (metis intent_add_idem snd_conv)
  have r: "reset_request env inp sid s = (a, s') \<Longrightarrow> sv_idem s' = sv_idem s" for a sid
    by (metis reset_request_idem snd_conv)
  show ?thesis
  proof (cases m)
    case (MChatSend x1 x2)
    then show ?thesis using chat_send_idem[OF _ assms(2)] assms(1) by (simp add: run_method_def)
  next
    case (MCronAdd x1 x2 x3)
    then have c: "handle_cron_add env inp x1 x2 x3 s = Some (ans, s')" using assms(1) by (simp add: run_method_def)
    have "sv_idem s' = sv_idem s"
    proof (cases "next_fire (se_tz env) x1 (in_secs inp) x3")
      case None
      then show ?thesis using c by (simp add: handle_cron_add_def)
    next
      case (Some res)
      then show ?thesis using c w[OF sym] by (cases res) (auto simp: handle_cron_add_def Let_def simp del: lit_Cons)
    qed
    then show ?thesis by simp
  next
    case (MCronRm x)
    then show ?thesis using w assms(1) by (simp add: run_method_def handle_cron_rm_def) metis
  next
    case (MIntentRm x)
    then show ?thesis using w assms(1) by (simp add: run_method_def handle_intent_rm_def) metis
  next
    case (MIntentAdd x1 x2 x3 x4 x5)
    then show ?thesis using i assms(1) by (simp add: run_method_def) metis
  next
    case (MSessionReset x)
    then show ?thesis using r assms(1) by (auto simp: run_method_def split: prod.splits)
  next
    case (MCommand x1 x2)
    then show ?thesis using assms(1) by (auto simp: run_method_def dest: command_idem)
  qed (use assms(1) in \<open>auto simp: run_method_def handle_chat_resume_def handle_chat_abort_def resolve_approval_def
        resolve_input_def cancel_task_def split: option.splits
        dest: deliver_idem abort_all_idem compact_request_idem\<close>)
qed

text \<open>The traffic of the server between two requests: other requests, and the collection of the cache.\<close>

datatype 'z traffic = Request inputs conn_ctx req | Collect inputs

fun serve :: "'z server_env \<Rightarrow> 'z traffic list \<Rightarrow> sv \<Rightarrow> sv option" where
  "serve env [] s = Some s"
| "serve env (Request inp cx r # xs) s = Option.bind (handle_req env inp cx r s) (\<lambda>(ans, s1). serve env xs s1)"
| "serve env (Collect inp # xs) s = serve env xs (snd (gc_tick env inp s))"

fun in_time :: "nat \<Rightarrow> rstr \<Rightarrow> 'z traffic \<Rightarrow> bool" where
  "in_time t k (Request inp cx r) \<longleftrightarrow> in_now inp - t < IDEM_TTL \<and> keeps_key k cx"
| "in_time t k (Collect inp) \<longleftrightarrow> in_now inp - t < IDEM_TTL"

lemma map_of_filter_hit: "map_of xs k = Some v \<Longrightarrow> P (k, v) \<Longrightarrow> map_of (filter P xs) k = Some v"
  by (induction xs) (auto split: if_splits)

lemma gc_idem:
  "sv_idem (snd (gc_tick env inp s)) = filter (\<lambda>(k, ok, t). in_now inp - t < IDEM_TTL) (sv_idem s)"
  using evict_idle_idem[of env inp SESSION_IDLE_TIMEOUT "s\<lparr>sv_idem := filter (\<lambda>(k, ok, t). in_now inp - t < IDEM_TTL) (sv_idem s)\<rparr>"]
  by (simp add: gc_tick_def gc_tick_with_def Let_def case_prod_beta)

lemma handle_req_cases:
  assumes "handle_req env inp cx r s = Some (ans, s1)"
  obtains (hit) k ok where "rq_key r = Some k" "idem_get (in_now inp) k s = (Some ok, s1)" "ans = Inr ok"
  | (run) s0 s2 where "s0 = (case rq_key r of Some k \<Rightarrow> snd (idem_get (in_now inp) k s) | None \<Rightarrow> s)"
      "run_method env inp cx (rq_method r) s0 = Some (ans, s2)"
      "s1 = (case (ans, rq_key r) of (Inr ok, Some k) \<Rightarrow> idem_put (in_now inp) k ok s2 | _ \<Rightarrow> s2)"
proof -
  obtain h s0 where h: "(case rq_key r of Some k \<Rightarrow> idem_get (in_now inp) k s | None \<Rightarrow> (None, s)) = (h, s0)" by fastforce
  show thesis
  proof (cases h)
    case (Some ok)
    then have "ans = Inr ok" "s1 = s0" using assms h by (simp_all add: handle_req_def Let_def)
    then show thesis using h Some hit by (simp split: option.splits)
  next
    case None
    then obtain a2 s2 where m: "run_method env inp cx (rq_method r) s0 = Some (a2, s2)"
      "(ans, s1) = (case a2 of Inl e \<Rightarrow> (Inl e, s2) | Inr ok \<Rightarrow> (Inr ok, case rq_key r of Some k \<Rightarrow> idem_put (in_now inp) k ok s2 | None \<Rightarrow> s2))"
      using assms h by (auto simp: handle_req_def Let_def)
    then have ans: "ans = a2" by (cases a2) auto
    moreover have "s0 = (case rq_key r of Some k \<Rightarrow> snd (idem_get (in_now inp) k s) | None \<Rightarrow> s)"
      using h by (cases "rq_key r") auto
    moreover have "s1 = (case (a2, rq_key r) of (Inr ok, Some k) \<Rightarrow> idem_put (in_now inp) k ok s2 | _ \<Rightarrow> s2)"
      using m(2) by (cases a2; cases "rq_key r") auto
    ultimately show thesis using run[of s0 s2] m(1) by (simp only: ans)
  qed
qed

lemma cached_hit:
  assumes "map_of (sv_idem s) k = Some (ok, t)" "in_now inp - t < IDEM_TTL" "rq_key r = Some k"
  shows "handle_req env inp cx r s = Some (Inr ok, s)"
  using assms by (simp add: handle_req_def idem_get_def)

lemma req_keeps_entry:
  assumes "map_of (sv_idem s) k = Some (ok, t)" "in_time t k (Request inp cx r)" "handle_req env inp cx r s = Some (ans, s1)"
  shows "map_of (sv_idem s1) k = Some (ok, t)"
proof (cases "rq_key r = Some k")
  case True
  moreover have "in_now inp - t < IDEM_TTL" using assms(2) by simp
  ultimately have "handle_req env inp cx r s = Some (Inr ok, s)" using cached_hit[OF assms(1)] by blast
  then show ?thesis using assms by simp
next
  case False
  have other: "map_of (sv_idem (snd (idem_get (in_now inp) k' s))) k = Some (ok, t)" if "rq_key r = Some k'" for k'
    using that False assms(1) by (auto simp: idem_get_def AList.delete_conv' split: option.splits)
  from assms(3) show ?thesis
  proof (cases rule: handle_req_cases)
    case (hit k' ok')
    then show ?thesis using other[of k'] by simp
  next
    case (run s0 s2)
    have "map_of (sv_idem s0) k = Some (ok, t)" using run(1) other assms(1) by (cases "rq_key r") simp_all
    then have "map_of (sv_idem s2) k = Some (ok, t)" using run_method_idem[OF run(2)] assms(2) by simp
    then show ?thesis using run(3) False
      by (auto simp: idem_put_def AList.update_conv' split: sum.splits option.splits)
  qed
qed

lemma serve_keeps_entry:
  "map_of (sv_idem s) k = Some (ok, t) \<Longrightarrow> \<forall>x \<in> set xs. in_time t k x \<Longrightarrow> serve env xs s = Some s'
   \<Longrightarrow> map_of (sv_idem s') k = Some (ok, t)"
proof (induction xs arbitrary: s)
  case (Cons x xs)
  show ?case
  proof (cases x)
    case (Request inp cx r)
    then obtain ans s1 where h: "handle_req env inp cx r s = Some (ans, s1)" "serve env xs s1 = Some s'"
      using Cons.prems(3) by (auto simp: bind_eq_Some_conv)
    have "in_time t k (Request inp cx r)" "\<forall>x \<in> set xs. in_time t k x" using Cons.prems(2) Request by simp_all
    then show ?thesis using Cons.IH[OF req_keeps_entry[OF Cons.prems(1) _ h(1)] _ h(2)] by blast
  next
    case (Collect inp)
    have "map_of (sv_idem (snd (gc_tick env inp s))) k = Some (ok, t)"
      unfolding gc_idem using Cons.prems Collect by (intro map_of_filter_hit) auto
    moreover have "\<forall>x \<in> set xs. in_time t k x" "serve env xs (snd (gc_tick env inp s)) = Some s'"
      using Cons.prems Collect by simp_all
    ultimately show ?thesis using Cons.IH by blast
  qed
qed simp

text \<open>C8. A request with a fresh key that was answered is answered the same way again, and does nothing
  a second time, for as long as the cache keeps answers: whatever other requests come between, from
  whatever connections, and however often the cache is collected.\<close>

theorem retry_answers_once:
  assumes "handle_req env inp cx r s = Some (Inr ok, s1)" "rq_key r = Some k" "map_of (sv_idem s) k = None"
    "serve env between s1 = Some s2" "\<forall>x \<in> set between. in_time (in_now inp) k x"
    "in_now later - in_now inp < IDEM_TTL" "rq_key r' = Some k"
  shows "handle_req env later cx' r' s2 = Some (Inr ok, s2)"
proof -
  have "map_of (sv_idem s1) k = Some (ok, in_now inp)"
    using assms(1)
  proof (cases rule: handle_req_cases)
    case (hit k' ok')
    then show ?thesis using assms(2,3) by (simp add: idem_get_def)
  next
    case (run s0 s2)
    then show ?thesis using assms(2) by (simp add: idem_put_def AList.update_conv')
  qed
  then have "map_of (sv_idem s2) k = Some (ok, in_now inp)" using serve_keeps_entry assms(4,5) by blast
  then show ?thesis using cached_hit assms(6,7) by blast
qed


section \<open>Submitting\<close>

lemma lane_openE:
  assumes "lane_open sid s" obtains a where "map_of (sv_lanes s) sid = Some a" "at_open a"
  using assms by (auto simp: lane_open_def split: option.splits)

text \<open>What an accepted submission does to its lane: in a lane without a run the turn is the run now, otherwise it
  is the last of the waiting ones; nothing else changes in the queue.\<close>

definition placed :: "rstr \<Rightarrow> rstr \<Rightarrow> actor \<Rightarrow> actor \<Rightarrow> bool" where
  "placed rid msg a a' \<longleftrightarrow>
     (if active (at_queue a) = None
      then active (at_queue a') = Some rid \<and> map_option av_run_id (at_active a') = Some rid
         \<and> pending (at_queue a') = pending (at_queue a)
      else active (at_queue a') = active (at_queue a) \<and> at_active a' = at_active a
         \<and> pending (at_queue a') = pending (at_queue a) @ [\<lparr> qt_run_id = rid, qt_text = msg \<rparr>])"

definition full :: "actor \<Rightarrow> bool" where
  "full a \<longleftrightarrow> active (at_queue a) \<noteq> None \<and> qcap (at_queue a) \<le> length (pending (at_queue a))"

lemma submit_answer:
  assumes "handle_submit u cfg sid inp msg sink a = Some (outs, a')"
  shows "at_open a' = at_open a \<and> (if full a then accepted_id outs = None \<and> at_queue a' = at_queue a \<and> at_active a' = at_active a
           else accepted_id outs = Some (in_uuid inp) \<and> placed (in_uuid inp) msg a a')"
  using assms
  by (auto simp: handle_submit_def Let_def submit_def placed_def full_def split: if_splits elim!: begin_run_frame)

lemma deliver_submit:
  assumes "lane_open sid s" "deliver env inp (CmdSubmit msg sink) sid s = Some (outs, s')"
  obtains a a' where "map_of (sv_lanes s) sid = Some a" "map_of (sv_lanes s') sid = Some a'" "at_open a'"
    "if full a then accepted_id outs = None \<and> at_queue a' = at_queue a \<and> at_active a' = at_active a
     else accepted_id outs = Some (in_uuid inp) \<and> placed (in_uuid inp) msg a a'"
proof -
  obtain a where a: "map_of (sv_lanes s) sid = Some a" "at_open a" using assms(1) by (rule lane_openE)
  then obtain a' g' where h: "lane_handle (se_err env) (se_dbg env) (se_platform env) (se_cfg env) sid inp (CmdSubmit msg sink)
      (a\<lparr>at_db := sv_db s\<rparr>, cell_of sid s) = Some (outs, a', g')" "map_of (sv_lanes s') sid = Some a'"
    using assms(2) by (auto simp: deliver_def AList.update_conv')
  then have "handle_submit (se_platform env) (se_cfg env) sid (inp\<lparr>in_idle := idle_secs (in_ms inp) (cell_of sid s)\<rparr>) msg sink
      (a\<lparr>at_db := sv_db s\<rparr>) = Some (outs, a')" by (auto simp: lane_handle_def handle_def)
  from submit_answer[OF this] show ?thesis
    by (intro that[OF a(1) h(2)]) (use a(2) in \<open>auto simp: full_def placed_def split: if_splits\<close>)
qed

text \<open>C7. A message is refused, with the answer that the session is busy, exactly when the lane it meets has a run and a full queue, and then neither the
  run nor the queue changes; otherwise it is answered with the identifier of its run, and the turn runs at once when the lane had
  none, else it waits behind all others.  The lane it meets is the one of its session after whatever the other tasks of the server did between
  the lookup of the session and the submission (\<open>cx_gap\<close>): a session evicted in between is started again instead of
  being reported busy.\<close>

theorem chat_send_answer:
  assumes "handle_chat_send env inp cx session msg s = Some (ans, s')"
  shows "\<exists>a a'. map_of (sv_lanes (get_or_spawn env inp (or_main session)
                   (cx_gap cx (get_or_spawn env inp (or_main session) s)))) (or_main session) = Some a
    \<and> map_of (sv_lanes s') (or_main session) = Some a' \<and> at_open a'
    \<and> (if full a then ans = Inl \<lparr> pe_kind = Internal, pe_message = busy_text \<rparr>
            \<and> at_queue a' = at_queue a \<and> at_active a' = at_active a
       else ans = Inr (OkChatSend (in_uuid inp)) \<and> placed (in_uuid inp) msg a a')"
proof -
  let ?sid = "or_main session" and ?cmd = "CmdSubmit msg (sink_of cx)"
  let ?s0 = "cx_gap cx (get_or_spawn env inp ?sid s)"
  let ?answer = "\<lambda>outs. case accepted_id outs of Some rid \<Rightarrow> Inr (OkChatSend rid)
    | None \<Rightarrow> Inl \<lparr> pe_kind = Internal, pe_message = busy_text \<rparr>"
  obtain outs s1 where d: "deliver env inp ?cmd ?sid ?s0 = Some (outs, s1)"
    using assms by (auto simp: handle_chat_send_def Let_def split: option.splits)
  have "\<exists>outs2. deliver env inp ?cmd ?sid (get_or_spawn env inp ?sid ?s0) = Some (outs2, s') \<and> ans = ?answer outs2"
  proof (cases "lane_open ?sid ?s0")
    case True
    obtain a' where "map_of (sv_lanes s1) ?sid = Some a'" "at_open a'" using True d by (rule deliver_submit)
    then have "lane_open ?sid s1" by (simp add: lane_open_def)
    then show ?thesis using True assms d by (auto simp: handle_chat_send_def Let_def get_or_spawn_def)
  next
    case False
    then have "outs = []" "s1 = ?s0" using d by (simp_all add: deliver_closed)
    then show ?thesis using False assms d by (auto simp: handle_chat_send_def Let_def)
  qed
  then obtain outs2 where o2: "deliver env inp ?cmd ?sid (get_or_spawn env inp ?sid ?s0) = Some (outs2, s')" "ans = ?answer outs2"
    by blast
  show ?thesis
    by (rule deliver_submit[OF get_or_spawn_open o2(1)]) (auto simp: o2(2) split: if_splits)
qed


definition calm :: conn_ctx where
  "calm = \<lparr> cx_conn = 1, cx_kind = Interactive, cx_log = 0, cx_gap = id \<rparr>"

definition two_lane_sv :: sv where
  "two_lane_sv = \<lparr> sv_lanes = sv_lanes two_lanes, sv_diag = [], sv_db = db_empty, sv_idem = [], sv_approvals = [],
     sv_allowed = [], sv_inputs = [], sv_replied = [], sv_tasks = [], sv_usage = [], sv_events = [] \<rparr>"

lemma chat_send_answer_witness:
  "\<exists>ans s' a. handle_chat_send sample_env (sample_inputs [7]) calm (Some [115]) [104] two_lane_sv = Some (ans, s')
     \<and> map_of (sv_lanes s') [115] = Some a \<and> at_open a \<and> last (pending (at_queue a)) = \<lparr> qt_run_id = [7], qt_text = [104] \<rparr>"
proof -
  have l: "map_of (sv_lanes two_lane_sv) [115] = map_of (sv_lanes two_lanes) [115]" by (simp add: two_lane_sv_def)
  have o: "lane_open [115] two_lane_sv" using two_lanes_facts(2,4) by (simp add: lane_open_def l)
  obtain outs s' where d: "deliver sample_env (sample_inputs [7]) (CmdSubmit [104] (RefConn 1)) [115] two_lane_sv = Some (outs, s')"
    "accepted_id outs = Some [7]"
    using two_lanes_facts(2,4)
    by (auto simp: deliver_def l lane_handle_def handle_def handle_submit_def Let_def submit_def busy_actor_def sample_actor_def
        actor_new_def queue_new_def plain_cfg_def sample_env_def)
  then have h: "handle_chat_send sample_env (sample_inputs [7]) calm (Some [115]) [104] two_lane_sv = Some (Inr (OkChatSend [7]), s')"
    using o by (simp add: handle_chat_send_def Let_def or_main_def calm_def sink_of_def get_or_spawn_def)
  have met: "get_or_spawn sample_env (sample_inputs [7]) [115] (cx_gap calm (get_or_spawn sample_env (sample_inputs [7]) [115] two_lane_sv)) = two_lane_sv"
    using o by (simp add: get_or_spawn_def calm_def)
  obtain a a' where a: "map_of (sv_lanes two_lane_sv) [115] = Some a" "map_of (sv_lanes s') [115] = Some a'" "at_open a'"
    "if full a then Inr (OkChatSend [7]) = (Inl \<lparr> pe_kind = Internal, pe_message = busy_text \<rparr> :: proto_error + method_ok) \<and> at_queue a' = at_queue a \<and> at_active a' = at_active a
     else Inr (OkChatSend [7]) = (Inr (OkChatSend (in_uuid (sample_inputs [7]))) :: proto_error + method_ok) \<and> placed (in_uuid (sample_inputs [7])) [104] a a'"
    using chat_send_answer[OF h] unfolding or_main_def option.case met by blast
  have "placed [7] [104] a a'" using a(4) by (simp add: sample_inputs_def split: if_splits)
  moreover have "active (at_queue a) \<noteq> None" using a(1) two_lanes_facts(2) by (auto simp: l busy_actor_def sample_actor_def)
  ultimately have "last (pending (at_queue a')) = \<lparr> qt_run_id = [7], qt_text = [104] \<rparr>" by (simp add: placed_def)
  then show ?thesis using h a(2,3) by blast
qed

lemma retry_answers_once_witness:
  "handle_req sample_env (sample_inputs [8]) calm \<lparr> rq_method = MHealth, rq_key = Some [1] \<rparr>
     (idem_put 0 [1] (OkHealth True TARGET_VERSION) two_lane_sv) = Some (Inr (OkHealth True TARGET_VERSION), idem_put 0 [1] (OkHealth True TARGET_VERSION) two_lane_sv)"
proof -
  have 1: "handle_req sample_env (sample_inputs [7]) calm \<lparr> rq_method = MHealth, rq_key = Some [1] \<rparr> two_lane_sv
      = Some (Inr (OkHealth True TARGET_VERSION), idem_put 0 [1] (OkHealth True TARGET_VERSION) two_lane_sv)"
    by (simp add: handle_req_def idem_get_def two_lane_sv_def run_method_def)
  show ?thesis
    by (rule retry_answers_once[OF 1, of "[1]" "[]"]) (simp_all add: two_lane_sv_def IDEM_TTL_def)
qed

section \<open>The types of answers\<close>

definition fits :: "req_method \<Rightarrow> method_ok \<Rightarrow> bool" where
  "fits m ok = (case m of
     MConnect v \<Rightarrow> (case ok of OkHello f sn \<Rightarrow> v = PROTO_VERSION \<and> fe_proto_version f = v | _ \<Rightarrow> False)
   | MChatSend _ _ \<Rightarrow> (\<exists>x. ok = OkChatSend x)
   | MChatResume sid _ _ \<Rightarrow> (case ok of OkChatResume sid' \<Rightarrow> sid = sid' | _ \<Rightarrow> False)
   | MChatAbort _ _ \<Rightarrow> ok = OkEmpty
   | MApprovalReply _ _ \<Rightarrow> ok = OkEmpty
   | MUserReply _ _ \<Rightarrow> ok = OkEmpty
   | MSessionReset _ \<Rightarrow> ok = OkEmpty
   | MCompact _ \<Rightarrow> ok = OkEmpty
   | MCommand _ _ \<Rightarrow> (\<exists>x. ok = OkCommand x)
   | MSessionsList \<Rightarrow> (\<exists>x. ok = OkSessions x)
   | MDiagnostics \<Rightarrow> (\<exists>x. ok = OkDiagnostics x)
   | MStatus \<Rightarrow> (\<exists>x. ok = OkStatus x)
   | MHealth \<Rightarrow> (\<exists>x. ok = OkHealth True x)
   | MChatHistory _ _ \<Rightarrow> (\<exists>x. ok = OkHistory x)
   | MTasksList \<Rightarrow> (\<exists>x. ok = OkTasks x)
   | MTasksCancel _ \<Rightarrow> ok = OkEmpty
   | MCronAdd _ _ _ \<Rightarrow> (\<exists>x. ok = OkCronAdd x)
   | MCronList \<Rightarrow> (\<exists>x. ok = OkCronList x)
   | MCronRm _ \<Rightarrow> ok = OkEmpty
   | MIntentAdd _ _ _ _ _ \<Rightarrow> (\<exists>x. ok = OkIntentAdd x)
   | MIntentList \<Rightarrow> (\<exists>x. ok = OkIntentList x)
   | MIntentRm _ \<Rightarrow> ok = OkEmpty
   | MMemorySearch _ limit \<Rightarrow> (case ok of OkMemorySearch hits \<Rightarrow> length hits \<le> (case limit of Some n \<Rightarrow> n | None \<Rightarrow> 10) | _ \<Rightarrow> False))"

lemma map_sum_Inr: "map_sum id f x = Inr y \<longleftrightarrow> (\<exists>z. x = Inr z \<and> y = f z)"
  by (cases x) auto

lemma write_db_Inr: "write_db env msg r ok s = (Inr ok', s') \<Longrightarrow> ok' = ok"
  by (auto simp: write_db_def split: sum.splits)

lemma length_map_filter: "length (List.map_filter f xs) \<le> length xs"
  by (induction xs) (auto simp: List.map_filter_simps split: option.splits)

lemma map_filter_take: "length (List.map_filter f (take n xs)) \<le> n"
  using length_map_filter[of f "take n xs"] by simp

lemma cron_add_fits:
  assumes "handle_cron_add env inp expr prompt tz s = Some (Inr ok, s')"
  shows "\<exists>i. ok = OkCronAdd i"
proof (cases "next_fire (se_tz env) expr (in_secs inp) tz")
  case None
  then show ?thesis using assms by (simp add: handle_cron_add_def)
next
  case (Some res)
  then show ?thesis using assms
    by (cases res) (auto simp: handle_cron_add_def Let_def simp del: lit_Cons dest: write_db_Inr)
qed

lemma intent_add_fits:
  "handle_intent_add env inp raw kws c b e s = (Inr ok, s') \<Longrightarrow> \<exists>i. ok = OkIntentAdd i"
  by (auto simp: handle_intent_add_def Let_def simp del: lit_Cons split: if_splits dest!: write_db_Inr)

lemma chat_send_fits:
  "handle_chat_send env inp cx session msg s = Some (Inr ok, s') \<Longrightarrow> \<exists>i. ok = OkChatSend i"
  by (auto simp: handle_chat_send_def Let_def split: option.splits if_splits)

text \<open>C29. The answer to a request without a key is of the type of its method, a search returns at most the
  number of hits asked for, and a greeting is only answered to the version of the protocol the server
  speaks.\<close>

theorem answers_typed:
  assumes "handle_req env inp cx \<lparr> rq_method = m, rq_key = None \<rparr> s = Some (Inr ok, s')"
  shows "fits m ok"
proof -
  have r: "run_method env inp cx m s = Some (Inr ok, s')"
    using assms by (cases rule: handle_req_cases) auto
  note simps = run_method_def map_sum_Inr
  show ?thesis
  proof (cases m)
    case (MChatSend x1 x2) then show ?thesis using r by (auto simp: fits_def simps dest: chat_send_fits)
  next
    case (MCronAdd x1 x2 x3) then show ?thesis using r by (auto simp: fits_def simps dest: cron_add_fits)
  next
    case (MIntentAdd x1 x2 x3 x4 x5) then show ?thesis using r by (auto simp: fits_def simps dest: intent_add_fits)
  next
    case (MCronRm x) then show ?thesis using r by (auto simp: fits_def simps handle_cron_rm_def simp del: lit_Cons dest: write_db_Inr)
  next
    case (MIntentRm x) then show ?thesis using r by (auto simp: fits_def simps handle_intent_rm_def simp del: lit_Cons dest: write_db_Inr)
  next
    case (MMemorySearch x1 x2) then show ?thesis using r
      by (auto simp: fits_def simps handle_memory_search_def map_filter_take split: option.splits)
  qed (use r in \<open>auto simp: fits_def simps handle_connect_def handle_chat_resume_def handle_chat_abort_def handle_sessions_list_def
        handle_diagnostics_def handle_history_def handle_cron_list_def handle_intent_list_def simp del: lit_Cons
        split: if_splits prod.splits\<close>)
qed

lemma answers_typed_witness:
  "fits (MConnect 4) (OkHello \<lparr> fe_ws_remote = False, fe_memory_vec = False, fe_sandbox = False, fe_proto_version = 4 \<rparr>
     (snapshot_of sample_env main_id two_lane_sv))"
  by (rule answers_typed[of sample_env "sample_inputs []" calm _ two_lane_sv _ two_lane_sv])
    (simp add: handle_req_def run_method_def handle_connect_def PROTO_VERSION_def)


section \<open>Stopping\<close>

lemma stop_name: "fst (split_command (trim (lit ''/stop''))) = lit ''/stop''"
  by (simp add: split_command_def trim_def trim_start_def trim_end_def is_ws_def to_ascii_lowercase_def ascii_lower_def)

lemma stop_runs: "handle_command env inp session (lit ''/stop'') s = stop_command env inp (or_main session) s"
  unfolding handle_command_def Let_def stop_name by simp

text \<open>C31. \<open>/stop\<close> in a session whose diagnosis names its active run (as \<open>Lane.diagnosis_tracks_lane\<close> shows)
  cancels that run; it also drops the turns that wait in every other open session, whose own runs go
  on.\<close>

theorem stop_drops_every_queue:
  assumes "distinct (map fst (sv_lanes s))" "map_of (sv_lanes s) (or_main session) = Some a" "at_open a"
    "at_active a = Some r" "map_option rl_run_id (dg_active (cell_of (or_main session) s)) = Some (av_run_id r)"
    "map_of (sv_lanes s) i = Some b" "at_open b" "av_run_id r \<noteq> []"
    "map_option av_run_id (at_active b) \<noteq> Some (av_run_id r)"
  shows "\<exists>answer s' a' b'. handle_command env inp session (lit ''/stop'') s = Some (Inr answer, s')
     \<and> map_of (sv_lanes s') (or_main session) = Some a' \<and> at_active a' = Some (r\<lparr>av_cancelled := True\<rparr>) \<and> pending (at_queue a') = []
     \<and> map_of (sv_lanes s') i = Some b' \<and> at_active b' = at_active b \<and> pending (at_queue b') = []"
proof -
  have cell: "Option.bind (map_of (sv_diag s) (or_main session)) (\<lambda>g. map_option rl_run_id (dg_active g)) = Some (av_run_id r)"
    using assms(5) by (auto simp: cell_of_def diag_new_def split: option.splits)
  obtain s' a' where s': "abort_all env inp (av_run_id r) True s = Some s'" "map_of (sv_lanes s') (or_main session) = Some a'"
    "pending (at_queue a') = []" "at_active a' = Some (r\<lparr>av_cancelled := True\<rparr>)"
    using abort_all_lane[OF assms(1-3), of env inp "av_run_id r" True] assms(4) by auto
  have other: "\<not> (av_run_id r = [] \<or> map_option av_run_id (at_active b) = Some (av_run_id r))" using assms(8,9) by blast
  obtain b' where "map_of (sv_lanes s') i = Some b'" "pending (at_queue b') = []" "at_active b' = at_active b"
    using abort_all_lane[OF assms(1,6,7), of env inp "av_run_id r" True] s'(1) unfolding if_not_P[OF other] by auto
  with s' show ?thesis unfolding stop_runs stop_command_def cell by auto
qed

definition busy_sv :: sv where
  "busy_sv = two_lane_sv\<lparr> sv_lanes := (main_id, busy_actor\<lparr>at_active := Some \<lparr> av_run_id = [3], av_cancelled = False, av_started = 0 \<rparr>\<rparr>) # tl (sv_lanes two_lanes),
     sv_diag := [(main_id, run_start 0 [3] diag_new)] \<rparr>"

lemma stop_drops_every_queue_witness:
  "\<exists>answer s' b'. handle_command sample_env (sample_inputs []) None (lit ''/stop'') busy_sv = Some (Inr answer, s')
     \<and> map_of (sv_lanes s') [115] = Some b' \<and> at_active b' = at_active busy_actor \<and> pending (at_queue b') = []"
proof -
  let ?a = "busy_actor\<lparr>at_active := Some \<lparr> av_run_id = [3], av_cancelled = False, av_started = 0 \<rparr>\<rparr>"
  have i: "[115] \<noteq> main_id" "[116] \<noteq> main_id" by (simp_all add: main_id_def)
  have l: "sv_lanes busy_sv = (main_id, ?a) # tl (sv_lanes two_lanes)" by (simp add: busy_sv_def)
  have b: "map_of (sv_lanes busy_sv) [115] = Some (busy_actor\<lparr>at_queue := (at_queue busy_actor)\<lparr>pending := [\<lparr> qt_run_id = [2], qt_text = [] \<rparr>]\<rparr>\<rparr>)"
    "distinct (map fst (sv_lanes busy_sv))"
    using i by (simp_all add: l two_lanes_def)
  have a: "map_of (sv_lanes busy_sv) (or_main None) = Some ?a" by (simp add: l or_main_def)
  have g: "map_option rl_run_id (dg_active (cell_of (or_main None) busy_sv)) = Some [3]"
    by (simp add: cell_of_def busy_sv_def or_main_def run_start_def run_live_new_def)
  have "at_open busy_actor" "map_option av_run_id (at_active busy_actor) = Some [1]"
    using two_lanes_facts(4) by (simp_all add: busy_actor_def)
  with stop_drops_every_queue[OF b(2) a, of "\<lparr> av_run_id = [3], av_cancelled = False, av_started = 0 \<rparr>"] g b(1)
  show ?thesis by fastforce
qed

section \<open>Standing intents\<close>

lemma words_of_text: "\<exists>c \<in> set s. \<not> is_ws c \<Longrightarrow> split_whitespace s \<noteq> []"
proof -
  have "c \<in> set s \<Longrightarrow> \<not> is_ws c \<Longrightarrow> \<exists>w \<in> set (split_by is_ws s). c \<in> set w" for c
  proof (induction s)
    case (Cons d s)
    then show ?case by (cases "split_by is_ws s") (auto split: if_splits)
  qed simp
  then show "\<exists>c \<in> set s. \<not> is_ws c \<Longrightarrow> split_whitespace s \<noteq> []"
    by (fastforce simp: split_whitespace_def filter_empty_conv)
qed

lemma normal_keyword_filled: "trim k \<noteq> [] \<Longrightarrow> normal_keyword (trim k) \<noteq> []"
proof -
  assume k: "trim k \<noteq> []"
  then have ws: "split_whitespace (trim k) \<noteq> []" using trim_ends(1) hd_in_set by (intro words_of_text) blast
  with join_nonempty[OF ws, of "[32]"] split_whitespace_words show ?thesis by (auto simp: normal_keyword_def)
qed

lemma intent_add_row:
  "intent_add now i d = Inr d' \<Longrightarrow> \<exists>row \<in> set (intents d'). ir_id row = ni_id i \<and> ir_text row = ni_text i
     \<and> ir_keywords row = Some (encode_keywords (ni_keywords i)) \<and> ir_fired_count row = 0 \<and> ir_expiry_at row = ni_expiry_at i"
  by (auto simp: intent_add_def split: if_splits)

text \<open>A standing intent is accepted only with a text and a keyword that are not blank, and then the list
  shows it: its text trimmed, its keywords that are not blank, each whole and with single spaces, never
  fired, and without an expiry exactly when none was asked for.\<close>

theorem intent_add_listed:
  assumes "handle_intent_add env inp raw kws cooldown b expiry s = (Inr ok, s')"
  shows "trim raw \<noteq> [] \<and> ok = OkIntentAdd (lit ''intent-'' @ in_uuid inp)
    \<and> (\<exists>v \<in> set (intent_list (sv_db s')). iv_id v = lit ''intent-'' @ in_uuid inp \<and> iv_text v = trim raw \<and> iv_fired_count v = 0
         \<and> iv_keywords v = map normal_keyword (filter (\<lambda>k. k \<noteq> []) (map trim kws)) \<and> iv_keywords v \<noteq> []
         \<and> (iv_expiry_at v = None \<longleftrightarrow> (case expiry of Some d \<Rightarrow> d = 0 | None \<Rightarrow> se_expiry_days env = 0)))"
proof -
  let ?kws = "filter (\<lambda>k. k \<noteq> []) (map trim kws)" and ?days = "case expiry of Some d \<Rightarrow> d | None \<Rightarrow> se_expiry_days env"
  let ?new = "\<lparr> ni_id = lit ''intent-'' @ in_uuid inp, ni_text = trim raw, ni_keywords = ?kws,
                ni_cooldown_secs = (case cooldown of Some c \<Rightarrow> c | None \<Rightarrow> se_cooldown env),
                ni_budget = (case b of Some n \<Rightarrow> n | None \<Rightarrow> se_budget env),
                ni_expiry_at = (if ?days = 0 then None else Some (in_secs inp + int ?days * 86400)) \<rparr>"
  have ne: "trim raw \<noteq> []" "?kws \<noteq> []"
    using assms by (auto simp: handle_intent_add_def Let_def simp del: lit_Cons split: if_splits)
  obtain msg where w: "write_db env msg (attempt (in_faults inp (CallIntentAdd (ni_id ?new))) (intent_add (in_ms inp) ?new (sv_db s)))
      (OkIntentAdd (ni_id ?new)) s = (Inr ok, s')"
    using assms ne by (simp add: handle_intent_add_def Let_def del: lit_Cons)
  then have d: "intent_add (in_ms inp) ?new (sv_db s) = Inr (sv_db s')" and ok: "ok = OkIntentAdd (ni_id ?new)"
    by (auto simp: write_db_def or_internal_def attempt_def split: sum.splits option.splits simp del: lit_Cons)
  from d obtain row where row: "row \<in> set (intents (sv_db s'))" "ir_id row = ni_id ?new" "ir_text row = trim raw"
    "ir_keywords row = Some (encode_keywords ?kws)" "ir_fired_count row = 0" "ir_expiry_at row = ni_expiry_at ?new"
    using intent_add_row[OF d] by (auto simp del: lit_Cons)
  have k: "normal_keyword x \<noteq> []" if "x \<in> set ?kws" for x using that normal_keyword_filled by auto
  then have kw: "decode_keywords (Some (encode_keywords ?kws)) = map normal_keyword ?kws"
    unfolding keywords_roundtrip by (intro filter_True) auto
  have "intent_view_of row \<in> set (intent_list (sv_db s'))" using row(1) by (simp add: intent_list_def)
  moreover have "iv_id (intent_view_of row) = ni_id ?new" "iv_text (intent_view_of row) = trim raw"
    "iv_fired_count (intent_view_of row) = 0" "iv_keywords (intent_view_of row) = map normal_keyword ?kws"
    "iv_expiry_at (intent_view_of row) = ni_expiry_at ?new"
    using row kw by (simp_all add: intent_view_of_def as_u32_def del: lit_Cons)
  ultimately show ?thesis using ne ok
    by (auto simp del: lit_Cons split: option.splits if_splits intro!: bexI[of _ "intent_view_of row"])
qed

lemma intent_add_listed_witness:
  "\<exists>s'. handle_intent_add sample_env (sample_inputs [7]) [97] [[98]] None None (Some 0) two_lane_sv = (Inr (OkIntentAdd (lit ''intent-'' @ [7])), s')
     \<and> (\<exists>v \<in> set (intent_list (sv_db s')). iv_text v = [97] \<and> iv_expiry_at v = None)"
proof -
  have t: "trim [97] = [97]" "trim [98] = [98]" by (simp_all add: trim_def trim_start_def trim_end_def is_ws_def)
  obtain s' where h: "handle_intent_add sample_env (sample_inputs [7]) [97] [[98]] None None (Some 0) two_lane_sv = (Inr (OkIntentAdd (lit ''intent-'' @ [7])), s')"
    by (simp add: handle_intent_add_def t Let_def write_db_def or_internal_def sample_inputs_def no_faults_def intent_add_def two_lane_sv_def db_empty_def)
  from intent_add_listed[OF h] h t show ?thesis by auto
qed

end
