(* ===== verification/Tool_Text.thy ===== *)
theory Tool_Text
  imports Prelude
begin

text \<open>
  The text functions of the tools: the cleaning of a tool's output (\<open>crates/oc-tools/src/sanitize.rs\<close>),
  the search for the place of an edit (\<open>file.rs\<close>) and the extraction of text and search results from
  HTML (\<open>web.rs\<close>).  The code slices strings by byte offsets; a slice that is not on a character boundary
  is the value \<open>None\<close>.
\<close>

section \<open>Cleaning\<close>

definition MAX_OUTPUT_BYTES :: nat where "MAX_OUTPUT_BYTES = 16 * 1024"

text \<open>\<open>char::is_control\<close>: the category Cc.\<close>

definition is_control :: "rchar \<Rightarrow> bool" where
  "is_control c \<longleftrightarrow> c < 32 \<or> (127 \<le> c \<and> c < 160)"

fun floor_slice :: "rstr \<Rightarrow> nat \<Rightarrow> rstr" where
  "floor_slice [] n = []"
| "floor_slice (c # s) n = (if utf8_width c \<le> n then c # floor_slice s (n - utf8_width c) else [])"

fun ceil_slice :: "rstr \<Rightarrow> nat \<Rightarrow> rstr" where
  "ceil_slice [] n = []"
| "ceil_slice (c # s) n = (if n = 0 then c # s else ceil_slice s (n - utf8_width c))"

definition cut_note :: "nat \<Rightarrow> rstr" where
  "cut_note n = ([10, 10, 8230] @ lit ''['' @ [36755, 20986, 36807, 38271, 65292, 24050, 25130, 26029] @ lit '' '') @ show_nat n @ (lit '' '' @ [23383, 33410] @ lit '']'' @ [8230, 10, 10])"

definition sanitize :: "rstr \<Rightarrow> rstr" where
  "sanitize raw =
     (let cleaned = filter (\<lambda>c. \<not> is_control c \<or> c = 10 \<or> c = 9) raw in
      if byte_len cleaned \<le> MAX_OUTPUT_BYTES then cleaned
      else let head = MAX_OUTPUT_BYTES * 2 div 3; tail = MAX_OUTPUT_BYTES - head
           in floor_slice cleaned head @ cut_note (byte_len cleaned - head - tail)
              @ ceil_slice cleaned (byte_len cleaned - tail))"

section \<open>Substrings\<close>

lemma find_str_bound: "find_str s p = Some i \<Longrightarrow> i \<le> length s"
proof (induction s arbitrary: i)
  case (Cons c s)
  then show ?case by (cases "starts_with (c # s) p") auto
qed (simp split: if_splits)

lemma find_str_length: "find_str s p = Some i \<Longrightarrow> length s = i + length p + length (drop (i + length p) s)"
proof -
  assume f: "find_str s p = Some i"
  have "i \<le> length s" using find_str_bound[OF f] .
  then have "length (take i s) = i" by simp
  then show ?thesis using arg_cong[OF find_str_Some[OF f], of length] by (simp only: length_append)
qed

text \<open>\<open>str::split\<close> with a string that is not empty; \<open>matches\<close> counts the cuts, \<open>replace\<close> joins again.\<close>

function split_str :: "rstr \<Rightarrow> rstr \<Rightarrow> rstr list" where
  "split_str p s = (if p = [] then [s] else case find_str s p of
     None \<Rightarrow> [s] | Some i \<Rightarrow> take i s # split_str p (drop (i + length p) s))"
  by pat_completeness auto

termination
proof (relation "measure (\<lambda>(p, s). length s)", simp)
  fix p s i assume "(p :: rstr) \<noteq> []" "find_str s p = Some i"
  then have "length (drop (i + length p) s) < length s" using find_str_length[of s p i] by (cases p) simp_all
  then show "((p, drop (i + length p) s), p, s) \<in> measure (\<lambda>(p, s). length s)" by simp
qed

declare split_str.simps [simp del]

definition count_str :: "rstr \<Rightarrow> rstr \<Rightarrow> nat" where
  "count_str p s = length (split_str p s) - 1"

definition replace_str :: "rstr \<Rightarrow> rstr \<Rightarrow> rstr \<Rightarrow> rstr" where
  "replace_str p r s = join r (split_str p s)"

definition replace_first :: "rstr \<Rightarrow> rstr \<Rightarrow> rstr \<Rightarrow> rstr" where
  "replace_first p r s = (case find_str s p of None \<Rightarrow> s | Some i \<Rightarrow> take i s @ r @ drop (i + length p) s)"

text \<open>\<open>str::lines\<close>: the pieces between line feeds, a carriage return before one dropped, no last empty piece.\<close>

definition strip_cr :: "rstr \<Rightarrow> rstr" where
  "strip_cr l = (if l \<noteq> [] \<and> last l = 13 then butlast l else l)"

definition str_lines :: "rstr \<Rightarrow> rstr list" where
  "str_lines s =
     (let ps = split_char 10 s; full = map strip_cr (butlast ps)
      in if last ps = [] then full else full @ [last ps])"

section \<open>The place of an edit\<close>

definition resolve_needle :: "rstr \<Rightarrow> rstr \<Rightarrow> rstr \<Rightarrow> (rstr \<times> rstr) option" where
  "resolve_needle content old new =
     (if contains content old then Some (old, new)
      else if contains content [13, 10] \<and> contains old [10] \<and> \<not> contains old [13, 10] \<and> contains content (replace_str [10] [13, 10] old)
           then Some (replace_str [10] [13, 10] old, replace_str [10] [13, 10] new)
      else None)"

definition collapse_ws :: "rstr \<Rightarrow> rstr" where
  "collapse_ws s = join [32] (split_whitespace s)"

fun position :: "('a \<Rightarrow> bool) \<Rightarrow> 'a list \<Rightarrow> nat option" where
  "position P [] = None"
| "position P (x # xs) = (if P x then Some 0 else map_option Suc (position P xs))"

definition no_match_hint :: "rstr \<Rightarrow> rstr \<Rightarrow> rstr" where
  "no_match_hint content old =
     (let msg = ([26410, 22312, 25991, 20214, 20013, 25214, 21040] @ lit '' old_string'' @ [65292, 25991, 20214, 26410, 25913, 21160, 12290]) in
      if contains (collapse_ws content) (collapse_ws old)
      then msg @ ([10, 20869, 23481, 33021, 23545, 19978, 65292, 20294] @ lit ''**'' @ [31354, 30333, 19981, 21516] @ lit ''**'' @ [65288, 32553, 36827, 23485, 24230, 12289, 31354, 26684, 19982, 21046, 34920, 31526, 12289, 34892, 23614] @ [31354, 26684, 65289, 12290] @ lit ''old_string '' @ [24517, 39035, 19982, 25991, 20214, 36880, 23383, 31526, 19968, 33268, 65292, 35831, 20808, 29992] @ lit '' op=read '' @ [21462, 22238, 21407, 25991, 20877, 29031, 25220, 12290])
      else case opt_filter (\<lambda>t. t \<noteq> []) (map_option trim (get (str_lines old) 0)) of
             Some first \<Rightarrow>
               (case position (\<lambda>l. trim l = first) (str_lines content) of
                  Some n \<Rightarrow> msg @ [10, 39318, 34892, 12300] @ first @ ([12301, 20986, 29616, 22312, 31532] @ lit '' '') @ show_nat (n + 1) @ (lit '' '' @ [34892, 38468, 36817, 65292, 20294, 21518, 32493, 20869, 23481, 19981, 19968, 33268, 12290, 24314, 35758] @ lit '' op=read '' @ [21462, 22238, 35813, 22788, 21407, 25991, 21518, 20877, 25913, 12290])
                | None \<Rightarrow> msg @ ([10, 35831, 20808, 29992] @ lit '' op=read '' @ [30830, 35748, 25991, 20214, 24403, 21069, 20869, 23481, 8212, 8212, 23427, 21487, 33021, 19982, 20320] @ [35760, 24518, 20013, 30340, 19981, 21516, 12290]))
           | None \<Rightarrow> msg @ ([10, 35831, 20808, 29992] @ lit '' op=read '' @ [30830, 35748, 25991, 20214, 24403, 21069, 20869, 23481, 8212, 8212, 23427, 21487, 33021, 19982, 20320] @ [35760, 24518, 20013, 30340, 19981, 21516, 12290]))"

section \<open>Pages\<close>

definition MAX_BODY_CHARS :: nat where "MAX_BODY_CHARS = 8000"
definition MAX_RESULTS :: nat where "MAX_RESULTS = 8"

text \<open>\<open>strip_block\<close>: \<open>i\<close> is an offset in the text and, as such, in its lower-case copy.\<close>

function strip_loop :: "rstr \<Rightarrow> rstr \<Rightarrow> rstr \<Rightarrow> rstr \<Rightarrow> nat \<Rightarrow> rstr \<Rightarrow> rstr option" where
  "strip_loop lower open_tag close_tag s i out =
     (if byte_len s \<le> i then Some out
      else case drop_bytes i lower of
        None \<Rightarrow> None
      | Some rest \<Rightarrow>
          if starts_with rest open_tag then
            (case find_str rest close_tag of
               None \<Rightarrow> Some out
             | Some e \<Rightarrow>
                 let j = byte_len (take e rest) + byte_len close_tag in
                 if j = 0 then None else strip_loop lower open_tag close_tag s (i + j) out)
          else (case drop_bytes i s of
                  Some (c # k) \<Rightarrow> strip_loop lower open_tag close_tag s (i + utf8_width c) (out @ [c])
                | _ \<Rightarrow> None))"
  by pat_completeness auto
termination
  by (relation "measure (\<lambda>(lower, open_tag, close_tag, s, i, out). byte_len s - i)")
    (auto intro!: diff_less_mono2 simp del: utf8_width_def)

declare strip_loop.simps [simp del]

definition strip_block :: "(rstr \<Rightarrow> rstr) \<Rightarrow> rstr \<Rightarrow> rstr \<Rightarrow> rstr \<Rightarrow> rstr option" where
  "strip_block lc s open_tag close_tag = strip_loop (lc s) open_tag close_tag s 0 []"

fun strip_tags_from :: "bool \<Rightarrow> rstr \<Rightarrow> rstr" where
  "strip_tags_from in_tag [] = []"
| "strip_tags_from in_tag (c # s) =
     (if c = 60 then strip_tags_from True s
      else if c = 62 then strip_tags_from False s
      else if in_tag then strip_tags_from in_tag s
      else c # strip_tags_from in_tag s)"

definition strip_tags :: "rstr \<Rightarrow> rstr" where
  "strip_tags s = strip_tags_from False s"

definition replace_all_in :: "(rstr \<times> rstr) list \<Rightarrow> rstr \<Rightarrow> rstr" where
  "replace_all_in rules s = fold (\<lambda>(p, r). replace_str p r) rules s"

definition page_entities :: "(rstr \<times> rstr) list" where
  "page_entities = [(lit ''&amp;'', [38]), (lit ''&lt;'', [60]), (lit ''&gt;'', [62]), (lit ''&quot;'', [34]),
     (lit ''&#x27;'', [39]), (lit ''&nbsp;'', [32])]"

text \<open>The lines trimmed, runs of blank lines made one.\<close>

fun squeeze :: "bool \<Rightarrow> rstr list \<Rightarrow> rstr" where
  "squeeze prev_blank [] = []"
| "squeeze prev_blank (l # ls) =
     (if trim l = [] then (if prev_blank then [] else [10]) @ squeeze True ls
      else trim l @ [10] @ squeeze False ls)"

definition html_to_text :: "(rstr \<Rightarrow> rstr) \<Rightarrow> rstr \<Rightarrow> rstr option" where
  "html_to_text lc html =
     Option.bind (strip_block lc html (lit ''<script'') (lit ''</script>'')) (\<lambda>s.
     map_option (\<lambda>s. squeeze False (str_lines (replace_all_in page_entities (strip_tags s))))
       (strip_block lc s (lit ''<style'') (lit ''</style>'')))"

definition collapse_snippet :: "rstr \<Rightarrow> rstr" where
  "collapse_snippet s = collapse_ws (replace_all_in
     [(lit ''&amp;'', [38]), (lit ''&lt;'', [60]), (lit ''&gt;'', [62]), (lit ''&quot;'', [34]), (lit ''&#x27;'', [39]),
      (lit ''&ensp;'', [32]), (lit ''&nbsp;'', [32])] (strip_tags s))"

text \<open>A result: title, link and snippet; a block without a title is skipped.\<close>

definition bing_chunk :: "rstr \<Rightarrow> (rstr \<times> rstr \<times> rstr) option" where
  "bing_chunk chunk =
     (case Option.bind (split_once chunk (lit ''<h2'')) (\<lambda>(_, rest). split_once rest (lit ''href='' @ [34])) of
        None \<Rightarrow> None
      | Some (_, rest) \<Rightarrow>
          let href = hd (split_char 34 rest);
              title = (case Option.bind (split_once rest (lit ''>'')) (\<lambda>(_, t). split_once t (lit ''</a>'')) of
                         Some (t, _) \<Rightarrow> trim (strip_tags t) | None \<Rightarrow> []);
              snippet = (case Option.bind (Option.bind (split_once chunk (lit ''b_lineclamp'')) (\<lambda>(_, r). split_once r (lit ''>'')))
                                (\<lambda>(_, r). split_once r (lit ''</p>'')) of
                           Some (s, _) \<Rightarrow> collapse_snippet s | None \<Rightarrow> [])
          in if title = [] then None else Some (title, href, snippet))"

definition parse_bing_results :: "rstr \<Rightarrow> (rstr \<times> rstr \<times> rstr) list" where
  "parse_bing_results html = List.map_filter bing_chunk (tl (split_str (lit ''<li class='' @ [34] @ lit ''b_algo'' @ [34]) html))"

fun render_results :: "nat \<Rightarrow> (rstr \<times> rstr \<times> rstr) list \<Rightarrow> rstr" where
  "render_results n [] = []"
| "render_results n ((title, link, snippet) # rs) =
     show_nat n @ lit ''. '' @ title @ [10, 32, 32, 32] @ link @ [10]
     @ (if snippet = [] then [] else [32, 32, 32] @ snippet @ [10]) @ render_results (n + 1) rs"


section \<open>Cutting\<close>

lemma floor_slice_prefix: "\<exists>r. s = floor_slice s n @ r" "byte_len (floor_slice s n) \<le> n"
  by (induction s n rule: floor_slice.induct) auto

lemma floor_slice_tight: "n < byte_len s \<Longrightarrow> n < byte_len (floor_slice s n) + 4"
proof (induction s arbitrary: n)
  case (Cons c s)
  show ?case
  proof (cases "utf8_width c \<le> n")
    case True
    then have "n - utf8_width c < byte_len (floor_slice s (n - utf8_width c)) + 4" using Cons by simp
    then show ?thesis using True by simp
  next
    case False
    then show ?thesis by (simp add: utf8_width_def split: if_splits)
  qed
qed simp

lemma ceil_slice_suffix: "\<exists>r. s = r @ ceil_slice s n"
proof (induction s arbitrary: n)
  case (Cons c s)
  show ?case
  proof (cases "n = 0")
    case False
    obtain r where "s = r @ ceil_slice s (n - utf8_width c)" using Cons by blast
    then show ?thesis using False by (intro exI[of _ "c # r"]) simp
  qed simp
qed simp

lemma ceil_slice_bytes: "n \<le> byte_len s \<Longrightarrow> byte_len (ceil_slice s n) \<le> byte_len s - n"
proof (induction s arbitrary: n)
  case (Cons c s)
  show ?case
  proof (cases "n = 0")
    case False
    have "n - utf8_width c \<le> byte_len s" using Cons.prems by simp
    from Cons.IH[OF this] show ?thesis using False Cons.prems by simp
  qed simp
qed simp

lemma cut_note_clean: "c \<in> set (cut_note n) \<Longrightarrow> \<not> is_control c \<or> c = 10 \<or> c = 9"
  by (auto simp: cut_note_def is_control_def is_ascii_digit_def dest: show_nat_digits)

lemma split_ends:
  assumes "w = h @ r1" "w = r2 @ t" "byte_len h + byte_len t < byte_len w"
  obtains m where "w = h @ m @ t"
proof -
  have "h @ r1 = r2 @ t" using assms by simp
  then consider us where "h = r2 @ us" "us @ r1 = t" | us where "h @ us = r2" "r1 = us @ t"
    by (auto simp: append_eq_append_conv2)
  then show thesis
  proof cases
    case 1
    then have "byte_len w \<le> byte_len h + byte_len t" using assms(1) by auto
    then show thesis using assms(3) by simp
  next
    case 2
    then show thesis using that assms(1) by simp
  qed
qed

text \<open>Cleaned output carries no control characters but line feeds and tabs, and it is either all of the
  cleaned text or a head and a tail of it around a note, never more than 16384 bytes and the note.\<close>

theorem sanitize_bounds:
  "(\<forall>c \<in> set (sanitize s). \<not> is_control c \<or> c = 10 \<or> c = 9)
   \<and> (let cleaned = filter (\<lambda>c. \<not> is_control c \<or> c = 10 \<or> c = 9) s in
        if byte_len cleaned \<le> 16384 then sanitize s = cleaned
        else \<exists>h m t. cleaned = h @ m @ t \<and> sanitize s = h @ cut_note (byte_len cleaned - 16384) @ t
               \<and> byte_len h \<le> 10922 \<and> 10918 < byte_len h \<and> byte_len t \<le> 5462)"
proof -
  define w where "w = filter (\<lambda>c. \<not> is_control c \<or> c = 10 \<or> c = 9) s"
  let ?h = "floor_slice w 10922" and ?t = "ceil_slice w (byte_len w - 5462)"
  have clean: "\<not> is_control c \<or> c = 10 \<or> c = 9" if "c \<in> set w" for c using that by (simp add: w_def)
  have san: "sanitize s = (if byte_len w \<le> 16384 then w else ?h @ cut_note (byte_len w - 16384) @ ?t)"
    by (simp add: sanitize_def Let_def MAX_OUTPUT_BYTES_def w_def)
  show ?thesis unfolding w_def[symmetric] Let_def
  proof (cases "byte_len w \<le> 16384")
    case True
    then show "(\<forall>c \<in> set (sanitize s). \<not> is_control c \<or> c = 10 \<or> c = 9)
      \<and> (if byte_len w \<le> 16384 then sanitize s = w
         else \<exists>h m t. w = h @ m @ t \<and> sanitize s = h @ cut_note (byte_len w - 16384) @ t
               \<and> byte_len h \<le> 10922 \<and> 10918 < byte_len h \<and> byte_len t \<le> 5462)"
      using san clean by simp
  next
    case False
    then have s: "sanitize s = ?h @ cut_note (byte_len w - 16384) @ ?t" using san by simp
    obtain r1 r2 where r: "w = ?h @ r1" "w = r2 @ ?t" using floor_slice_prefix(1) ceil_slice_suffix by metis
    have b: "byte_len ?h \<le> 10922" "10918 < byte_len ?h" "byte_len ?t \<le> 5462"
      using floor_slice_prefix(2)[of w 10922] floor_slice_tight[of 10922 w] ceil_slice_bytes[of "byte_len w - 5462" w] False
      by auto
    obtain m where m: "w = ?h @ m @ ?t" using split_ends[OF r] b False by auto
    have "set ?h \<union> set ?t \<subseteq> set w" using arg_cong[OF m, of set] by (simp only: set_append) blast
    then have "\<forall>c \<in> set (sanitize s). \<not> is_control c \<or> c = 10 \<or> c = 9"
      unfolding s using clean cut_note_clean by (auto simp only: set_append Un_iff subset_iff)
    moreover have "\<exists>h m t. w = h @ m @ t \<and> sanitize s = h @ cut_note (byte_len w - 16384) @ t
               \<and> byte_len h \<le> 10922 \<and> 10918 < byte_len h \<and> byte_len t \<le> 5462"
      using s b m by blast
    ultimately show "(\<forall>c \<in> set (sanitize s). \<not> is_control c \<or> c = 10 \<or> c = 9)
      \<and> (if byte_len w \<le> 16384 then sanitize s = w
         else \<exists>h m t. w = h @ m @ t \<and> sanitize s = h @ cut_note (byte_len w - 16384) @ t
               \<and> byte_len h \<le> 10922 \<and> 10918 < byte_len h \<and> byte_len t \<le> 5462)"
      using False by simp
  qed
qed

lemma sanitize_bounds_witness: "sanitize [65, 7, 10] = [65, 10]"
  using sanitize_bounds[of "[65, 7, 10]"] by (simp add: is_control_def utf8_width_def Let_def)

section \<open>Occurrences\<close>

lemma split_str_cut:
  "find_str s p = Some i \<Longrightarrow> p \<noteq> [] \<Longrightarrow> split_str p s = take i s # split_str p (drop (i + length p) s)"
  "find_str s p = None \<Longrightarrow> split_str p s = [s]"
  by (simp_all add: split_str.simps[of p s])

lemma split_str_not_Nil [simp]: "split_str p s \<noteq> []"
  by (cases "p = [] \<or> find_str s p = None") (auto simp: split_str.simps[of p s] split: option.splits)

lemma join_Cons: "ws \<noteq> [] \<Longrightarrow> join sep (w # ws) = w @ sep @ join sep ws"
  by (cases ws) (simp_all add: join_def)

lemma join_split_str: "join p (split_str p s) = s"
proof (induction p s rule: split_str.induct)
  case (1 p s)
  show ?case
  proof (cases "p = [] \<or> find_str s p = None")
    case True
    then show ?thesis by (auto simp: split_str.simps[of p s] join_def)
  next
    case False
    then obtain i where i: "find_str s p = Some i" "p \<noteq> []" by auto
    then have "join p (split_str p (drop (i + length p) s)) = drop (i + length p) s" using 1 by simp
    then show ?thesis using find_str_Some[OF i(1)] i by (simp add: split_str_cut join_Cons)
  qed
qed

text \<open>One cut: the text around it, and the pattern does not occur after it nor, ending sooner, before it.\<close>

lemma count_str_one:
  assumes "count_str p s = 1" "p \<noteq> []"
  obtains a b where "s = a @ p @ b" "split_str p s = [a, b]" "\<not> contains b p" "find_str s p = Some (length a)"
proof -
  obtain i where i: "find_str s p = Some i"
    using assms(1) by (cases "find_str s p") (auto simp: count_str_def split_str_cut)
  let ?b = "drop (i + length p) s"
  have "length (split_str p ?b) = 1" using assms i by (simp add: count_str_def split_str_cut)
  then have n: "find_str ?b p = None"
    using assms(2) by (cases "find_str ?b p") (auto simp: split_str_cut)
  show thesis
  proof (rule that[of "take i s" ?b])
    show "s = take i s @ p @ ?b" by (rule find_str_Some[OF i])
    show "split_str p s = [take i s, ?b]" using assms(2) i n by (simp add: split_str_cut)
    show "\<not> contains ?b p" using n by (simp add: find_str_None)
    show "find_str s p = Some (length (take i s))" using i find_str_bound[OF i] by simp
  qed
qed

section \<open>Pages\<close>

lemma drop_bytes_middle: "drop_bytes (byte_len p + n) (p @ s) = drop_bytes n s"
proof (induction p)
  case (Cons c p)
  then show ?case using utf8_width_pos[of c] by (simp del: utf8_width_pos)
qed simp

lemma strip_loop_plain:
  assumes "\<forall>c \<in> set pre. c < 128 \<and> c \<noteq> 60" "\<forall>c \<in> set low. c < 128 \<and> c \<noteq> 60" "length low = length pre"
    "byte_len a = byte_len b"
  shows "strip_loop (a @ low @ lrest) (60 # op) cl (b @ pre @ rest) (byte_len b) out
       = strip_loop (a @ low @ lrest) (60 # op) cl (b @ pre @ rest) (byte_len b + length pre) (out @ pre)"
  using assms
proof (induction pre arbitrary: low a b out)
  case (Cons c pre)
  then obtain d low' where low: "low = d # low'" "d < 128" "d \<noteq> 60" "length low' = length pre" by (cases low) auto
  have c: "utf8_width c = 1" "utf8_width d = 1" using Cons.prems(1) low(2) by (simp_all add: utf8_width_def)
  have l: "drop_bytes (byte_len b) (a @ low @ lrest) = Some (low @ lrest)"
    using Cons.prems(4) drop_bytes_append[of a] by metis
  have s: "drop_bytes (byte_len b) (b @ (c # pre) @ rest) = Some (c # pre @ rest)"
    using drop_bytes_append[of b "(c # pre) @ rest"] by simp
  have "strip_loop (a @ low @ lrest) (60 # op) cl (b @ (c # pre) @ rest) (byte_len b) out
      = strip_loop (a @ low @ lrest) (60 # op) cl (b @ (c # pre) @ rest) (byte_len b + 1) (out @ [c])"
    using l s c low(3) by (subst strip_loop.simps) (simp add: low(1) starts_with_def)
  also have "\<dots> = strip_loop ((a @ [d]) @ low' @ lrest) (60 # op) cl ((b @ [c]) @ pre @ rest) (byte_len (b @ [c])) (out @ [c])"
    using c by (simp add: low(1))
  also have "\<dots> = strip_loop ((a @ [d]) @ low' @ lrest) (60 # op) cl ((b @ [c]) @ pre @ rest) (byte_len (b @ [c]) + length pre) ((out @ [c]) @ pre)"
    using Cons.prems low c by (intro Cons.IH) auto
  finally show ?case using c by (simp add: low(1))
qed simp

text \<open>A page that is plain up to a capital dotted I (code 304, as in the Turkish name of Istanbul) and does
  not end there cannot be read: the lower case of that letter is longer than the letter, an offset of the
  page then falls inside a character of the lower-case copy, and the slice panics.  The hypothesis on
  \<open>lc\<close> is the documented mapping of Unicode, letter by letter (a capital sigma is the one letter whose
  mapping depends on its neighbours).\<close>

theorem dotted_capital_panics:
  assumes lc: "lc (pre @ 304 # rest) = concat (map low (pre @ 304 # rest))" and i: "low 304 = [105, 775]"
    and ascii: "\<And>c. c < 128 \<Longrightarrow> low c = [ascii_lower c]"
    and pre: "\<forall>c \<in> set pre. c < 128 \<and> c \<noteq> 60" and "rest \<noteq> []"
  shows "html_to_text lc (pre @ 304 # rest) = None"
proof -
  let ?s = "pre @ 304 # rest" and ?l = "map ascii_lower pre" and ?r = "105 # 775 # concat (map low rest)"
  have lower: "lc ?s = ?l @ ?r"
  proof -
    have "concat (map low pre) = ?l" using pre ascii by (induction pre) auto
    then show ?thesis using i by (simp add: lc)
  qed
  have w: "utf8_width 304 = 2" "utf8_width 105 = 1" "utf8_width 775 = 2" by (simp_all add: utf8_width_def)
  have plain: "byte_len pre = length pre" "byte_len ?l = length pre"
    using pre by (induction pre) (auto simp: utf8_width_def ascii_lower_def)
  have lo: "\<forall>c \<in> set ?l. c < 128 \<and> c \<noteq> 60" using pre by (auto simp: ascii_lower_def)
  have tail: "byte_len rest \<noteq> 0" using \<open>rest \<noteq> []\<close> by (cases rest) simp_all
  have op: "lit ''<script'' = 60 # lit ''script''" by simp
  have at: "drop_bytes (length pre) (?l @ ?r) = Some ?r" "drop_bytes (length pre) ?s = Some (304 # rest)"
    "drop_bytes (length pre + 2) (?l @ ?r) = None"
    using drop_bytes_append[of ?l ?r] drop_bytes_append[of pre "304 # rest"] drop_bytes_middle[of ?l 2 ?r] w plain by simp_all
  have "strip_loop (lc ?s) (60 # lit ''script'') cl ?s 0 [] = strip_loop (?l @ ?r) (60 # lit ''script'') cl ?s (length pre) pre" for cl
    using strip_loop_plain[OF pre lo, of "[]" "[]" ?r "lit ''script''" cl "304 # rest" "[]"] by (simp add: lower del: lit_Cons)
  also have "strip_loop (?l @ ?r) (60 # lit ''script'') cl ?s (length pre) pre
      = strip_loop (?l @ ?r) (60 # lit ''script'') cl ?s (length pre + 2) (pre @ [304])" for cl
    using at w plain by (subst strip_loop.simps) (simp add: starts_with_def del: lit_Cons)
  also have "strip_loop (?l @ ?r) (60 # lit ''script'') cl ?s (length pre + 2) (pre @ [304]) = None" for cl
    using at(3) w plain tail by (subst strip_loop.simps) (simp del: lit_Cons)
  finally have "strip_block lc ?s (lit ''<script'') (lit ''</script>'') = None"
    unfolding strip_block_def op .
  then show ?thesis by (simp add: html_to_text_def del: lit_Cons)
qed

definition turkish_lower :: "rstr \<Rightarrow> rstr" where
  "turkish_lower s = concat (map (\<lambda>c. if c = 304 then [105, 775] else [ascii_lower c]) s)"

lemma dotted_capital_panics_witness:
  "html_to_text turkish_lower (304 # lit ''stanbul'') = None \<and> html_to_text turkish_lower (lit ''Istanbul'') \<noteq> None"
proof
  show "html_to_text turkish_lower (304 # lit ''stanbul'') = None"
    using dotted_capital_panics[of turkish_lower "[]" "lit ''stanbul''" "\<lambda>c. if c = 304 then [105, 775] else [ascii_lower c]"]
    by (simp add: turkish_lower_def del: lit_Cons)
  show "html_to_text turkish_lower (lit ''Istanbul'') \<noteq> None" by code_simp
qed

end
