(* ===== verification/Tools.thy ===== *)
theory Tools
  imports Tool_Text Tool_Policy Proactive
begin

text \<open>
  The tools of the model, \<open>crates/oc-tools\<close>: the guard of the allowed directories (\<open>path_guard.rs\<close>) and the
  tools \<open>file\<close>, \<open>sys\<close>, \<open>exec\<close>, \<open>process\<close>, \<open>message\<close>, \<open>ask_user\<close>, \<open>cron\<close> and those of \<open>web.rs\<close>; \<open>Tool_Exec\<close> is the executor
  that runs them for a session.  The operating system is the parameter \<open>os\<close> over a state \<open>'f\<close> of files (a call that
  writes gives an error or none, and the files it leaves); \<open>serde\<close>'s decoding of arguments and regular expressions are
  parameters too.  Paths are those of Unix, the components after the root.
\<close>

section \<open>Types\<close>

datatype tool_error = BadArgs rstr | IoError rstr | ToolTimeout | ToolAborted | Denied | PathNotAllowed rstr | ToolFailed rstr

definition tool_error_text :: "tool_error \<Rightarrow> rstr" where
  "tool_error_text e = (case e of
     BadArgs m \<Rightarrow> ([21442, 25968, 38169, 35823] @ lit '': '') @ m | IoError m \<Rightarrow> lit ''io error: '' @ m | ToolTimeout \<Rightarrow> [24037, 20855, 36229, 26102]
   | ToolAborted \<Rightarrow> [34987, 20013, 27490] | Denied \<Rightarrow> [34987, 23457, 25209, 25298, 32477] | PathNotAllowed p \<Rightarrow> ([36335, 24452, 19981, 20801, 35768] @ lit '': '') @ p
   | ToolFailed m \<Rightarrow> ([25191, 34892, 22833, 36133] @ lit '': '') @ m)"

type_synonym path = "rstr list"

record tool_output =
  to_content :: rstr
  to_success :: bool
  to_background :: "rstr option"
  to_new_cwd :: "path option"

definition tool_ok :: "rstr \<Rightarrow> tool_output" where
  "tool_ok s = \<lparr> to_content = s, to_success = True, to_background = None, to_new_cwd = None \<rparr>"

definition tool_err :: "rstr \<Rightarrow> tool_output" where
  "tool_err s = \<lparr> to_content = s, to_success = False, to_background = None, to_new_cwd = None \<rparr>"

record 'f os =
  os_exists :: "'f \<Rightarrow> path \<Rightarrow> bool"
  os_canon :: "'f \<Rightarrow> path \<Rightarrow> rstr + path"
  os_is_dir :: "'f \<Rightarrow> path \<Rightarrow> bool"
  os_read :: "'f \<Rightarrow> path \<Rightarrow> rstr + rstr"
  os_write :: "'f \<Rightarrow> path \<Rightarrow> rstr \<Rightarrow> rstr option \<times> 'f"
  os_append :: "'f \<Rightarrow> path \<Rightarrow> rstr \<Rightarrow> rstr option \<times> 'f"
  os_mkdirs :: "'f \<Rightarrow> path \<Rightarrow> rstr option \<times> 'f"
  os_len :: "'f \<Rightarrow> path \<Rightarrow> nat option"
  os_list :: "'f \<Rightarrow> path \<Rightarrow> rstr + (rstr \<times> bool) list"
  os_stat :: "'f \<Rightarrow> path \<Rightarrow> rstr + bool \<times> nat \<times> nat option"
  os_walk :: "'f \<Rightarrow> path \<Rightarrow> path list"
  os_glob :: "'f \<Rightarrow> path \<Rightarrow> rstr \<Rightarrow> rstr + path list"
  os_regex :: "rstr \<Rightarrow> rstr + (rstr \<Rightarrow> bool)"
  os_home :: "rstr option"

section \<open>The guard\<close>

definition parse_path :: "rstr \<Rightarrow> bool \<times> path" where
  "parse_path s = (starts_with s [47], filter (\<lambda>c. c \<noteq> [] \<and> c \<noteq> [46]) (split_char 47 s))"

definition show_path :: "path \<Rightarrow> rstr" where
  "show_path p = (if p = [] then [47] else concat (map (\<lambda>c. 47 # c) p))"

definition expand_home :: "'f os \<Rightarrow> rstr \<Rightarrow> rstr" where
  "expand_home os p = (case os_home os of
     None \<Rightarrow> p
   | Some home \<Rightarrow>
       if p = [126] then home
       else case strip_prefix p [126, 47] of
         Some rest \<Rightarrow> home @ [47] @ rest
       | None \<Rightarrow> (case strip_prefix p [126, 92] of Some rest \<Rightarrow> home @ [92] @ rest | None \<Rightarrow> p))"

definition under :: "path \<Rightarrow> path \<Rightarrow> bool" where
  "under base p \<longleftrightarrow> take (length base) p = base"

definition in_roots :: "'f os \<Rightarrow> 'f \<Rightarrow> path list \<Rightarrow> path \<Rightarrow> bool" where
  "in_roots os fs roots p \<longleftrightarrow> roots = []
     \<or> (\<exists>r \<in> set roots. under (case os_canon os fs r of Inr c \<Rightarrow> c | Inl _ \<Rightarrow> r) p)"

definition candidate :: "'f os \<Rightarrow> 'f \<Rightarrow> path \<Rightarrow> tool_error + path" where
  "candidate os fs full =
     (if os_exists os fs full then map_sum IoError id (os_canon os fs full)
      else if full = [] then Inl (PathNotAllowed (show_path full))
      else if os_exists os fs (butlast full)
           then (case os_canon os fs (butlast full) of
                   Inl e \<Rightarrow> Inl (IoError e)
                 | Inr c \<Rightarrow> Inr (c @ (if last full = [46, 46] then [] else [last full])))
      else Inl (PathNotAllowed (show_path full)))"

definition resolve_in_roots :: "'f os \<Rightarrow> 'f \<Rightarrow> rstr \<Rightarrow> path \<Rightarrow> path list \<Rightarrow> tool_error + path" where
  "resolve_in_roots os fs p cwd roots =
     (let full = (case parse_path p of (absolute, cs) \<Rightarrow> if absolute then cs else cwd @ cs)
      in case candidate os fs full of
           Inl e \<Rightarrow> Inl e
         | Inr c \<Rightarrow> if in_roots os fs roots c then Inr c else Inl (PathNotAllowed (show_path c)))"

definition resolve_dir_in_roots :: "'f os \<Rightarrow> 'f \<Rightarrow> rstr \<Rightarrow> path \<Rightarrow> path list \<Rightarrow> tool_error + path" where
  "resolve_dir_in_roots os fs p cwd roots =
     (case resolve_in_roots os fs p cwd roots of
        Inl e \<Rightarrow> Inl e
      | Inr c \<Rightarrow> if os_is_dir os fs c then Inr c else Inl (BadArgs (([19981, 26159, 30446, 24405] @ lit '': '') @ show_path c)))"

section \<open>The file tool\<close>

definition DEFAULT_LINES :: nat where "DEFAULT_LINES = 20"
definition MAX_MATCHES :: nat where "MAX_MATCHES = 200"

datatype file_args =
    FRead rstr
  | FWrite rstr rstr
  | FEdit rstr rstr rstr bool
  | FAppend rstr rstr
  | FList rstr
  | FStat rstr
  | FHead rstr "nat option"
  | FTail rstr "nat option"
  | FGrep rstr rstr
  | FGlob rstr

definition file_check :: "'f os \<Rightarrow> 'f \<Rightarrow> rstr \<Rightarrow> path \<Rightarrow> path list \<Rightarrow> tool_error + path" where
  "file_check os fs p cwd roots = resolve_in_roots os fs (expand_home os p) cwd roots"

definition file_read :: "'f os \<Rightarrow> 'f \<Rightarrow> path \<Rightarrow> (rstr \<Rightarrow> rstr) \<Rightarrow> tool_error + tool_output" where
  "file_read os fs p render = map_sum IoError (\<lambda>c. tool_ok (sanitize (render c))) (os_read os fs p)"

definition file_write :: "'f os \<Rightarrow> 'f \<Rightarrow> path \<Rightarrow> rstr \<Rightarrow> (tool_error + tool_output) \<times> 'f" where
  "file_write os fs p content =
     (case (if p = [] then (None, fs) else os_mkdirs os fs (butlast p)) of
        (Some e, fs1) \<Rightarrow> (Inl (IoError e), fs1)
      | (None, fs1) \<Rightarrow>
          (case os_write os fs1 p content of
             (Some e, fs2) \<Rightarrow> (Inl (IoError e), fs2)
           | (None, fs2) \<Rightarrow> (Inr (tool_ok (([24050, 20889, 20837] @ lit '' '') @ show_path p)), fs2)))"

definition file_append :: "'f os \<Rightarrow> 'f \<Rightarrow> path \<Rightarrow> rstr \<Rightarrow> (tool_error + tool_output) \<times> 'f" where
  "file_append os fs p content =
     (case (if p = [] then (None, fs) else os_mkdirs os fs (butlast p)) of
        (Some e, fs1) \<Rightarrow> (Inl (IoError e), fs1)
      | (None, fs1) \<Rightarrow>
          (case os_append os fs1 p content of
             (Some e, fs2) \<Rightarrow> (Inl (IoError e), fs2)
           | (None, fs2) \<Rightarrow>
               (Inr (tool_ok (([24050, 36861, 21152] @ lit '' '') @ show_nat (byte_len content) @ (lit '' '' @ [23383, 33410, 21040] @ lit '' '') @ show_path p @ ([65292, 29616, 20849] @ lit '' '')
                  @ show_nat (case os_len os fs2 p of Some n \<Rightarrow> n | None \<Rightarrow> 0) @ (lit '' '' @ [23383, 33410]))), fs2)))"

definition ambiguous_text :: "nat \<Rightarrow> rstr" where
  "ambiguous_text n = (lit ''old_string '' @ [22312, 25991, 20214, 20013, 20986, 29616] @ lit '' '') @ show_nat n @ (lit '' '' @ [27425, 65292, 26080, 27861, 30830, 23450, 25913, 21738, 19968, 22788, 12290, 35831, 34917, 19978, 26356] @ [22810, 19978, 19979, 25991, 65288, 21069, 21518, 21508, 22810, 24102, 20960, 34892, 65289, 20351, 20854] @ [21807, 19968, 65292, 25110, 30830, 23454, 35201, 20840, 25913, 26102, 20256] @ lit '' replace_all=true'' @ [12290, 25991, 20214, 26410, 25913, 21160, 12290])"

definition file_edit :: "'f os \<Rightarrow> 'f \<Rightarrow> path \<Rightarrow> rstr \<Rightarrow> rstr \<Rightarrow> bool \<Rightarrow> (tool_error + tool_output) \<times> 'f" where
  "file_edit os fs p old new everywhere =
     (case os_read os fs p of
        Inl e \<Rightarrow> (Inl (IoError e), fs)
      | Inr content \<Rightarrow>
          (case resolve_needle content old new of
             None \<Rightarrow> (Inr (tool_err (no_match_hint content old)), fs)
           | Some (needle, replacement) \<Rightarrow>
               let n = count_str needle content in
               if 1 < n \<and> \<not> everywhere then (Inr (tool_err (ambiguous_text n)), fs)
               else let updated = (if everywhere then replace_str needle replacement content else replace_first needle replacement content)
                    in case os_write os fs p updated of
                         (Some e, fs') \<Rightarrow> (Inl (IoError e), fs')
                       | (None, fs') \<Rightarrow> (Inr (tool_ok (([24050, 32534, 36753] @ lit '' '') @ show_path p @ ([65306, 26367, 25442] @ lit '' '') @ show_nat n @ (lit '' '' @ [22788, 65292])
                             @ show_nat (byte_len content) @ (lit '' '' @ [8594] @ lit '' '') @ show_nat (byte_len updated) @ (lit '' '' @ [23383, 33410]))), fs')))"

text \<open>The lines of the files below a path that match, up to the limit.\<close>

fun grep_lines :: "(rstr \<Rightarrow> bool) \<Rightarrow> path \<Rightarrow> nat \<Rightarrow> rstr list \<Rightarrow> nat \<Rightarrow> rstr \<Rightarrow> nat \<times> rstr" where
  "grep_lines m p i [] n out = (n, out)"
| "grep_lines m p i (l # ls) n out =
     (if m l
      then let out' = out @ show_path p @ [58] @ show_nat (i + 1) @ [58] @ trim l @ [10]
           in if MAX_MATCHES \<le> n + 1 then (n + 1, out' @ ([8230] @ lit ''['' @ [21305, 37197, 36807, 22810, 65292, 24050, 25130, 26029] @ lit '']'' @ [10]))
              else grep_lines m p (i + 1) ls (n + 1) out'
      else grep_lines m p (i + 1) ls n out)"

fun grep_files :: "'f os \<Rightarrow> 'f \<Rightarrow> (rstr \<Rightarrow> bool) \<Rightarrow> path list \<Rightarrow> nat \<Rightarrow> rstr \<Rightarrow> rstr" where
  "grep_files os fs m [] n out = (if out = [] then [65288, 26080, 21305, 37197, 65289] else out)"
| "grep_files os fs m (p # ps) n out =
     (case os_read os fs p of
        Inl _ \<Rightarrow> grep_files os fs m ps n out
      | Inr content \<Rightarrow>
          (case grep_lines m p 0 (str_lines content) n out of
             (n', out') \<Rightarrow> if MAX_MATCHES \<le> n' then out' else grep_files os fs m ps n' out'))"

definition file_grep :: "'f os \<Rightarrow> 'f \<Rightarrow> rstr \<Rightarrow> path \<Rightarrow> tool_error + tool_output" where
  "file_grep os fs pattern p = (case os_regex os pattern of
     Inl e \<Rightarrow> Inl (BadArgs (([27491, 21017, 38750, 27861] @ lit '': '') @ e))
   | Inr m \<Rightarrow> Inr (tool_ok (sanitize (grep_files os fs m (os_walk os fs p) 0 []))))"

fun glob_lines :: "'f os \<Rightarrow> 'f \<Rightarrow> path list \<Rightarrow> path list \<Rightarrow> nat \<Rightarrow> rstr \<Rightarrow> rstr" where
  "glob_lines os fs roots [] n out = (if out = [] then [65288, 26080, 21305, 37197, 25991, 20214, 65289] else out)"
| "glob_lines os fs roots (p # ps) n out =
     (let c = (case os_canon os fs p of Inr c \<Rightarrow> c | Inl _ \<Rightarrow> p) in
      if \<not> in_roots os fs roots c then glob_lines os fs roots ps n out
      else let out' = out @ show_path c @ [10]
           in if MAX_MATCHES \<le> n + 1 then out' @ ([8230] @ lit ''['' @ [32467, 26524, 36807, 22810, 65292, 24050, 25130, 26029] @ lit '']'' @ [10]) else glob_lines os fs roots ps (n + 1) out')"

definition file_glob :: "'f os \<Rightarrow> 'f \<Rightarrow> path list \<Rightarrow> path \<Rightarrow> rstr \<Rightarrow> tool_error + tool_output" where
  "file_glob os fs roots cwd pattern = (case os_glob os fs cwd pattern of
     Inl e \<Rightarrow> Inl (BadArgs ((lit ''glob '' @ [27169, 24335, 38750, 27861] @ lit '': '') @ e))
   | Inr ps \<Rightarrow> Inr (tool_ok (sanitize (glob_lines os fs roots ps 0 []))))"

definition file_list :: "'f os \<Rightarrow> 'f \<Rightarrow> path \<Rightarrow> tool_error + tool_output" where
  "file_list os fs p = map_sum IoError (\<lambda>es. tool_ok (sanitize (concat (map (\<lambda>(n, d). n @ (if d then [47] else []) @ [10]) es))))
     (os_list os fs p)"

definition file_stat :: "'f os \<Rightarrow> 'f \<Rightarrow> path \<Rightarrow> tool_error + tool_output" where
  "file_stat os fs p = map_sum IoError (\<lambda>(d, len, t). tool_ok (show_path p @ ([10, 31867, 22411] @ lit '': '') @ (if d then [30446, 24405] else [25991, 20214])
       @ ([10, 22823, 23567] @ lit '': '') @ show_nat len @ (lit '' '' @ [23383, 33410, 10, 20462, 25913, 26102, 38388] @ lit ''(unix'' @ [31186] @ lit ''): '') @ show_nat (case t of Some s \<Rightarrow> s | None \<Rightarrow> 0)))
     (os_stat os fs p)"

definition empty_old_text :: rstr where "empty_old_text = (lit ''old_string '' @ [19981, 33021, 20026, 31354, 65288, 31354, 20018, 21305, 37197, 20219, 24847, 20301, 32622, 65289])"
definition same_text :: rstr where "same_text = (lit ''old_string '' @ [19982] @ lit '' new_string '' @ [30456, 21516, 65292, 36825, 27425, 35843, 29992, 19981, 20250, 25913, 21464, 20219, 20309, 20869, 23481])"

definition on_path :: "'f os \<Rightarrow> 'f \<Rightarrow> path list \<Rightarrow> path \<Rightarrow> rstr \<Rightarrow> (path \<Rightarrow> (tool_error + tool_output) \<times> 'f) \<Rightarrow> (tool_error + tool_output) \<times> 'f" where
  "on_path os fs roots cwd p f = (case file_check os fs p cwd roots of Inl e \<Rightarrow> (Inl e, fs) | Inr q \<Rightarrow> f q)"

definition file_invoke :: "'f os \<Rightarrow> path list \<Rightarrow> path \<Rightarrow> file_args \<Rightarrow> 'f \<Rightarrow> (tool_error + tool_output) \<times> 'f" where
  "file_invoke os roots cwd args fs = (case args of
     FRead p \<Rightarrow> on_path os fs roots cwd p (\<lambda>q. (file_read os fs q id, fs))
   | FWrite p content \<Rightarrow> on_path os fs roots cwd p (\<lambda>q. file_write os fs q content)
   | FEdit p old new everywhere \<Rightarrow>
       if old = [] then (Inl (BadArgs empty_old_text), fs)
       else if old = new then (Inl (BadArgs same_text), fs)
       else on_path os fs roots cwd p (\<lambda>q. file_edit os fs q old new everywhere)
   | FAppend p content \<Rightarrow> on_path os fs roots cwd p (\<lambda>q. file_append os fs q content)
   | FList p \<Rightarrow> on_path os fs roots cwd p (\<lambda>q. (file_list os fs q, fs))
   | FStat p \<Rightarrow> on_path os fs roots cwd p (\<lambda>q. (file_stat os fs q, fs))
   | FHead p n \<Rightarrow> on_path os fs roots cwd p
       (\<lambda>q. (file_read os fs q (\<lambda>c. join [10] (take (case n of Some k \<Rightarrow> k | None \<Rightarrow> DEFAULT_LINES) (str_lines c))), fs))
   | FTail p n \<Rightarrow> on_path os fs roots cwd p
       (\<lambda>q. (file_read os fs q (\<lambda>c. let ls = str_lines c in join [10] (drop (length ls - (case n of Some k \<Rightarrow> k | None \<Rightarrow> DEFAULT_LINES)) ls)), fs))
   | FGrep pattern p \<Rightarrow> on_path os fs roots cwd p (\<lambda>q. (file_grep os fs pattern q, fs))
   | FGlob pattern \<Rightarrow> (file_glob os fs roots cwd pattern, fs))"


section \<open>The other tools\<close>

datatype sys_args = SysPwd | SysCd rstr | SysNow

definition sys_invoke :: "'f os \<Rightarrow> 'z tz_env \<Rightarrow> path list \<Rightarrow> rstr \<Rightarrow> int \<Rightarrow> path \<Rightarrow> sys_args \<Rightarrow> 'f \<Rightarrow> tool_error + tool_output" where
  "sys_invoke os tzs roots tz now cwd args fs = (case args of
     SysPwd \<Rightarrow> Inr (tool_ok (show_path cwd))
   | SysCd p \<Rightarrow> map_sum id (\<lambda>q. (tool_ok (([24050, 20999, 25442, 21040] @ lit '' '') @ show_path q))\<lparr>to_new_cwd := Some q\<rparr>) (resolve_dir_in_roots os fs p cwd roots)
   | SysNow \<Rightarrow> Inr (tool_ok (case fmt_now_local tzs now tz of Some s \<Rightarrow> s | None \<Rightarrow> (lit ''unix'' @ [31186] @ lit '': '') @ show_int now)))"

definition message_invoke :: "rstr \<Rightarrow> tool_error + tool_output" where
  "message_invoke msg =
     (if trim msg = [] then Inl (BadArgs (lit ''text '' @ [19981, 33021, 20026, 31354])) else Inr (tool_ok ([24050, 21521, 29992, 25143, 21457, 36865, 28040, 24687, 65306] @ msg)))"

text \<open>What happens while a tool waits for an answer: the run is cancelled, or an answer comes (none when the
  channel closes or the time is over).\<close>

datatype 'a wait = WaitCancelled | WaitAnswer "'a option"

definition ask_user_invoke :: "bool \<Rightarrow> rstr wait \<Rightarrow> rstr \<Rightarrow> tool_error + tool_output" where
  "ask_user_invoke has_gate w prompt =
     (if trim prompt = [] then Inl (BadArgs (lit ''prompt '' @ [19981, 33021, 20026, 31354]))
      else if \<not> has_gate then Inr (tool_err ([26080, 27861, 21521, 29992, 25143, 25552, 38382, 65306, 24403, 21069, 20250, 35805, 19981, 25903, 25345] @ [20132, 20114, 24335, 36755, 20837, 12290]))
      else case w of
        WaitCancelled \<Rightarrow> Inl ToolAborted
      | WaitAnswer r \<Rightarrow> (case r of
            Some s \<Rightarrow> if trim s \<noteq> [] then Inr (tool_ok ([29992, 25143, 22238, 31572, 65306] @ trim s)) else Inr (tool_ok [29992, 25143, 26410, 20316, 31572, 65288, 24050, 21462, 28040, 25552, 38382, 65289, 12290])
          | None \<Rightarrow> Inr (tool_ok [29992, 25143, 26410, 20316, 31572, 65288, 24050, 21462, 28040, 25552, 38382, 65289, 12290])))"

record cron_args =
  ca_op :: rstr
  ca_expr :: "rstr option"
  ca_prompt :: "rstr option"
  ca_tz :: "rstr option"
  ca_secs :: "int option"
  ca_id :: "rstr option"

definition require :: "rstr option \<Rightarrow> rstr \<Rightarrow> rstr \<Rightarrow> tool_error + rstr" where
  "require v field ctx = (case v of
     Some s \<Rightarrow> if trim s \<noteq> [] then Inr s else Inl (BadArgs (ctx @ (lit '' '' @ [38656, 35201] @ lit '' '') @ field))
   | None \<Rightarrow> Inl (BadArgs (ctx @ (lit '' '' @ [38656, 35201] @ lit '' '') @ field)))"

definition cron_args_op :: "cron_args \<Rightarrow> tool_error + cron_op" where
  "cron_args_op a =
     (let o1 = trim (ca_op a) in
      if o1 = lit ''add'' then
        (case require (ca_expr a) (lit ''expr'') (lit ''op=add'') of
           Inl e \<Rightarrow> Inl e
         | Inr expr \<Rightarrow> map_sum id (\<lambda>p. OpAdd expr p (ca_tz a)) (require (ca_prompt a) (lit ''prompt'') (lit ''op=add'')))
      else if o1 = lit ''delay'' then
        (case ca_secs a of
           None \<Rightarrow> Inl (BadArgs (lit ''op=delay '' @ [38656, 35201] @ lit '' secs'' @ [65288, 24310, 26102, 31186, 25968, 65289]))
         | Some n \<Rightarrow> map_sum id (OpDelay n) (require (ca_prompt a) (lit ''prompt'') (lit ''op=delay'')))
      else if o1 = lit ''list'' then Inr OpList
      else if o1 = lit ''rm'' then map_sum id OpRm (require (ca_id a) (lit ''id'') (lit ''op=rm''))
      else Inl (BadArgs (([26410, 30693] @ lit '' op: '') @ o1 @ ([65288, 21487, 29992, 65306] @ lit ''add/delay/list/rm'' @ [65289]))))"

text \<open>\<open>call\<close> is the scheduler (\<open>Proactive.handle_cron_op\<close>) behind the channel; \<open>None\<close> a session without it.\<close>

definition cron_invoke :: "(cron_op \<Rightarrow> rstr + rstr) option \<Rightarrow> cron_args \<Rightarrow> tool_error + tool_output" where
  "cron_invoke gate a = (case gate of
     None \<Rightarrow> Inr (tool_err ([26080, 27861, 31649, 29702, 23450, 26102, 20219, 21153, 65306, 24403, 21069, 20250, 35805, 26410, 25509] @ [20837] @ lit '' cron '' @ [35843, 24230, 12290]))
   | Some call \<Rightarrow> (case cron_args_op a of
        Inl e \<Rightarrow> Inl e
      | Inr op \<Rightarrow> (case call op of Inr s \<Rightarrow> Inr (tool_ok s) | Inl s \<Rightarrow> Inr (tool_err s))))"

section \<open>Commands\<close>

text \<open>The end of a command: cancelled, out of time, not started, or ended with its output and its code.\<close>

datatype cmd_end = CmdCancelled | CmdTimeout | CmdSpawnError rstr | CmdExit "nat list" "nat list" "int option"

text \<open>The shell: how a command ends in a directory, with what it did to the files.  \<open>dec_utf8\<close> is strict,
  \<open>dec_gbk\<close> fails on a malformed sequence, \<open>dec_lossy\<close> never fails.\<close>

record 'f shell =
  sh_run :: "path \<Rightarrow> rstr \<Rightarrow> 'f \<Rightarrow> cmd_end \<times> 'f"
  sh_start :: "path \<Rightarrow> rstr \<Rightarrow> rstr option"
  dec_utf8 :: "nat list \<Rightarrow> rstr option"
  dec_gbk :: "nat list \<Rightarrow> rstr option"
  dec_lossy :: "nat list \<Rightarrow> rstr"

definition decode_output :: "'f shell \<Rightarrow> nat list \<Rightarrow> rstr" where
  "decode_output sh bs = (case dec_utf8 sh bs of Some s \<Rightarrow> s | None \<Rightarrow> (case dec_gbk sh bs of Some s \<Rightarrow> s | None \<Rightarrow> dec_lossy sh bs))"

definition run_command :: "'f shell \<Rightarrow> path \<Rightarrow> rstr \<Rightarrow> 'f \<Rightarrow> (tool_error + tool_output) \<times> 'f" where
  "run_command sh cwd cmd fs = (case sh_run sh cwd cmd fs of
     (CmdCancelled, fs') \<Rightarrow> (Inl ToolAborted, fs')
   | (CmdTimeout, fs') \<Rightarrow> (Inl ToolTimeout, fs')
   | (CmdSpawnError e, fs') \<Rightarrow> (Inl (IoError e), fs')
   | (CmdExit out err code, fs') \<Rightarrow>
       let collected = decode_output sh out @ (if err = [] then [] else decode_output sh err)
       in (Inr \<lparr> to_content = sanitize collected @ ([10] @ lit ''['' @ [36864, 20986, 30721] @ lit '': '') @ show_int (case code of Some c \<Rightarrow> c | None \<Rightarrow> -1) @ [93],
                  to_success = (code = Some 0), to_background = None, to_new_cwd = None \<rparr>, fs'))"

definition approval_reply :: "bool option \<Rightarrow> bool" where
  "approval_reply r = (case r of Some b \<Rightarrow> b | None \<Rightarrow> False)"

definition exec_invoke :: "'f shell \<Rightarrow> (rstr \<Rightarrow> rstr) \<Rightarrow> approval_mode \<Rightarrow> bool \<Rightarrow> bool wait \<Rightarrow> path \<Rightarrow> rstr \<Rightarrow> 'f \<Rightarrow> (tool_error + tool_output) \<times> 'f" where
  "exec_invoke sh lc mode has_gate w cwd raw fs =
     (let cmd = trim raw in
      if cmd = [] then (Inl (BadArgs [21629, 20196, 20026, 31354]), fs)
      else case approval_decision (classify_command lc cmd) mode of
        Reject \<Rightarrow> (Inl Denied, fs)
      | AskUser \<Rightarrow>
          if \<not> has_gate then (Inl Denied, fs)
          else (case w of
             WaitCancelled \<Rightarrow> (Inl ToolAborted, fs)
           | WaitAnswer r \<Rightarrow> if approval_reply r then run_command sh cwd cmd fs else (Inl Denied, fs))
      | Execute \<Rightarrow> run_command sh cwd cmd fs)"

text \<open>A background command: whether it was started, and the answer.\<close>

definition process_invoke :: "'f shell \<Rightarrow> bool \<Rightarrow> path \<Rightarrow> rstr \<Rightarrow> bool \<times> (tool_error + tool_output)" where
  "process_invoke sh server_up cwd raw =
     (let cmd = trim raw in
      if cmd = [] then (False, Inl (BadArgs [21629, 20196, 20026, 31354]))
      else case sh_start sh cwd cmd of
        Some e \<Rightarrow> (False, Inl (IoError e))
      | None \<Rightarrow> (True, if server_up
           then Inr \<lparr> to_content = [24050, 22312, 21518, 21488, 21551, 21160, 65306] @ cmd, to_success = True, to_background = Some (lit ''pending''), to_new_cwd = None \<rparr>
           else Inl (ToolFailed ([26080, 27861, 31227, 20132, 21518, 21488, 20219, 21153, 65288] @ lit ''server '' @ [26410, 25509, 25910, 65289]))))"


text \<open>The web tools; \<open>web_get\<close> is the HTTP client.\<close>

datatype web_end = WebCancelled | WebNoClient rstr | WebNoAnswer rstr | WebNoBody rstr | WebPage rstr rstr

definition web_fetch_invoke :: "(rstr \<Rightarrow> rstr) \<Rightarrow> (rstr \<Rightarrow> web_end) \<Rightarrow> rstr \<Rightarrow> (tool_error + tool_output) option" where
  "web_fetch_invoke lc get_url url =
     (if \<not> (starts_with url (lit ''http://'') \<or> starts_with url (lit ''https://''))
      then Some (Inl (BadArgs (lit ''url '' @ [24517, 39035, 20197] @ lit '' http:// '' @ [25110] @ lit '' https:// '' @ [24320, 22836])))
      else case get_url url of
        WebCancelled \<Rightarrow> Some (Inl ToolAborted)
      | WebNoClient e \<Rightarrow> Some (Inl (ToolFailed (([26500, 36896] @ lit '' HTTP client '' @ [22833, 36133] @ lit '': '') @ e)))
      | WebNoAnswer e \<Rightarrow> Some (Inl (ToolFailed (([35831, 27714, 22833, 36133] @ lit '': '') @ e)))
      | WebNoBody e \<Rightarrow> Some (Inl (ToolFailed (([35835, 21462, 27491, 25991, 22833, 36133] @ lit '': '') @ e)))
      | WebPage status body \<Rightarrow>
          map_option (\<lambda>s. Inr (tool_ok ([91] @ status @ [93, 32] @ url @ [10, 10] @ sanitize (take MAX_BODY_CHARS s)
               @ (if MAX_BODY_CHARS < length s then ([10, 8230] @ lit ''['' @ [27491, 25991, 24050, 25130, 26029] @ lit '']'') else []))))
            (html_to_text lc body))"

definition web_search_invoke :: "(rstr \<Rightarrow> web_end) \<Rightarrow> rstr \<Rightarrow> tool_error + tool_output" where
  "web_search_invoke search query = (case search query of
     WebCancelled \<Rightarrow> Inl ToolAborted
   | WebNoClient e \<Rightarrow> Inl (ToolFailed (([26500, 36896] @ lit '' HTTP client '' @ [22833, 36133] @ lit '': '') @ e))
   | WebNoAnswer e \<Rightarrow> Inl (ToolFailed (([25628, 32034, 35831, 27714, 22833, 36133] @ lit '': '') @ e))
   | WebNoBody e \<Rightarrow> Inl (ToolFailed (([35835, 21462, 25628, 32034, 32467, 26524, 22833, 36133] @ lit '': '') @ e))
   | WebPage status body \<Rightarrow>
       let rs = parse_bing_results body in
       if rs = [] then Inr (tool_ok ([12300] @ query @ [12301, 26080, 25628, 32034, 32467, 26524, 12290]))
       else Inr (tool_ok (sanitize ([12300] @ query @ [12301, 25628, 32034, 32467, 26524, 65306, 10] @ render_results 1 (take MAX_RESULTS rs)))))"

end
