(* ===== verification/Tool_Exec.thy ===== *)
theory Tool_Exec
  imports Tools Run_Driver
begin

text \<open>
  The executor of tool calls, \<open>crates/oc-server/src/tools_bridge.rs\<close>: the two gates a tool can wait at, and
  \<open>run\<close>, which finds the tool, decodes its arguments, invokes it within its time and writes the working
  directory back.  Progress chunks of a tool are not modelled.  \<open>'j\<close> is a JSON value.
\<close>

section \<open>The gates\<close>

text \<open>How the wait at a gate ends: the run is cancelled, the peer is gone, the answer comes, or the sender of
  the answer is dropped.\<close>

datatype 'a gate_end = GateCancelled | GateClosed | GateReply 'a | GateDropped

definition approval_of :: "bool gate_end \<Rightarrow> bool" where
  "approval_of e = (case e of GateReply b \<Rightarrow> b | _ \<Rightarrow> False)"

text \<open>The pending requests are the list of their identifiers; the guard takes the identifier out however the
  wait ends.  The event is sent whether or not the peer takes it.\<close>

definition request_approval :: "rstr \<Rightarrow> rstr \<Rightarrow> rstr \<Rightarrow> rstr \<Rightarrow> rstr \<Rightarrow> bool gate_end \<Rightarrow> rstr list \<times> world \<Rightarrow> bool \<times> rstr list \<times> world" where
  "request_approval aid sid rid summary command how st = (case st of (pend, w) \<Rightarrow>
     let s = snd (sink_send (EvApproval sid aid rid summary command) (w_sink w))
     in (approval_of how, removeAll aid (aid # pend),
         w\<lparr> w_sink := s, w_emitted := w_emitted w @ [EvApproval sid aid rid summary command],
            w_cancelled := w_cancelled w \<or> how = GateClosed \<rparr>))"

definition input_of :: "rstr option gate_end \<Rightarrow> rstr option" where
  "input_of e = (case e of GateReply b \<Rightarrow> b | _ \<Rightarrow> None)"

definition request_input :: "rstr \<Rightarrow> rstr \<Rightarrow> rstr \<Rightarrow> rstr \<Rightarrow> rstr option gate_end \<Rightarrow> rstr list \<times> world \<Rightarrow> rstr option \<times> rstr list \<times> world" where
  "request_input iid sid rid prompt how st = (case st of (pend, w) \<Rightarrow>
     let s = snd (sink_send (EvUserInput sid iid rid prompt) (w_sink w))
     in (input_of how, removeAll iid (iid # pend),
         w\<lparr> w_sink := s, w_emitted := w_emitted w @ [EvUserInput sid iid rid prompt],
            w_cancelled := w_cancelled w \<or> (how = GateClosed \<and> \<not> is_detached s) \<rparr>))"

section \<open>Running a tool\<close>

datatype tool_kind = TkFile | TkSys | TkExec | TkProcess | TkMessage | TkAskUser | TkCron | TkFetch | TkSearch

record ('f, 'j, 'z) tool_env =
  tl_os :: "'f os"
  tl_shell :: "'f shell"
  tl_lc :: "rstr \<Rightarrow> rstr"
  tl_mode :: approval_mode
  tl_roots :: "path list"
  tl_tz :: "'z tz_env"
  tl_tz_name :: rstr
  tl_initial :: path
  tl_json :: "rstr \<Rightarrow> rstr + 'j"
  tl_file_args :: "'j \<Rightarrow> rstr + file_args"
  tl_sys_args :: "'j \<Rightarrow> rstr + sys_args"
  tl_cron_args :: "'j \<Rightarrow> rstr + cron_args"
  tl_string :: "rstr \<Rightarrow> 'j \<Rightarrow> rstr + rstr"
  tl_cron :: "(cron_op \<Rightarrow> rstr + rstr) option"
  tl_get :: "rstr \<Rightarrow> web_end"
  tl_search :: "rstr \<Rightarrow> web_end"
  tl_approvals :: bool
  tl_inputs :: bool
  tl_handoff :: bool

record 'f tool_state =
  tx_files :: 'f
  tx_cwds :: "rstr \<Rightarrow> path option"
  tx_started :: "rstr list"

text \<open>One call: how its waits end, the time, and whether the tool's own limit strikes first.\<close>

record call_inputs =
  ci_approval :: "bool wait"
  ci_input :: "rstr wait"
  ci_secs :: int
  ci_timeout :: bool

definition decoded :: "(rstr + 'a) \<Rightarrow> ('a \<Rightarrow> (tool_error + tool_output) \<times> 's) \<Rightarrow> 's \<Rightarrow> (tool_error + tool_output) \<times> 's" where
  "decoded r f s = (case r of Inl e \<Rightarrow> (Inl (BadArgs e), s) | Inr a \<Rightarrow> f a)"

definition tool_names :: "(rstr \<times> tool_kind) list" where
  "tool_names = [(lit ''file'', TkFile), (lit ''sys'', TkSys), (lit ''exec'', TkExec), (lit ''process'', TkProcess),
     (lit ''message'', TkMessage), (lit ''ask_user'', TkAskUser), (lit ''cron'', TkCron), (lit ''web_fetch'', TkFetch),
     (lit ''web_search'', TkSearch)]"

text \<open>The invocation of a tool on the files and the commands started in the background; \<open>None\<close> is a panic.\<close>

definition invoke :: "('f, 'j, 'z) tool_env \<Rightarrow> call_inputs \<Rightarrow> tool_kind \<Rightarrow> 'j \<Rightarrow> path \<Rightarrow> 'f \<times> rstr list \<Rightarrow> ((tool_error + tool_output) \<times> 'f \<times> rstr list) option" where
  "invoke te ci k j cwd st = (case st of (fs, bg) \<Rightarrow> (case k of
     TkFile \<Rightarrow> Some (decoded (tl_file_args te j) (\<lambda>a. case file_invoke (tl_os te) (tl_roots te) cwd a fs of (r, fs') \<Rightarrow> (r, fs', bg)) st)
   | TkSys \<Rightarrow> Some (decoded (tl_sys_args te j) (\<lambda>a. (sys_invoke (tl_os te) (tl_tz te) (tl_roots te) (tl_tz_name te) (ci_secs ci) cwd a fs, st)) st)
   | TkExec \<Rightarrow> Some (decoded (tl_string te (lit ''command'') j)
       (\<lambda>c. case exec_invoke (tl_shell te) (tl_lc te) (tl_mode te) (tl_approvals te) (ci_approval ci) cwd c fs of (r, fs') \<Rightarrow> (r, fs', bg)) st)
   | TkProcess \<Rightarrow> Some (decoded (tl_string te (lit ''command'') j)
       (\<lambda>c. case process_invoke (tl_shell te) (tl_handoff te) cwd c of (started, r) \<Rightarrow> (r, fs, if started then bg @ [trim c] else bg)) st)
   | TkMessage \<Rightarrow> Some (decoded (tl_string te (lit ''text'') j) (\<lambda>s. (message_invoke s, st)) st)
   | TkAskUser \<Rightarrow> Some (decoded (tl_string te (lit ''prompt'') j) (\<lambda>s. (ask_user_invoke (tl_inputs te) (ci_input ci) s, st)) st)
   | TkCron \<Rightarrow> Some (decoded (tl_cron_args te j) (\<lambda>a. (cron_invoke (tl_cron te) a, st)) st)
   | TkFetch \<Rightarrow> (case tl_string te (lit ''url'') j of
        Inl e \<Rightarrow> Some (Inl (BadArgs e), st)
      | Inr u \<Rightarrow> map_option (\<lambda>r. (r, st)) (web_fetch_invoke (tl_lc te) (tl_get te) u))
   | TkSearch \<Rightarrow> Some (decoded (tl_string te (lit ''query'') j) (\<lambda>s. (web_search_invoke (tl_search te) s, st)) st)))"

definition tool_answer :: "tool_error + tool_output \<Rightarrow> tool_status \<times> rstr" where
  "tool_answer r = (case r of
     Inr o1 \<Rightarrow> (if to_success o1 then TsOk else TsError, to_content o1)
   | Inl Denied \<Rightarrow> (TsError, [24037, 20855, 35843, 29992, 34987, 23457, 25209, 25298, 32477])
   | Inl ToolAborted \<Rightarrow> (TsAborted, [24037, 20855, 34987, 20013, 27490])
   | Inl e \<Rightarrow> (TsError, ([24037, 20855, 38169, 35823] @ lit '': '') @ tool_error_text e))"

definition executor_run :: "('f, 'j, 'z) tool_env \<Rightarrow> call_inputs \<Rightarrow> rstr \<Rightarrow> rstr \<Rightarrow> rstr \<Rightarrow> 'f tool_state \<Rightarrow> ((tool_status \<times> rstr) \<times> 'f tool_state) option" where
  "executor_run te ci nm args sid st =
     (case map_of tool_names nm of
        None \<Rightarrow> Some ((TsError, ([26410, 30693, 24037, 20855] @ lit '': '') @ nm), st)
      | Some k \<Rightarrow>
          (case tl_json te args of
             Inl e \<Rightarrow> Some ((TsError, ([21442, 25968, 35299, 26512, 22833, 36133] @ lit '': '') @ e), st)
           | Inr j \<Rightarrow>
               let cwd = (case tx_cwds st sid of Some c \<Rightarrow> c | None \<Rightarrow> tl_initial te)
               in map_option (\<lambda>(r, fs, bg).
                    let st' = st\<lparr> tx_files := fs, tx_started := bg \<rparr>
                    in if ci_timeout ci then ((TsError, [24037, 20855, 36229, 26102]), st')
                       else (tool_answer r, (case r of
                          Inr o1 \<Rightarrow> (case to_new_cwd o1 of Some d \<Rightarrow> st'\<lparr>tx_cwds := (tx_cwds st')(sid \<mapsto> d)\<rparr> | None \<Rightarrow> st')
                        | Inl _ \<Rightarrow> st')))
                    (invoke te ci k j cwd (tx_files st, tx_started st))))"

end
