(* ===== verification/Tool_Safety.thy ===== *)
theory Tool_Safety
  imports Tool_Exec
begin

text \<open>
  What the tools promise: an edit changes the one place its text names, the file tool writes only where a checked
  path leads, a destructive command is not executed without a reply, and a call of a session touches only that
  session's directory.  The last section is a file system with symbolic links, the instance of the
  operating system the hypotheses are checked on.
\<close>

section \<open>Edits\<close>

lemma replace_str_not_Nil:
  assumes "r \<noteq> []" "s \<noteq> []" shows "replace_str p r s \<noteq> []"
proof
  assume e: "replace_str p r s = []"
  show False
  proof (cases "tl (split_str p s) = []")
    case True
    then obtain w where w: "split_str p s = [w]" by (cases "split_str p s") simp_all
    then have "w = s" using join_split_str[of p s] by (simp add: join_def)
    with w have "split_str p s = [s]" by simp
    then show False using e assms by (simp add: replace_str_def join_def)
  next
    case False
    then obtain w ws where "split_str p s = w # ws" "ws \<noteq> []" by (cases "split_str p s") auto
    then show False using e assms by (simp add: replace_str_def join_Cons)
  qed
qed

lemma resolve_needle_found:
  assumes "resolve_needle content old new = Some (needle, repl)" "old \<noteq> []"
  shows "contains content needle" "needle \<noteq> []"
    "(needle, repl) \<in> {(old, new), (replace_str [10] [13, 10] old, replace_str [10] [13, 10] new)}"
  using assms replace_str_not_Nil[of "[13, 10]" old "[10]"]
  by (auto simp: resolve_needle_def split: if_splits)

lemma count_str_pos: "contains s p \<Longrightarrow> p \<noteq> [] \<Longrightarrow> 0 < count_str p s"
  by (cases "find_str s p") (auto simp: find_str_None count_str_def split_str_cut)

text \<open>The pieces of a text between the occurrences of \<open>p\<close>, which are taken from the left and do not overlap.\<close>

fun cut_up :: "rstr \<Rightarrow> rstr \<Rightarrow> rstr list \<Rightarrow> bool" where
  "cut_up p s [] \<longleftrightarrow> False"
| "cut_up p s [w] \<longleftrightarrow> s = w \<and> \<not> contains w p"
| "cut_up p s (w # v # ws) \<longleftrightarrow>
     find_str s p = Some (length w) \<and> (\<exists>rest. s = w @ p @ rest \<and> cut_up p rest (v # ws))"

lemma cut_up_split: "p \<noteq> [] \<Longrightarrow> cut_up p s (split_str p s)"
proof (induction p s rule: split_str.induct)
  case (1 p s)
  show ?case
  proof (cases "find_str s p")
    case None
    then show ?thesis using 1 by (simp add: split_str_cut find_str_None)
  next
    case (Some i)
    let ?rest = "drop (i + length p) s"
    obtain v ws where v: "split_str p ?rest = v # ws" by (cases "split_str p ?rest") auto
    have "length (take i s) = i" using find_str_bound[OF Some] by simp
    moreover have "cut_up p ?rest (v # ws)" using 1(1)[OF 1(2) Some 1(2)] v by simp
    ultimately show ?thesis using 1(2) Some find_str_Some[OF Some] v by (simp add: split_str_cut) blast
  qed
qed

lemma split_str_two:
  assumes "count_str p s = 1" "p \<noteq> []"
  shows "length (split_str p s) = 2" "replace_first p r s = join r (split_str p s)"
proof -
  obtain a b where "s = a @ p @ b" "split_str p s = [a, b]" "find_str s p = Some (length a)"
    using count_str_one[OF assms] by metis
  then show "length (split_str p s) = 2" "replace_first p r s = join r (split_str p s)"
    by (simp_all add: replace_first_def join_def)
qed

text \<open>What an edit did: it wrote the pieces of the content with the replacement between them.\<close>

definition edited :: "'f os \<Rightarrow> 'f \<Rightarrow> path \<Rightarrow> rstr \<Rightarrow> rstr \<Rightarrow> bool \<Rightarrow> rstr option \<Rightarrow> 'f \<Rightarrow> bool" where
  "edited os fs q old new everywhere failure fs' \<longleftrightarrow>
     (\<exists>content ws needle repl. os_read os fs q = Inr content \<and> cut_up needle content ws
        \<and> 2 \<le> length ws \<and> (everywhere \<or> length ws = 2)
        \<and> (needle, repl) \<in> {(old, new), (replace_str [10] [13, 10] old, replace_str [10] [13, 10] new)}
        \<and> os_write os fs q (join repl ws) = (failure, fs'))"

lemma file_edit_once:
  assumes "file_edit os fs p old new everywhere = (r, fs')" "old \<noteq> []"
  shows "if \<exists>t. r = Inr t \<and> to_success t then edited os fs p old new everywhere None fs'
    else fs' = fs \<or> (\<exists>e. r = Inl (IoError e) \<and> edited os fs p old new everywhere (Some e) fs')"
proof (cases "os_read os fs p")
  case (Inl e)
  then show ?thesis using assms by (auto simp: file_edit_def)
next
  case (Inr content)
  show ?thesis
  proof (cases "resolve_needle content old new")
    case None
    then show ?thesis using assms Inr by (auto simp: file_edit_def tool_err_def)
  next
    case (Some nr)
    obtain needle repl where nr: "nr = (needle, repl)" by (cases nr) simp
    note found = resolve_needle_found[OF Some[unfolded nr] assms(2)]
    let ?n = "count_str needle content" and ?ws = "split_str needle content"
    show ?thesis
    proof (cases "1 < ?n \<and> \<not> everywhere")
      case True
      then show ?thesis using assms Inr Some nr by (auto simp: file_edit_def tool_err_def)
    next
      case False
      let ?u = "if everywhere then replace_str needle repl content else replace_first needle repl content"
      have pos: "0 < ?n" by (rule count_str_pos[OF found(1,2)])
      have one: "everywhere \<or> ?n = 1" using False pos by linarith
      have len: "2 \<le> length ?ws" "everywhere \<or> length ?ws = 2"
      proof -
        show "2 \<le> length ?ws" using pos by (simp add: count_str_def)
        show "everywhere \<or> length ?ws = 2" using one split_str_two(1)[OF _ found(2)] by blast
      qed
      have u: "?u = join repl ?ws"
      proof (cases everywhere)
        case False
        then have "?n = 1" using one by simp
        with False show ?thesis using split_str_two(2)[OF _ found(2)] by simp
      qed (simp add: replace_str_def)
      have ed: "os_write os fs p ?u = (failure, fs') \<Longrightarrow> edited os fs p old new everywhere failure fs'" for failure
        unfolding edited_def u using Inr cut_up_split[OF found(2)] len found(3) by blast
      show ?thesis
      proof (cases "fst (os_write os fs p ?u)")
        case None
        then have "os_write os fs p ?u = (None, fs')" "\<exists>t. r = Inr t \<and> to_success t"
          using assms(1) Inr Some nr False
          by (auto simp: file_edit_def Let_def tool_ok_def split: prod.splits option.splits if_splits)
        then show ?thesis using ed by simp
      next
        case (Some e)
        then have "r = Inl (IoError e)" "os_write os fs p ?u = (Some e, fs')"
          using assms(1) Inr \<open>resolve_needle content old new = Some nr\<close> nr False
          by (auto simp: file_edit_def Let_def split: prod.splits if_splits)
        then show ?thesis using ed by simp
      qed
    qed
  qed
qed

section \<open>Where a file call writes\<close>

text \<open>What a file system promises about writing: a content that changes is the one the path leads to afterwards, and
  making directories changes no content.  \<open>peek\<close> is the content at a place without links.\<close>

definition writes_where :: "'f os \<Rightarrow> ('f \<Rightarrow> path \<Rightarrow> rstr option) \<Rightarrow> bool" where
  "writes_where os peek \<longleftrightarrow>
     (\<forall>fs p c x. peek (snd (os_write os fs p c)) x \<noteq> peek fs x \<longrightarrow> os_canon os (snd (os_write os fs p c)) p = Inr x)
   \<and> (\<forall>fs p c x. peek (snd (os_append os fs p c)) x \<noteq> peek fs x \<longrightarrow> os_canon os (snd (os_append os fs p c)) p = Inr x)
   \<and> (\<forall>fs p x. peek (snd (os_mkdirs os fs p)) x = peek fs x)"

definition written_path :: "file_args \<Rightarrow> rstr option" where
  "written_path args = (case args of FWrite p c \<Rightarrow> Some p | FAppend p c \<Rightarrow> Some p | FEdit p old new e \<Rightarrow> Some p | _ \<Rightarrow> None)"

lemma file_write_where:
  "writes_where os peek \<Longrightarrow> file_write os fs p c = (r, fs') \<Longrightarrow> peek fs' x \<noteq> peek fs x \<Longrightarrow> os_canon os fs' p = Inr x"
  by (auto simp: writes_where_def file_write_def split: if_splits prod.splits option.splits)
    (metis snd_conv)+

lemma file_append_where:
  "writes_where os peek \<Longrightarrow> file_append os fs p c = (r, fs') \<Longrightarrow> peek fs' x \<noteq> peek fs x \<Longrightarrow> os_canon os fs' p = Inr x"
  by (auto simp: writes_where_def file_append_def split: if_splits prod.splits option.splits)
    (metis snd_conv)+

lemma file_edit_where:
  "writes_where os peek \<Longrightarrow> file_edit os fs p old new e = (r, fs') \<Longrightarrow> peek fs' x \<noteq> peek fs x \<Longrightarrow> os_canon os fs' p = Inr x"
  by (auto simp: writes_where_def file_edit_def Let_def split: if_splits prod.splits option.splits sum.splits)
    (metis snd_conv)+

lemma on_path_cases:
  assumes "on_path os fs roots cwd p f = (r, fs')" "fs' \<noteq> fs"
  shows "\<exists>q. file_check os fs p cwd roots = Inr q \<and> in_roots os fs roots q \<and> f q = (r, fs')"
  using assms by (auto simp: on_path_def file_check_def resolve_in_roots_def Let_def split: sum.splits if_splits)

text \<open>C11. A call of the file tool changes a content only at the place to which a path leads that the guard has
  let through, a path below one of the allowed roots; when that path is not a link, the place is below a root too.\<close>

theorem file_writes_checked:
  assumes w: "writes_where os peek"
    and inv: "file_invoke os roots cwd args fs = (r, fs')"
    and x: "peek fs' x \<noteq> peek fs x"
  shows "\<exists>p q. written_path args = Some p \<and> file_check os fs p cwd roots = Inr q \<and> in_roots os fs roots q
    \<and> os_canon os fs' q = Inr x \<and> (os_canon os fs' q = Inr q \<longrightarrow> in_roots os fs roots x)"
proof -
  have ne: "fs' \<noteq> fs" using x by auto
  show ?thesis
  proof (cases args)
    case (FWrite p c)
    then have "on_path os fs roots cwd p (\<lambda>q. file_write os fs q c) = (r, fs')" using inv by (simp add: file_invoke_def)
    from on_path_cases[OF this ne] show ?thesis using file_write_where[OF w _ x] FWrite by (auto simp: written_path_def)
  next
    case (FAppend p c)
    then have "on_path os fs roots cwd p (\<lambda>q. file_append os fs q c) = (r, fs')" using inv by (simp add: file_invoke_def)
    from on_path_cases[OF this ne] show ?thesis using file_append_where[OF w _ x] FAppend by (auto simp: written_path_def)
  next
    case (FEdit p old new e)
    then have "on_path os fs roots cwd p (\<lambda>q. file_edit os fs q old new e) = (r, fs')"
      using inv ne by (auto simp: file_invoke_def split: if_splits)
    from on_path_cases[OF this ne] show ?thesis using file_edit_where[OF w _ x] FEdit by (auto simp: written_path_def)
  qed (use inv ne in \<open>auto simp: file_invoke_def on_path_def split: sum.splits\<close>)
qed

section \<open>A file system with links\<close>

datatype node = Folder | Text rstr | Link bool path

type_synonym tree_fs = "path \<Rightarrow> node option"

text \<open>The place a path leads to: the last name need not exist.  The fuel is the limit on names and links.\<close>

fun walk :: "nat \<Rightarrow> tree_fs \<Rightarrow> path \<Rightarrow> path \<Rightarrow> path option" where
  "walk n m d [] = Some d"
| "walk 0 m d (c # cs) = None"
| "walk (Suc n) m d (c # cs) =
     (if c = [46, 46] then walk n m (butlast d) cs
      else case m (d @ [c]) of
        Some (Link absolute t) \<Rightarrow> walk n m (if absolute then [] else d) (t @ cs)
      | Some Folder \<Rightarrow> walk n m (d @ [c]) cs
      | _ \<Rightarrow> if cs = [] then Some (d @ [c]) else None)"

definition fs_place :: "tree_fs \<Rightarrow> path \<Rightarrow> path option" where
  "fs_place m p = walk 40 m [] p"

definition fs_content :: "tree_fs \<Rightarrow> path \<Rightarrow> rstr option" where
  "fs_content m l = (case m l of Some (Text c) \<Rightarrow> Some c | _ \<Rightarrow> None)"

definition fs_put :: "(rstr \<Rightarrow> rstr) \<Rightarrow> tree_fs \<Rightarrow> path \<Rightarrow> rstr option \<times> tree_fs" where
  "fs_put f m p = (case fs_place m p of
     None \<Rightarrow> (Some (lit ''no such file''), m)
   | Some l \<Rightarrow> (case m l of
        Some (Text c) \<Rightarrow> (None, m(l \<mapsto> Text (f c)))
      | None \<Rightarrow> if l = [] then (Some (lit ''is a directory''), m) else (None, m(l \<mapsto> Text (f [])))
      | _ \<Rightarrow> (Some (lit ''is a directory''), m)))"

definition fs_exists :: "tree_fs \<Rightarrow> path \<Rightarrow> bool" where
  "fs_exists m p = (case fs_place m p of None \<Rightarrow> False | Some l \<Rightarrow> l = [] \<or> m l \<noteq> None)"

definition fs_mkdirs :: "tree_fs \<Rightarrow> path \<Rightarrow> rstr option \<times> tree_fs" where
  "fs_mkdirs m p = (None, \<lambda>x. if m x = None \<and> x \<noteq> [] \<and> under x p then Some Folder else m x)"

definition tree_os :: "tree_fs os" where
  "tree_os = \<lparr> os_exists = fs_exists,
     os_canon = (\<lambda>m p. if fs_exists m p then (case fs_place m p of Some l \<Rightarrow> Inr l | None \<Rightarrow> Inl []) else Inl (lit ''no such file'')),
     os_is_dir = (\<lambda>m p. case fs_place m p of Some l \<Rightarrow> l = [] \<or> m l = Some Folder | None \<Rightarrow> False),
     os_read = (\<lambda>m p. case Option.bind (fs_place m p) (fs_content m) of Some c \<Rightarrow> Inr c | None \<Rightarrow> Inl (lit ''no such file'')),
     os_write = (\<lambda>m p c. fs_put (\<lambda>_. c) m p), os_append = (\<lambda>m p c. fs_put (\<lambda>old. old @ c) m p),
     os_mkdirs = fs_mkdirs, os_len = (\<lambda>m p. map_option byte_len (Option.bind (fs_place m p) (fs_content m))),
     os_list = (\<lambda>m p. Inr []), os_stat = (\<lambda>m p. Inl []), os_walk = (\<lambda>m p. [p]), os_glob = (\<lambda>m p pat. Inr []),
     os_regex = (\<lambda>p. Inr (\<lambda>l. contains l p)), os_home = None \<rparr>"

lemma walk_put:
  "walk n m d cs = Some l \<Longrightarrow> m l = None \<or> m l = Some (Text c0) \<Longrightarrow> walk n (m(l \<mapsto> Text c)) d cs = Some l"
  by (induction n m d cs rule: walk.induct) (auto split: if_splits option.splits node.splits)

lemma fs_put_where:
  assumes "fs_content (snd (fs_put f m p)) x \<noteq> fs_content m x"
  shows "fs_place (snd (fs_put f m p)) p = Some x" "snd (fs_put f m p) x \<noteq> None"
proof -
  obtain l c0 c where "fs_place m p = Some l" "m l = None \<or> m l = Some (Text c0)" "snd (fs_put f m p) = m(l \<mapsto> Text c)"
    using assms by (auto simp: fs_put_def split: option.splits node.splits if_splits)
  moreover from this have "x = l" using assms by (auto simp: fs_content_def split: if_splits)
  ultimately show "fs_place (snd (fs_put f m p)) p = Some x" "snd (fs_put f m p) x \<noteq> None"
    by (simp_all add: fs_place_def walk_put)
qed

lemma tree_os_writes: "writes_where tree_os fs_content"
  unfolding writes_where_def
proof (intro conjI allI impI)
  fix fs p x show "fs_content (snd (os_mkdirs tree_os fs p)) x = fs_content fs x"
    by (simp add: tree_os_def fs_mkdirs_def fs_content_def)
qed (use fs_put_where in \<open>simp_all add: tree_os_def fs_exists_def\<close>)

definition plain_tree :: tree_fs where
  "plain_tree = [[lit ''w''] \<mapsto> Folder, [lit ''etc''] \<mapsto> Folder]"

definition plain_after :: tree_fs where
  "plain_after = snd (file_invoke tree_os [[lit ''w'']] [lit ''w''] (FWrite (lit ''a'') (lit ''x'')) plain_tree)"

lemma file_writes_checked_witness:
  "os_canon tree_os plain_after [lit ''w'', lit ''a''] = Inr [lit ''w'', lit ''a'']
   \<and> in_roots tree_os plain_tree [[lit ''w'']] [lit ''w'', lit ''a'']"
proof -
  let ?args = "FWrite (lit ''a'') (lit ''x'')"
  have "file_invoke tree_os [[lit ''w'']] [lit ''w''] ?args plain_tree
    = (fst (file_invoke tree_os [[lit ''w'']] [lit ''w''] ?args plain_tree), plain_after)" by (simp add: plain_after_def)
  moreover have "fs_content plain_after [lit ''w'', lit ''a''] \<noteq> fs_content plain_tree [lit ''w'', lit ''a'']" by code_simp
  ultimately obtain p q where pq: "written_path ?args = Some p" "file_check tree_os plain_tree p [lit ''w''] [[lit ''w'']] = Inr q"
    "os_canon tree_os plain_after q = Inr [lit ''w'', lit ''a'']"
    "os_canon tree_os plain_after q = Inr q \<Longrightarrow> in_roots tree_os plain_tree [[lit ''w'']] [lit ''w'', lit ''a'']"
    using file_writes_checked[OF tree_os_writes] by blast
  have "p = lit ''a''" using pq(1) by (simp add: written_path_def)
  moreover have "case file_check tree_os plain_tree (lit ''a'') [lit ''w''] [[lit ''w'']] of Inl _ \<Rightarrow> False | Inr q \<Rightarrow> q = [lit ''w'', lit ''a'']"
    by code_simp
  ultimately have "q = [lit ''w'', lit ''a'']" using pq(2) by simp
  then show ?thesis using pq(3,4) by simp
qed

section \<open>A link without a target\<close>

text \<open>What the operating system does with a link whose target is missing, as the manual pages of \<open>stat\<close> and
  \<open>open\<close> have it: it does not exist for a test that follows links, and writing through it creates its
  target.  Making a directory that is there changes nothing.  \<open>link fs l\<close> is the target of such a link at \<open>l\<close>.\<close>

definition follows_links :: "'f os \<Rightarrow> ('f \<Rightarrow> path \<Rightarrow> rstr option) \<Rightarrow> ('f \<Rightarrow> path \<Rightarrow> path option) \<Rightarrow> bool" where
  "follows_links os peek link \<longleftrightarrow>
     (\<forall>fs l t c. link fs l = Some t \<longrightarrow> \<not> os_exists os fs l \<and> peek fs t = None
        \<and> fst (os_write os fs l c) = None \<and> peek (snd (os_write os fs l c)) t = Some c)
   \<and> (\<forall>fs d. os_canon os fs d = Inr d \<and> os_is_dir os fs d \<longrightarrow> os_exists os fs d \<and> os_mkdirs os fs d = (None, fs))"

definition tree_link :: "tree_fs \<Rightarrow> path \<Rightarrow> path option" where
  "tree_link m l = (case m l of
     Some (Link absolute t0) \<Rightarrow> (case fs_place m l of Some t \<Rightarrow> if t \<noteq> [] \<and> m t = None then Some t else None | None \<Rightarrow> None)
   | _ \<Rightarrow> None)"

lemma under_prefix: "under b p \<longleftrightarrow> prefix b p"
  by (metis under_def append_eq_conv_conj prefix_def)

lemma walk_through_folders:
  "walk n m d cs = Some l \<Longrightarrow> (\<And>x. prefix x d \<Longrightarrow> x \<noteq> [] \<Longrightarrow> m x = Some Folder) \<Longrightarrow>
   prefix x l \<Longrightarrow> x \<noteq> [] \<Longrightarrow> x \<noteq> l \<Longrightarrow> m x = Some Folder"
proof (induction n m d cs arbitrary: l rule: walk.induct)
  case (3 n m d c cs)
  have but: "prefix x (butlast d) \<Longrightarrow> prefix x d" for x by (metis prefixeq_butlast prefix_order.trans)
  have nil: "prefix x [] \<Longrightarrow> x \<noteq> [] \<Longrightarrow> m x = Some Folder" for x by simp
  show ?case
  proof (cases "c = [46, 46]")
    case True
    then show ?thesis using 3(1)[OF True _ _ 3(6,7,8)] 3(4,5) but by simp
  next
    case False
    show ?thesis
    proof (cases "m (d @ [c])")
      case None
      then have "l = d @ [c]" using 3(4) False by (simp split: if_splits)
      then show ?thesis using 3(5-8) by (auto simp: prefix_snoc)
    next
      case (Some nd)
      show ?thesis
      proof (cases nd)
        case Folder
        then show ?thesis using 3(2)[OF False Some Folder _ _ 3(6,7,8)] 3(4,5) Some False by (auto simp: prefix_snoc)
      next
        case (Text t)
        then have "l = d @ [c]" using 3(4) False Some by (simp split: if_splits)
        then show ?thesis using 3(5-8) by (auto simp: prefix_snoc)
      next
        case (Link a t)
        have w: "walk n m (if a then [] else d) (t @ cs) = Some l" using 3(4) Some False Link by simp
        have "m y = Some Folder" if "prefix y (if a then [] else d)" "y \<noteq> []" for y
          using that 3(5) by (cases a) simp_all
        then show ?thesis by (rule 3(3)[OF False Some Link w _ 3(6,7,8)])
      qed
    qed
  qed
qed simp_all

lemma tree_os_links: "follows_links tree_os fs_content tree_link"
  unfolding follows_links_def
proof (intro conjI allI impI)
  fix m l t c assume "tree_link m l = Some t"
  then have "fs_place m l = Some t" "t \<noteq> []" "m t = None" by (auto simp: tree_link_def split: option.splits node.splits if_splits)
  then show "\<not> os_exists tree_os m l" "fs_content m t = None" "fst (os_write tree_os m l c) = None"
    "fs_content (snd (os_write tree_os m l c)) t = Some c"
    by (simp_all add: tree_os_def fs_exists_def fs_put_def fs_content_def)
next
  fix m d assume d: "os_canon tree_os m d = Inr d \<and> os_is_dir tree_os m d"
  then have p: "fs_place m d = Some d" "d = [] \<or> m d = Some Folder" "fs_exists m d"
    by (auto simp: tree_os_def split: if_splits option.splits)
  then have "m x \<noteq> None" if "prefix x d" "x \<noteq> []" for x
    using walk_through_folders[of 40 m "[]" d d x] that by (cases "x = d") (auto simp: fs_place_def)
  then show "os_exists tree_os m d" "os_mkdirs tree_os m d = (None, m)"
    using p(3) by (auto simp: tree_os_def fs_mkdirs_def under_prefix fun_eq_iff)
qed

text \<open>C35. The guard checks a path that does not exist by its directory, and a link whose target is missing does not
  exist: on every system that follows links, a write to such a link in a directory below an allowed root is let through
  and creates the target of the link, wherever that is.\<close>

theorem dangling_link_escapes:
  assumes os: "follows_links os peek link"
    and full: "(case parse_path (expand_home os p) of (absolute, cs) \<Rightarrow> if absolute then cs else cwd @ cs) = dir @ [name]" "name \<noteq> [46, 46]"
    and dir: "os_canon os fs dir = Inr dir" "os_is_dir os fs dir" "in_roots os fs roots (dir @ [name])"
    and link: "link fs (dir @ [name]) = Some t"
  shows "\<exists>fs'. file_invoke os roots cwd (FWrite p content) fs = (Inr (tool_ok (([24050, 20889, 20837] @ lit '' '') @ show_path (dir @ [name]))), fs')
    \<and> peek fs t = None \<and> peek fs' t = Some content"
proof -
  have l: "\<not> os_exists os fs (dir @ [name])" "peek fs t = None" "fst (os_write os fs (dir @ [name]) content) = None"
    "peek (snd (os_write os fs (dir @ [name]) content)) t = Some content"
    using os link unfolding follows_links_def by blast+
  have d: "os_exists os fs dir" "os_mkdirs os fs dir = (None, fs)" using os dir(1,2) unfolding follows_links_def by blast+
  have "file_check os fs p cwd roots = Inr (dir @ [name])"
    using l(1) d(1) dir full by (simp add: file_check_def resolve_in_roots_def candidate_def Let_def)
  then have "file_invoke os roots cwd (FWrite p content) fs = file_write os fs (dir @ [name]) content"
    by (simp add: file_invoke_def on_path_def)
  moreover obtain fs' where "os_write os fs (dir @ [name]) content = (None, fs')" using l(3) by (metis prod.collapse)
  ultimately show ?thesis using l(2,4) d(2) by (simp add: file_write_def)
qed

definition linked_tree :: tree_fs where
  "linked_tree = [[lit ''w''] \<mapsto> Folder, [lit ''etc''] \<mapsto> Folder, [lit ''w'', lit ''a''] \<mapsto> Link True [lit ''etc'', lit ''new'']]"

lemma dangling_link_escapes_witness:
  "(\<exists>fs'. file_invoke tree_os [[lit ''w'']] [lit ''w''] (FWrite (lit ''a'') (lit ''x'')) linked_tree
       = (Inr (tool_ok (([24050, 20889, 20837] @ lit '' '') @ show_path ([lit ''w''] @ [lit ''a'']))), fs')
     \<and> fs_content linked_tree [lit ''etc'', lit ''new''] = None \<and> fs_content fs' [lit ''etc'', lit ''new''] = Some (lit ''x''))
   \<and> \<not> in_roots tree_os linked_tree [[lit ''w'']] [lit ''etc'', lit ''new'']"
proof (intro conjI dangling_link_escapes[OF tree_os_links])
  show "(case parse_path (expand_home tree_os (lit ''a'')) of (absolute, cs) \<Rightarrow> if absolute then cs else [lit ''w''] @ cs) = [lit ''w''] @ [lit ''a'']"
    "lit ''a'' \<noteq> [46, 46]" "os_canon tree_os linked_tree [lit ''w''] = Inr [lit ''w'']" "os_is_dir tree_os linked_tree [lit ''w'']"
    "in_roots tree_os linked_tree [[lit ''w'']] ([lit ''w''] @ [lit ''a''])"
    "tree_link linked_tree ([lit ''w''] @ [lit ''a'']) = Some [lit ''etc'', lit ''new'']"
    "\<not> in_roots tree_os linked_tree [[lit ''w'']] [lit ''etc'', lit ''new'']" by code_simp+
qed

text \<open>C13. An edit that reports success has cut the content of the checked file at the occurrences of its text (or of
  the text with the line ends of the file), taken from the left, and written the pieces with the new text
  between them; without \<open>replace_all\<close> there was exactly one occurrence.  An edit that reports a failure has left
  all files as they were, except that the write of that very text was tried and failed, with its error as the answer.\<close>

theorem edit_is_unique:
  assumes "file_invoke os roots cwd (FEdit p old new everywhere) fs = (r, fs')"
  shows "if \<exists>t. r = Inr t \<and> to_success t
    then \<exists>q. file_check os fs p cwd roots = Inr q \<and> edited os fs q old new everywhere None fs'
    else fs' = fs \<or> (\<exists>q e. file_check os fs p cwd roots = Inr q \<and> r = Inl (IoError e)
                        \<and> edited os fs q old new everywhere (Some e) fs')"
proof (cases "old = [] \<or> old = new")
  case True
  then show ?thesis using assms by (auto simp: file_invoke_def split: if_splits)
next
  case False
  then have on: "on_path os fs roots cwd p (\<lambda>q. file_edit os fs q old new everywhere) = (r, fs')"
    using assms by (simp add: file_invoke_def)
  show ?thesis
  proof (cases "file_check os fs p cwd roots")
    case (Inl e)
    then show ?thesis using on by (auto simp: on_path_def)
  next
    case (Inr q)
    then have "file_edit os fs q old new everywhere = (r, fs')" using on by (simp add: on_path_def)
    from file_edit_once[OF this] False Inr show ?thesis by (simp split: if_splits)
  qed
qed

definition edit_tree :: tree_fs where
  "edit_tree = plain_tree([lit ''w'', lit ''a''] \<mapsto> Text (lit ''two one two''))"

lemma edit_is_unique_witness:
  "case file_invoke tree_os [[lit ''w'']] [lit ''w''] (FEdit (lit ''a'') (lit ''two'') (lit ''2'') True) edit_tree of (r, fs') \<Rightarrow>
     (\<exists>t. r = Inr t \<and> to_success t) \<and> fs_content fs' [lit ''w'', lit ''a''] = Some (lit ''2 one 2'')
   \<and> (\<exists>q. file_check tree_os edit_tree (lit ''a'') [lit ''w''] [[lit ''w'']] = Inr q
        \<and> edited tree_os edit_tree q (lit ''two'') (lit ''2'') True None fs')"
proof -
  obtain r fs' where e: "file_invoke tree_os [[lit ''w'']] [lit ''w''] (FEdit (lit ''a'') (lit ''two'') (lit ''2'') True) edit_tree = (r, fs')"
    by fastforce
  have "case file_invoke tree_os [[lit ''w'']] [lit ''w''] (FEdit (lit ''a'') (lit ''two'') (lit ''2'') True) edit_tree of (r, fs') \<Rightarrow>
     (case r of Inr t \<Rightarrow> to_success t | Inl _ \<Rightarrow> False) \<and> fs_content fs' [lit ''w'', lit ''a''] = Some (lit ''2 one 2'')" by code_simp
  then have s: "\<exists>t. r = Inr t \<and> to_success t" "fs_content fs' [lit ''w'', lit ''a''] = Some (lit ''2 one 2'')"
    unfolding e by (auto split: sum.splits)
  show ?thesis using edit_is_unique[OF e] unfolding e if_P[OF s(1)] using s by simp
qed

section \<open>The executor\<close>

lemma trim_idem: "trim (trim s) = trim s"
  using trim_ends[of s] by (intro trim_id) auto

lemma exec_asks:
  assumes "exec_invoke sh lc mode has_gate w cwd raw fs = (r, fs')" "fs' \<noteq> fs"
    "classify_command lc (trim raw) \<noteq> Safe" "mode \<noteq> Allow"
  shows "mode = Prompt \<and> has_gate \<and> w = WaitAnswer (Some True)"
proof (cases mode)
  case Prompt
  then have ask: "approval_decision (classify_command lc (trim raw)) mode = AskUser"
    using assms(3) by (cases "classify_command lc (trim raw)") (simp_all add: approval_decision_def)
  show ?thesis
  proof (cases "has_gate \<and> w = WaitAnswer (Some True)")
    case False
    then have "snd (exec_invoke sh lc mode has_gate w cwd raw fs) = fs"
      unfolding exec_invoke_def Let_def ask by (cases w) (auto simp: approval_reply_def split: option.splits)
    then show ?thesis using assms(1,2) by simp
  qed (use Prompt in simp)
next
  case Deny
  then show ?thesis using assms(1,2) by (simp add: exec_invoke_def Let_def approval_decision_def split: if_splits)
qed (use assms(4) in simp)

abbreviation session_cwd :: "('f, 'j, 'z) tool_env \<Rightarrow> 'f tool_state \<Rightarrow> rstr \<Rightarrow> path" where
  "session_cwd te st sid \<equiv> (case tx_cwds st sid of Some c \<Rightarrow> c | None \<Rightarrow> tl_initial te)"

lemma executor_call:
  assumes "map_of tool_names nm = Some k" "tl_json te args = Inr j"
    "invoke te ci k j (session_cwd te st sid) (tx_files st, tx_started st) = Some (r, fs', bg')"
    "executor_run te ci nm args sid st = Some (answer, st')"
  shows "tx_files st' = fs'" "tx_started st' = bg'" "answer = (if ci_timeout ci then (TsError, [24037, 20855, 36229, 26102]) else tool_answer r)"
    "tx_cwds st' = tx_cwds st
     \<or> (\<exists>o1 d. \<not> ci_timeout ci \<and> r = Inr o1 \<and> to_new_cwd o1 = Some d \<and> tx_cwds st' = (tx_cwds st)(sid \<mapsto> d))"
proof -
  have e: "(answer, st') = (let st' = st\<lparr> tx_files := fs', tx_started := bg' \<rparr>
                    in if ci_timeout ci then ((TsError, [24037, 20855, 36229, 26102]), st')
                       else (tool_answer r, (case r of
                          Inr o1 \<Rightarrow> (case to_new_cwd o1 of Some d \<Rightarrow> st'\<lparr>tx_cwds := (tx_cwds st')(sid \<mapsto> d)\<rparr> | None \<Rightarrow> st')
                        | Inl _ \<Rightarrow> st')))"
    using assms(4) unfolding executor_run_def assms(1,2) option.case sum.case Let_def assms(3) by simp
  consider "ci_timeout ci" | e1 where "\<not> ci_timeout ci" "r = Inl e1" | o1 where "\<not> ci_timeout ci" "r = Inr o1" "to_new_cwd o1 = None"
    | o1 d where "\<not> ci_timeout ci" "r = Inr o1" "to_new_cwd o1 = Some d" by (metis sum.exhaust option.exhaust)
  then show "tx_files st' = fs'" "tx_started st' = bg'" "answer = (if ci_timeout ci then (TsError, [24037, 20855, 36229, 26102]) else tool_answer r)"
    "tx_cwds st' = tx_cwds st
     \<or> (\<exists>o1 d. \<not> ci_timeout ci \<and> r = Inr o1 \<and> to_new_cwd o1 = Some d \<and> tx_cwds st' = (tx_cwds st)(sid \<mapsto> d))"
    using e by (cases, simp_all add: Let_def)+
qed

lemma tool_kinds: "map_of tool_names (lit ''exec'') = Some TkExec" "map_of tool_names (lit ''process'') = Some TkProcess"
  "map_of tool_names (lit ''file'') = Some TkFile" "map_of tool_names (lit ''sys'') = Some TkSys"
  by code_simp+

text \<open>The commands that want a decision, read off the lower-cased text: a destructive pattern, a download fed
  to a shell, a write to a system directory, a rise of privileges.\<close>

definition risky :: "rstr \<Rightarrow> bool" where
  "risky low \<longleftrightarrow> (\<exists>d. d \<in> set danger_substrings \<and> contains low d)
     \<or> (contains low (lit ''curl'') \<or> contains low (lit ''wget'')) \<and> (contains low (lit ''| sh'') \<or> contains low (lit ''| bash''))
     \<or> (is_write low \<and> (\<exists>p. p \<in> set system_paths \<and> contains low p))
     \<or> starts_with low (lit ''sudo '') \<or> starts_with low (lit ''su '') \<or> starts_with low (lit ''runas'')"

lemma risky_not_safe: "risky (lc (trim cmd)) \<Longrightarrow> classify_command lc (trim cmd) \<noteq> Safe"
  by (auto simp: risky_def classify_command_def trim_idem Let_def simp del: lit_Cons)

text \<open>For an ASCII command the case and the place of a destructive pattern do not matter.\<close>

lemma ascii_risky:
  assumes "\<And>s. \<forall>c \<in> set s. c < 128 \<Longrightarrow> lc s = to_ascii_lowercase s" "\<forall>c \<in> set cmd. c < 128"
    "d \<in> set solid_dangers" "contains (to_ascii_lowercase cmd) d"
  shows "risky (lc (trim cmd))"
proof -
  have "lc (trim cmd) = trim (to_ascii_lowercase cmd)"
    using assms(1)[of "trim cmd"] assms(2) set_trim[of cmd] by (auto simp: trim_to_ascii_lowercase)
  then show ?thesis using contains_trim[OF assms(4)] solid_dangers_shape[OF assms(3)] by (auto simp: risky_def)
qed


text \<open>A session with the tree above.\<close>

definition echo_shell :: "tree_fs shell" where
  "echo_shell = \<lparr> sh_run = (\<lambda>cwd cmd m. (CmdExit [] [] (Some 0), m([lit ''etc'', lit ''out''] \<mapsto> Text cmd))), sh_start = (\<lambda>cwd cmd. None),
     dec_utf8 = (\<lambda>bs. Some []), dec_gbk = (\<lambda>bs. None), dec_lossy = (\<lambda>bs. []) \<rparr>"

definition demo_tools :: "approval_mode \<Rightarrow> (tree_fs, rstr, unit) tool_env" where
  "demo_tools mode = \<lparr> tl_os = tree_os, tl_shell = echo_shell, tl_lc = to_ascii_lowercase, tl_mode = mode, tl_roots = [[lit ''w'']],
     tl_tz = still_env, tl_tz_name = [], tl_initial = [lit ''w''], tl_json = Inr, tl_file_args = (\<lambda>j. Inr (FRead j)),
     tl_sys_args = (\<lambda>j. Inr (SysCd j)), tl_cron_args = (\<lambda>j. Inl []), tl_string = (\<lambda>k j. Inr j), tl_cron = None,
     tl_get = (\<lambda>u. WebNoAnswer []), tl_search = (\<lambda>q. WebNoAnswer []), tl_approvals = True, tl_inputs = False, tl_handoff = True \<rparr>"

definition demo_call :: "bool option \<Rightarrow> call_inputs" where
  "demo_call reply = \<lparr> ci_approval = WaitAnswer reply, ci_input = WaitCancelled, ci_secs = 0, ci_timeout = False \<rparr>"

definition demo_tool_state :: "tree_fs tool_state" where
  "demo_tool_state = \<lparr> tx_files = plain_tree([lit ''w'', lit ''d''] \<mapsto> Folder), tx_cwds = (\<lambda>_. None), tx_started = [] \<rparr>"

definition exec_after :: "tree_fs tool_state" where
  "exec_after = snd (the (executor_run (demo_tools Prompt) (demo_call (Some True)) (lit ''exec'') (lit ''RM -Rf b'') [] demo_tool_state))"


text \<open>C32. In deny mode \<open>exec\<close> refuses every command, and \<open>process\<close> starts the same command in the background.\<close>

theorem process_skips_approval:
  assumes "tl_json te args = Inr j" "tl_string te (lit ''command'') j = Inr cmd" "trim cmd \<noteq> []" "tl_mode te = Deny"
    "sh_start (tl_shell te) (session_cwd te st sid) (trim cmd) = None" "\<not> ci_timeout ci"
  shows "executor_run te ci (lit ''exec'') args sid st = Some ((TsError, [24037, 20855, 35843, 29992, 34987, 23457, 25209, 25298, 32477]), st)
    \<and> (\<exists>answer. executor_run te ci (lit ''process'') args sid st = Some (answer, st\<lparr> tx_started := tx_started st @ [trim cmd] \<rparr>))"
proof
  have "exec_invoke (tl_shell te) (tl_lc te) (tl_mode te) (tl_approvals te) (ci_approval ci) (session_cwd te st sid) cmd (tx_files st)
    = (Inl Denied, tx_files st)" using assms(3,4) by (simp add: exec_invoke_def Let_def approval_decision_def)
  then have i: "invoke te ci TkExec j (session_cwd te st sid) (tx_files st, tx_started st) = Some (Inl Denied, tx_files st, tx_started st)"
    using assms(2) by (simp add: invoke_def decoded_def)
  show "executor_run te ci (lit ''exec'') args sid st = Some ((TsError, [24037, 20855, 35843, 29992, 34987, 23457, 25209, 25298, 32477]), st)"
    unfolding executor_run_def tool_kinds option.case assms(1) sum.case Let_def i using assms(6) by (simp add: tool_answer_def)
  obtain r where "process_invoke (tl_shell te) (tl_handoff te) (session_cwd te st sid) cmd = (True, r)" "\<forall>o1. r = Inr o1 \<longrightarrow> to_new_cwd o1 = None"
    using assms(3,5) by (auto simp: process_invoke_def Let_def)
  then have i: "invoke te ci TkProcess j (session_cwd te st sid) (tx_files st, tx_started st) = Some (r, tx_files st, tx_started st @ [trim cmd])"
    and n: "\<forall>o1. r = Inr o1 \<longrightarrow> to_new_cwd o1 = None" using assms(2) by (simp_all add: invoke_def decoded_def)
  show "\<exists>answer. executor_run te ci (lit ''process'') args sid st = Some (answer, st\<lparr> tx_started := tx_started st @ [trim cmd] \<rparr>)"
    unfolding executor_run_def tool_kinds option.case assms(1) sum.case Let_def i using assms(6) n by (cases r) simp_all
qed

lemma process_skips_approval_witness:
  "executor_run (demo_tools Deny) (demo_call None) (lit ''exec'') (lit ''rm -rf b'') [] demo_tool_state
      = Some ((TsError, [24037, 20855, 35843, 29992, 34987, 23457, 25209, 25298, 32477]), demo_tool_state)
    \<and> (\<exists>answer. executor_run (demo_tools Deny) (demo_call None) (lit ''process'') (lit ''rm -rf b'') [] demo_tool_state
      = Some (answer, demo_tool_state\<lparr> tx_started := tx_started demo_tool_state @ [trim (lit ''rm -rf b'')] \<rparr>))"
proof (rule process_skips_approval)
  show "trim (lit ''rm -rf b'') \<noteq> []" by code_simp
qed (simp_all add: demo_tools_def demo_call_def echo_shell_def)

lemma file_invoke_cwd:
  assumes "file_invoke os roots cwd args fs = (Inr o1, fs')" shows "to_new_cwd o1 = None"
proof -
  have on: "to_new_cwd o1 = None" if "on_path os fs roots cwd p f = (Inr o1, fs')" "\<And>q. f q = (Inr o1, fs') \<Longrightarrow> to_new_cwd o1 = None" for p f
    using that by (auto simp: on_path_def split: sum.splits)
  have rd: "to_new_cwd o1 = None" if "file_read os fs q g = Inr o1" for q g
    using that by (cases "os_read os fs q") (auto simp: file_read_def tool_ok_def)
  have ed: "to_new_cwd o1 = None" if "file_edit os fs q old new e = (Inr o1, fs')" for q old new e
    using that by (auto simp: file_edit_def tool_ok_def tool_err_def Let_def split: sum.splits option.splits prod.splits if_splits)
  have wr: "to_new_cwd o1 = None" if "file_write os fs q c = (Inr o1, fs') \<or> file_append os fs q c = (Inr o1, fs')" for q c
    using that by (auto simp: file_write_def file_append_def tool_ok_def split: option.splits prod.splits)
  have ls: "to_new_cwd o1 = None" if "file_list os fs q = Inr o1 \<or> file_stat os fs q = Inr o1" for q
    using that by (cases "os_list os fs q"; cases "os_stat os fs q") (auto simp: file_list_def file_stat_def tool_ok_def)
  have gr: "to_new_cwd o1 = None" if "file_grep os fs pat q = Inr o1 \<or> file_glob os fs roots cwd pat = Inr o1" for pat q
    using that by (auto simp: file_grep_def file_glob_def tool_ok_def split: sum.splits)
  show ?thesis
    using assms by (cases args) (auto simp: file_invoke_def dest!: on intro: rd ed wr ls gr split: if_splits)
qed

lemma run_command_cwd: "run_command sh cwd cmd fs = (Inr o1, fs') \<Longrightarrow> to_new_cwd o1 = None"
  by (auto simp: run_command_def Let_def split: prod.splits cmd_end.splits)

lemma exec_invoke_cwd: "exec_invoke sh lc mode g w cwd cmd fs = (Inr o1, fs') \<Longrightarrow> to_new_cwd o1 = None"
  by (auto simp: exec_invoke_def Let_def split: if_splits approval_outcome.splits wait.splits dest: run_command_cwd)

lemma process_invoke_cwd: "process_invoke sh up cwd cmd = (b, Inr o1) \<Longrightarrow> to_new_cwd o1 = None"
  by (auto simp: process_invoke_def Let_def split: if_splits option.splits)

lemma other_tools_cwd:
  "message_invoke s = Inr o1 \<Longrightarrow> to_new_cwd o1 = None"
  "ask_user_invoke g w s = Inr o1 \<Longrightarrow> to_new_cwd o1 = None"
  "cron_invoke c a = Inr o1 \<Longrightarrow> to_new_cwd o1 = None"
  "web_search_invoke f s = Inr o1 \<Longrightarrow> to_new_cwd o1 = None"
  "web_fetch_invoke lc f s = Some (Inr o1) \<Longrightarrow> to_new_cwd o1 = None"
  by (auto simp: message_invoke_def ask_user_invoke_def cron_invoke_def web_search_invoke_def web_fetch_invoke_def Let_def
      tool_ok_def tool_err_def split: if_splits wait.splits option.splits sum.splits web_end.splits)

lemma sys_invoke_cwd:
  "sys_invoke os tzs roots tz now cwd args fs = Inr o1 \<Longrightarrow> to_new_cwd o1 = Some d \<Longrightarrow> \<exists>p. resolve_dir_in_roots os fs p cwd roots = Inr d"
  by (cases args) (auto simp: sys_invoke_def tool_ok_def map_sum_def split: sum.splits)

lemma decoded_Inr: "decoded r f s = (Inr o1, s') \<Longrightarrow> \<exists>a. f a = (Inr o1, s')"
  by (auto simp: decoded_def split: sum.splits)

lemma invoke_new_cwd:
  assumes "invoke te ci k j cwd (fs, bg) = Some (Inr o1, st')" "to_new_cwd o1 = Some d"
  shows "k = TkSys \<and> (\<exists>p. resolve_dir_in_roots (tl_os te) fs p cwd (tl_roots te) = Inr d)"
proof (cases k)
  case TkFile
  then show ?thesis using assms by (auto simp: invoke_def dest!: decoded_Inr split: prod.splits) (metis file_invoke_cwd option.distinct(1))
next
  case TkSys
  then show ?thesis using assms by (auto simp: invoke_def dest!: decoded_Inr dest: sys_invoke_cwd)
next
  case TkExec
  then show ?thesis using assms by (auto simp: invoke_def dest!: decoded_Inr split: prod.splits) (metis exec_invoke_cwd option.distinct(1))
next
  case TkProcess
  then show ?thesis using assms by (auto simp: invoke_def dest!: decoded_Inr split: prod.splits) (metis process_invoke_cwd option.distinct(1))
next
  case TkFetch
  then show ?thesis using assms by (auto simp: invoke_def split: sum.splits dest: other_tools_cwd)
qed (use assms in \<open>auto simp: invoke_def dest!: decoded_Inr dest: other_tools_cwd\<close>)

text \<open>A call changes the working directory of its own session only, and only to a directory below the allowed
  roots.\<close>

theorem session_cwd_guarded:
  assumes run: "executor_run te ci nm args sid st = Some (answer, st')" and new: "tx_cwds st' x \<noteq> tx_cwds st x"
  shows "x = sid \<and> nm = lit ''sys'' \<and> (\<exists>d. tx_cwds st' sid = Some d \<and> os_is_dir (tl_os te) (tx_files st) d
    \<and> in_roots (tl_os te) (tx_files st) (tl_roots te) d)"
proof -
  obtain k where k: "map_of tool_names nm = Some k" using run new by (cases "map_of tool_names nm") (auto simp: executor_run_def)
  obtain j where j: "tl_json te args = Inr j"
    using run new k by (cases "tl_json te args") (auto simp: executor_run_def)
  let ?cwd = "session_cwd te st sid"
  obtain r fs' bg' where i: "invoke te ci k j ?cwd (tx_files st, tx_started st) = Some (r, fs', bg')"
    using run k j by (cases "invoke te ci k j ?cwd (tx_files st, tx_started st)") (auto simp: executor_run_def)
  obtain o1 d where d: "r = Inr o1" "to_new_cwd o1 = Some d" "tx_cwds st' = (tx_cwds st)(sid \<mapsto> d)"
    using executor_call(4)[OF k j i run] new by auto
  have s: "k = TkSys" "\<exists>p. resolve_dir_in_roots (tl_os te) (tx_files st) p ?cwd (tl_roots te) = Inr d"
    using invoke_new_cwd[OF i[unfolded d(1)] d(2)] by auto
  have "nm = lit ''sys''" using k s(1) by (auto simp: tool_names_def split: if_splits)
  moreover have "x = sid" using new d(3) by (auto split: if_splits)
  moreover have "os_is_dir (tl_os te) (tx_files st) d" "in_roots (tl_os te) (tx_files st) (tl_roots te) d"
    using s(2) by (auto simp: resolve_dir_in_roots_def resolve_in_roots_def Let_def split: sum.splits if_splits)
  ultimately show ?thesis using d(3) by simp
qed

definition cd_after :: "tree_fs tool_state" where
  "cd_after = snd (the (executor_run (demo_tools Prompt) (demo_call None) (lit ''sys'') (lit ''d'') [] demo_tool_state))"

lemma session_cwd_guarded_witness:
  "[] = ([] :: rstr) \<and> lit ''sys'' = lit ''sys'' \<and> (\<exists>d. tx_cwds cd_after [] = Some d
    \<and> os_is_dir (tl_os (demo_tools Prompt)) (tx_files demo_tool_state) d
    \<and> in_roots (tl_os (demo_tools Prompt)) (tx_files demo_tool_state) (tl_roots (demo_tools Prompt)) d)"
proof (rule session_cwd_guarded)
  have "case executor_run (demo_tools Prompt) (demo_call None) (lit ''sys'') (lit ''d'') [] demo_tool_state of
        None \<Rightarrow> False | Some _ \<Rightarrow> True" by code_simp
  then show "executor_run (demo_tools Prompt) (demo_call None) (lit ''sys'') (lit ''d'') [] demo_tool_state
      = Some (fst (the (executor_run (demo_tools Prompt) (demo_call None) (lit ''sys'') (lit ''d'') [] demo_tool_state)), cd_after)"
    unfolding cd_after_def by (auto split: option.splits)
  have "tx_cwds cd_after [] = Some [lit ''w'', lit ''d'']" by code_simp
  then show "tx_cwds cd_after [] \<noteq> tx_cwds demo_tool_state []" by (simp add: demo_tool_state_def)
qed

lemma executor_None:
  "executor_run te ci nm args sid st = None \<longleftrightarrow> (\<exists>k j. map_of tool_names nm = Some k \<and> tl_json te args = Inr j
     \<and> invoke te ci k j (session_cwd te st sid) (tx_files st, tx_started st) = None)"
  by (cases "map_of tool_names nm"; cases "tl_json te args") (simp_all add: executor_run_def Let_def)

text \<open>Every call is answered: an unknown tool, arguments that are no JSON and every failure of a tool are
  error answers; the one exception is the panic of \<open>web_fetch\<close> on a page.\<close>

theorem executor_answers:
  "(executor_run te ci nm args sid st = None) \<longleftrightarrow>
     nm = lit ''web_fetch'' \<and> (\<exists>j u status body. tl_json te args = Inr j \<and> tl_string te (lit ''url'') j = Inr u
       \<and> (starts_with u (lit ''http://'') \<or> starts_with u (lit ''https://''))
       \<and> tl_get te u = WebPage status body \<and> html_to_text (tl_lc te) body = None)"
proof (cases "nm = lit ''web_fetch'' \<and> (\<exists>j. tl_json te args = Inr j)")
  case True
  then obtain j where j: "nm = lit ''web_fetch''" "tl_json te args = Inr j" by blast
  have k: "map_of tool_names nm = Some TkFetch" unfolding j by code_simp
  have i: "invoke te ci TkFetch j cwd fb = None \<longleftrightarrow> (\<exists>u. tl_string te (lit ''url'') j = Inr u
      \<and> web_fetch_invoke (tl_lc te) (tl_get te) u = None)" for cwd fb
    by (cases fb; cases "tl_string te (lit ''url'') j") (simp_all add: invoke_def del: lit_Cons)
  have w: "web_fetch_invoke lc get_url u = None \<longleftrightarrow> (starts_with u (lit ''http://'') \<or> starts_with u (lit ''https://''))
      \<and> (\<exists>status body. get_url u = WebPage status body \<and> html_to_text lc body = None)" for lc get_url u
    by (cases "get_url u") (simp_all add: web_fetch_invoke_def del: lit_Cons)
  have e: "executor_run te ci nm args sid st = None \<longleftrightarrow> invoke te ci TkFetch j (session_cwd te st sid) (tx_files st, tx_started st) = None"
    unfolding executor_None k j(2) by (simp only: option.inject sum.inject ex_simps simp_thms)
  have "executor_run te ci nm args sid st = None \<longleftrightarrow> (\<exists>u status body. tl_string te (lit ''url'') j = Inr u
       \<and> (starts_with u (lit ''http://'') \<or> starts_with u (lit ''https://''))
       \<and> tl_get te u = WebPage status body \<and> html_to_text (tl_lc te) body = None)" unfolding e i w by blast
  then show ?thesis unfolding j sum.inject by (simp only: ex_simps simp_thms)
next
  case False
  have some: "invoke te ci k j cwd (fs, bg) \<noteq> None" if "k \<noteq> TkFetch" for k j cwd fs bg
    using that by (cases k) (simp_all add: invoke_def)
  have "executor_run te ci nm args sid st \<noteq> None"
  proof
    assume "executor_run te ci nm args sid st = None"
    then obtain k j where k: "map_of tool_names nm = Some k" "tl_json te args = Inr j"
      "invoke te ci k j (session_cwd te st sid) (tx_files st, tx_started st) = None" unfolding executor_None by blast
    then have "k = TkFetch" using some by metis
    then have "nm = lit ''web_fetch''" using k(1) by (auto simp: tool_names_def split: if_splits)
    then show False using False k(2) by blast
  qed
  then show ?thesis using False by blast
qed

end
