(* ===== verification/Llm_Provider.thy ===== *)
theory Llm_Provider
  imports Proto Tool_Text "HOL-Library.AList"
begin

text \<open>
  The wire of the model providers, \<open>crates/oc-llm\<close>: the splitting of a byte stream into payloads (\<open>sse.rs\<close>),
  the request and the chunks of OpenAI-compatible providers (\<open>openai.rs\<close>) and of Anthropic
  (\<open>anthropic.rs\<close>).  JSON is the data type \<open>json\<close>, an object the list of its members without
  duplicates; the parser of \<open>serde_json\<close> and the values of tool schemas are parameters.  Bytes are numbers below 256.
\<close>

section \<open>JSON\<close>

datatype json = JNull | JBool bool | JInt int | JFloat flt | JStr rstr | JArr "json list" | JObj "(rstr \<times> json) list"

definition jget :: "rstr \<Rightarrow> json \<Rightarrow> json option" where
  "jget k v = (case v of JObj ms \<Rightarrow> map_of ms k | _ \<Rightarrow> None)"

definition jnth :: "nat \<Rightarrow> json \<Rightarrow> json option" where
  "jnth i v = (case v of JArr vs \<Rightarrow> get vs i | _ \<Rightarrow> None)"

definition as_str :: "json \<Rightarrow> rstr option" where
  "as_str v = (case v of JStr s \<Rightarrow> Some s | _ \<Rightarrow> None)"

definition as_u64 :: "json \<Rightarrow> nat option" where
  "as_u64 v = (case v of JInt n \<Rightarrow> if 0 \<le> n \<and> n < 2 ^ 64 then Some (nat n) else None | _ \<Rightarrow> None)"

definition jput :: "rstr \<Rightarrow> json \<Rightarrow> json \<Rightarrow> json" where
  "jput k x v = (case v of JObj ms \<Rightarrow> JObj (AList.update k x ms) | _ \<Rightarrow> JObj [(k, x)])"

definition jput_opt :: "rstr \<Rightarrow> json option \<Rightarrow> json \<Rightarrow> json" where
  "jput_opt k x v = (case x of Some y \<Rightarrow> jput k y v | None \<Rightarrow> v)"

section \<open>Bytes\<close>

text \<open>\<open>String::from_utf8_lossy\<close>: a maximal valid prefix of a sequence that is no character becomes U+FFFD.\<close>

definition follow_bytes :: "nat \<Rightarrow> nat option" where
  "follow_bytes b = (if 194 \<le> b \<and> b \<le> 223 then Some 1 else if 224 \<le> b \<and> b \<le> 239 then Some 2
     else if 240 \<le> b \<and> b \<le> 244 then Some 3 else None)"

definition second_range :: "nat \<Rightarrow> nat \<times> nat" where
  "second_range b = (if b = 224 then (160, 191) else if b = 237 then (128, 159) else if b = 240 then (144, 191)
     else if b = 244 then (128, 143) else (128, 191))"

fun accepted :: "nat \<Rightarrow> nat \<times> nat \<Rightarrow> nat list \<Rightarrow> nat list" where
  "accepted (Suc n) (lo, hi) (b # bs) = (if lo \<le> b \<and> b \<le> hi then b # accepted n (128, 191) bs else [])"
| "accepted _ _ _ = []"

definition decode_char :: "nat \<Rightarrow> nat list \<Rightarrow> rchar" where
  "decode_char b cs = foldl (\<lambda>a c. a * 64 + c mod 64) (b mod 2 ^ (6 - length cs)) cs"

function utf8_lossy :: "nat list \<Rightarrow> rstr" where
  "utf8_lossy [] = []"
| "utf8_lossy (b # bs) =
     (if b < 128 then b # utf8_lossy bs
      else case follow_bytes b of
        None \<Rightarrow> 65533 # utf8_lossy bs
      | Some n \<Rightarrow>
          let cs = accepted n (second_range b) bs
          in (if length cs = n then decode_char b cs else 65533) # utf8_lossy (drop (length cs) bs))"
  by pat_completeness auto
termination
  by (relation "measure length") (auto simp: le_imp_less_Suc)

section \<open>Payloads\<close>

fun drop_cr_rev :: "rstr \<Rightarrow> rstr" where
  "drop_cr_rev (c # s) = (if c = 13 then drop_cr_rev s else c # s)"
| "drop_cr_rev [] = []"

definition sse_line :: "rstr \<Rightarrow> rstr" where
  "sse_line l = rev (drop_cr_rev (rev l))"

text \<open>The loop of \<open>SseBuffer::push\<close>: the payloads of the complete lines, and what stays in the buffer.\<close>

function sse_loop :: "rstr \<Rightarrow> rstr list \<times> rstr" where
  "sse_loop buf = (case position (\<lambda>c. c = 10) buf of
     None \<Rightarrow> ([], buf)
   | Some p \<Rightarrow>
       (case sse_loop (drop (p + 1) buf) of
          (out, rest) \<Rightarrow>
            (case strip_prefix (sse_line (take p buf)) (lit ''data:'') of
               Some r \<Rightarrow> trim r # out | None \<Rightarrow> out, rest)))"
  by pat_completeness auto
termination
proof (relation "measure length", simp)
  fix buf p assume p: "position (\<lambda>c. c = (10 :: rchar)) buf = Some p"
  have "position P s = Some q \<Longrightarrow> q < length s" for P :: "rchar \<Rightarrow> bool" and s q
    by (induction s arbitrary: q) (auto split: if_splits)
  from this[OF p] show "(drop (p + 1) buf, buf) \<in> measure length" by simp
qed

declare sse_loop.simps [simp del]

definition sse_push :: "nat list \<Rightarrow> rstr \<Rightarrow> rstr list \<times> rstr" where
  "sse_push bs buf = sse_loop (buf @ utf8_lossy bs)"

section \<open>Errors\<close>

datatype provider_err =
    Transient rstr | AuthError rstr | Invalid rstr | RateLimited "nat option" | Cancelled | Protocol rstr

definition is_retryable :: "provider_err \<Rightarrow> bool" where
  "is_retryable e = (case e of Transient _ \<Rightarrow> True | RateLimited _ \<Rightarrow> True | _ \<Rightarrow> False)"

definition classify_status :: "nat \<Rightarrow> nat option \<Rightarrow> rstr \<Rightarrow> provider_err" where
  "classify_status status retry_after detail =
     (let d = take 500 detail;
          msg = (if d = [] then lit ''HTTP '' @ show_nat status else lit ''HTTP '' @ show_nat status @ lit '': '' @ d)
      in if status = 401 \<or> status = 403 then AuthError msg
         else if status = 429 then RateLimited retry_after
         else if 400 \<le> status \<and> status \<le> 499 then Invalid msg
         else Transient msg)"

section \<open>OpenAI: the request\<close>

definition max_tokens_field :: "rstr \<Rightarrow> rstr \<Rightarrow> rstr" where
  "max_tokens_field model base_url =
     (let m = to_ascii_lowercase model; u = to_ascii_lowercase base_url in
      if contains u (lit ''deepseek'') \<or> starts_with m (lit ''deepseek'') then lit ''max_tokens''
      else if contains u (lit ''moonshot'') \<or> starts_with m (lit ''kimi'') \<or> starts_with m (lit ''moonshot'')
           \<or> contains u (lit ''bigmodel'') \<or> starts_with m (lit ''glm'') \<or> starts_with m (lit ''mistral'')
      then lit ''max_tokens''
      else lit ''max_completion_tokens'')"

definition with_max_tokens_field :: "rstr \<Rightarrow> rstr option" where
  "with_max_tokens_field field =
     (if field = lit ''max_tokens'' then Some (lit ''max_tokens'')
      else if field = lit ''max_completion_tokens'' then Some (lit ''max_completion_tokens'')
      else None)"

definition role_name :: "msg_role \<Rightarrow> rstr" where
  "role_name r = (case r of MSystem \<Rightarrow> lit ''system'' | MUser \<Rightarrow> lit ''user'' | MAssistant \<Rightarrow> lit ''assistant'' | MTool \<Rightarrow> lit ''tool'')"

definition call_json :: "tool_call_spec \<Rightarrow> json" where
  "call_json tc = JObj [(lit ''id'', JStr (tc_id tc)), (lit ''type'', JStr (lit ''function'')),
     (lit ''function'', JObj [(lit ''name'', JStr (tc_name tc)), (lit ''arguments'', JStr (tc_args tc))])]"

definition message_json :: "message \<Rightarrow> json" where
  "message_json m =
     (let base = JObj [(lit ''role'', JStr (role_name (m_role m)))] in
      if m_role m = MTool then
        jput_opt (lit ''tool_call_id'') (map_option JStr (m_tool_call_id m)) (jput (lit ''content'') (JStr (m_content m)) base)
      else if m_role m = MAssistant \<and> m_tool_calls m \<noteq> [] then
        jput (lit ''tool_calls'') (JArr (map call_json (m_tool_calls m)))
          (jput_opt (lit ''reasoning_content'') (map_option JStr (m_reasoning m))
            (jput (lit ''content'') (if m_content m = [] then JNull else JStr (m_content m)) base))
      else jput (lit ''content'') (JStr (m_content m)) base)"

definition tool_json :: "(rstr \<Rightarrow> json) \<Rightarrow> tool_spec \<Rightarrow> json" where
  "tool_json schema t = JObj [(lit ''type'', JStr (lit ''function'')),
     (lit ''function'', JObj [(lit ''name'', JStr (ts_name t)), (lit ''description'', JStr (ts_description t)),
       (lit ''parameters'', schema (ts_parameters t))])]"

definition openai_messages :: "model_request \<Rightarrow> json list" where
  "openai_messages rq =
     (case rq_system rq of Some s \<Rightarrow> [JObj [(lit ''role'', JStr (lit ''system'')), (lit ''content'', JStr s)]] | None \<Rightarrow> [])
     @ map message_json (rq_messages rq)"

definition openai_body :: "(rstr \<Rightarrow> json) \<Rightarrow> rstr option \<Rightarrow> rstr \<Rightarrow> model_request \<Rightarrow> json" where
  "openai_body schema forced base_url rq =
     (let b0 = JObj [(lit ''model'', JStr (rq_model rq)), (lit ''messages'', JArr (openai_messages rq)), (lit ''stream'', JBool True),
                 (lit ''stream_options'', JObj [(lit ''include_usage'', JBool True)])];
          b1 = (case rq_max_tokens rq of None \<Rightarrow> b0
                | Some mt \<Rightarrow> jput (case forced of Some f \<Rightarrow> f | None \<Rightarrow> max_tokens_field (rq_model rq) base_url) (JInt (int mt)) b0);
          b2 = jput_opt (lit ''temperature'') (map_option JFloat (rq_temperature rq)) b1
      in if rq_tools rq = [] then b2
         else jput (lit ''tool_choice'') (JStr (lit ''auto'')) (jput (lit ''tools'') (JArr (map (tool_json schema) (rq_tools rq))) b2))"

section \<open>OpenAI: the answer\<close>

definition as_u32_of :: "nat \<Rightarrow> nat" where
  "as_u32_of n = n mod 2 ^ 32"

definition jget_or :: "rstr \<Rightarrow> rstr \<Rightarrow> json \<Rightarrow> json option" where
  "jget_or a b v = (case jget a v of Some x \<Rightarrow> Some x | None \<Rightarrow> jget b v)"

definition parse_usage :: "json \<Rightarrow> usage option" where
  "parse_usage v =
     (case jget (lit ''usage'') v of
        None \<Rightarrow> None
      | Some u \<Rightarrow>
          if u = JNull then None
          else let i = as_u32_of (case Option.bind (jget_or (lit ''prompt_tokens'') (lit ''input_tokens'') u) as_u64 of Some n \<Rightarrow> n | None \<Rightarrow> 0);
                   o1 = as_u32_of (case Option.bind (jget_or (lit ''completion_tokens'') (lit ''output_tokens'') u) as_u64 of Some n \<Rightarrow> n | None \<Rightarrow> 0)
               in if i = 0 \<and> o1 = 0 then None else Some \<lparr> us_input = i, us_output = o1 \<rparr>)"

definition call_delta :: "json \<Rightarrow> delta list" where
  "call_delta tc =
     (let idx = (case Option.bind (jget (lit ''index'') tc) as_u64 of Some n \<Rightarrow> n | None \<Rightarrow> 0) in
      if idx \<noteq> 0 then []
      else [DToolCall \<lparr>
        td_call_id = (case Option.bind (jget (lit ''id'') tc) as_str of Some s \<Rightarrow> s | None \<Rightarrow> []),
        td_name = Option.bind (Option.bind (jget (lit ''function'') tc) (jget (lit ''name''))) as_str,
        td_args_chunk = (case Option.bind (Option.bind (jget (lit ''function'') tc) (jget (lit ''arguments''))) as_str of Some s \<Rightarrow> s | None \<Rightarrow> []) \<rparr>])"

definition content_deltas :: "json \<Rightarrow> delta list" where
  "content_deltas d =
     (case Option.bind (jget (lit ''content'') d) as_str of Some t \<Rightarrow> if t = [] then [] else [DText t] | None \<Rightarrow> [])
     @ (case Option.bind (jget (lit ''reasoning_content'') d) as_str of Some t \<Rightarrow> if t = [] then [] else [DReasoning t] | None \<Rightarrow> [])
     @ (case Option.bind (jget (lit ''tool_calls'') d) (jnth 0) of Some tc \<Rightarrow> call_delta tc | None \<Rightarrow> [])"

definition finish_of :: "rstr \<Rightarrow> finish_reason" where
  "finish_of reason = (if reason = lit ''tool_calls'' then FrToolUse else if reason = lit ''length'' then FrLength else FrStop)"

definition parse_chunk :: "(rstr \<Rightarrow> json option) \<Rightarrow> rstr \<Rightarrow> delta list" where
  "parse_chunk pj payload =
     (case pj payload of
        None \<Rightarrow> []
      | Some v \<Rightarrow>
          let choice = Option.bind (jget (lit ''choices'') v) (jnth 0);
              parts = (case Option.bind choice (jget (lit ''delta'')) of Some d \<Rightarrow> content_deltas d | None \<Rightarrow> []);
              usage = (case parse_usage v of Some u \<Rightarrow> [DUsage u] | None \<Rightarrow> []);
              fin = (case Option.bind (Option.bind choice (jget (lit ''finish_reason''))) as_str of
                       Some r \<Rightarrow> [DDone (finish_of r)] | None \<Rightarrow> [])
          in parts @ usage @ fin)"

text \<open>What the body of the answer delivers; it ends after the last item.\<close>

datatype net = NetBytes "nat list" | NetError rstr | NetCancel

fun openai_payloads :: "(rstr \<Rightarrow> json option) \<Rightarrow> rstr list \<Rightarrow> delta list \<times> bool" where
  "openai_payloads pj [] = ([], False)"
| "openai_payloads pj (p # ps) =
     (if p = lit ''[DONE]'' then ([DDone FrStop], True)
      else case openai_payloads pj ps of (ds, stop) \<Rightarrow> (parse_chunk pj p @ ds, stop))"

fun openai_stream :: "(rstr \<Rightarrow> json option) \<Rightarrow> rstr \<Rightarrow> net list \<Rightarrow> (provider_err + delta) list" where
  "openai_stream pj buf [] = []"
| "openai_stream pj buf (NetCancel # ns) = [Inl Cancelled]"
| "openai_stream pj buf (NetError e # ns) = [Inl (Transient e)]"
| "openai_stream pj buf (NetBytes bs # ns) =
     (case sse_push bs buf of
        (ps, buf') \<Rightarrow> (case openai_payloads pj ps of
           (ds, stop) \<Rightarrow> map Inr ds @ (if stop then [] else openai_stream pj buf' ns)))"

text \<open>The answer of the server: none, an error status with its body, or a stream.\<close>

datatype http_answer = NoAnswer rstr | BadStatus nat rstr | Streaming "net list"

definition openai_chat :: "(rstr \<Rightarrow> json option) \<Rightarrow> http_answer \<Rightarrow> provider_err + (provider_err + delta) list" where
  "openai_chat pj a = (case a of
     NoAnswer e \<Rightarrow> Inl (Transient e)
   | BadStatus code body \<Rightarrow> Inl (classify_status code None (trim body))
   | Streaming ns \<Rightarrow> Inr (openai_stream pj [] ns))"

section \<open>Anthropic\<close>

definition anthropic_body :: "model_request \<Rightarrow> json" where
  "anthropic_body rq =
     (let b0 = JObj [(lit ''model'', JStr (rq_model rq)),
                 (lit ''messages'', JArr (map (\<lambda>m. JObj [(lit ''role'', JStr (if m_role m = MAssistant then lit ''assistant'' else lit ''user'')),
                     (lit ''content'', JStr (m_content m))]) (rq_messages rq))),
                 (lit ''stream'', JBool True),
                 (lit ''max_tokens'', JInt (case rq_max_tokens rq of Some n \<Rightarrow> int n | None \<Rightarrow> 4096))]
      in jput_opt (lit ''temperature'') (map_option JFloat (rq_temperature rq))
           (jput_opt (lit ''system'') (map_option JStr (rq_system rq)) b0))"

definition anthropic_event :: "(rstr \<Rightarrow> json option) \<Rightarrow> rstr \<Rightarrow> delta option" where
  "anthropic_event pj payload =
     Option.bind (pj payload) (\<lambda>v. Option.bind (Option.bind (jget (lit ''type'') v) as_str) (\<lambda>ty.
       if ty = lit ''content_block_delta''
       then map_option DText (Option.bind (Option.bind (jget (lit ''delta'') v) (jget (lit ''text''))) as_str)
       else if ty = lit ''message_delta''
       then map_option (\<lambda>r. DDone (if r = lit ''tool_use'' then FrToolUse else if r = lit ''max_tokens'' then FrLength else FrStop))
              (Option.bind (Option.bind (jget (lit ''delta'') v) (jget (lit ''stop_reason''))) as_str)
       else if ty = lit ''message_stop'' then Some (DDone FrStop)
       else None))"

fun anthropic_payloads :: "(rstr \<Rightarrow> json option) \<Rightarrow> rstr list \<Rightarrow> delta list \<times> bool" where
  "anthropic_payloads pj [] = ([], False)"
| "anthropic_payloads pj (p # ps) =
     (case anthropic_event pj p of
        None \<Rightarrow> anthropic_payloads pj ps
      | Some d \<Rightarrow> (case d of
           DDone r \<Rightarrow> ([d], True)
         | _ \<Rightarrow> (case anthropic_payloads pj ps of (ds, stop) \<Rightarrow> (d # ds, stop))))"

fun anthropic_stream :: "(rstr \<Rightarrow> json option) \<Rightarrow> rstr \<Rightarrow> net list \<Rightarrow> (provider_err + delta) list" where
  "anthropic_stream pj buf [] = []"
| "anthropic_stream pj buf (NetCancel # ns) = [Inl Cancelled]"
| "anthropic_stream pj buf (NetError e # ns) = [Inl (Transient e)]"
| "anthropic_stream pj buf (NetBytes bs # ns) =
     (case sse_push bs buf of
        (ps, buf') \<Rightarrow> (case anthropic_payloads pj ps of
           (ds, stop) \<Rightarrow> map Inr ds @ (if stop then [] else anthropic_stream pj buf' ns)))"

end
