(* ===== verification/Llm_Wire.thy ===== *)
theory Llm_Wire
  imports Llm_Provider Run_Safety
begin

text \<open>
  What the wire code promises: the deltas of a stream do not depend on how the network cuts it between
  characters (and do when it cuts inside one), and the requests of a run pair calls with results on the wire.
\<close>

section \<open>Encoding\<close>

definition is_scalar :: "rchar \<Rightarrow> bool" where
  "is_scalar c \<longleftrightarrow> c < 55296 \<or> (57344 \<le> c \<and> c < 1114112)"

definition utf8_char :: "rchar \<Rightarrow> nat list" where
  "utf8_char c =
     (if c < 128 then [c]
      else if c < 2048 then [192 + c div 64, 128 + c mod 64]
      else if c < 65536 then [224 + c div 4096, 128 + c div 64 mod 64, 128 + c mod 64]
      else [240 + c div 262144, 128 + c div 4096 mod 64, 128 + c div 64 mod 64, 128 + c mod 64])"

definition utf8 :: "rstr \<Rightarrow> nat list" where
  "utf8 s = concat (map utf8_char s)"

lemma utf8_simps [simp]: "utf8 [] = []" "utf8 (c # s) = utf8_char c @ utf8 s" "utf8 (s @ t) = utf8 s @ utf8 t"
  by (simp_all add: utf8_def)

lemma accepted_simps [simp]:
  "accepted 0 r bs = []" "accepted (Suc n) r (b # bs) = (if fst r \<le> b \<and> b \<le> snd r then b # accepted n (128, 191) bs else [])"
  "accepted n r [] = []"
  by (cases r, simp_all)+

lemma accepted_numerals [simp]:
  "accepted 1 r (b # bs) = (if fst r \<le> b \<and> b \<le> snd r then [b] else [])"
  "accepted 2 r (b # bs) = (if fst r \<le> b \<and> b \<le> snd r then b # accepted 1 (128, 191) bs else [])"
  "accepted 3 r (b # bs) = (if fst r \<le> b \<and> b \<le> snd r then b # accepted 2 (128, 191) bs else [])"
  using accepted_simps(2)[of 0 r b bs] accepted_simps(2)[of 1 r b bs] accepted_simps(2)[of 2 r b bs] by (simp_all only: numeral_2_eq_2 numeral_3_eq_3 One_nat_def accepted_simps(1))

text \<open>The digits of a character.\<close>

lemma div_4096: "(c :: nat) div 4096 = c div 64 div 64" "c div 262144 = c div 64 div 64 div 64"
  using div_mult2_eq[of c 64 64] div_mult2_eq[of c 64 4096] div_mult2_eq[of "c div 64" 64 64] by simp_all

lemma two_digits:
  assumes "128 \<le> c" "c < 2048"
  obtains x y where "c = 64 * x + y" "2 \<le> x" "x < 32" "y < 64" "utf8_char c = [192 + x, 128 + y]"
proof
  show "c = 64 * (c div 64) + c mod 64" by simp
  show "2 \<le> c div 64" "c div 64 < 32" using assms by auto
  show "utf8_char c = [192 + c div 64, 128 + c mod 64]" using assms by (simp add: utf8_char_def)
qed simp

lemma three_digits:
  assumes "2048 \<le> c" "c < 65536"
  obtains x y z where "c = 4096 * x + 64 * y + z" "x < 16" "y < 64" "z < 64" "utf8_char c = [224 + x, 128 + y, 128 + z]"
proof
  show "c = 4096 * (c div 4096) + 64 * (c div 64 mod 64) + c mod 64"
    unfolding div_4096 using mult_div_mod_eq[of 64 c] mult_div_mod_eq[of 64 "c div 64"] by linarith
  show "c div 4096 < 16" using assms by auto
  show "utf8_char c = [224 + c div 4096, 128 + c div 64 mod 64, 128 + c mod 64]" using assms by (simp add: utf8_char_def)
qed simp_all

lemma four_digits:
  assumes "65536 \<le> c" "c < 1114112"
  obtains w x y z where "c = 262144 * w + 4096 * x + 64 * y + z" "w < 5" "x < 64" "y < 64" "z < 64"
    "utf8_char c = [240 + w, 128 + x, 128 + y, 128 + z]"
proof
  show "c = 262144 * (c div 262144) + 4096 * (c div 4096 mod 64) + 64 * (c div 64 mod 64) + c mod 64"
    unfolding div_4096 using mult_div_mod_eq[of 64 c] mult_div_mod_eq[of 64 "c div 64"] mult_div_mod_eq[of 64 "c div 64 div 64"]
    by linarith
  show "c div 262144 < 5" using assms by auto
  show "utf8_char c = [240 + c div 262144, 128 + c div 4096 mod 64, 128 + c div 64 mod 64, 128 + c mod 64]"
    using assms by (simp add: utf8_char_def)
qed simp_all

lemma low_bits:
  "(x :: nat) < 64 \<Longrightarrow> (128 + x) mod 64 = x" "x < 32 \<Longrightarrow> (192 + x) mod 32 = x"
  "x < 16 \<Longrightarrow> (224 + x) mod 16 = x" "x < 5 \<Longrightarrow> (240 + x) mod 8 = x"
  using mod_mult_self3[of 2 64 x] mod_mult_self3[of 6 32 x] mod_mult_self3[of 14 16 x] mod_mult_self3[of 30 8 x] by simp_all

lemma lossy_char:
  assumes "is_scalar c" shows "utf8_lossy (utf8_char c @ bs) = c # utf8_lossy bs"
proof -
  have "c < 1114112" using assms by (auto simp: is_scalar_def)
  then consider "c < 128" | "128 \<le> c" "c < 2048" | "2048 \<le> c" "c < 65536" | "65536 \<le> c" "c < 1114112"
    by (meson linorder_not_less)
  then show ?thesis
  proof cases
    case 1
    then show ?thesis by (simp add: utf8_char_def)
  next
    case 2
    from two_digits[OF 2] obtain x y where d: "c = 64 * x + y" "2 \<le> x" "x < 32" "y < 64" "utf8_char c = [192 + x, 128 + y]" by blast
    have m: "(192 + x) mod 32 = x" "(128 + y) mod 64 = y" using d(3,4) by (simp_all add: low_bits)
    have f: "follow_bytes (192 + x) = Some 1" "accepted 1 (second_range (192 + x)) ((128 + y) # bs) = [128 + y]" "\<not> 192 + x < 128"
      using d(2-4) by (simp_all add: follow_bytes_def second_range_def)
    have "decode_char (192 + x) [128 + y] = c" using m d(1) by (simp add: decode_char_def)
    then show ?thesis unfolding d(5) using f by (simp add: Let_def)
  next
    case 3
    from three_digits[OF 3] obtain x y z where d: "c = 4096 * x + 64 * y + z" "x < 16" "y < 64" "z < 64"
      "utf8_char c = [224 + x, 128 + y, 128 + z]" by blast
    have m: "(224 + x) mod 16 = x" "(128 + y) mod 64 = y" "(128 + z) mod 64 = z" using d(2-4) by (simp_all add: low_bits)
    have "x = 0 \<Longrightarrow> 32 \<le> y" "x = 13 \<Longrightarrow> y < 32" using d 3 assms by (auto simp: is_scalar_def)
    then have f: "accepted 2 (second_range (224 + x)) ((128 + y) # (128 + z) # bs) = [128 + y, 128 + z]"
      "follow_bytes (224 + x) = Some 2" "\<not> 224 + x < 128"
      using d(2-4) by (auto simp: second_range_def follow_bytes_def)
    have "decode_char (224 + x) [128 + y, 128 + z] = c" using m d(1) by (simp add: decode_char_def)
    then show ?thesis unfolding d(5) using f by (simp add: Let_def)
  next
    case 4
    from four_digits[OF 4] obtain w x y z where d: "c = 262144 * w + 4096 * x + 64 * y + z" "w < 5" "x < 64" "y < 64" "z < 64"
      "utf8_char c = [240 + w, 128 + x, 128 + y, 128 + z]" by blast
    have m: "(240 + w) mod 8 = w" "(128 + x) mod 64 = x" "(128 + y) mod 64 = y" "(128 + z) mod 64 = z" using d(2-5) by (simp_all add: low_bits)
    have "w = 0 \<Longrightarrow> 16 \<le> x" "w = 4 \<Longrightarrow> x < 16" using d 4 by auto
    then have f: "accepted 3 (second_range (240 + w)) ((128 + x) # (128 + y) # (128 + z) # bs) = [128 + x, 128 + y, 128 + z]"
      "follow_bytes (240 + w) = Some 3" "\<not> 240 + w < 128"
      using d(2-5) by (auto simp: second_range_def follow_bytes_def)
    have "decode_char (240 + w) [128 + x, 128 + y, 128 + z] = c" using m d(1) by (simp add: decode_char_def)
    then show ?thesis unfolding d(6) using f by (simp add: Let_def)
  qed
qed

lemma lossy_utf8: "\<forall>c \<in> set s. is_scalar c \<Longrightarrow> utf8_lossy (utf8 s @ bs) = s @ utf8_lossy bs"
  by (induction s) (simp_all add: lossy_char)

text \<open>A character cut in two.\<close>

lemma lossy_rest: "\<forall>b \<in> set bs. 128 \<le> b \<and> b < 192 \<Longrightarrow> utf8_lossy (bs @ cs) = replicate (length bs) 65533 @ utf8_lossy cs"
  by (induction bs) (simp_all add: follow_bytes_def)

lemma utf8_char_bytes:
  assumes "is_scalar c" "128 \<le> c"
  shows "\<exists>h t. utf8_char c = h # t \<and> follow_bytes h = Some (length t) \<and> 128 \<le> h \<and> (\<forall>b \<in> set t. 128 \<le> b \<and> b < 192)"
proof -
  have "c < 1114112" using assms by (auto simp: is_scalar_def)
  then consider "128 \<le> c" "c < 2048" | "2048 \<le> c" "c < 65536" | "65536 \<le> c" "c < 1114112"
    using assms(2) by (meson linorder_not_less)
  then show ?thesis
  proof cases
    case 1
    obtain x y where d: "2 \<le> x" "x < 32" "y < 64" and u: "utf8_char c = [192 + x, 128 + y]" by (rule two_digits[OF 1])
    have "follow_bytes (192 + x) = Some 1" using d by (simp add: follow_bytes_def)
    then show ?thesis using d unfolding u by (intro exI[of _ "192 + x"] exI[of _ "[128 + y]"]) simp
  next
    case 2
    obtain x y z where d: "x < 16" "y < 64" "z < 64" and u: "utf8_char c = [224 + x, 128 + y, 128 + z]" by (rule three_digits[OF 2])
    have "follow_bytes (224 + x) = Some 2" using d by (simp add: follow_bytes_def)
    then show ?thesis using d unfolding u by (intro exI[of _ "224 + x"] exI[of _ "[128 + y, 128 + z]"]) simp
  next
    case 3
    obtain w x y z where d: "w < 5" "x < 64" "y < 64" "z < 64" and u: "utf8_char c = [240 + w, 128 + x, 128 + y, 128 + z]" by (rule four_digits[OF 3])
    have "follow_bytes (240 + w) = Some 3" using d by (simp add: follow_bytes_def)
    then show ?thesis using d unfolding u by (intro exI[of _ "240 + w"] exI[of _ "[128 + x, 128 + y, 128 + z]"]) simp
  qed
qed

lemma accepted_prefix: "prefix (accepted n r bs) bs"
  by (induction n r bs rule: accepted.induct) auto

lemma length_accepted: "length (accepted n r bs) \<le> length bs"
  using accepted_prefix[of n r bs] by (rule prefix_length_le)

text \<open>The bytes of a character before and after a cut: the first part is one replacement character, each
  byte of the second another.\<close>

lemma lossy_cut:
  assumes "is_scalar c" "0 < k" "k < length (utf8_char c)"
  shows "\<exists>n. 0 < n \<and> utf8_lossy (take k (utf8_char c)) = replicate n 65533"
    "utf8_lossy (drop k (utf8_char c) @ bs) = replicate (length (utf8_char c) - k) 65533 @ utf8_lossy bs"
proof -
  have c: "128 \<le> c" using assms(2,3) by (cases "c < 128") (simp_all add: utf8_char_def)
  obtain h t where ht: "utf8_char c = h # t" "follow_bytes h = Some (length t)" "128 \<le> h" and b: "\<forall>b \<in> set t. 128 \<le> b \<and> b < 192"
    using utf8_char_bytes[OF assms(1) c] by blast
  obtain j where j: "k = Suc j" "j < length t" using assms(2,3) ht by (cases k) auto
  let ?cs = "accepted (length t) (second_range h) (take j t)"
  have l: "length ?cs \<le> j" using length_accepted[of "length t" "second_range h" "take j t"] by simp
  have "\<forall>b \<in> set (drop (length ?cs) (take j t)). 128 \<le> b \<and> b < 192"
    using b by (auto dest!: in_set_dropD in_set_takeD)
  then have r: "utf8_lossy (drop (length ?cs) (take j t)) = replicate (j - length ?cs) 65533"
    using lossy_rest[of "drop (length ?cs) (take j t)" "[]"] j by (simp add: min_def)
  have "utf8_lossy (take k (utf8_char c)) = replicate (Suc (j - length ?cs)) 65533"
    using ht j l r by (simp add: Let_def)
  then show "\<exists>n. 0 < n \<and> utf8_lossy (take k (utf8_char c)) = replicate n 65533" by blast
  have "\<forall>b \<in> set (drop j t). 128 \<le> b \<and> b < 192" using b by (auto dest!: in_set_dropD)
  from lossy_rest[OF this, of bs] show "utf8_lossy (drop k (utf8_char c) @ bs) = replicate (length (utf8_char c) - k) 65533 @ utf8_lossy bs"
    using ht j by simp
qed

section \<open>Streams\<close>

lemma position_append: "position P xs = Some i \<Longrightarrow> position P (xs @ ys) = Some i \<and> i < length xs"
  by (induction xs arbitrary: i) (auto split: if_splits)

lemma position_None: "position P xs = None \<longleftrightarrow> (\<forall>x \<in> set xs. \<not> P x)"
  by (induction xs) auto

lemma position_at: "\<forall>x \<in> set xs. \<not> P x \<Longrightarrow> P y \<Longrightarrow> position P (xs @ y # ys) = Some (length xs)"
  by (induction xs) auto

lemma sse_loop_append: "sse_loop a = (out, rest) \<Longrightarrow> sse_loop (a @ b) = (out @ fst (sse_loop (rest @ b)), snd (sse_loop (rest @ b)))"
proof (induction a arbitrary: out rest rule: sse_loop.induct)
  case (1 a)
  show ?case
  proof (cases "position (\<lambda>c. c = 10) a")
    case None
    then show ?thesis using 1 by (simp add: sse_loop.simps[of a])
  next
    case (Some p)
    obtain out' rest' where l: "sse_loop (drop (p + 1) a) = (out', rest')" by fastforce
    note ih = 1(1)[OF Some l]
    have p: "position (\<lambda>c. c = 10) (a @ b) = Some p" "p < length a" using position_append[OF Some] by auto
    then have "drop (p + 1) (a @ b) = drop (p + 1) a @ b" "take p (a @ b) = take p a" by simp_all
    then show ?thesis
      using 1(2) ih unfolding sse_loop.simps[of a] sse_loop.simps[of "a @ b"] Some p(1) option.case l
      by (auto split: option.splits)
  qed
qed

lemma sse_loop_settled: "sse_loop (snd (sse_loop a)) = ([], snd (sse_loop a))"
proof (induction a rule: sse_loop.induct)
  case (1 a)
  show ?case
  proof (cases "position (\<lambda>c. c = 10) a")
    case None
    then have "sse_loop a = ([], a)" by (simp add: sse_loop.simps[of a])
    then show ?thesis by simp
  next
    case (Some p)
    have "snd (sse_loop a) = snd (sse_loop (drop (p + 1) a))" using Some by (simp add: sse_loop.simps[of a] split: prod.splits)
    then show ?thesis using 1[OF Some] by simp
  qed
qed

lemma sse_line_id: "last l \<noteq> 13 \<Longrightarrow> sse_line l = l"
  by (cases l rule: rev_cases) (simp_all add: sse_line_def)

text \<open>A reader of payloads that goes on until it stops: both providers are one.\<close>

locale payload_stream =
  fixes payloads :: "rstr list \<Rightarrow> delta list \<times> bool"
    and stream :: "rstr \<Rightarrow> net list \<Rightarrow> (provider_err + delta) list"
  assumes payloads_Nil: "payloads [] = ([], False)"
    and payloads_append: "payloads (ps @ qs) = (if snd (payloads ps) then payloads ps
          else (fst (payloads ps) @ fst (payloads qs), snd (payloads qs)))"
    and stream_Nil: "stream buf [] = []"
    and stream_Bytes: "stream buf (NetBytes bs # ns) = map Inr (fst (payloads (fst (sse_push bs buf))))
          @ (if snd (payloads (fst (sse_push bs buf))) then [] else stream (snd (sse_push bs buf)) ns)"
begin

lemma stream_chunks:
  assumes "\<forall>s \<in> set ss. \<forall>c \<in> set s. is_scalar c" "sse_loop buf = ([], buf)"
  shows "stream buf (map (\<lambda>s. NetBytes (utf8 s)) ss) = map Inr (fst (payloads (fst (sse_loop (buf @ concat ss)))))"
  using assms
proof (induction ss arbitrary: buf)
  case Nil
  then show ?case by (simp add: stream_Nil payloads_Nil)
next
  case (Cons s ss)
  have "utf8_lossy (utf8 s) = s" using lossy_utf8[of s "[]"] Cons.prems(1) by simp
  then have push: "sse_push (utf8 s) buf = sse_loop (buf @ s)" by (simp add: sse_push_def)
  obtain ps rest where l: "sse_loop (buf @ s) = (ps, rest)" by fastforce
  have settled: "sse_loop rest = ([], rest)" using sse_loop_settled[of "buf @ s"] l by simp
  have "sse_loop (buf @ concat (s # ss)) = (ps @ fst (sse_loop (rest @ concat ss)), snd (sse_loop (rest @ concat ss)))"
    using sse_loop_append[OF l, of "concat ss"] by simp
  moreover have "stream rest (map (\<lambda>s. NetBytes (utf8 s)) ss) = map Inr (fst (payloads (fst (sse_loop (rest @ concat ss)))))"
    using Cons.IH[OF _ settled] Cons.prems(1) by simp
  ultimately show ?case by (simp add: stream_Bytes push l payloads_append)
qed

lemma stream_one:
  "\<forall>c \<in> set s. is_scalar c \<Longrightarrow> stream [] [NetBytes (utf8 s)] = map Inr (fst (payloads (fst (sse_loop s))))"
  using stream_chunks[of "[s]" "[]"] by (simp add: sse_loop.simps)

lemma chunks_do_not_matter:
  assumes "\<forall>s \<in> set ss. \<forall>c \<in> set s. is_scalar c"
  shows "stream [] (map (\<lambda>s. NetBytes (utf8 s)) ss) = stream [] [NetBytes (utf8 (concat ss))]"
  using stream_chunks[OF assms, of "[]"] stream_one[of "concat ss"] assms by (auto simp: sse_loop.simps[of "[]"])

end

lemma openai_payloads_append: "openai_payloads pj (ps @ qs) = (if snd (openai_payloads pj ps) then openai_payloads pj ps
    else (fst (openai_payloads pj ps) @ fst (openai_payloads pj qs), snd (openai_payloads pj qs)))"
  by (induction ps) (auto split: prod.splits)

lemma anthropic_payloads_append: "anthropic_payloads pj (ps @ qs) = (if snd (anthropic_payloads pj ps) then anthropic_payloads pj ps
    else (fst (anthropic_payloads pj ps) @ fst (anthropic_payloads pj qs), snd (anthropic_payloads pj qs)))"
  by (induction ps) (auto split: prod.splits option.splits delta.splits)

interpretation openai: payload_stream "openai_payloads pj" "openai_stream pj" for pj
  by unfold_locales (simp_all add: openai_payloads_append split: prod.splits)

interpretation anthropic: payload_stream "anthropic_payloads pj" "anthropic_stream pj" for pj
  by unfold_locales (simp_all add: anthropic_payloads_append split: prod.splits)

text \<open>C26. The deltas of an answer do not depend on how the network cuts its bytes, as long as it cuts between
  characters.\<close>

theorem chunking_is_invisible:
  assumes "\<forall>s \<in> set ss. \<forall>c \<in> set s. is_scalar c"
  shows "openai_stream pj [] (map (\<lambda>s. NetBytes (utf8 s)) ss) = openai_stream pj [] [NetBytes (utf8 (concat ss))]
    \<and> anthropic_stream pj [] (map (\<lambda>s. NetBytes (utf8 s)) ss) = anthropic_stream pj [] [NetBytes (utf8 (concat ss))]"
  using openai.chunks_do_not_matter[OF assms] anthropic.chunks_do_not_matter[OF assms] by blast

definition echo_json :: "rstr \<Rightarrow> json option" where
  "echo_json p = Some (JObj [(lit ''choices'', JArr [JObj [(lit ''delta'', JObj [(lit ''content'', JStr p)])]])])"

lemma chunking_is_invisible_witness:
  "openai_stream echo_json [] (map (\<lambda>s. NetBytes (utf8 s)) [lit ''da'', lit ''ta: x'' @ [20320, 10]])
      = openai_stream echo_json [] [NetBytes (utf8 (concat [lit ''da'', lit ''ta: x'' @ [20320, 10]]))]
    \<and> anthropic_stream echo_json [] (map (\<lambda>s. NetBytes (utf8 s)) [lit ''da'', lit ''ta: x'' @ [20320, 10]])
      = anthropic_stream echo_json [] [NetBytes (utf8 (concat [lit ''da'', lit ''ta: x'' @ [20320, 10]]))]"
  by (rule chunking_is_invisible) code_simp

text \<open>C33. When the network cuts inside a character the text is corrupted: whatever stands around it, each part of
  the character arrives as replacement characters.\<close>

theorem split_character_corrupts:
  assumes "is_scalar c" "0 < k" "k < length (utf8_char c)"
    and "\<forall>x \<in> set (s @ t). is_scalar x \<and> x \<noteq> 10 \<and> x \<noteq> 13"
  shows "\<exists>n. 0 < n \<and> (case sse_push (utf8 (lit ''data:'' @ s) @ take k (utf8_char c)) [] of (ps, buf) \<Rightarrow>
      ps @ fst (sse_push (drop k (utf8_char c) @ utf8 (t @ [10])) buf)) = [trim (s @ replicate n 65533 @ t)]"
proof -
  have sc: "\<forall>x \<in> set (lit ''data:'' @ s). is_scalar x" "\<forall>x \<in> set (t @ [10]). is_scalar x"
    using assms(4) by (auto simp: is_scalar_def)
  obtain n where n: "0 < n" "utf8_lossy (take k (utf8_char c)) = replicate n 65533" using lossy_cut(1)[OF assms(1-3)] by blast
  define m where "m = length (utf8_char c) - k"
  let ?a = "lit ''data:'' @ s @ replicate n 65533"
  have one: "utf8_lossy (utf8 (lit ''data:'' @ s) @ take k (utf8_char c)) = ?a" using lossy_utf8[OF sc(1)] n(2) by simp
  have "\<forall>x \<in> set ?a. \<not> x = 10" using assms(4) by auto
  then have "position (\<lambda>c. c = 10) ?a = None" unfolding position_None .
  then have "sse_loop ?a = ([], ?a)" using sse_loop.simps[of ?a] by (simp del: lit_Cons)
  then have first: "sse_push (utf8 (lit ''data:'' @ s) @ take k (utf8_char c)) [] = ([], ?a)"
    unfolding sse_push_def one by simp
  have two: "utf8_lossy (drop k (utf8_char c) @ utf8 (t @ [10])) = replicate m 65533 @ t @ [10]"
    using lossy_cut(2)[OF assms(1-3)] lossy_utf8[OF sc(2), of "[]"] by (simp add: m_def)
  let ?l = "lit ''data:'' @ s @ replicate (n + m) 65533 @ t"
  have buf: "?a @ replicate m 65533 @ t @ [10] = ?l @ 10 # []" by (simp add: replicate_add)
  have "\<forall>x \<in> set ?l. \<not> x = 10" using assms(4) by auto
  then have p: "position (\<lambda>c. c = 10) (?l @ 10 # []) = Some (length ?l)" by (rule position_at) simp
  have "sse_line ?l = ?l"
    using assms(4) n(1) by (intro sse_line_id) (cases t rule: rev_cases, auto simp: last_append)
  then have "fst (sse_loop (?l @ [10])) = [trim (s @ replicate (n + m) 65533 @ t)]"
    unfolding sse_loop.simps[of "?l @ [10]"] p option.case
    by (simp add: sse_loop.simps[of "[]"] strip_prefix_def starts_with_append del: lit_Cons)
  then show ?thesis unfolding first prod.case append_Nil unfolding sse_push_def two buf using n(1)
    by (intro exI[of _ "n + m"]) simp
qed

lemma split_character_corrupts_witness:
  "\<exists>n. 0 < n \<and> (case sse_push (utf8 (lit ''data:'' @ [20320]) @ take 1 (utf8_char 22909)) [] of (ps, buf) \<Rightarrow>
      ps @ fst (sse_push (drop 1 (utf8_char 22909) @ utf8 ([33] @ [10])) buf)) = [trim ([20320] @ replicate n 65533 @ [33])]"
  by (rule split_character_corrupts) code_simp+

section \<open>Requests\<close>

definition wire_role :: "json \<Rightarrow> rstr option" where
  "wire_role j = Option.bind (jget (lit ''role'') j) as_str"

definition wire_calls :: "json \<Rightarrow> rstr list" where
  "wire_calls j = (case jget (lit ''tool_calls'') j of
     Some (JArr cs) \<Rightarrow> List.map_filter (\<lambda>c. Option.bind (jget (lit ''id'') c) as_str) cs | _ \<Rightarrow> [])"

definition wire_result :: "json \<Rightarrow> rstr option" where
  "wire_result j = Option.bind (jget (lit ''tool_call_id'') j) as_str"

text \<open>What the provider checks: a message with calls is followed by the result of one of them, and no result stands
  elsewhere.\<close>

fun wire_ok :: "json list \<Rightarrow> bool" where
  "wire_ok [] \<longleftrightarrow> True"
| "wire_ok [m] \<longleftrightarrow> jget (lit ''tool_calls'') m = None \<and> wire_role m \<noteq> Some (lit ''tool'')"
| "wire_ok (m # n # ms) \<longleftrightarrow>
     (if jget (lit ''tool_calls'') m \<noteq> None
      then wire_role n = Some (lit ''tool'') \<and> (\<exists>i \<in> set (wire_calls m). wire_result n = Some i) \<and> wire_ok ms
      else wire_role m \<noteq> Some (lit ''tool'') \<and> wire_ok (n # ms))"

lemma message_json_get:
  "wire_role (message_json m) = Some (role_name (m_role m))"
  "jget (lit ''tool_calls'') (message_json m) = (if is_dispatch m then Some (JArr (map call_json (m_tool_calls m))) else None)"
  "m_role m = MTool \<Longrightarrow> wire_result (message_json m) = m_tool_call_id m"
proof -
  show "wire_role (message_json m) = Some (role_name (m_role m))"
    by (simp add: wire_role_def message_json_def jput_def jput_opt_def jget_def as_str_def Let_def split: option.splits)
  show "jget (lit ''tool_calls'') (message_json m) = (if is_dispatch m then Some (JArr (map call_json (m_tool_calls m))) else None)"
    by (auto simp: is_dispatch_def message_json_def jput_def jput_opt_def jget_def as_str_def Let_def split: option.splits)
  show "m_role m = MTool \<Longrightarrow> wire_result (message_json m) = m_tool_call_id m"
    by (simp add: wire_result_def message_json_def jput_def jput_opt_def jget_def as_str_def Let_def split: option.splits)
qed

lemma role_name_tool: "role_name r = lit ''tool'' \<longleftrightarrow> r = MTool"
  by (cases r) (simp_all add: role_name_def)

lemma call_json_id: "Option.bind (jget (lit ''id'') (call_json c)) as_str = Some (tc_id c)"
  by (simp add: call_json_def jget_def as_str_def)

lemma wire_calls_message: "is_dispatch m \<Longrightarrow> wire_calls (message_json m) = map tc_id (m_tool_calls m)"
proof -
  have "List.map_filter (\<lambda>c. Option.bind (jget (lit ''id'') c) as_str) (map call_json cs) = map tc_id cs" for cs
    by (induction cs) (simp_all add: List.map_filter_simps call_json_id del: lit_Cons)
  then show "is_dispatch m \<Longrightarrow> wire_calls (message_json m) = map tc_id (m_tool_calls m)"
    unfolding wire_calls_def message_json_get by (simp del: lit_Cons)
qed

lemma wire_ok_messages: "proto_ok ms \<Longrightarrow> wire_ok (map message_json ms)"
proof (induction ms rule: proto_ok.induct)
  case (3 m n ms)
  show ?case
  proof (cases "is_dispatch m")
    case True
    then have "answers m n" "proto_ok ms" using 3 by auto
    then have "m_role n = MTool" "\<exists>c \<in> set (m_tool_calls m). m_tool_call_id n = Some (tc_id c)" by (auto simp: answers_def is_result_def)
    then show ?thesis using True 3(1)[OF True \<open>proto_ok ms\<close>]
      by (simp add: message_json_get wire_calls_message role_name_tool image_iff del: lit_Cons)
  qed (use 3 in \<open>simp add: message_json_get role_name_tool is_result_def del: lit_Cons\<close>)
qed (simp_all add: message_json_get role_name_tool is_result_def del: lit_Cons)

text \<open>C3. On the wire to the OpenAI provider too every request of a run pairs its tool calls with their results: in
  the JSON messages of the request each message with calls is followed by a tool message that carries the id of one of them, and no
  tool message stands alone.  (The Anthropic provider has no tools at all, \<open>anthropic_has_no_tools\<close>.)\<close>

theorem requests_pair_on_the_wire:
  assumes "rc_history ctx = load_history parse_specs max_entries token_budget (rc_session ctx) d"
    "loop_reach env ctx w dr"
  shows "wire_ok (openai_messages (build_request (e_tz env) secs ctx (dr_messages dr) (dr_last_input dr)))"
proof -
  let ?rq = "build_request (e_tz env) secs ctx (dr_messages dr) (dr_last_input dr)"
  have "proto_ok (rc_history ctx)" unfolding assms(1) by (rule load_history_proto_ok)
  from reach_messages[OF assms(2) this] have "proto_ok (rq_messages ?rq)" by (simp add: build_request_def apply_compaction_proto_ok)
  then have "wire_ok (map message_json (rq_messages ?rq))" by (rule wire_ok_messages)
  then show ?thesis
    by (cases "rq_messages ?rq") (simp_all add: openai_messages_def wire_role_def jget_def as_str_def split: option.splits)
qed

text \<open>The sample run after its tool round.\<close>

lemma sample_after_round:
  assumes "rc_tools ctx \<noteq> None" "rc_compact ctx = cfg_default" "proto_ok (rc_history ctx)"
  obtains dr older c r where "loop_reach (sample_env [111]) ctx sample_world dr"
    "openai_messages (build_request still_env 0 ctx (dr_messages dr) (dr_last_input dr)) = older @ [message_json c, message_json r]"
    "is_dispatch c" "map tc_id (m_tool_calls c) = [[7]]" "m_role r = MTool" "m_tool_call_id r = Some [7]"
proof -
  define d where "d = snd (drive_start ctx sample_world)"
  have "fst (drive_start ctx sample_world)"
    by (simp add: drive_start_eq emit_inline_def world_emit_def sample_world_def sink_send_def conn_send_def)
  then have st: "loop_reach (sample_env [111]) ctx sample_world d"
    by (intro loop_reach.start) (simp add: prod_eq_iff d_def)
  have start: "live d" "dr_calls d = 0" "dr_fps d = []" "dr_rounds d = 0" "dr_state d = AwaitingModel"
    by (simp_all add: d_def drive_start_eq live_def)
  obtain dr c r where b: "loop_body (sample_env [111]) ctx d = Inl dr" "dr_messages dr = dr_messages d @ [c, r]"
    "is_dispatch c" "map tc_id (m_tool_calls c) = [[7]]" "m_role r = MTool" "m_tool_call_id r = Some [7]"
    using sample_first_call[OF start assms(1), of "[111]"] by (elim exE conjE)
  have k: "length (dr_messages dr) - keep_recent (rc_compact ctx) \<le> length (dr_messages d)"
    using b(2) assms(2) by (simp add: cfg_default_def)
  have "proto_ok (dr_messages dr)" by (rule reach_messages[OF loop_reach.turn[OF st b(1)] assms(3)])
  then obtain older where "rq_messages (build_request still_env 0 ctx (dr_messages dr) (dr_last_input dr)) =
      older @ drop (length (dr_messages dr) - keep_recent (rc_compact ctx)) (dr_messages dr)"
    using compaction_keeps_protocol by blast
  then obtain os where os: "openai_messages (build_request still_env 0 ctx (dr_messages dr) (dr_last_input dr)) = os @ [message_json c, message_json r]"
    using k unfolding b(2) by (auto simp: openai_messages_def split: option.splits)
  show thesis by (rule that[OF loop_reach.turn[OF st b(1)] os b(3-6)])
qed

lemma requests_pair_on_the_wire_witness:
  "\<exists>dr older m n. loop_reach (sample_env [111]) (sample_ctx\<lparr>rc_history := load_history get_specs 10 100 [115] one_session\<rparr>) sample_world dr
     \<and> openai_messages (build_request still_env 0 (sample_ctx\<lparr>rc_history := load_history get_specs 10 100 [115] one_session\<rparr>)
          (dr_messages dr) (dr_last_input dr)) = older @ [m, n]
     \<and> wire_calls m = [[7]] \<and> wire_result n = Some [7] \<and> wire_ok (older @ [m, n])"
proof -
  let ?ctx = "sample_ctx\<lparr>rc_history := load_history get_specs 10 100 [115] one_session\<rparr>"
  have h: "rc_history ?ctx = load_history get_specs 10 100 (rc_session ?ctx) one_session" by (simp add: sample_ctx_def)
  have c: "rc_tools ?ctx \<noteq> None" "rc_compact ?ctx = cfg_default" "proto_ok (rc_history ?ctx)"
    unfolding h by (simp_all add: sample_ctx_def load_history_proto_ok)
  obtain dr older c r where d: "loop_reach (sample_env [111]) ?ctx sample_world dr"
    "openai_messages (build_request still_env 0 ?ctx (dr_messages dr) (dr_last_input dr)) = older @ [message_json c, message_json r]"
    "is_dispatch c" "map tc_id (m_tool_calls c) = [[7]]" "m_role r = MTool" "m_tool_call_id r = Some [7]"
    by (rule sample_after_round[OF c])
  have "e_tz (sample_env [111]) = still_env" by (simp add: sample_env_def)
  then have "wire_ok (older @ [message_json c, message_json r])"
    using requests_pair_on_the_wire[OF h d(1), of 0] d(2) by simp
  then show ?thesis using d wire_calls_message[OF d(3)] message_json_get(3)[OF d(5)] by auto
qed

lemma anthropic_payloads_no_call: "DToolCall t \<notin> set (fst (anthropic_payloads pj ps))"
proof (induction ps)
  case (Cons p ps)
  have "anthropic_event pj p \<noteq> Some (DToolCall t)" for t
    by (cases "pj p") (auto simp: anthropic_event_def bind_eq_Some_conv split: if_splits)
  then show ?case using Cons by (auto split: option.splits delta.splits prod.splits)
qed simp

text \<open>The Anthropic provider offers the model no tools and reads no tool call: whatever the network brings, a run
  on it never gets one.\<close>

theorem anthropic_has_no_tools:
  "Inr (DToolCall t) \<notin> set (anthropic_stream pj buf ns) \<and> jget (lit ''tools'') (anthropic_body rq) = None"
proof
  show "Inr (DToolCall t) \<notin> set (anthropic_stream pj buf ns)"
  proof (induction ns arbitrary: buf)
    case (Cons n ns)
    then show ?case
      by (cases n) (auto simp: anthropic.stream_Bytes anthropic_payloads_no_call simp del: anthropic_stream.simps(4) split: if_splits)
  qed simp
  show "jget (lit ''tools'') (anthropic_body rq) = None"
    by (cases "rq_temperature rq"; cases "rq_system rq"; cases "rq_max_tokens rq")
      (simp_all add: anthropic_body_def Let_def jput_opt_def jput_def jget_def)
qed

end
