(* ===== verification/Http_Adapter.thy ===== *)
theory Http_Adapter
  imports Dispatch Llm_Provider
begin

text \<open>
  The pure part of the HTTP gateway, \<open>crates/oc-http\<close>: errors (\<open>error.rs\<close>), the conversion of an OpenAI request into a
  turn (\<open>adapter.rs\<close>, the request types of \<open>types.rs\<close>), the credentials (\<open>auth.rs\<close>) and the connection pool
  (\<open>conn_pool.rs\<close>).  The hash of the standard library, fresh identifiers and clocks are parameters.
\<close>

section \<open>Errors\<close>

datatype http_error = HBadRequest rstr | HNotFound rstr | HBusy rstr | HProtocol rstr | HInternal rstr | HConnection rstr

definition from_proto :: "proto_error \<Rightarrow> http_error" where
  "from_proto e = (case pe_kind e of
     BadRequest \<Rightarrow> HBadRequest (pe_message e)
   | Unsupported \<Rightarrow> HBadRequest (lit ''unsupported: '' @ pe_message e)
   | AbortedKind \<Rightarrow> HInternal (lit ''aborted: '' @ pe_message e)
   | TimeoutKind \<Rightarrow> HInternal (lit ''timeout: '' @ pe_message e)
   | _ \<Rightarrow> HInternal (pe_message e))"

definition http_error_text :: "http_error \<Rightarrow> rstr" where
  "http_error_text e = (case e of
     HBadRequest m \<Rightarrow> lit ''bad request: '' @ m | HNotFound m \<Rightarrow> lit ''not found: '' @ m | HBusy m \<Rightarrow> lit ''busy: '' @ m
   | HProtocol m \<Rightarrow> lit ''protocol error: '' @ m | HInternal m \<Rightarrow> lit ''internal error: '' @ m
   | HConnection m \<Rightarrow> lit ''connection error: '' @ m)"

definition error_response :: "http_error \<Rightarrow> nat \<times> json" where
  "error_response e =
     (let (status, code) = (case e of
            HBadRequest _ \<Rightarrow> (400, lit ''invalid_request_error'')
          | HNotFound _ \<Rightarrow> (404, lit ''not_found'')
          | HBusy _ \<Rightarrow> (503, lit ''capacity_exceeded'')
          | HProtocol _ \<Rightarrow> (502, lit ''protocol_error'')
          | HInternal _ \<Rightarrow> (500, lit ''internal_error'')
          | HConnection _ \<Rightarrow> (500, lit ''internal_error''))
      in (status, JObj [(lit ''error'', JObj [(lit ''message'', JStr (http_error_text e)), (lit ''type'', JStr code)])]))"

section \<open>Requests\<close>

text \<open>Fields of a request that are accepted and never read (model, store, token limit, temperature, the description and the
  parameters of a tool) are left out.\<close>

datatype input_content = CText rstr | CParts "rstr list"

datatype file_source =
    FsBase64 rstr rstr "rstr option"
  | FsUrl rstr "rstr option"

datatype input_item =
    IMessage rstr input_content
  | IFunctionOutput rstr rstr
  | IFile file_source

datatype req_input = InText rstr | InItems "input_item list"

record client_tool =
  ct_type :: rstr
  ct_name :: rstr

datatype tool_choice = ChoiceString rstr | ChoiceSpecific rstr rstr

record response_req =
  rr_input :: req_input
  rr_instructions :: "rstr option"
  rr_previous :: "rstr option"
  rr_tools :: "client_tool list"
  rr_tool_choice :: "tool_choice option"
  rr_stream :: "bool option"
  rr_user :: "rstr option"

section \<open>The session of a request\<close>

definition SESSION_KEY_HEADER :: rstr where "SESSION_KEY_HEADER = lit ''x-openclaw-session-key''"
definition RESERVED_PREFIXES :: "rstr list" where
  "RESERVED_PREFIXES = [lit ''subagent:'', lit ''cron:'', lit ''dreaming:'', lit ''acp:'']"
definition MAX_SESSION_KEY_LEN :: nat where "MAX_SESSION_KEY_LEN = 128"

definition validate_session_key :: "rstr \<Rightarrow> http_error + rstr" where
  "validate_session_key raw =
     (let key = trim raw in
      if key = [] then Inl (HBadRequest (SESSION_KEY_HEADER @ lit '' must not be empty''))
      else if MAX_SESSION_KEY_LEN < length key
      then Inl (HBadRequest (SESSION_KEY_HEADER @ lit '' exceeds '' @ show_nat MAX_SESSION_KEY_LEN @ lit '' characters''))
      else if \<exists>c \<in> set key. is_control c then Inl (HBadRequest (SESSION_KEY_HEADER @ lit '' must not contain control characters''))
      else case find (starts_with key) RESERVED_PREFIXES of
        Some p \<Rightarrow> Inl (HBadRequest (SESSION_KEY_HEADER @ lit '' uses reserved namespace '' @ [39] @ p @ [39]))
      | None \<Rightarrow> Inr key)"

fun show_hex :: "nat \<Rightarrow> rstr" where
  "show_hex n = (if n < 16 then [if n < 10 then 48 + n else 87 + n]
     else show_hex (n div 16) @ [if n mod 16 < 10 then 48 + n mod 16 else 87 + n mod 16])"

definition resolve_session :: "(rstr \<Rightarrow> nat) \<Rightarrow> response_req \<Rightarrow> rstr option \<Rightarrow> (rstr \<times> rstr) list \<Rightarrow> rstr" where
  "resolve_session hash rq key known = (case key of
     Some sid \<Rightarrow> sid
   | None \<Rightarrow> (case Option.bind (rr_previous rq) (map_of known) of
        Some sid \<Rightarrow> sid
      | None \<Rightarrow> (case rr_user rq of
           Some user \<Rightarrow> lit ''http-user-'' @ show_hex (hash user)
         | None \<Rightarrow> main_id)))"

section \<open>Base64\<close>

definition base64_val :: "nat \<Rightarrow> nat option" where
  "base64_val c =
     (if 65 \<le> c \<and> c \<le> 90 then Some (c - 65)
      else if 97 \<le> c \<and> c \<le> 122 then Some (c - 97 + 26)
      else if 48 \<le> c \<and> c \<le> 57 then Some (c - 48 + 52)
      else if c = 43 then Some 62
      else if c = 47 then Some 63
      else None)"

text \<open>A group of two to four characters; \<open>acc\<close> is a \<open>u32\<close>.\<close>

fun base64_acc :: "32 word \<Rightarrow> nat list \<Rightarrow> 32 word option" where
  "base64_acc acc [] = Some acc"
| "base64_acc acc (c # cs) = (case base64_val c of None \<Rightarrow> None | Some v \<Rightarrow> base64_acc (or (push_bit 6 acc) (of_nat v)) cs)"

definition base64_group :: "nat list \<Rightarrow> nat list option" where
  "base64_group cs =
     (if length cs < 2 then None
      else map_option (\<lambda>acc.
             let a = push_bit (6 * (4 - length cs)) acc
             in take (length cs - 1) [unat (take_bit 8 (drop_bit 16 a)), unat (take_bit 8 (drop_bit 8 a)), unat (take_bit 8 a)])
           (base64_acc 0 cs))"

fun chunks4 :: "'a list \<Rightarrow> 'a list list" where
  "chunks4 (a # b # c # d # xs) = [a, b, c, d] # chunks4 xs"
| "chunks4 [] = []"
| "chunks4 xs = [xs]"

fun groups :: "nat list list \<Rightarrow> nat list option" where
  "groups [] = Some []"
| "groups (g # gs) = (case base64_group g of None \<Rightarrow> None | Some bs \<Rightarrow> map_option (\<lambda>rest. bs @ rest) (groups gs))"

definition is_ascii_ws :: "nat \<Rightarrow> bool" where
  "is_ascii_ws b \<longleftrightarrow> b \<in> {32, 9, 10, 12, 13}"

definition base64_decode :: "nat list \<Rightarrow> nat list option" where
  "base64_decode s = groups (chunks4 (filter (\<lambda>b. \<not> is_ascii_ws b \<and> b \<noteq> 61) s))"

section \<open>Files\<close>

definition MAX_FILE_CHARS :: nat where "MAX_FILE_CHARS = 60000"

definition is_text_mime :: "rstr \<Rightarrow> bool" where
  "is_text_mime m \<longleftrightarrow> m \<in> set [lit ''text/plain'', lit ''text/markdown'', lit ''text/html'', lit ''text/csv'', lit ''application/json'']"

text \<open>\<open>String::from_utf8\<close>.\<close>

function utf8_strict :: "nat list \<Rightarrow> rstr option" where
  "utf8_strict [] = Some []"
| "utf8_strict (b # bs) =
     (if b < 128 then map_option ((#) b) (utf8_strict bs)
      else case follow_bytes b of
        None \<Rightarrow> None
      | Some n \<Rightarrow>
          let cs = accepted n (second_range b) bs
          in if length cs = n then map_option ((#) (decode_char b cs)) (utf8_strict (drop n bs)) else None)"
  by pat_completeness auto
termination
  by (relation "measure length") (auto simp: le_imp_less_Suc)

text \<open>The data of a file are given as bytes, those of a JSON string.\<close>

definition decode_file :: "(rstr \<Rightarrow> nat list) \<Rightarrow> file_source \<Rightarrow> http_error + rstr \<times> rstr option" where
  "decode_file bytes src = (case src of
     FsUrl u nm \<Rightarrow> Inl (HBadRequest (lit ''input_file with url source is not supported; send base64 instead''))
   | FsBase64 mime data nm \<Rightarrow>
       if \<not> is_text_mime mime
       then Inl (HBadRequest (lit ''unsupported file media_type: '' @ mime
              @ lit '' (text/plain, text/markdown, text/html, text/csv, application/json supported)''))
       else case base64_decode (bytes data) of
         None \<Rightarrow> Inl (HBadRequest (lit ''invalid base64 in input_file''))
       | Some bs \<Rightarrow> (case utf8_strict bs of
            None \<Rightarrow> Inl (HBadRequest (lit ''input_file is not valid UTF-8''))
          | Some s \<Rightarrow> Inr (if MAX_FILE_CHARS < length s then take MAX_FILE_CHARS s @ ([10, 8230] @ lit ''[truncated]'') else s, nm)))"

record ext_file =
  xf_id :: rstr
  xf_content :: rstr
  xf_name :: "rstr option"

record extracted =
  ex_text :: rstr
  ex_system :: "rstr list"
  ex_files :: "ext_file list"
  ex_outputs :: "(rstr \<times> rstr) list"

definition flatten_content :: "input_content \<Rightarrow> rstr" where
  "flatten_content c = (case c of CText s \<Rightarrow> s | CParts ps \<Rightarrow> join [10] ps)"

text \<open>The loop over the items, with the text of the last user message; \<open>fresh n\<close> is the identifier of the \<open>n\<close>th file.\<close>

fun extract_items :: "(rstr \<Rightarrow> nat list) \<Rightarrow> (nat \<Rightarrow> rstr) \<Rightarrow> input_item list \<Rightarrow> extracted \<Rightarrow> rstr option \<Rightarrow> http_error + extracted \<times> rstr option" where
  "extract_items bytes fresh [] ex u = Inr (ex, u)"
| "extract_items bytes fresh (IMessage role content # is) ex u =
     (let s = flatten_content content in
      if role = lit ''system'' \<or> role = lit ''developer''
      then extract_items bytes fresh is (if trim s \<noteq> [] then ex\<lparr>ex_system := ex_system ex @ [s]\<rparr> else ex) u
      else if role = lit ''user'' then extract_items bytes fresh is ex (Some s)
      else extract_items bytes fresh is ex u)"
| "extract_items bytes fresh (IFunctionOutput cid o1 # is) ex u =
     extract_items bytes fresh is (ex\<lparr>ex_outputs := ex_outputs ex @ [(cid, o1)]\<rparr>) u"
| "extract_items bytes fresh (IFile src # is) ex u =
     (case decode_file bytes src of
        Inl e \<Rightarrow> Inl e
      | Inr (content, nm) \<Rightarrow> extract_items bytes fresh is
          (ex\<lparr>ex_files := ex_files ex @ [\<lparr> xf_id = lit ''file_'' @ fresh (length (ex_files ex)), xf_content = content, xf_name = nm \<rparr>]\<rparr>) u)"

definition extract_input :: "(rstr \<Rightarrow> nat list) \<Rightarrow> (nat \<Rightarrow> rstr) \<Rightarrow> response_req \<Rightarrow> http_error + extracted" where
  "extract_input bytes fresh rq =
     (let e0 = \<lparr> ex_text = [], ex_system = (case rr_instructions rq of
                   Some i \<Rightarrow> if trim i \<noteq> [] then [trim i] else [] | None \<Rightarrow> []), ex_files = [], ex_outputs = [] \<rparr>
      in case (case rr_input rq of
                 InText s \<Rightarrow> Inr (e0\<lparr>ex_text := s\<rparr>)
               | InItems is \<Rightarrow> map_sum id (\<lambda>(ex, u). ex\<lparr>ex_text := (case u of Some s \<Rightarrow> s | None \<Rightarrow> [])\<rparr>) (extract_items bytes fresh is e0 None)) of
           Inl e \<Rightarrow> Inl e
         | Inr ex \<Rightarrow>
             if trim (ex_text ex) = [] \<and> ex_outputs ex = []
             then Inl (HBadRequest (lit ''input must contain a user message or function_call_output''))
             else Inr ex)"

definition file_block :: "ext_file \<Rightarrow> rstr" where
  "file_block f = lit ''<<<EXTERNAL_UNTRUSTED_CONTENT id='' @ [34] @ xf_id f @ [34] @ lit ''>>>'' @ [10]
     @ lit ''Source: External'' @ [10] @ lit ''Filename: '' @ (case xf_name f of Some n \<Rightarrow> n | None \<Rightarrow> lit ''unnamed'') @ [10, 10]
     @ xf_content f @ [10] @ lit ''<<<END_EXTERNAL_UNTRUSTED_CONTENT id='' @ [34] @ xf_id f @ [34] @ lit ''>>>''"

definition build_turn_prefix :: "extracted \<Rightarrow> rstr" where
  "build_turn_prefix ex =
     (let parts = (if ex_system ex \<noteq> [] then [lit ''# Instructions for this request'' @ [10] @ join [10, 10] (ex_system ex)] else [])
            @ map file_block (ex_files ex)
            @ map (\<lambda>(cid, o1). lit ''# Tool result (call_id: '' @ cid @ lit '')'' @ [10] @ o1) (ex_outputs ex)
      in if parts = [] then [] else join [10, 10] parts @ [10, 10])"

fun validate_tools :: "client_tool list \<Rightarrow> http_error + unit" where
  "validate_tools [] = Inr ()"
| "validate_tools (t # ts) =
     (if ct_type t \<noteq> lit ''function''
      then Inl (HBadRequest (lit ''unsupported tool type '' @ [39] @ ct_type t @ [39] @ lit '': only '' @ [39] @ lit ''function'' @ [39] @ lit '' tools are supported''))
      else if trim (ct_name t) = [] then Inl (HBadRequest (lit ''tool name must not be empty''))
      else validate_tools ts)"

definition reject_unsupported :: "response_req \<Rightarrow> http_error + unit" where
  "reject_unsupported rq =
     (if rr_tools rq \<noteq> []
      then Inl (HBadRequest (lit ''dynamic '' @ [39] @ lit ''tools'' @ [39] @ lit '' are not supported yet; tools are configured server-side''))
      else if rr_tool_choice rq \<noteq> None then Inl (HBadRequest ([39] @ lit ''tool_choice'' @ [39] @ lit '' is not supported yet''))
      else Inr ())"

section \<open>Credentials\<close>

definition LOGIN_COOKIE :: rstr where "LOGIN_COOKIE = lit ''oc_session''"
definition TOKEN_QUERY_ROUTE :: rstr where "TOKEN_QUERY_ROUTE = lit ''/api/v1/events''"
definition LOGIN_TTL :: int where "LOGIN_TTL = 12 * 60 * 60"

text \<open>A request: its path, its two headers as far as they are text, and the decoded pairs of its query.\<close>

record http_req =
  hr_path :: rstr
  hr_authorization :: "rstr option"
  hr_cookie :: "rstr option"
  hr_query :: "(rstr \<times> rstr) list option"

text \<open>The token of the server, and the sessions logged in with the time of their creation.\<close>

record auth_state =
  au_token :: "rstr option"
  au_logins :: "(rstr \<times> int) list"

fun find_cookie :: "rstr \<Rightarrow> rstr list \<Rightarrow> rstr option" where
  "find_cookie nm [] = None"
| "find_cookie nm (p # ps) = (case split_once (trim p) [61] of
     Some (k, v) \<Rightarrow> if k = nm then Some v else find_cookie nm ps
   | None \<Rightarrow> find_cookie nm ps)"

definition extract_cookie :: "http_req \<Rightarrow> rstr \<Rightarrow> rstr option" where
  "extract_cookie rq nm = Option.bind (hr_cookie rq) (\<lambda>raw. find_cookie nm (split_char 59 raw))"

definition cookie_session :: "int \<Rightarrow> http_req \<Rightarrow> auth_state \<Rightarrow> bool \<times> auth_state" where
  "cookie_session now rq au = (case extract_cookie rq LOGIN_COOKIE of
     None \<Rightarrow> (False, au)
   | Some sid \<Rightarrow>
       let valid = (case map_of (au_logins au) sid of Some created \<Rightarrow> now - created < LOGIN_TTL | None \<Rightarrow> False)
       in (valid, if valid then au else au\<lparr>au_logins := AList.delete sid (au_logins au)\<rparr>))"

definition require_token :: "int \<Rightarrow> http_req \<Rightarrow> auth_state \<Rightarrow> bool \<times> auth_state" where
  "require_token now rq au = (case au_token au of
     None \<Rightarrow> (True, au)
   | Some expected \<Rightarrow>
       if \<not> starts_with (hr_path rq) (lit ''/api/v1'') \<and> \<not> starts_with (hr_path rq) (lit ''/v1'') then (True, au)
       else
         let header_token = Option.bind (hr_authorization rq) (\<lambda>v. strip_prefix v (lit ''Bearer ''));
             (cookie_ok, au') = cookie_session now rq au;
             query_token = (if hr_path rq = TOKEN_QUERY_ROUTE
               then Option.bind (hr_query rq) (\<lambda>q. map_option snd (find (\<lambda>(k, v). k = lit ''token'') q)) else None)
         in (cookie_ok \<or> header_token = Some expected \<or> query_token = Some expected, au'))"

datatype login_reply = NoAuth | BadToken | LoggedIn rstr

definition login :: "int \<Rightarrow> rstr \<Rightarrow> rstr \<Rightarrow> auth_state \<Rightarrow> login_reply \<times> auth_state" where
  "login now sid token au = (case au_token au of
     None \<Rightarrow> (NoAuth, au)
   | Some expected \<Rightarrow>
       if token \<noteq> expected then (BadToken, au)
       else (LoggedIn (LOGIN_COOKIE @ [61] @ sid @ lit ''; HttpOnly; SameSite=Lax; Path=/; Max-Age='' @ show_int LOGIN_TTL),
             au\<lparr>au_logins := AList.update sid now (au_logins au)\<rparr>))"

definition check_bind_requires_token :: "rstr \<Rightarrow> bool \<Rightarrow> rstr option \<Rightarrow> rstr + unit" where
  "check_bind_requires_token addr loopback token =
     (let has_token = (case token of Some t \<Rightarrow> trim t \<noteq> [] | None \<Rightarrow> False) in
      if \<not> loopback \<and> \<not> has_token
      then Inl (lit ''binding to '' @ addr @ lit '' exposes the daemon to the network; supply a non-empty --token (or OC_HTTP_TOKEN) to enable non-loopback binding'')
      else Inr ())"

section \<open>The pool\<close>

definition ACQUIRE_TIMEOUT :: nat where "ACQUIRE_TIMEOUT = 10"

text \<open>The pool: the idle connections, those in use, the number of callers that hold a permit and are opening
  theirs, and the free permits; a connection is a name, and the health of a connection is what its tasks made of it.\<close>

record 'c pool =
  pl_idle :: "'c list"
  pl_used :: "'c list"
  pl_opening :: nat
  pl_max_idle :: nat
  pl_max_conns :: nat
  pl_permits :: nat

definition pool_new :: "nat \<Rightarrow> nat \<Rightarrow> 'c pool" where
  "pool_new max_idle max_conns =
     (let m = max max_conns 1
      in \<lparr> pl_idle = [], pl_used = [], pl_opening = 0, pl_max_idle = min max_idle m, pl_max_conns = m, pl_permits = m \<rparr>)"

text \<open>The loop of \<open>acquire\<close> over the idle connections, last one first; a dead one gives its permit back.\<close>

fun pop_idle :: "('c \<Rightarrow> bool) \<Rightarrow> 'c list \<Rightarrow> nat \<Rightarrow> 'c option \<times> 'c list \<times> nat" where
  "pop_idle healthy [] n = (None, [], n)"
| "pop_idle healthy (c # cs) n = (if healthy c then (Some c, cs, n) else pop_idle healthy cs (n + 1))"

definition acquire_idle :: "('c \<Rightarrow> bool) \<Rightarrow> 'c pool \<Rightarrow> 'c option \<times> 'c pool" where
  "acquire_idle healthy p =
     (case pop_idle healthy (rev (pl_idle p)) (pl_permits p) of
        (Some c, idle, n) \<Rightarrow> (Some c, p\<lparr>pl_idle := rev idle, pl_permits := n, pl_used := pl_used p @ [c]\<rparr>)
      | (None, idle, n) \<Rightarrow> (None, p\<lparr>pl_idle := [], pl_permits := n\<rparr>))"

text \<open>The end of the wait for a permit, in the pool as it is then: there is one, or the time is up.\<close>

definition busy_text_http :: "nat \<Rightarrow> rstr" where
  "busy_text_http limit = lit ''no daemon connection available within '' @ show_nat ACQUIRE_TIMEOUT
     @ lit ''s; too many concurrent requests (limit '' @ show_nat limit @ lit '')''"

definition acquire_permit :: "'c pool \<Rightarrow> http_error option \<times> 'c pool" where
  "acquire_permit p =
     (if pl_permits p = 0 then (Some (HBusy (busy_text_http (pl_max_conns p))), p)
      else (None, p\<lparr>pl_permits := pl_permits p - 1, pl_opening := pl_opening p + 1\<rparr>))"

text \<open>The end of the opening: the new connection, which keeps the permit, or the error, which gives it back.\<close>

definition acquire_connect :: "http_error + 'c \<Rightarrow> 'c pool \<Rightarrow> (http_error + 'c) \<times> 'c pool" where
  "acquire_connect fresh p =
     (case fresh of
        Inl e \<Rightarrow> (Inl e, p\<lparr>pl_opening := pl_opening p - 1, pl_permits := pl_permits p + 1\<rparr>)
      | Inr c \<Rightarrow> (Inr c, p\<lparr>pl_opening := pl_opening p - 1, pl_used := pl_used p @ [c]\<rparr>))"

text \<open>The whole call: \<open>meanwhile\<close> and \<open>later\<close> are what other callers do to the pool while this one waits
  for a permit and while it opens its connection.\<close>

definition acquire :: "('c \<Rightarrow> bool) \<Rightarrow> ('c pool \<Rightarrow> 'c pool) \<Rightarrow> ('c pool \<Rightarrow> 'c pool) \<Rightarrow> http_error + 'c \<Rightarrow> 'c pool
    \<Rightarrow> (http_error + 'c) \<times> 'c pool" where
  "acquire healthy meanwhile later fresh p =
     (case acquire_idle healthy p of
        (Some c, q) \<Rightarrow> (Inr c, q)
      | (None, q) \<Rightarrow>
          (case acquire_permit (meanwhile q) of
             (Some e, q') \<Rightarrow> (Inl e, q')
           | (None, q') \<Rightarrow> acquire_connect fresh (later q')))"

definition drop_conn :: "'c \<Rightarrow> 'c pool \<Rightarrow> 'c pool" where
  "drop_conn c p = (if c \<in> set (pl_used p) then p\<lparr>pl_used := remove1 c (pl_used p), pl_permits := pl_permits p + 1\<rparr> else p)"

definition release :: "('c \<Rightarrow> bool) \<Rightarrow> 'c \<Rightarrow> 'c pool \<Rightarrow> 'c pool" where
  "release healthy c p =
     (if \<not> healthy c then drop_conn c p
      else if length (pl_idle p) < pl_max_idle p \<and> c \<in> set (pl_used p)
      then p\<lparr>pl_used := remove1 c (pl_used p), pl_idle := pl_idle p @ [c]\<rparr>
      else drop_conn c p)"

end
