(* ===== verification/Http_Stream.thy ===== *)
theory Http_Stream
  imports Http_Adapter
begin

text \<open>
  The gateway at work, \<open>crates/oc-http\<close>: the exchange with the daemon (\<open>proto.rs\<close>), the encoding of a run as OpenAI
  events (\<open>sse.rs\<close>, the response types of \<open>types.rs\<close>), the two OpenAI endpoints (\<open>server.rs\<close>) and the native
  endpoints (\<open>native/\<close>).  A connection is the list of the frames that are still to come on it; its end is the end of the
  list.  Identifiers and the clock are inputs, the serialisation of values to JSON is a parameter.
\<close>

section \<open>Responses\<close>

text \<open>Fields that are the same in every value (object, role, indices, empty annotations) and the two constructors no code
  builds, \<open>FunctionCall\<close> and \<open>ResponseInProgress\<close>, are left out; the part of an item is its text.\<close>

datatype response_status = RsInProgress | RsCompleted | RsFailed | RsCancelled

record output_item =
  oi_id :: rstr
  oi_status :: rstr
  oi_text :: "rstr option"

record response_error =
  re_message :: rstr
  re_code :: rstr

record response =
  rp_id :: rstr
  rp_created_at :: int
  rp_status :: response_status
  rp_completed_at :: "int option"
  rp_error :: "response_error option"
  rp_output :: "output_item list"
  rp_input_tokens :: nat
  rp_output_tokens :: nat
  rp_total_tokens :: nat
  rp_model :: rstr

datatype sse_event =
    ResponseCreated response nat
  | OutputItemAdded rstr output_item nat
  | ContentPartAdded rstr nat
  | OutputTextDelta rstr rstr nat
  | OutputTextDone rstr rstr nat
  | OutputItemDone rstr output_item nat
  | ResponseCompleted response nat
  | ResponseFailed rstr response_error nat

fun sse_seq :: "sse_event \<Rightarrow> nat" where
  "sse_seq (ResponseCreated _ n) = n" | "sse_seq (OutputItemAdded _ _ n) = n" | "sse_seq (ContentPartAdded _ n) = n"
| "sse_seq (OutputTextDelta _ _ n) = n" | "sse_seq (OutputTextDone _ _ n) = n" | "sse_seq (OutputItemDone _ _ n) = n"
| "sse_seq (ResponseCompleted _ n) = n" | "sse_seq (ResponseFailed _ _ n) = n"

section \<open>The stream of a run\<close>

definition estimate_output :: "rstr \<Rightarrow> nat" where
  "estimate_output s = as_u32_of (max (length s div 4) (if s = [] then 0 else 1))"

record sse_state =
  ss_response_id :: rstr
  ss_run :: rstr
  ss_session :: rstr
  ss_model :: rstr
  ss_created_at :: int
  ss_item :: "rstr option"
  ss_seq :: nat
  ss_text :: rstr
  ss_input :: nat

definition sse_new :: "rstr \<Rightarrow> rstr \<Rightarrow> rstr \<Rightarrow> rstr \<Rightarrow> int \<Rightarrow> sse_state" where
  "sse_new rid run sid model t = \<lparr> ss_response_id = rid, ss_run = run, ss_session = sid, ss_model = model, ss_created_at = t,
     ss_item = None, ss_seq = 0, ss_text = [], ss_input = 0 \<rparr>"

definition next_seq :: "sse_state \<Rightarrow> nat \<times> sse_state" where
  "next_seq st = (ss_seq st, st\<lparr>ss_seq := ss_seq st + 1\<rparr>)"

definition build_response :: "response_status \<Rightarrow> int option \<Rightarrow> sse_state \<Rightarrow> response" where
  "build_response status done_at st =
     (let out = estimate_output (ss_text st) in
      \<lparr> rp_id = ss_response_id st, rp_created_at = ss_created_at st, rp_status = status, rp_completed_at = done_at, rp_error = None,
        rp_output = (case ss_item st of
            Some i \<Rightarrow> [\<lparr> oi_id = i, oi_status = (case status of RsCompleted \<Rightarrow> lit ''completed'' | RsInProgress \<Rightarrow> lit ''in_progress'' | _ \<Rightarrow> lit ''incomplete''),
                       oi_text = Some (ss_text st) \<rparr>]
          | None \<Rightarrow> []),
        rp_input_tokens = ss_input st, rp_output_tokens = out, rp_total_tokens = as_u32_of (ss_input st + out), rp_model = ss_model st \<rparr>)"

definition failure_code :: "run_error_kind \<Rightarrow> rstr" where
  "failure_code k = (case k of KAborted \<Rightarrow> lit ''cancelled'' | KLoopDetected \<Rightarrow> lit ''loop_detected'' | KTimeout \<Rightarrow> lit ''timeout''
     | KTruncated \<Rightarrow> lit ''truncated'' | _ \<Rightarrow> lit ''internal_error'')"

definition on_lifecycle :: "int \<Rightarrow> lifecycle_phase \<Rightarrow> sse_state \<Rightarrow> (sse_event list \<times> bool) \<times> sse_state" where
  "on_lifecycle now phase st = (case phase of
     PhStart \<Rightarrow> (case next_seq st of (n, st1) \<Rightarrow> (([ResponseCreated (build_response RsInProgress None st1) n], False), st1))
   | PhEnd \<Rightarrow>
       (case ss_item st of
          Some i \<Rightarrow>
            (case next_seq st of (n1, st1) \<Rightarrow> (case next_seq st1 of (n2, st2) \<Rightarrow> (case next_seq st2 of (n3, st3) \<Rightarrow>
               (([OutputTextDone i (ss_text st) n1,
                  OutputItemDone i \<lparr> oi_id = i, oi_status = lit ''completed'', oi_text = Some (ss_text st) \<rparr> n2,
                  ResponseCompleted (build_response RsCompleted (Some now) st3) n3], True), st3))))
        | None \<Rightarrow> (case next_seq st of (n, st1) \<Rightarrow> (([ResponseCompleted (build_response RsCompleted (Some now) st1) n], True), st1)))
   | PhError message kind \<Rightarrow>
       (case next_seq st of (n, st1) \<Rightarrow>
          (([ResponseFailed (ss_response_id st) \<lparr> re_message = message, re_code = failure_code kind \<rparr> n], True), st1)))"

definition on_assistant :: "rstr \<Rightarrow> rstr \<Rightarrow> sse_state \<Rightarrow> (sse_event list \<times> bool) \<times> sse_state" where
  "on_assistant fresh delta st = (case ss_item st of
     Some i \<Rightarrow>
       (case next_seq (st\<lparr>ss_text := ss_text st @ delta\<rparr>) of (n, st1) \<Rightarrow> (([OutputTextDelta i delta n], False), st1))
   | None \<Rightarrow>
       let i = lit ''msg_'' @ fresh in
       (case next_seq (st\<lparr>ss_item := Some i, ss_text := ss_text st @ delta\<rparr>) of (n1, st1) \<Rightarrow>
        (case next_seq st1 of (n2, st2) \<Rightarrow> (case next_seq st2 of (n3, st3) \<Rightarrow>
          (([OutputItemAdded i \<lparr> oi_id = i, oi_status = lit ''in_progress'', oi_text = None \<rparr> n1, ContentPartAdded i n2,
             OutputTextDelta i delta n3], False), st3)))))"

text \<open>What an event adds to the stream: the values, and whether they are the last.\<close>

definition event_values :: "rstr \<Rightarrow> int \<Rightarrow> event \<Rightarrow> sse_state \<Rightarrow> (sse_event list \<times> bool) option \<times> sse_state" where
  "event_values fresh now ev st = (case ev of
     EvLifecycle sid run phase \<Rightarrow>
       if run = ss_run st then (case on_lifecycle now phase st of (r, st') \<Rightarrow> (Some r, st')) else (None, st)
   | EvAssistant sid run delta \<Rightarrow>
       if run = ss_run st then (case on_assistant fresh delta st of (r, st') \<Rightarrow> (Some r, st')) else (None, st)
   | EvUsage sid n ctx \<Rightarrow> (None, if sid = ss_session st then st\<lparr>ss_input := n\<rparr> else st)
   | _ \<Rightarrow> (None, st))"

definition format_event :: "(sse_event \<Rightarrow> rstr option) \<Rightarrow> sse_event \<Rightarrow> rstr" where
  "format_event ser ev = (case ser ev of Some j \<Rightarrow> lit ''data: '' @ j @ [10, 10] | None \<Rightarrow> [])"

definition event_to_sse :: "(sse_event \<Rightarrow> rstr option) \<Rightarrow> rstr \<Rightarrow> int \<Rightarrow> event \<Rightarrow> sse_state \<Rightarrow> (rstr \<times> bool) option \<times> sse_state" where
  "event_to_sse ser fresh now ev st = (case event_values fresh now ev st of
     (None, st') \<Rightarrow> (None, st')
   | (Some (vs, last_one), st') \<Rightarrow>
       (Some (concat (map (format_event ser) vs) @ (if last_one then lit ''data: [DONE]'' @ [10, 10] else []), last_one), st'))"

definition split_sse_data :: "rstr \<Rightarrow> rstr list" where
  "split_sse_data payload = List.map_filter (\<lambda>l. strip_prefix l (lit ''data: '')) (str_lines payload)"

text \<open>Frames from the daemon; \<open>fresh\<close> and \<open>now\<close> are read for the frame of each position.\<close>

datatype frame = FrEvent event | FrRes "proto_error + method_ok" | FrOther

fun stream_sse :: "(sse_event \<Rightarrow> rstr option) \<Rightarrow> (nat \<Rightarrow> rstr) \<Rightarrow> (nat \<Rightarrow> int) \<Rightarrow> frame list \<Rightarrow> nat \<Rightarrow> sse_state \<Rightarrow> (http_error + rstr) list" where
  "stream_sse ser fresh now [] k st = [Inl (HProtocol (lit ''daemon closed connection mid-stream''))]"
| "stream_sse ser fresh now (FrEvent ev # fs) k st =
     (case event_to_sse ser (fresh k) (now k) ev st of
        (None, st') \<Rightarrow> stream_sse ser fresh now fs (k + 1) st'
      | (Some (payload, terminal), st') \<Rightarrow>
          map Inr (split_sse_data payload) @ (if terminal then [] else stream_sse ser fresh now fs (k + 1) st'))"
| "stream_sse ser fresh now (_ # fs) k st = stream_sse ser fresh now fs (k + 1) st"

section \<open>The exchange with the daemon\<close>

text \<open>Events before the answer are dropped.\<close>

fun await_res :: "frame list \<Rightarrow> (http_error + method_ok) \<times> frame list" where
  "await_res [] = (Inl (HProtocol (lit ''daemon closed connection before responding'')), [])"
| "await_res (FrRes r # fs) = (case r of Inr ok \<Rightarrow> (Inr ok, fs) | Inl e \<Rightarrow> (Inl (from_proto e), fs))"
| "await_res (_ # fs) = await_res fs"

text \<open>A connection: the requests sent on it and the frames still to come.  Sending fails when the connection is gone.\<close>

record conn =
  cn_sent :: "req list"
  cn_frames :: "frame list"
  cn_open :: bool

definition send_req :: "req_method \<Rightarrow> rstr option \<Rightarrow> conn \<Rightarrow> (http_error + unit) \<times> conn" where
  "send_req m key cn =
     (if cn_open cn then (Inr (), cn\<lparr>cn_sent := cn_sent cn @ [\<lparr> rq_method = m, rq_key = key \<rparr>]\<rparr>)
      else (Inl (HProtocol (lit ''daemon connection closed'')), cn))"

definition await_on :: "conn \<Rightarrow> (http_error + method_ok) \<times> conn" where
  "await_on cn = (case await_res (cn_frames cn) of (r, fs) \<Rightarrow> (r, cn\<lparr>cn_frames := fs\<rparr>))"

definition call :: "req_method \<Rightarrow> rstr option \<Rightarrow> conn \<Rightarrow> (http_error + method_ok) \<times> conn" where
  "call m key cn = (case send_req m key cn of (Inl e, cn1) \<Rightarrow> (Inl e, cn1) | (Inr _, cn1) \<Rightarrow> await_on cn1)"

text \<open>\<open>dbg\<close> is the debug form of an answer in an error text.\<close>

definition expected :: "(method_ok \<Rightarrow> rstr) \<Rightarrow> rstr \<Rightarrow> method_ok \<Rightarrow> http_error" where
  "expected dbg what ok = HProtocol (lit ''expected '' @ what @ lit '', got '' @ dbg ok)"

definition handshake :: "(method_ok \<Rightarrow> rstr) \<Rightarrow> conn \<Rightarrow> (http_error + unit) \<times> conn" where
  "handshake dbg cn = (case call (MConnect PROTO_VERSION) None cn of
     (Inl e, cn1) \<Rightarrow> (Inl e, cn1)
   | (Inr ok, cn1) \<Rightarrow> (case ok of OkHello _ _ \<Rightarrow> Inr () | _ \<Rightarrow> Inl (expected dbg (lit ''hello'') ok), cn1))"

text \<open>\<open>acquire\<close>, \<open>handshake\<close> and a request, as every endpoint does them.\<close>

definition exchange :: "(method_ok \<Rightarrow> rstr) \<Rightarrow> req_method \<Rightarrow> rstr option \<Rightarrow> http_error + conn \<Rightarrow> http_error + method_ok \<times> conn" where
  "exchange dbg m key acquired = (case acquired of
     Inl e \<Rightarrow> Inl e
   | Inr cn \<Rightarrow> (case handshake dbg cn of
        (Inl e, _) \<Rightarrow> Inl e
      | (Inr _, cn1) \<Rightarrow> (case call m key cn1 of (Inl e, _) \<Rightarrow> Inl e | (Inr ok, cn2) \<Rightarrow> Inr (ok, cn2))))"

section \<open>The OpenAI endpoints\<close>

text \<open>The response of a run that is not streamed: the answer text, the input tokens and how it ended.\<close>

fun accumulate :: "rstr \<Rightarrow> rstr \<Rightarrow> frame list \<Rightarrow> rstr \<Rightarrow> nat
    \<Rightarrow> http_error + (rstr \<times> nat \<times> response_status \<times> response_error option) \<times> frame list" where
  "accumulate run sid [] s n = Inl (HProtocol (lit ''daemon closed connection before the run finished''))"
| "accumulate run sid (FrEvent ev # fs) s n = (case ev of
     EvLifecycle _ r phase \<Rightarrow>
       if r = run then (case phase of
            PhStart \<Rightarrow> accumulate run sid fs s n
          | PhEnd \<Rightarrow> Inr ((s, n, RsCompleted, None), fs)
          | PhError message kind \<Rightarrow>
              Inr ((s, n, case kind of KAborted \<Rightarrow> RsCancelled | _ \<Rightarrow> RsFailed, Some \<lparr> re_message = message, re_code = failure_code kind \<rparr>), fs))
       else accumulate run sid fs s n
   | EvAssistant _ r d \<Rightarrow> accumulate run sid fs (if r = run then s @ d else s) n
   | EvUsage q k _ \<Rightarrow> accumulate run sid fs s (if q = sid then k else n)
   | _ \<Rightarrow> accumulate run sid fs s n)"
| "accumulate run sid (_ # fs) s n = accumulate run sid fs s n"

definition accumulate_response :: "rstr \<Rightarrow> rstr \<Rightarrow> rstr \<Rightarrow> rstr \<Rightarrow> int \<Rightarrow> rstr \<Rightarrow> int \<Rightarrow> conn \<Rightarrow> http_error + response \<times> conn" where
  "accumulate_response rid run sid model created fresh now cn = (case accumulate run sid (cn_frames cn) [] 0 of
     Inl e \<Rightarrow> Inl e
   | Inr ((s, n, status, err), fs) \<Rightarrow>
       let out = estimate_output s in
       Inr (\<lparr> rp_id = rid, rp_created_at = created, rp_status = status, rp_completed_at = Some now, rp_error = err,
              rp_output = (if s = [] then [] else [\<lparr> oi_id = lit ''msg_'' @ fresh, oi_status = lit ''completed'', oi_text = Some s \<rparr>]),
              rp_input_tokens = n, rp_output_tokens = out, rp_total_tokens = as_u32_of (n + out), rp_model = model \<rparr>,
            cn\<lparr>cn_frames := fs\<rparr>))"

text \<open>The header with the session key: absent, not text, or a text.\<close>

definition extract_session_key :: "rstr option option \<Rightarrow> http_error + rstr option" where
  "extract_session_key h = (case h of
     None \<Rightarrow> Inr None
   | Some None \<Rightarrow> Inl (HBadRequest (SESSION_KEY_HEADER @ lit '' must be valid UTF-8''))
   | Some (Some v) \<Rightarrow> map_sum id Some (validate_session_key v))"

record gateway =
  gw_sessions :: "(rstr \<times> rstr) list"
  gw_records :: "(rstr \<times> rstr \<times> rstr) list"
  gw_model :: rstr

text \<open>The identifiers and times a request takes, and the parameters.\<close>

record gw_env =
  ge_hash :: "rstr \<Rightarrow> nat"
  ge_bytes :: "rstr \<Rightarrow> nat list"
  ge_dbg :: "method_ok \<Rightarrow> rstr"
  ge_ser :: "sse_event \<Rightarrow> rstr option"
  ge_fresh :: "nat \<Rightarrow> rstr"
  ge_key :: rstr
  ge_response :: rstr
  ge_now :: "nat \<Rightarrow> int"

datatype reply = ReplyJson response | ReplyStream "(http_error + rstr) list"

text \<open>The reply, the gateway and the connection that goes back to the pool.\<close>

definition create_response :: "gw_env \<Rightarrow> rstr option option \<Rightarrow> response_req \<Rightarrow> http_error + conn \<Rightarrow> gateway \<Rightarrow> (http_error + reply \<times> conn option) \<times> gateway" where
  "create_response ge hdr rq acquired gw =
     (case reject_unsupported rq of Inl e \<Rightarrow> (Inl e, gw) | Inr _ \<Rightarrow>
      (case validate_tools (rr_tools rq) of Inl e \<Rightarrow> (Inl e, gw) | Inr _ \<Rightarrow>
       (case extract_session_key hdr of Inl e \<Rightarrow> (Inl e, gw) | Inr key \<Rightarrow>
        let sid = resolve_session (ge_hash ge) rq key (gw_sessions gw) in
        (case extract_input (ge_bytes ge) (ge_fresh ge) rq of Inl e \<Rightarrow> (Inl e, gw) | Inr ex \<Rightarrow>
         (case exchange (ge_dbg ge) (MChatSend (Some sid) (build_turn_prefix ex @ ex_text ex)) (Some (ge_key ge)) acquired of
            Inl e \<Rightarrow> (Inl e, gw)
          | Inr (ok, cn) \<Rightarrow> (case ok of
               OkChatSend run \<Rightarrow>
                 let rid = lit ''resp_'' @ ge_response ge;
                     gw' = gw\<lparr> gw_sessions := AList.update rid sid (gw_sessions gw), gw_records := AList.update rid (sid, run) (gw_records gw) \<rparr>
                 in if rr_stream rq = Some True
                    then (Inr (ReplyStream (stream_sse (ge_ser ge) (ge_fresh ge) (ge_now ge) (cn_frames cn) 0
                             (sse_new rid run sid (gw_model gw) (ge_now ge 0))), None), gw')
                    else (case accumulate_response rid run sid (gw_model gw) (ge_now ge 0) (ge_fresh ge 0) (ge_now ge 1) cn of
                            Inl e \<Rightarrow> (Inl e, gw')
                          | Inr (rp, cn') \<Rightarrow> (Inr (ReplyJson rp, Some cn'), gw'))
             | _ \<Rightarrow> (Inl (expected (ge_dbg ge) (lit ''chat_send ok'') ok), gw)))))))"

definition cancel_response :: "gw_env \<Rightarrow> rstr \<Rightarrow> http_error + conn \<Rightarrow> gateway \<Rightarrow> http_error + json \<times> conn option" where
  "cancel_response ge rid acquired gw = (case map_of (gw_records gw) rid of
     None \<Rightarrow> Inl (HNotFound (lit ''response not found: '' @ rid))
   | Some (sid, run) \<Rightarrow>
       (case exchange (ge_dbg ge) (MChatAbort run True) None acquired of
          Inl e \<Rightarrow> Inl e
        | Inr (ok, cn) \<Rightarrow> (case ok of
             OkEmpty \<Rightarrow> Inr (JObj [(lit ''id'', JStr rid), (lit ''object'', JStr (lit ''response'')), (lit ''status'', JStr (lit ''cancelled''))], Some cn)
           | _ \<Rightarrow> Inl (expected (ge_dbg ge) (lit ''empty ok'') ok))))"

section \<open>The native endpoints\<close>

definition belongs :: "event \<Rightarrow> rstr \<Rightarrow> rstr \<Rightarrow> bool" where
  "belongs ev run sid = (case ev of
     EvLifecycle _ r _ \<Rightarrow> r = run | EvAssistant _ r _ \<Rightarrow> r = run | EvReasoning _ r _ \<Rightarrow> r = run | EvTool _ r _ _ \<Rightarrow> r = run
   | EvApproval _ _ r _ _ \<Rightarrow> r = run | EvUserInput _ _ r _ \<Rightarrow> r = run
   | EvUsage s _ _ \<Rightarrow> s = sid
   | EvProactive _ _ _ _ \<Rightarrow> False | EvTask _ _ _ _ \<Rightarrow> False)"

definition event_name :: "event \<Rightarrow> rstr" where
  "event_name ev = (case ev of
     EvLifecycle _ _ _ \<Rightarrow> lit ''lifecycle'' | EvAssistant _ _ _ \<Rightarrow> lit ''assistant'' | EvReasoning _ _ _ \<Rightarrow> lit ''reasoning''
   | EvTool _ _ _ _ \<Rightarrow> lit ''tool'' | EvProactive _ _ _ _ \<Rightarrow> lit ''proactive'' | EvTask _ _ _ _ \<Rightarrow> lit ''task''
   | EvUsage _ _ _ \<Rightarrow> lit ''usage'' | EvApproval _ _ _ _ _ \<Rightarrow> lit ''approval'' | EvUserInput _ _ _ _ \<Rightarrow> lit ''user_input'')"

text \<open>An item: its name and its data.\<close>

definition sse_for_event :: "(event \<Rightarrow> rstr option) \<Rightarrow> event \<Rightarrow> rstr \<Rightarrow> rstr \<Rightarrow> ((rstr \<times> rstr) \<times> bool) option" where
  "sse_for_event ser ev run sid =
     (if \<not> belongs ev run sid then None
      else map_option (\<lambda>j. ((event_name ev, j), is_terminal_event ev)) (ser ev))"

definition native_body :: "(event \<Rightarrow> rstr option) \<Rightarrow> rstr \<Rightarrow> rstr \<Rightarrow> frame list \<Rightarrow> (http_error + rstr \<times> rstr) list \<times> bool" where
  "native_body ser run sid fs = fold (\<lambda>f (out, stop). if stop then (out, stop) else (case f of
     FrEvent ev \<Rightarrow> (case sse_for_event ser ev run sid of Some (item, terminal) \<Rightarrow> (out @ [Inr item], terminal) | None \<Rightarrow> (out, False))
   | _ \<Rightarrow> (out, False))) fs ([], False)"

text \<open>The stream: the frames read before, then those of the connection up to its end.\<close>

definition stream_native_after :: "(event \<Rightarrow> rstr option) \<Rightarrow> rstr \<Rightarrow> rstr \<Rightarrow> frame list \<Rightarrow> (rstr \<times> rstr) option \<Rightarrow> frame list \<Rightarrow> (http_error + rstr \<times> rstr) list" where
  "stream_native_after ser run sid head first_item fs =
     (case first_item of Some item \<Rightarrow> [Inr item] | None \<Rightarrow> [])
     @ (case native_body ser run sid head of
          (out, True) \<Rightarrow> out
        | (out, False) \<Rightarrow> out @ (case native_body ser run sid fs of
             (rest, True) \<Rightarrow> rest
           | (rest, False) \<Rightarrow> rest @ [Inl (HProtocol (lit ''daemon closed connection mid-stream''))]))"

definition native_session :: "rstr option \<Rightarrow> http_error + rstr" where
  "native_session s = (case s of None \<Rightarrow> Inr main_id | Some k \<Rightarrow> validate_session_key k)"

text \<open>\<open>accepted_json\<close> is the JSON text of the first item.\<close>

definition native_send :: "gw_env \<Rightarrow> (event \<Rightarrow> rstr option) \<Rightarrow> (rstr \<Rightarrow> rstr \<Rightarrow> rstr) \<Rightarrow> rstr option \<Rightarrow> rstr \<Rightarrow> http_error + conn
    \<Rightarrow> http_error + (http_error + rstr \<times> rstr) list" where
  "native_send ge ser accepted_json session msg acquired =
     (if trim msg = [] then Inl (HBadRequest (lit ''text must not be empty''))
      else case native_session session of
        Inl e \<Rightarrow> Inl e
      | Inr sid \<Rightarrow> (case exchange (ge_dbg ge) (MChatSend (Some sid) msg) (Some (ge_key ge)) acquired of
          Inl e \<Rightarrow> Inl e
        | Inr (ok, cn) \<Rightarrow> (case ok of
             OkChatSend run \<Rightarrow> Inr (stream_native_after ser run sid [] (Some (lit ''accepted'', accepted_json run sid)) (cn_frames cn))
           | _ \<Rightarrow> Inl (expected (ge_dbg ge) (lit ''chat_send ok'') ok))))"

text \<open>\<open>resume\<close> keeps the events it reads while it waits for the answer.\<close>

fun await_resume :: "(method_ok \<Rightarrow> rstr) \<Rightarrow> frame list \<Rightarrow> frame list \<Rightarrow> http_error + frame list \<times> frame list" where
  "await_resume dbg [] head = Inl (HProtocol (lit ''daemon closed before resume ok''))"
| "await_resume dbg (FrRes r # fs) head = (case r of
     Inr ok \<Rightarrow> (case ok of OkChatResume _ \<Rightarrow> Inr (head, fs) | _ \<Rightarrow> Inl (expected dbg (lit ''chat_resume ok'') ok))
   | Inl e \<Rightarrow> Inl (from_proto e))"
| "await_resume dbg (FrEvent ev # fs) head = await_resume dbg fs (head @ [FrEvent ev])"
| "await_resume dbg (FrOther # fs) head = await_resume dbg fs head"

definition native_resume :: "gw_env \<Rightarrow> (event \<Rightarrow> rstr option) \<Rightarrow> rstr \<Rightarrow> rstr option \<Rightarrow> int \<Rightarrow> http_error + conn
    \<Rightarrow> http_error + (http_error + rstr \<times> rstr) list" where
  "native_resume ge ser run session since acquired =
     (case native_session session of
        Inl e \<Rightarrow> Inl e
      | Inr sid \<Rightarrow> (case acquired of
          Inl e \<Rightarrow> Inl e
        | Inr cn \<Rightarrow> (case handshake (ge_dbg ge) cn of
            (Inl e, _) \<Rightarrow> Inl e
          | (Inr _, cn1) \<Rightarrow> (case send_req (MChatResume sid run since) None cn1 of
              (Inl e, _) \<Rightarrow> Inl e
            | (Inr _, cn2) \<Rightarrow> (case await_resume (ge_dbg ge) (cn_frames cn2) [] of
                Inl e \<Rightarrow> Inl e
              | Inr (head, fs) \<Rightarrow> Inr (stream_native_after ser run sid head None fs))))))"

text \<open>The endpoints that only pass a request on, for any answer or for an answer of one kind; the connection goes
  back to the pool.\<close>

definition native_pass :: "gw_env \<Rightarrow> req_method \<Rightarrow> http_error + conn \<Rightarrow> http_error + conn" where
  "native_pass ge m acquired = map_sum id snd (exchange (ge_dbg ge) m None acquired)"

definition native_abort :: "gw_env \<Rightarrow> rstr \<Rightarrow> bool \<Rightarrow> http_error + conn \<Rightarrow> http_error + conn" where
  "native_abort ge run hard = native_pass ge (MChatAbort run hard)"
definition native_approval :: "gw_env \<Rightarrow> rstr \<Rightarrow> bool \<Rightarrow> http_error + conn \<Rightarrow> http_error + conn" where
  "native_approval ge aid allow = native_pass ge (MApprovalReply aid allow)"
definition native_user_reply :: "gw_env \<Rightarrow> rstr \<Rightarrow> rstr option \<Rightarrow> http_error + conn \<Rightarrow> http_error + conn" where
  "native_user_reply ge iid msg = native_pass ge (MUserReply iid msg)"
definition native_reset :: "gw_env \<Rightarrow> rstr \<Rightarrow> http_error + conn \<Rightarrow> http_error + conn" where
  "native_reset ge sid = native_pass ge (MSessionReset (Some sid))"
definition native_compact :: "gw_env \<Rightarrow> rstr \<Rightarrow> http_error + conn \<Rightarrow> http_error + conn" where
  "native_compact ge sid = native_pass ge (MCompact (Some sid))"

definition native_ask :: "gw_env \<Rightarrow> rstr \<Rightarrow> (method_ok \<Rightarrow> bool) \<Rightarrow> req_method \<Rightarrow> http_error + conn \<Rightarrow> http_error + method_ok \<times> conn" where
  "native_ask ge what fits m acquired = (case exchange (ge_dbg ge) m None acquired of
     Inl e \<Rightarrow> Inl e
   | Inr (ok, cn) \<Rightarrow> if fits ok then Inr (ok, cn) else Inl (expected (ge_dbg ge) what ok))"

definition native_sessions :: "gw_env \<Rightarrow> http_error + conn \<Rightarrow> http_error + method_ok \<times> conn" where
  "native_sessions ge = native_ask ge (lit ''Sessions'') (\<lambda>ok. case ok of OkSessions _ \<Rightarrow> True | _ \<Rightarrow> False) MSessionsList"
definition native_history :: "gw_env \<Rightarrow> rstr \<Rightarrow> nat option \<Rightarrow> http_error + conn \<Rightarrow> http_error + method_ok \<times> conn" where
  "native_history ge sid limit = native_ask ge (lit ''History'') (\<lambda>ok. case ok of OkHistory _ \<Rightarrow> True | _ \<Rightarrow> False) (MChatHistory (Some sid) limit)"
definition native_status :: "gw_env \<Rightarrow> http_error + conn \<Rightarrow> http_error + method_ok \<times> conn" where
  "native_status ge = native_ask ge (lit ''Status'') (\<lambda>ok. case ok of OkStatus _ \<Rightarrow> True | _ \<Rightarrow> False) MStatus"

definition native_command :: "gw_env \<Rightarrow> rstr option \<Rightarrow> rstr \<Rightarrow> http_error + conn \<Rightarrow> http_error + method_ok \<times> conn" where
  "native_command ge session msg acquired =
     (if trim msg = [] then Inl (HBadRequest (lit ''text must not be empty''))
      else case native_session session of
        Inl e \<Rightarrow> Inl e
      | Inr sid \<Rightarrow> native_ask ge (lit ''Command'') (\<lambda>ok. case ok of OkCommand _ \<Rightarrow> True | _ \<Rightarrow> False) (MCommand (Some sid) msg) acquired)"

definition ambient :: "event \<Rightarrow> bool" where
  "ambient ev = (case ev of EvUsage _ _ _ \<Rightarrow> True | EvProactive _ _ _ _ \<Rightarrow> True | EvTask _ _ _ _ \<Rightarrow> True | _ \<Rightarrow> False)"

text \<open>The stream of ambient events begins with the status; \<open>status_json\<close> is its JSON text.\<close>

definition native_events :: "gw_env \<Rightarrow> (event \<Rightarrow> rstr option) \<Rightarrow> (method_ok \<Rightarrow> rstr) \<Rightarrow> http_error + conn \<Rightarrow> http_error + (http_error + rstr \<times> rstr) list" where
  "native_events ge ser status_json acquired = (case native_status ge acquired of
     Inl e \<Rightarrow> Inl e
   | Inr (ok, cn) \<Rightarrow> Inr (Inr (lit ''status'', status_json ok)
        # map Inr (List.map_filter (\<lambda>f. case f of FrEvent ev \<Rightarrow> if ambient ev then map_option (\<lambda>j. (event_name ev, j)) (ser ev) else None | _ \<Rightarrow> None)
             (cn_frames cn))
        @ [Inl (HProtocol (lit ''daemon closed events connection''))]))"

end
