(* ===== verification/Http_Safety.thy ===== *)
theory Http_Safety
  imports Http_Stream
begin

text \<open>
  What the gateway promises: base64 round trips, no API request passes without a credential, the pool
  keeps its limits, an OpenAI stream is numbered without gaps and says the same as the response that is not
  streamed, and events that overtake the answer are lost.
\<close>

section \<open>Base64\<close>

definition base64_char :: "nat \<Rightarrow> nat" where
  "base64_char v = (if v < 26 then 65 + v else if v < 52 then 71 + v else if v < 62 then v - 4 else if v = 62 then 43 else 47)"

text \<open>The encoding of RFC 4648, with padding.\<close>

fun base64_encode :: "nat list \<Rightarrow> nat list" where
  "base64_encode (a # b # c # bs) =
     map base64_char [a div 4, a mod 4 * 16 + b div 16, b mod 16 * 4 + c div 64, c mod 64] @ base64_encode bs"
| "base64_encode [a, b] = map base64_char [a div 4, a mod 4 * 16 + b div 16, b mod 16 * 4] @ [61]"
| "base64_encode [a] = map base64_char [a div 4, a mod 4 * 16] @ [61, 61]"
| "base64_encode [] = []"

lemma base64_val_char: "v < 64 \<Longrightarrow> base64_val (base64_char v) = Some v"
proof -
  have "list_all (\<lambda>v. base64_val (base64_char v) = Some v) [0..<64]" by code_simp
  then show "v < 64 \<Longrightarrow> base64_val (base64_char v) = Some v" by (simp add: list_all_iff)
qed

lemma base64_char_plain: "v < 64 \<Longrightarrow> \<not> is_ascii_ws (base64_char v) \<and> base64_char v \<noteq> 61"
  by (auto simp: is_ascii_ws_def base64_char_def)

lemma shift_or:
  assumes "v < 64" shows "or (push_bit 6 (of_nat a :: 32 word)) (of_nat v) = of_nat (64 * a + v)"
proof -
  have "take_bit 6 v = v" using assms by (simp add: take_bit_nat_eq_self)
  then have b: "bit v n \<Longrightarrow> n < 6" for n by (metis bit_take_bit_iff)
  have "and (push_bit 6 (of_nat a :: 32 word)) (of_nat v) = 0"
    by (rule bit_eqI) (auto simp: bit_and_iff bit_push_bit_iff bit_of_nat_iff dest: b)
  then have "or (push_bit 6 (of_nat a :: 32 word)) (of_nat v) = push_bit 6 (of_nat a) + of_nat v"
    by (simp add: disjunctive_add_eq_or)
  then show ?thesis by (simp add: push_bit_eq_mult mult.commute)
qed

lemma base64_acc_chars:
  "\<forall>v \<in> set vs. v < 64 \<Longrightarrow> base64_acc (of_nat a) (map base64_char vs) = Some (of_nat (foldl (\<lambda>a v. 64 * a + v) a vs))"
proof (induction vs arbitrary: a)
  case (Cons v vs)
  then have v: "v < 64" by simp
  have "base64_acc (of_nat a) (map base64_char (v # vs)) = base64_acc (of_nat (64 * a + v)) (map base64_char vs)"
    by (simp only: list.map base64_acc.simps base64_val_char[OF v] option.case shift_or[OF v])
  then show ?case using Cons by (simp del: of_nat_add of_nat_mult)
qed simp

lemma word_byte: "x < 2 ^ 32 \<Longrightarrow> unat (take_bit 8 (drop_bit n (of_nat x :: 32 word))) = x div 2 ^ n mod 256"
  by (simp only: unsigned_take_bit_eq unsigned_drop_bit_eq unat_of_nat)
    (simp add: drop_bit_eq_div take_bit_eq_mod min_def)

lemma group_bytes:
  assumes "\<forall>v \<in> set vs. v < 64" "2 \<le> length vs" "length vs \<le> 4"
    and x: "x = foldl (\<lambda>a v. 64 * a + v) 0 vs * 2 ^ (6 * (4 - length vs))" "x < 2 ^ 32"
  shows "base64_group (map base64_char vs) = Some (take (length vs - 1) [x div 65536 mod 256, x div 256 mod 256, x mod 256])"
proof -
  have acc: "base64_acc 0 (map base64_char vs) = Some (of_nat (foldl (\<lambda>a v. 64 * a + v) 0 vs))"
    using base64_acc_chars[OF assms(1), of 0] by simp
  have "push_bit (6 * (4 - length vs)) (of_nat (foldl (\<lambda>a v. 64 * a + v) 0 vs) :: 32 word) = of_nat x"
    by (simp add: push_bit_eq_mult x(1))
  then have "base64_group (map base64_char vs) = Some (take (length vs - 1)
      [unat (take_bit 8 (drop_bit 16 (of_nat x :: 32 word))), unat (take_bit 8 (drop_bit 8 (of_nat x :: 32 word))),
       unat (take_bit 8 (drop_bit 0 (of_nat x :: 32 word)))])"
    using assms(2) by (simp only: base64_group_def length_map acc option.map Let_def drop_bit_0 id_apply not_less if_False simp_thms)
      (simp add: not_less)
  then show ?thesis unfolding word_byte[OF x(2)] by simp
qed

lemma triple:
  fixes a b c :: nat
  shows "((a div 4 * 64 + (a mod 4 * 16 + b div 16)) * 64 + (b mod 16 * 4 + c div 64)) * 64 + c mod 64 = a * 65536 + b * 256 + c"
proof -
  have "((a1 * 64 + (a2 * 16 + b1)) * 64 + (b2 * 4 + c1)) * 64 + c2 = (4 * a1 + a2) * 65536 + (16 * b1 + b2) * 256 + (64 * c1 + c2)"
    for a1 a2 b1 b2 c1 c2 :: nat by (simp add: algebra_simps)
  from this[of "a div 4" "a mod 4" "b div 16" "b mod 16" "c div 64" "c mod 64"] show ?thesis by (simp only: mult_div_mod_eq)
qed

lemma triple_bytes:
  assumes "(a :: nat) < 256" "b < 256" "c < 256" "x = a * 65536 + b * 256 + c"
  shows "x div 65536 mod 256 = a" "x div 256 mod 256 = b" "x mod 256 = c" "x < 2 ^ 32"
proof -
  have x: "x = (a * 256 + b) * 256 + c" using assms(4) by simp
  then have "x div 256 = a * 256 + b" using assms(3) by simp
  then show "x div 256 mod 256 = b" using assms by simp
  have "x div 65536 = x div 256 div 256" using div_mult2_eq[of x 256 256] by simp
  also have "\<dots> = a" using \<open>x div 256 = a * 256 + b\<close> assms by simp
  finally show "x div 65536 mod 256 = a" using assms by simp
  show "x mod 256 = c" unfolding x using assms(3) by (simp only: mod_mult_self3 mod_less)
  show "x < 2 ^ 32" using assms by simp
qed

lemma sextets:
  fixes a b c :: nat
  assumes "a < 256" "b < 256" "c < 256"
  shows "a div 4 < 64" "a mod 4 * 16 + b div 16 < 64" "b mod 16 * 4 + c div 64 < 64" "c mod 64 < 64"
    "b mod 16 * 4 < 64" "a mod 4 * 16 < 64"
proof -
  have "a mod 4 < 4" "b mod 16 < 16" by simp_all
  moreover have "b div 16 < 16" "c div 64 < 4" using assms by (simp_all add: less_mult_imp_div_less)
  moreover have "p < 4 \<Longrightarrow> q < 16 \<Longrightarrow> p * 16 + q < 64" "q < 16 \<Longrightarrow> p < 4 \<Longrightarrow> q * 4 + p < 64"
    "p < 4 \<Longrightarrow> p * 16 < 64" "q < 16 \<Longrightarrow> q * 4 < 64" for p q :: nat by simp_all
  ultimately show "a mod 4 * 16 + b div 16 < 64" "b mod 16 * 4 + c div 64 < 64" "b mod 16 * 4 < 64" "a mod 4 * 16 < 64" by metis+
qed (use assms in \<open>simp_all add: less_mult_imp_div_less\<close>)

lemma group_of:
  assumes "p < 64" "q < 64"
  shows "r < 64 \<Longrightarrow> s < 64 \<Longrightarrow> x = ((p * 64 + q) * 64 + r) * 64 + s \<Longrightarrow> x < 2 ^ 32
      \<Longrightarrow> base64_group (map base64_char [p, q, r, s]) = Some [x div 65536 mod 256, x div 256 mod 256, x mod 256]"
    "r < 64 \<Longrightarrow> x = ((p * 64 + q) * 64 + r) * 64 + 0 \<Longrightarrow> x < 2 ^ 32
      \<Longrightarrow> base64_group (map base64_char [p, q, r]) = Some [x div 65536 mod 256, x div 256 mod 256]"
    "x = ((p * 64 + q) * 64 + 0) * 64 + 0 \<Longrightarrow> x < 2 ^ 32 \<Longrightarrow> base64_group (map base64_char [p, q]) = Some [x div 65536 mod 256]"
proof -
  have e: "foldl (\<lambda>a v. 64 * a + v) 0 [p, q, r, s] * 2 ^ (6 * (4 - length [p, q, r, s])) = ((p * 64 + q) * 64 + r) * 64 + s"
    "foldl (\<lambda>a v. 64 * a + v) 0 [p, q, r] * 2 ^ (6 * (4 - length [p, q, r])) = ((p * 64 + q) * 64 + r) * 64 + 0"
    "foldl (\<lambda>a v. 64 * a + v) 0 [p, q] * 2 ^ (6 * (4 - length [p, q])) = ((p * 64 + q) * 64 + 0) * 64 + 0"
    by (simp_all add: algebra_simps)
  show "r < 64 \<Longrightarrow> s < 64 \<Longrightarrow> x = ((p * 64 + q) * 64 + r) * 64 + s \<Longrightarrow> x < 2 ^ 32
      \<Longrightarrow> base64_group (map base64_char [p, q, r, s]) = Some [x div 65536 mod 256, x div 256 mod 256, x mod 256]"
    using group_bytes[of "[p, q, r, s]" x, unfolded e] assms by simp
  show "r < 64 \<Longrightarrow> x = ((p * 64 + q) * 64 + r) * 64 + 0 \<Longrightarrow> x < 2 ^ 32
      \<Longrightarrow> base64_group (map base64_char [p, q, r]) = Some [x div 65536 mod 256, x div 256 mod 256]"
    using group_bytes[of "[p, q, r]" x, unfolded e] assms by simp
  show "x = ((p * 64 + q) * 64 + 0) * 64 + 0 \<Longrightarrow> x < 2 ^ 32 \<Longrightarrow> base64_group (map base64_char [p, q]) = Some [x div 65536 mod 256]"
    using group_bytes[of "[p, q]" x, unfolded e] assms by simp
qed

lemma encode_group:
  assumes "a < 256" "b < 256" "c < 256"
  shows "base64_group (map base64_char [a div 4, a mod 4 * 16 + b div 16, b mod 16 * 4 + c div 64, c mod 64]) = Some [a, b, c]"
    "base64_group (map base64_char [a div 4, a mod 4 * 16 + b div 16, b mod 16 * 4]) = Some [a, b]"
    "base64_group (map base64_char [a div 4, a mod 4 * 16]) = Some [a]"
proof -
  have t: "a * 65536 + b * 256 + c < 2 ^ 32" "a * 65536 + b * 256 + 0 < 2 ^ 32" "a * 65536 + 0 * 256 + 0 < 2 ^ 32"
    using assms by simp_all
  have z: "(0 :: nat) < 256" by simp
  have tr: "a * 65536 + b * 256 + c = ((a div 4 * 64 + (a mod 4 * 16 + b div 16)) * 64 + (b mod 16 * 4 + c div 64)) * 64 + c mod 64"
    "a * 65536 + b * 256 + 0 = ((a div 4 * 64 + (a mod 4 * 16 + b div 16)) * 64 + b mod 16 * 4) * 64 + 0"
    "a * 65536 + 0 * 256 + 0 = ((a div 4 * 64 + a mod 4 * 16) * 64 + 0) * 64 + 0"
    using triple[of a b c] triple[of a b 0] triple[of a 0 0] by (simp_all only: div_0 mod_0 add_0_right mult_0)
  note x = sextets[OF assms]
  note b3 = triple_bytes[OF assms refl] and b2 = triple_bytes[OF assms(1,2) z refl] and b1 = triple_bytes[OF assms(1) z z refl]
  show "base64_group (map base64_char [a div 4, a mod 4 * 16 + b div 16, b mod 16 * 4 + c div 64, c mod 64]) = Some [a, b, c]"
    using group_of(1)[OF x(1-4) tr(1) t(1)] unfolding b3 .
  show "base64_group (map base64_char [a div 4, a mod 4 * 16 + b div 16, b mod 16 * 4]) = Some [a, b]"
    using group_of(2)[OF x(1,2,5) tr(2) t(2)] unfolding b2 .
  show "base64_group (map base64_char [a div 4, a mod 4 * 16]) = Some [a]"
    using group_of(3)[OF x(1,6) tr(3) t(3)] unfolding b1 .
qed

lemma decode_step:
  assumes "p < 64" "q < 64"
  shows "r < 64 \<Longrightarrow> s < 64 \<Longrightarrow> base64_group (map base64_char [p, q, r, s]) = Some g \<Longrightarrow> base64_decode rest = Some bs
      \<Longrightarrow> base64_decode (map base64_char [p, q, r, s] @ rest) = Some (g @ bs)"
    "r < 64 \<Longrightarrow> base64_group (map base64_char [p, q, r]) = Some g \<Longrightarrow> base64_decode (map base64_char [p, q, r] @ [61]) = Some g"
    "base64_group (map base64_char [p, q]) = Some g \<Longrightarrow> base64_decode (map base64_char [p, q] @ [61, 61]) = Some g"
  using assms by (simp_all add: base64_decode_def base64_char_plain)

text \<open>C22. What the standard encoder writes, the decoder reads back, padding included.\<close>

theorem base64_roundtrip:
  assumes "\<forall>b \<in> set bs. b < 256" shows "base64_decode (base64_encode bs) = Some bs"
  using assms
proof (induction bs rule: base64_encode.induct)
  case (1 a b c bs)
  then have l: "a < 256" "b < 256" "c < 256" and ih: "base64_decode (base64_encode bs) = Some bs" by simp_all
  show ?case unfolding base64_encode.simps
    using decode_step(1)[OF sextets(1-4)[OF l] encode_group(1)[OF l] ih] by simp
next
  case (2 a b)
  then have l: "a < 256" "b < 256" "(0 :: nat) < 256" by simp_all
  show ?case unfolding base64_encode.simps by (rule decode_step(2)[OF sextets(1,2,5)[OF l] encode_group(2)[OF l]])
next
  case (3 a)
  then have l: "a < 256" "(0 :: nat) < 256" by simp_all
  show ?case unfolding base64_encode.simps by (rule decode_step(3)[OF sextets(1,6)[OF l l(2)] encode_group(3)[OF l l(2)]])
qed (simp add: base64_decode_def)

lemma base64_roundtrip_witness: "base64_decode (base64_encode [104, 255, 0, 7]) = Some [104, 255, 0, 7]"
  by (rule base64_roundtrip) simp

section \<open>Credentials\<close>

text \<open>What the server was asked: a login with its time, new session and token, or a request with its time.\<close>

datatype auth_op = OpLogin int rstr rstr | OpRequest int http_req

definition auth_step :: "auth_op \<Rightarrow> auth_state \<Rightarrow> auth_state" where
  "auth_step op1 au = (case op1 of
     OpLogin now sid token \<Rightarrow> snd (login now sid token au) | OpRequest now rq \<Rightarrow> snd (require_token now rq au))"

lemma strip_prefix_append: "strip_prefix v p = Some r \<Longrightarrow> v = p @ r"
  by (auto simp: strip_prefix_def starts_with_def simp del: lit_Cons split: if_splits) (metis append_take_drop_id)

lemma require_token_logins:
  "au_token (snd (require_token now rq au)) = au_token au"
  "map_of (au_logins (snd (require_token now rq au))) sid = Some t \<Longrightarrow> map_of (au_logins au) sid = Some t"
  by (auto simp: require_token_def cookie_session_def Let_def delete_conv' split: option.splits if_splits)

lemma login_logins:
  "au_token (snd (login now new token au)) = au_token au"
  "map_of (au_logins (snd (login now new token au))) sid = Some t
    \<Longrightarrow> map_of (au_logins au) sid = Some t \<or> (sid = new \<and> t = now \<and> au_token au = Some token)"
  by (auto simp: login_def update_conv' split: option.splits if_splits)

lemma auth_run_inv:
  assumes "au_token au = Some tok" "au_logins au = []"
  shows "au_token (fold auth_step ops au) = Some tok
    \<and> (\<forall>sid t. map_of (au_logins (fold auth_step ops au)) sid = Some t \<longrightarrow> OpLogin t sid tok \<in> set ops)"
proof (induction ops rule: rev_induct)
  case (snoc op1 ops)
  then show ?case
    by (cases op1) (auto simp: auth_step_def require_token_logins(1) login_logins(1) dest!: require_token_logins(2) login_logins(2))
qed (use assms in simp)

text \<open>C12. With a token configured no request to the APIs passes without a credential, whatever was asked before: the
  token in the header, the token in the query of the event stream, or the cookie of a session that was logged
  in with the token less than twelve hours ago.\<close>

theorem api_needs_a_credential:
  assumes "au_token au = Some tok" "au_logins au = []"
    and api: "starts_with (hr_path rq) (lit ''/api/v1'') \<or> starts_with (hr_path rq) (lit ''/v1'')"
    and pass: "fst (require_token now rq (fold auth_step ops au))"
  shows "hr_authorization rq = Some (lit ''Bearer '' @ tok)
    \<or> (hr_path rq = TOKEN_QUERY_ROUTE \<and> (\<exists>q. hr_query rq = Some q \<and> (lit ''token'', tok) \<in> set q))
    \<or> (\<exists>sid created. extract_cookie rq LOGIN_COOKIE = Some sid \<and> OpLogin created sid tok \<in> set ops \<and> now - created < 12 * 60 * 60)"
proof -
  let ?au = "fold auth_step ops au"
  note inv = auth_run_inv[OF assms(1,2), of ops]
  consider "fst (cookie_session now rq ?au)" | "Option.bind (hr_authorization rq) (\<lambda>v. strip_prefix v (lit ''Bearer '')) = Some tok"
    | "hr_path rq = TOKEN_QUERY_ROUTE" "Option.bind (hr_query rq) (\<lambda>q. map_option snd (find (\<lambda>(k, v). k = lit ''token'') q)) = Some tok"
    using pass inv api by (auto simp: require_token_def Let_def simp del: lit_Cons split: prod.splits if_splits)
  then show ?thesis
  proof cases
    case 1
    then show ?thesis using inv by (auto simp: cookie_session_def Let_def LOGIN_TTL_def simp del: lit_Cons split: option.splits)
  next
    case 2
    then obtain v where "hr_authorization rq = Some v" "strip_prefix v (lit ''Bearer '') = Some tok" by (auto simp: bind_eq_Some_conv)
    then show ?thesis by (metis strip_prefix_append)
  next
    case 3
    then obtain q k where "hr_query rq = Some q" "find (\<lambda>(k, v). k = lit ''token'') q = Some (k, tok)" by (auto simp: bind_eq_Some_conv)
    then show ?thesis using 3(1) by (auto simp: find_Some_iff simp del: lit_Cons) (metis nth_mem)
  qed
qed

definition cookie_request :: http_req where
  "cookie_request = \<lparr> hr_path = lit ''/v1/responses'', hr_authorization = None, hr_cookie = Some (lit ''a=b; oc_session=s1''), hr_query = None \<rparr>"

lemma api_needs_a_credential_witness:
  "hr_authorization cookie_request = Some (lit ''Bearer '' @ lit ''tk'')
    \<or> (hr_path cookie_request = TOKEN_QUERY_ROUTE \<and> (\<exists>q. hr_query cookie_request = Some q \<and> (lit ''token'', lit ''tk'') \<in> set q))
    \<or> (\<exists>sid created. extract_cookie cookie_request LOGIN_COOKIE = Some sid \<and> OpLogin created sid (lit ''tk'') \<in> set [OpLogin 5 (lit ''s1'') (lit ''tk'')]
         \<and> 100 - created < 12 * 60 * 60)"
proof (rule api_needs_a_credential)
  show "fst (require_token 100 cookie_request (fold auth_step [OpLogin 5 (lit ''s1'') (lit ''tk'')] \<lparr> au_token = Some (lit ''tk''), au_logins = [] \<rparr>))"
    by code_simp
  show "starts_with (hr_path cookie_request) (lit ''/api/v1'') \<or> starts_with (hr_path cookie_request) (lit ''/v1'')" by code_simp
qed simp_all

section \<open>The pool\<close>

text \<open>Every interleaving of the steps of the callers.\<close>

inductive pool_reach :: "nat \<Rightarrow> nat \<Rightarrow> 'c pool \<Rightarrow> bool" for mi mc where
  new: "pool_reach mi mc (pool_new mi mc)"
| idle: "pool_reach mi mc p \<Longrightarrow> pool_reach mi mc (snd (acquire_idle healthy p))"
| permit: "pool_reach mi mc p \<Longrightarrow> pool_reach mi mc (snd (acquire_permit p))"
| connect: "pool_reach mi mc p \<Longrightarrow> 0 < pl_opening p \<Longrightarrow> pool_reach mi mc (snd (acquire_connect fresh p))"
| release: "pool_reach mi mc p \<Longrightarrow> pool_reach mi mc (release healthy c p)"
| drop_conn: "pool_reach mi mc p \<Longrightarrow> pool_reach mi mc (drop_conn c p)"

definition pool_inv :: "nat \<Rightarrow> nat \<Rightarrow> 'c pool \<Rightarrow> bool" where
  "pool_inv mi mc p \<longleftrightarrow> pl_max_conns p = max mc 1 \<and> pl_max_idle p = min mi (max mc 1)
     \<and> length (pl_idle p) + length (pl_used p) + pl_opening p + pl_permits p = max mc 1 \<and> length (pl_idle p) \<le> pl_max_idle p"

lemma pop_idle_counts:
  "pop_idle healthy cs n = (Some c, cs', n') \<Longrightarrow> Suc (length cs' + n') = length cs + n \<and> length cs' \<le> length cs \<and> healthy c \<and> c \<in> set cs"
  "pop_idle healthy cs n = (None, cs', n') \<Longrightarrow> n' = length cs + n \<and> cs' = []"
proof (induction cs arbitrary: n)
  case (Cons a cs)
  { case 1 then show ?case using Cons.IH(1)[of "n + 1"] by (cases "healthy a") auto }
  { case 2 then show ?case using Cons.IH(2)[of "n + 1"] by (cases "healthy a") auto }
qed simp_all

lemma acquire_idle_cases:
  obtains c idle n where "acquire_idle healthy p = (Some c, p\<lparr>pl_idle := idle, pl_permits := n, pl_used := pl_used p @ [c]\<rparr>)"
      "Suc (length idle + n) = length (pl_idle p) + pl_permits p" "length idle \<le> length (pl_idle p)" "healthy c" "c \<in> set (pl_idle p)"
  | "acquire_idle healthy p = (None, p\<lparr>pl_idle := [], pl_permits := length (pl_idle p) + pl_permits p\<rparr>)"
proof -
  obtain r idle n where pop: "pop_idle healthy (rev (pl_idle p)) (pl_permits p) = (r, idle, n)" by (metis prod_cases3)
  show thesis
  proof (cases r)
    case None
    then show ?thesis using that(2) pop pop_idle_counts(2)[of healthy "rev (pl_idle p)" "pl_permits p" idle n]
      by (simp add: acquire_idle_def)
  next
    case (Some c)
    then show ?thesis using that(1)[where c = c and idle = "rev idle" and n = n] pop pop_idle_counts(1)[of healthy "rev (pl_idle p)" "pl_permits p" c idle n]
      by (simp add: acquire_idle_def)
  qed
qed

lemma acquire_inv:
  "pool_inv mi mc p \<Longrightarrow> pool_inv mi mc (snd (acquire_idle healthy p))"
  "pool_inv mi mc p \<Longrightarrow> pool_inv mi mc (snd (acquire_permit p))"
  "pool_inv mi mc p \<Longrightarrow> 0 < pl_opening p \<Longrightarrow> pool_inv mi mc (snd (acquire_connect fresh p))"
  by (rule acquire_idle_cases[of healthy p]) (auto simp: pool_inv_def acquire_permit_def acquire_connect_def split: sum.splits)

lemma remove1_count: "c \<in> set xs \<Longrightarrow> length xs = Suc (length (remove1 c xs))"
  using length_pos_if_in_set[of c xs] by (simp add: length_remove1)

lemma drop_conn_inv: "pool_inv mi mc p \<Longrightarrow> pool_inv mi mc (drop_conn c p)"
  by (auto simp: pool_inv_def drop_conn_def dest: remove1_count)

lemma release_inv: "pool_inv mi mc p \<Longrightarrow> pool_inv mi mc (release healthy c p)"
  by (auto simp: release_def drop_conn_inv) (auto simp: pool_inv_def dest: remove1_count)

lemma pool_reach_inv: "pool_reach mi mc p \<Longrightarrow> pool_inv mi mc p"
  by (induction rule: pool_reach.induct) (auto simp: acquire_inv release_inv drop_conn_inv, simp add: pool_inv_def pool_new_def Let_def)

text \<open>C20. However the steps of the callers interleave, as connections are taken, waited for, opened, given back, lost or dropped: idle
  connections, connections in use, those being opened and free permits add up to the limit, and the idle ones
  stay below theirs.  A caller gets an idle connection only when it is healthy; it is turned away only when its wait ends without a free
  permit, and then as many connections as the limit exist.  (Some of them may be idle:
  \<open>busy_beside_idle\<close>.)\<close>

theorem pool_keeps_limits:
  assumes "pool_reach mi mc p"
  shows "length (pl_idle p) + length (pl_used p) + pl_opening p + pl_permits p = max mc 1 \<and> length (pl_idle p) \<le> mi
    \<and> (case acquire_idle healthy p of
         (Some c, q) \<Rightarrow> healthy c \<and> c \<in> set (pl_idle p) \<and> c \<in> set (pl_used q)
       | (None, q) \<Rightarrow> pl_idle q = [] \<and> pl_permits q = length (pl_idle p) + pl_permits p)
    \<and> (case acquire_permit p of
         (Some e, q) \<Rightarrow> e = HBusy (busy_text_http (max mc 1)) \<and> q = p
            \<and> length (pl_idle q) + length (pl_used q) + pl_opening q = max mc 1
       | (None, q) \<Rightarrow> length (pl_idle q) + length (pl_used q) + pl_opening q \<le> max mc 1)"
proof -
  note inv = pool_reach_inv[OF assms]
  have "case acquire_idle healthy p of
         (Some c, q) \<Rightarrow> healthy c \<and> c \<in> set (pl_idle p) \<and> c \<in> set (pl_used q)
       | (None, q) \<Rightarrow> pl_idle q = [] \<and> pl_permits q = length (pl_idle p) + pl_permits p"
    by (rule acquire_idle_cases[of healthy p]) simp_all
  then show ?thesis using inv by (auto simp: pool_inv_def acquire_permit_def)
qed

lemma pool_keeps_limits_witness:
  "length (pl_used (snd (acquire_connect (Inr (7 :: nat)) (snd (acquire_permit (snd (acquire_idle (\<lambda>_. True) (pool_new 1 1)))))))) = 1
   \<and> fst (acquire_permit (snd (acquire_connect (Inr (7 :: nat)) (snd (acquire_permit (snd (acquire_idle (\<lambda>_. True) (pool_new 1 1)))))))) =
       Some (HBusy (busy_text_http 1))"
proof -
  let ?q = "snd (acquire_permit (snd (acquire_idle (\<lambda>_. True) (pool_new 1 1))))"
  let ?p = "snd (acquire_connect (Inr (7 :: nat)) ?q)"
  have facts: "0 < pl_opening (?q :: nat pool)" "length (pl_used ?p) = 1" "pl_permits ?p = 0" by code_simp+
  have "pool_reach 1 1 ?p" by (intro pool_reach.intros facts(1))
  then show ?thesis using pool_keeps_limits[of 1 1 ?p "\<lambda>_. True"] facts(2,3) by (auto simp: acquire_permit_def)
qed

text \<open>A caller that waits for a permit never looks at the idle connections again, and a connection given back keeps its permit: a
  caller is turned away as busy while a healthy connection lies idle.\<close>

theorem busy_beside_idle:
  assumes "pl_idle p = []" "pl_permits p = 0" "c \<in> set (pl_used p)" "healthy c" "0 < pl_max_idle p"
  shows "acquire healthy (release healthy c) later fresh p = (Inl (HBusy (busy_text_http (pl_max_conns p))), release healthy c p)
    \<and> pl_idle (release healthy c p) = [c]"
  using assms by (simp add: acquire_def acquire_idle_def release_def acquire_permit_def)

section \<open>The stream and the response\<close>

definition delta_of :: "sse_event \<Rightarrow> rstr" where
  "delta_of v = (case v of OutputTextDelta _ d _ \<Rightarrow> d | _ \<Rightarrow> [])"

text \<open>The last value of the stream against the way the run ended.\<close>

definition last_value_ok :: "rstr \<Rightarrow> rstr \<Rightarrow> nat \<Rightarrow> response_error option \<Rightarrow> sse_event \<Rightarrow> bool" where
  "last_value_ok rid s n err v = (case err of
     None \<Rightarrow> (case v of ResponseCompleted rp _ \<Rightarrow> rp_id rp = rid \<and> rp_status rp = RsCompleted \<and> rp_input_tokens rp = n
         \<and> rp_output_tokens rp = estimate_output s \<and> concat (List.map_filter oi_text (rp_output rp)) = s
       | _ \<Rightarrow> False)
   | Some e \<Rightarrow> (case v of ResponseFailed i e' _ \<Rightarrow> i = rid \<and> e' = e | _ \<Rightarrow> False))"

lemma str_lines_step: "10 \<notin> set l \<Longrightarrow> 13 \<notin> set l \<Longrightarrow> str_lines (l @ 10 # rest) = l # str_lines rest"
proof -
  assume l: "10 \<notin> set l" "13 \<notin> set l"
  have sp: "split_char 10 (l @ 10 # rest) = l # split_char 10 rest"
    using l(1) by (intro split_by_append_sep) auto
  have "strip_cr l = l" using l(2) last_in_set[of l] unfolding strip_cr_def by metis
  then show ?thesis unfolding str_lines_def sp Let_def by simp
qed

lemma strip_data: "strip_prefix (lit ''data: '' @ j) (lit ''data: '') = Some j"
  by (simp add: strip_prefix_def starts_with_def del: lit_Cons)

lemma split_sse_frame:
  assumes "10 \<notin> set j" "13 \<notin> set j"
  shows "split_sse_data (lit ''data: '' @ j @ [10, 10] @ rest) = j # split_sse_data rest"
proof -
  have "10 \<notin> set (lit ''data: '')" "13 \<notin> set (lit ''data: '')" by simp_all
  then have "str_lines ((lit ''data: '' @ j) @ 10 # [] @ 10 # rest) = (lit ''data: '' @ j) # [] # str_lines rest"
    using assms by (simp only: str_lines_step set_append Un_iff list.set empty_iff simp_thms)
  moreover have "strip_prefix [] (lit ''data: '') = None" by code_simp
  ultimately show ?thesis by (simp add: split_sse_data_def map_filter_simps strip_data del: lit_Cons)
qed

lemma split_sse_values:
  assumes "\<And>v. ser v = Some (js v)" "\<And>v. 10 \<notin> set (js v) \<and> 13 \<notin> set (js v)"
  shows "split_sse_data (concat (map (format_event ser) vs) @ rest) = map js vs @ split_sse_data rest"
proof (induction vs)
  case (Cons v vs)
  have "concat (map (format_event ser) (v # vs)) @ rest = lit ''data: '' @ js v @ [10, 10] @ concat (map (format_event ser) vs) @ rest"
    by (simp add: format_event_def assms(1) del: lit_Cons)
  then show ?case using split_sse_frame[of "js v"] assms(2)[of v] Cons by (simp del: lit_Cons)
qed simp

lemma split_sse_done: "split_sse_data (lit ''data: [DONE]'' @ [10, 10]) = [lit ''[DONE]'']" "split_sse_data [] = []"
  by code_simp+

text \<open>The items of a stream that begins with number \<open>q\<close> after the text \<open>s\<close>.\<close>

definition tells :: "(sse_event \<Rightarrow> rstr) \<Rightarrow> (http_error + rstr) list \<Rightarrow> rstr \<Rightarrow> nat \<Rightarrow> rstr \<Rightarrow> rstr \<Rightarrow> nat \<Rightarrow> response_error option \<Rightarrow> bool" where
  "tells js items rid q s s' n err \<longleftrightarrow> (\<exists>vs v. items = map (\<lambda>v. Inr (js v)) (vs @ [v]) @ [Inr (lit ''[DONE]'')]
     \<and> map sse_seq (vs @ [v]) = [q ..< q + length (vs @ [v])] \<and> s' = s @ concat (map delta_of (vs @ [v])) \<and> last_value_ok rid s' n err v)"

lemma tells_prepend:
  assumes "tells js items rid (q + length ws) (s @ concat (map delta_of ws)) s' n err" "map sse_seq ws = [q ..< q + length ws]"
  shows "tells js (map (\<lambda>v. Inr (js v)) ws @ items) rid q s s' n err"
proof -
  obtain vs v where v: "items = map (\<lambda>v. Inr (js v)) (vs @ [v]) @ [Inr (lit ''[DONE]'')]"
    "map sse_seq (vs @ [v]) = [q + length ws ..< q + length ws + length (vs @ [v])]"
    "s' = (s @ concat (map delta_of ws)) @ concat (map delta_of (vs @ [v]))" "last_value_ok rid s' n err v"
    using assms(1) unfolding tells_def by blast
  have "map sse_seq ((ws @ vs) @ [v]) = [q ..< q + length ((ws @ vs) @ [v])]"
    using v(2) assms(2) upt_add_eq_append[of q "q + length ws" "length (vs @ [v])"] by (simp add: add.assoc)
  then show ?thesis unfolding tells_def
    by (intro exI[of _ "ws @ vs"] exI[of _ v] conjI v(4)) (simp_all add: v(1,3) del: lit_Cons)
qed

lemma tells_last:
  "map sse_seq (vs @ [v]) = [q ..< q + length (vs @ [v])] \<Longrightarrow> concat (map delta_of (vs @ [v])) = [] \<Longrightarrow> last_value_ok rid s n err v
    \<Longrightarrow> tells js (map (\<lambda>v. Inr (js v)) (vs @ [v]) @ [Inr (lit ''[DONE]'')]) rid q s s n err"
  unfolding tells_def by (intro exI[of _ vs] exI[of _ v]) simp

lemma stream_event:
  assumes "\<And>v. ser v = Some (js v)" "\<And>v. 10 \<notin> set (js v) \<and> 13 \<notin> set (js v)"
  shows "event_values (fresh k) (now k) ev st = (None, st') \<Longrightarrow> stream_sse ser fresh now (FrEvent ev # fs) k st = stream_sse ser fresh now fs (k + 1) st'"
    "event_values (fresh k) (now k) ev st = (Some (vs, False), st')
      \<Longrightarrow> stream_sse ser fresh now (FrEvent ev # fs) k st = map (\<lambda>v. Inr (js v)) vs @ stream_sse ser fresh now fs (k + 1) st'"
    "event_values (fresh k) (now k) ev st = (Some (vs, True), st')
      \<Longrightarrow> stream_sse ser fresh now (FrEvent ev # fs) k st = map (\<lambda>v. Inr (js v)) vs @ [Inr (lit ''[DONE]'')]"
  using split_sse_values[of ser js vs "[]", OF assms] split_sse_values[of ser js vs "lit ''data: [DONE]'' @ [10, 10]", OF assms]
  by (simp_all add: event_to_sse_def split_sse_done del: lit_Cons)

lemma stream_follows:
  assumes js: "\<And>v. ser v = Some (js v)" "\<And>v. 10 \<notin> set (js v) \<and> 13 \<notin> set (js v)"
  shows "accumulate run sid fs (ss_text st) (ss_input st) = Inr ((s', n, status, err), rest) \<Longrightarrow> ss_run st = run \<Longrightarrow> ss_session st = sid
    \<Longrightarrow> (ss_item st = None \<longrightarrow> ss_text st = [])
    \<Longrightarrow> tells js (stream_sse ser fresh now fs k st) (ss_response_id st) (ss_seq st) (ss_text st) s' n err"
proof (induction fs arbitrary: k st)
  case (Cons f fs)
  note ev = stream_event[OF js, of fresh k now]
  have skip: ?case if "accumulate run sid fs (ss_text st') (ss_input st') = Inr ((s', n, status, err), rest)"
      "stream_sse ser fresh now (f # fs) k st = map (\<lambda>v. Inr (js v)) ws @ stream_sse ser fresh now fs (k + 1) st'"
      "ss_run st' = run" "ss_session st' = sid" "ss_item st' = None \<longrightarrow> ss_text st' = []" "ss_response_id st' = ss_response_id st"
      "ss_seq st' = ss_seq st + length ws" "ss_text st' = ss_text st @ concat (map delta_of ws)"
      "map sse_seq ws = [ss_seq st ..< ss_seq st + length ws]" for st' ws
    unfolding that(2) by (rule tells_prepend[OF _ that(9)]) (use Cons.IH[OF that(1,3,4,5)] that in simp)
  show ?case
  proof (cases f)
    case (FrEvent e)
    have emit: ?thesis if "accumulate run sid fs (ss_text st') (ss_input st') = Inr ((s', n, status, err), rest)"
        "event_values (fresh k) (now k) e st = (Some (ws, False), st')"
        "ss_run st' = run" "ss_session st' = sid" "ss_item st' = None \<longrightarrow> ss_text st' = []" "ss_response_id st' = ss_response_id st"
        "ss_seq st' = ss_seq st + length ws" "ss_text st' = ss_text st @ concat (map delta_of ws)"
        "map sse_seq ws = [ss_seq st ..< ss_seq st + length ws]" for st' ws
      by (rule skip[OF that(1) _ that(3-9)]) (simp only: FrEvent ev(2)[OF that(2)])
    have quiet: ?thesis if "accumulate run sid fs (ss_text st') (ss_input st') = Inr ((s', n, status, err), rest)"
        "event_values (fresh k) (now k) e st = (None, st')"
        "ss_run st' = run" "ss_session st' = sid" "ss_item st' = None \<longrightarrow> ss_text st' = []" "ss_response_id st' = ss_response_id st"
        "ss_seq st' = ss_seq st" "ss_text st' = ss_text st" for st'
      by (rule skip[OF that(1) _ that(3-6), of "[]"]) (simp_all only: FrEvent ev(1)[OF that(2)] that(7,8), simp_all)
    have finish: ?thesis if "event_values (fresh k) (now k) e st = (Some (vs @ [v], True), st')" "s' = ss_text st"
        "map sse_seq (vs @ [v]) = [ss_seq st ..< ss_seq st + length (vs @ [v])]" "concat (map delta_of (vs @ [v])) = []"
        "last_value_ok (ss_response_id st) (ss_text st) n err v" for vs v st'
      unfolding FrEvent ev(3)[OF that(1)] that(2) by (rule tells_last[OF that(3-5)])
    show ?thesis
    proof (cases e)
      case (EvLifecycle q r phase)
      show ?thesis
      proof (cases "r = run")
        case True
        show ?thesis
        proof (cases phase)
          case PhStart
          let ?st = "st\<lparr>ss_seq := ss_seq st + 1\<rparr>"
          show ?thesis
            by (rule emit[of ?st "[ResponseCreated (build_response RsInProgress None ?st) (ss_seq st)]"])
              (use Cons.prems True PhStart EvLifecycle FrEvent in \<open>simp_all add: event_values_def on_lifecycle_def next_seq_def delta_of_def\<close>)
        next
          case PhEnd
          have e: "s' = ss_text st" "n = ss_input st" "err = None"
            using Cons.prems True PhEnd EvLifecycle FrEvent by simp_all
          let ?s1 = "st\<lparr>ss_seq := ss_seq st + 1\<rparr>" and ?s3 = "st\<lparr>ss_seq := ss_seq st + 3\<rparr>"
          show ?thesis
          proof (cases "ss_item st")
            case None
            show ?thesis
              by (rule finish[of "[]" "ResponseCompleted (build_response RsCompleted (Some (now k)) ?s1) (ss_seq st)" ?s1])
                (use None True Cons.prems PhEnd EvLifecycle e in \<open>simp_all add: event_values_def on_lifecycle_def next_seq_def delta_of_def
                  last_value_ok_def build_response_def map_filter_simps Let_def\<close>)
          next
            case (Some i)
            show ?thesis
              by (rule finish[of "[OutputTextDone i (ss_text st) (ss_seq st),
                  OutputItemDone i \<lparr> oi_id = i, oi_status = lit ''completed'', oi_text = Some (ss_text st) \<rparr> (ss_seq st + 1)]"
                  "ResponseCompleted (build_response RsCompleted (Some (now k)) ?s3) (ss_seq st + 2)" ?s3])
                (use Some True Cons.prems PhEnd EvLifecycle e in \<open>simp_all add: event_values_def on_lifecycle_def next_seq_def delta_of_def
                  last_value_ok_def build_response_def map_filter_simps Let_def upt_rec\<close>)
          qed
        next
          case (PhError m kd)
          show ?thesis
            by (rule finish[of "[]" "ResponseFailed (ss_response_id st) \<lparr> re_message = m, re_code = failure_code kd \<rparr> (ss_seq st)"
                "st\<lparr>ss_seq := ss_seq st + 1\<rparr>"])
              (use True Cons.prems PhError EvLifecycle FrEvent in \<open>auto simp: event_values_def on_lifecycle_def next_seq_def delta_of_def
                last_value_ok_def\<close>)
        qed
      next
        case False
        show ?thesis by (rule quiet[of st]) (use Cons.prems False EvLifecycle FrEvent in \<open>simp_all add: event_values_def\<close>)
      qed
    next
      case (EvAssistant q r d)
      show ?thesis
      proof (cases "r = run")
        case True
        note vals = event_values_def on_assistant_def next_seq_def Let_def
        show ?thesis
        proof (cases "ss_item st")
          case None
          let ?i = "lit ''msg_'' @ fresh k"
          show ?thesis
            by (rule emit[of "st\<lparr>ss_item := Some ?i, ss_text := ss_text st @ d, ss_seq := ss_seq st + 1 + 1 + 1\<rparr>"
                "[OutputItemAdded ?i \<lparr> oi_id = ?i, oi_status = lit ''in_progress'', oi_text = None \<rparr> (ss_seq st), ContentPartAdded ?i (ss_seq st + 1),
                  OutputTextDelta ?i d (ss_seq st + 2)]"])
              (use Cons.prems True None EvAssistant FrEvent in \<open>simp_all add: vals delta_of_def upt_rec del: lit_Cons\<close>)
        next
          case (Some i)
          show ?thesis
            by (rule emit[of "st\<lparr>ss_text := ss_text st @ d, ss_seq := ss_seq st + 1\<rparr>" "[OutputTextDelta i d (ss_seq st)]"])
              (use Cons.prems True Some EvAssistant FrEvent in \<open>simp_all add: vals delta_of_def\<close>)
        qed
      next
        case False
        show ?thesis by (rule quiet[of st]) (use Cons.prems False EvAssistant FrEvent in \<open>simp_all add: event_values_def\<close>)
      qed
    next
      case (EvUsage q m c)
      show ?thesis
        by (rule quiet[of "if q = sid then st\<lparr>ss_input := m\<rparr> else st"])
          (use Cons.prems EvUsage FrEvent in \<open>simp_all add: event_values_def split: if_splits\<close>)
    qed (rule quiet[of st]; use Cons.prems FrEvent in \<open>simp add: event_values_def\<close>)+
  qed (rule skip[of st "[]"]; use Cons.prems in simp)+
qed simp

text \<open>C25. A streamed response and one that is not streamed say the same of the same frames: where the one gives an answer,
  the other is numbered from 0 without gaps, its deltas make up the text, its last value has the same result (text,
  input tokens, or error), and \<open>[DONE]\<close> ends it.  The JSON of a value is on one line.\<close>

theorem stream_tells_the_response:
  assumes "\<And>v. ser v = Some (js v)" "\<And>v. 10 \<notin> set (js v) \<and> 13 \<notin> set (js v)"
    and "accumulate run sid fs [] 0 = Inr ((s, n, status, err), rest)"
  shows "\<exists>vs v. stream_sse ser fresh now fs k (sse_new rid run sid model t) = map (\<lambda>v. Inr (js v)) (vs @ [v]) @ [Inr (lit ''[DONE]'')]
     \<and> map sse_seq (vs @ [v]) = [0 ..< length (vs @ [v])] \<and> concat (map delta_of (vs @ [v])) = s \<and> last_value_ok rid s n err v"
proof -
  let ?st = "sse_new rid run sid model t"
  have "tells js (stream_sse ser fresh now fs k ?st) (ss_response_id ?st) (ss_seq ?st) (ss_text ?st) s n err"
    by (rule stream_follows[OF assms(1,2), where run = run and sid = sid and fs = fs and status = status and rest = rest])
      (use assms(3) in \<open>simp_all add: sse_new_def\<close>)
  then show ?thesis unfolding tells_def by (simp add: sse_new_def del: lit_Cons map_append upt_Suc) blast
qed

definition sample_frames :: "frame list" where
  "sample_frames = [FrEvent (EvLifecycle (lit ''s'') (lit ''r'') PhStart), FrEvent (EvAssistant (lit ''s'') (lit ''r'') (lit ''Hel'')),
     FrEvent (EvAssistant (lit ''s'') (lit ''other'') (lit ''xx'')), FrEvent (EvUsage (lit ''s'') 7 100),
     FrEvent (EvAssistant (lit ''s'') (lit ''r'') (lit ''lo'')), FrEvent (EvLifecycle (lit ''s'') (lit ''r'') PhEnd)]"

lemma stream_tells_the_response_witness:
  "\<exists>vs v. stream_sse (\<lambda>v. Some (show_nat (sse_seq v))) (\<lambda>_. lit ''1'') (\<lambda>_. 5) sample_frames 0 (sse_new (lit ''resp'') (lit ''r'') (lit ''s'') [] 0)
      = map (\<lambda>v. Inr (show_nat (sse_seq v))) (vs @ [v]) @ [Inr (lit ''[DONE]'')]
     \<and> map sse_seq (vs @ [v]) = [0 ..< length (vs @ [v])] \<and> concat (map delta_of (vs @ [v])) = lit ''Hello'' \<and> last_value_ok (lit ''resp'') (lit ''Hello'') 7 None v"
proof (rule stream_tells_the_response)
  show "accumulate (lit ''r'') (lit ''s'') sample_frames [] 0 = Inr ((lit ''Hello'', 7, RsCompleted, None), [])" by code_simp
  show "10 \<notin> set (show_nat (sse_seq v)) \<and> 13 \<notin> set (show_nat (sse_seq v))" for v
    using show_nat_digits[of _ "sse_seq v"] by (force simp: is_ascii_digit_def)
qed simp

section \<open>Events before the answer\<close>

lemma await_skips: "await_res (map FrEvent evs @ fs) = await_res fs"
  by (induction evs) simp_all

lemma exchange_skips:
  "exchange dbg m key (Inr \<lparr> cn_sent = rqs, cn_frames = FrRes (Inr (OkHello v c)) # map FrEvent evs @ fs, cn_open = True \<rparr>)
     = exchange dbg m key (Inr \<lparr> cn_sent = rqs, cn_frames = FrRes (Inr (OkHello v c)) # fs, cn_open = True \<rparr>)"
  by (simp add: exchange_def handshake_def call_def send_req_def await_on_def await_skips)

text \<open>C34. Events that come before the answer to the request are dropped.  The daemon writes the events of a run to the same connection as
  its answer, and the run may begin before the answer is written: whatever it says until then, its end included, does not reach the
  client.\<close>

theorem early_events_are_lost:
  assumes "hello = FrRes (Inr (OkHello v c))"
  shows "create_response ge hdr rq (Inr \<lparr> cn_sent = [], cn_frames = hello # map FrEvent evs @ fs, cn_open = True \<rparr>) gw
     = create_response ge hdr rq (Inr \<lparr> cn_sent = [], cn_frames = hello # fs, cn_open = True \<rparr>) gw"
  unfolding create_response_def assms exchange_skips by (rule refl)

definition sample_env :: gw_env where
  "sample_env = \<lparr> ge_hash = length, ge_bytes = id, ge_dbg = (\<lambda>_. []), ge_ser = (\<lambda>v. Some (show_nat (sse_seq v))), ge_fresh = show_nat,
     ge_key = lit ''k'', ge_response = lit ''1'', ge_now = int \<rparr>"

definition sample_request :: response_req where
  "sample_request = \<lparr> rr_input = InText (lit ''hi''), rr_instructions = None, rr_previous = None, rr_tools = [], rr_tool_choice = None,
     rr_stream = None, rr_user = None \<rparr>"

definition sample_hello :: frame where
  "sample_hello = FrRes (Inr (OkHello
     \<lparr> fe_ws_remote = False, fe_memory_vec = False, fe_sandbox = False, fe_proto_version = 1 \<rparr>
     \<lparr> sn_active_run = None, sn_queued_turns = 0, sn_background_tasks = 0, sn_session = main_id, sn_context_window = 1000,
       sn_last_input_tokens = None, sn_model = [], sn_provider = [], sn_endpoint = None \<rparr>))"

lemma trim_hi: "trim [104, 105] \<noteq> []"
  by code_simp

text \<open>A run that ended before its answer was written: an error instead of a response.\<close>

lemma early_events_are_lost_witness:
  "fst (create_response sample_env None sample_request (Inr \<lparr> cn_sent = [], cn_frames = sample_hello
        # map FrEvent [EvAssistant main_id (lit ''r'') (lit ''Hello''), EvLifecycle main_id (lit ''r'') PhEnd]
        @ [FrRes (Inr (OkChatSend (lit ''r'')))], cn_open = True \<rparr>) \<lparr> gw_sessions = [], gw_records = [], gw_model = [] \<rparr>)
     = Inl (HProtocol (lit ''daemon closed connection before the run finished''))"
proof -
  have "fst (create_response sample_env None sample_request (Inr \<lparr> cn_sent = [], cn_frames = sample_hello
        # [FrRes (Inr (OkChatSend (lit ''r'')))], cn_open = True \<rparr>) \<lparr> gw_sessions = [], gw_records = [], gw_model = [] \<rparr>)
     = Inl (HProtocol (lit ''daemon closed connection before the run finished''))"
    by (simp add: create_response_def sample_env_def sample_request_def sample_hello_def reject_unsupported_def extract_session_key_def
      extract_input_def resolve_session_def exchange_def handshake_def call_def send_req_def await_on_def accumulate_response_def
      trim_hi build_turn_prefix_def Let_def)
  then show ?thesis by (simp only: early_events_are_lost[OF sample_hello_def])
qed

end
