(* ===== verification/Spec2Isabelle.thy ===== *)
theory Spec2Isabelle
  imports Prelude Agent Run_Queue Compaction Cron Nag_Policy Tool_Policy Memory_Policy Str_Order Skill Prompt
    Fts Store_Transcript Store_Memory Store_Proactive Store_Audit Proto Run_Log Session_History
    Run_Request Run_Driver Run_Safety Session_Memory Session_Compact Session_Actor Dreaming Proactive Lane Registry Dispatch Service Tool_Text Tools Tool_Exec Tool_Safety Llm_Provider Llm_Wire Http_Adapter Http_Stream Http_Safety
begin

text \<open>
  A verification library for oh-my-claw, a local personal assistant written in Rust.

  The program.  A daemon keeps conversations with a language model.  A client (terminal, web page, HTTP gateway) sends a
  request; \<open>oc-server/src/dispatch.rs\<close> answers it from the state shared by all connections (\<open>state.rs\<close>, \<open>registry.rs\<close>,
  \<open>ledger.rs\<close>).  A message goes to the actor of its session (\<open>session.rs\<close>), which keeps a lane (\<open>oc-core/src/queue.rs\<close>): one
  run at a time, a bounded queue.  To start a run the actor writes the message, does the memory work of the turn and assembles
  the context; the driver (\<open>run.rs\<close>) then loops over the pure state machine of \<open>oc-core/src/agent.rs\<close>: it compacts the context
  (\<open>compaction.rs\<close>), sends it to the model (\<open>oc-llm\<close>), feeds the stream to the machine, runs the tools asked for
  (\<open>tools_bridge.rs\<close>, \<open>oc-tools\<close>) and writes the transcript.  Events leave through an outlet (\<open>sink.rs\<close>), which for detached
  runs keeps a log a client can resume from (\<open>run_log.rs\<close>).  Everything durable is in one SQLite database (\<open>oc-store\<close>).  A
  heartbeat fires scheduled tasks (\<open>proactive.rs\<close>), a nightly scan consolidates memories (\<open>dreaming.rs\<close>).  The gateway
  \<open>oc-http\<close> offers the daemon over HTTP, in the format of OpenAI and in its own.

  Theories and sources (all under \<open>src/crates\<close>).
    \<^item> \<open>Prelude\<close>, \<open>Str_Order\<close>, \<open>Float_Model\<close>: strings as lists of scalar values with the string functions of the standard
      library, their order (an instance of \<open>linorder\<close>), saturating integers, IEEE doubles as rationals with explicit rounding; the
      collections \<open>rust_str\<close> and \<open>outcome_simps\<close>.
    \<^item> \<open>Agent\<close> (\<open>oc-core/src/agent.rs\<close>), \<open>Run_Queue\<close> (\<open>queue.rs\<close>), \<open>Compaction\<close> (\<open>compaction.rs\<close>), \<open>Cron\<close> (\<open>proactive/cron.rs\<close>),
      \<open>Nag_Policy\<close> (\<open>proactive.rs\<close>), \<open>Tool_Policy\<close> (\<open>tool.rs\<close>), \<open>Memory_Policy\<close> (\<open>memory.rs\<close>), \<open>Skill\<close> (\<open>skill.rs\<close>), \<open>Prompt\<close>
      (\<open>prompt.rs\<close>, \<open>summary.rs\<close>): the pure rules of \<open>oc-core\<close>, one function of the theory per function of the file.
    \<^item> \<open>Store_Db\<close> (\<open>oc-store/src/types.rs\<close>, \<open>schema.rs\<close>), \<open>Fts\<close> (\<open>fts.rs\<close>), \<open>Store_Transcript\<close>, \<open>Store_Memory\<close>,
      \<open>Store_Proactive\<close>, \<open>Store_Audit\<close> (\<open>ops.rs\<close>, \<open>migrate.rs\<close>): the record \<open>db\<close> has a list of rows per table; an SQL statement is
      the list operation it denotes, a violated constraint an error value.
    \<^item> \<open>Proto\<close> (\<open>oc-proto/src/event.rs\<close>, \<open>oc-llm/src/types.rs\<close>), \<open>Run_Log\<close> (\<open>oc-server/src/run_log.rs\<close>, \<open>sink.rs\<close>),
      \<open>Session_History\<close> (the history of \<open>session.rs\<close>), \<open>Run_Request\<close>, \<open>Run_Driver\<close>, \<open>Run_Safety\<close> (\<open>run.rs\<close>): a run over its
      events, the model, the tools and the store.
    \<^item> \<open>Llm_Provider\<close>, \<open>Llm_Wire\<close> (\<open>oc-llm/src/openai.rs\<close>, \<open>anthropic.rs\<close>, \<open>sse.rs\<close>): requests as JSON, streams from the bytes on.
    \<^item> \<open>Tool_Text\<close>, \<open>Tools\<close> (\<open>oc-tools\<close>), \<open>Tool_Exec\<close> (\<open>oc-server/src/tools_bridge.rs\<close>), \<open>Tool_Safety\<close>: the tools over an
      operating system that is a parameter, the gates of approval, the executor of a call.
    \<^item> \<open>Session_Memory\<close>, \<open>Session_Compact\<close>, \<open>Session_Actor\<close>, \<open>Lane\<close> (\<open>session.rs\<close>, \<open>summarize.rs\<close>, \<open>diag.rs\<close>): the actor, command
      by command, with its diagnosis.
    \<^item> \<open>Dreaming\<close> (\<open>oc-core/src/dreaming.rs\<close>, \<open>oc-server/src/dreaming.rs\<close>), \<open>Proactive\<close> (\<open>oc-server/src/proactive.rs\<close>): the
      nightly scan and the scheduler.
    \<^item> \<open>Registry\<close> (\<open>registry.rs\<close>, \<open>ledger.rs\<close>, \<open>state.rs\<close>), \<open>Dispatch\<close> (\<open>dispatch.rs\<close>, \<open>command.rs\<close>, \<open>oc-proto/src/method.rs\<close>,
      \<open>frame.rs\<close>), \<open>Service\<close>: requests over the shared state.
    \<^item> \<open>Http_Adapter\<close> (\<open>oc-http/src/adapter.rs\<close>, \<open>auth.rs\<close>, \<open>conn_pool.rs\<close>), \<open>Http_Stream\<close> (\<open>proto.rs\<close>, \<open>sse.rs\<close>, \<open>server.rs\<close>,
      \<open>native\<close>), \<open>Http_Safety\<close>: the gateway, from a request to the frames of its reply.

  Interfaces.  Five locales state what one part relies on in another, each interpreted on the model of the code:
  \<open>serial_lane\<close> (\<open>Run_Queue\<close>, used by the actor), \<open>transcript_log\<close> (\<open>Store_Transcript\<close>) and \<open>keyed_table\<close> (\<open>Store_Memory\<close>), used
  by the session, \<open>inline_sink\<close> (\<open>Run_Log\<close>, used by the driver) and \<open>payload_stream\<close> (\<open>Llm_Wire\<close>, for both providers).

  What the lemmas show.
    \<^item> Lanes: order and liveness inside \<open>serial_lane\<close>; \<open>Session_Actor\<close> lifts them to all reachable states of a session, with the
      outlets and the evictions, and \<open>Service.chat_send_answer\<close> to the answer a client gets.
    \<^item> Runs: which end a run announces, and when it announces none; a run makes at most 27 model calls; every request pairs tool calls
      with results also after compaction; what the transcript holds afterwards is described for every way a run can end
      (\<open>Run_Safety\<close>).  The field \<open>w_emitted\<close> of the world of a run lists the events handed to the outlet, whichever it is; no
      definition of the model reads it.
    \<^item> Outlets: the outlet of a connection and the direct part of a detached run lose nothing in front of a peer that keeps up; the broadcast
      is lossy as \<open>sink.rs\<close> says, and \<open>slow_receiver_lags\<close> shows it.
    \<^item> Store: the tables refine maps and logs, the index answers like a scan, the rows of the audit table tell any change of a
      field as long as the hash has no collision and the texts are free of bars.
    \<^item> Memory: preferences survive a change under any failure of the store, with the one exception the statement names; reminders
      keep their limits up to the firings whose accounting failed; the nightly scan touches only what the gates let through.
    \<^item> Tools: a file is written only where a path leads that the guard let through, an edit changes what its text names,
      the tool \<open>exec\<close> asks before a command the policy finds destructive.
    \<^item> Time: the next firing is the first match, a one-shot task fires at most once under any interleaving.
    \<^item> Requests: a keyed request is executed once, answers have the type of their method.
    \<^item> Wire and gateway: the deltas of a stream do not depend on its cuts between characters, no API request passes without a
      credential, the pool keeps its limits under any interleaving of its callers, the stream of a response tells what the
      response tells.
  A property of kind error in the manifest describes behaviour the code has and probably does not want; the findings of
  the manifest name the lines.

  Bounds and fuel.  \<open>Cron.expand\<close> has fuel 257, the number of steps an 8-bit counter can take before a value returns;
  \<open>cron_returns\<close> shows it is never exhausted.  The walk over symbolic links in the file system of
  \<open>Tool_Safety\<close>, an instance for the hypotheses on the operating system, follows at most 40 names.  The
  loop of the driver ends by a measure, the rounds and the truncations left: at most 25 tool rounds, 3 truncations and 27 model calls.
  The ring of \<open>Run_Log\<close> keeps 1024 events as in the source.  All other recursions are structural or have a measure.

  Time and concurrency.  Each command of an actor is one step, as the actor handles one command at a time; what other tasks
  do between two steps is a step of its own (\<open>actor_step\<close>, \<open>lane_reach\<close>, the interleaving of \<open>Proactive\<close>, \<open>pool_reach\<close>, the gap
  of \<open>Dispatch.conn_ctx\<close>).  Clocks, fresh identifiers, answers of the model and failures of store calls are inputs of a
  step, so the theorems hold for all of them.  Integers have their width where the code can overflow (\<open>u8\<close> in \<open>Cron\<close>, \<open>u32\<close>
  casts, saturating \<open>i64\<close>, FNV on 64 bits); row identifiers and token counts are unbounded.

  Parameters, for code that is not in the repository: the operating system and the shell, the HTTP client and server, regular
  expressions, time zones (\<open>time-tz\<close>), JSON and YAML parsing, SHA-256 and the hash of the standard library, Unicode case folding and
  classes (\<open>platform\<close>), \<open>powf\<close>, the texts of library errors, the language model.  The documented behaviour a proof relies on is
  a named hypothesis with an instance.

  Not modelled.  The command line and the assembly of the daemon (\<open>oc-cli\<close>, \<open>oc-server/src/lib.rs\<close>), which only wire the parts
  together; sockets, pipes and the writer and reader threads (\<open>transport.rs\<close>, \<open>codec.rs\<close>, \<open>conn.rs\<close>, \<open>writer.rs\<close>, \<open>reader.rs\<close>), which
  carry the modelled requests and store calls; configuration types and their generated checks; drawing and keys of the terminal
  client (\<open>oc-tui\<close>); log lines, progress chunks of tools, test support, generated schemas and web assets.
\<close>

end
